(* ===== verification/Beryl_Prelude.thy ===== *)
theory Beryl_Prelude
  imports Main "HOL-Library.Word" "HOL-Library.List_Lexorder"
begin

text \<open>
  Shared vocabulary of the development: Rust's fixed-width integers and fixed-size arrays,
  the result type with the propagation of \<^verbatim>\<open>?\<close>, the big- and little-endian integer
  encodings of the standard library, and the generic facts on lists and byte strings that
  the component theories use. Nothing here is about one component.
\<close>

section \<open>Collections of rules\<close>

named_theorems result_simps \<open>inversion of successful and failed results\<close>
named_theorems codec_simps \<open>what each decoder returns on the matching encoder's output\<close>
named_theorems wf_intros \<open>well-formedness facts established by constructors\<close>

section \<open>Machine integers\<close>

text \<open>
  A \<^verbatim>\<open>usize\<close> is a \<open>nat\<close>: every use below counts or indexes elements that are resident in
  memory, whose number Rust bounds by \<^verbatim>\<open>isize::MAX\<close>. Counters that can reach their maximum
  are words, and the operation that the source uses at the boundary is written out.
\<close>

type_synonym u8 = "8 word"
type_synonym u16 = "16 word"
type_synonym u32 = "32 word"
type_synonym u64 = "64 word"
type_synonym i32 = "32 word"
type_synonym usize = nat
type_synonym bytes = "u8 list"

definition checked_add :: "'a::len word \<Rightarrow> 'a word \<Rightarrow> 'a word option" where
  "checked_add a b = (if unat a + unat b < 2 ^ LENGTH('a) then Some (a + b) else None)"

definition saturating_add :: "'a::len word \<Rightarrow> 'a word \<Rightarrow> 'a word" where
  "saturating_add a b = (if unat a + unat b < 2 ^ LENGTH('a) then a + b else - 1)"

text \<open>
  Where the source guards a \<^verbatim>\<open>usize\<close> sum or product against overflow, the guard is kept, at the
  64-bit targets the program is built for.
\<close>

definition usize_max :: usize where "usize_max = 2 ^ 64 - 1"

definition usize_checked_add :: "usize \<Rightarrow> usize \<Rightarrow> usize option" where
  "usize_checked_add a b = (if a + b \<le> usize_max then Some (a + b) else None)"

definition usize_checked_mul :: "usize \<Rightarrow> usize \<Rightarrow> usize option" where
  "usize_checked_mul a b = (if a * b \<le> usize_max then Some (a * b) else None)"

definition usize_saturating_add :: "usize \<Rightarrow> usize \<Rightarrow> usize" where
  "usize_saturating_add a b = min (a + b) usize_max"

lemma usize_checked_add_eq_Some:
  "usize_checked_add a b = Some c \<longleftrightarrow> c = a + b \<and> a + b \<le> usize_max"
  by (auto simp: usize_checked_add_def)

lemma unat_less_exp: "unat (a :: 'a::len word) < 2 ^ LENGTH('a)"
  by (rule unsigned_less)

lemma unat_u8_less: "unat (b :: u8) < 256"
  using unat_less_exp [of b] by simp

lemma unat_plus_no_overflow:
  fixes a b :: "'a::len word"
  assumes "unat a + unat b < 2 ^ LENGTH('a)"
  shows "unat (a + b) = unat a + unat b"
  using assms by (simp add: unat_word_ariths)

lemma checked_add_SomeD:
  "checked_add a b = Some c \<Longrightarrow> unat c = unat a + unat b"
  by (auto simp: checked_add_def unat_plus_no_overflow split: if_splits)

lemma checked_add_None_iff:
  fixes a b :: "'a::len word"
  shows "checked_add a b = None \<longleftrightarrow> 2 ^ LENGTH('a) \<le> unat a + unat b"
  by (simp add: checked_add_def not_less)

lemma unat_saturating_add:
  fixes a b :: "'a::len word"
  shows "unat (saturating_add a b) = min (unat a + unat b) (2 ^ LENGTH('a) - 1)"
  by (auto simp: saturating_add_def unat_plus_no_overflow unsigned_minus_1_eq_mask min_def
      mask_eq_exp_minus_1)

lemma saturating_add_mono: "a \<le> saturating_add a b"
  using unat_less_exp [of a]
  by (simp add: word_le_nat_alt unat_saturating_add del: unsigned_less)

section \<open>Results\<close>

text \<open>
  \<^verbatim>\<open>Result<T, E>\<close> is the sum \<open>'e + 'a\<close>, \<open>Inl\<close> for \<^verbatim>\<open>Err\<close>. The question mark operator is
  \<open>and_then\<close>, \<^verbatim>\<open>Result::map_err\<close> is \<open>map_err\<close>, \<^verbatim>\<open>Option::ok_or\<close> is \<open>ok_or\<close>.
\<close>

definition and_then :: "'e + 'a \<Rightarrow> ('a \<Rightarrow> 'e + 'b) \<Rightarrow> 'e + 'b" where
  "and_then r f = (case r of Inl e \<Rightarrow> Inl e | Inr x \<Rightarrow> f x)"

definition map_err :: "('e \<Rightarrow> 'f) \<Rightarrow> 'e + 'a \<Rightarrow> 'f + 'a" where
  "map_err g r = (case r of Inl e \<Rightarrow> Inl (g e) | Inr x \<Rightarrow> Inr x)"

definition ok_or :: "'e \<Rightarrow> 'a option \<Rightarrow> 'e + 'a" where
  "ok_or e x = (case x of None \<Rightarrow> Inl e | Some y \<Rightarrow> Inr y)"

definition ensure :: "'e \<Rightarrow> bool \<Rightarrow> 'e + unit" where
  "ensure e b = (if b then Inr () else Inl e)"

lemma and_then_Inl [simp]: "and_then (Inl e) f = Inl e"
  and and_then_Inr [simp]: "and_then (Inr x) f = f x"
  by (simp_all add: and_then_def)

lemma map_err_Inl [simp]: "map_err g (Inl e) = Inl (g e)"
  and map_err_Inr [simp]: "map_err g (Inr x) = Inr x"
  by (simp_all add: map_err_def)

lemma ok_or_None [simp]: "ok_or e None = Inl e"
  and ok_or_Some [simp]: "ok_or e (Some x) = Inr x"
  by (simp_all add: ok_or_def)

lemma ensure_True [simp]: "ensure e True = Inr ()"
  and ensure_False [simp]: "ensure e False = Inl e"
  by (simp_all add: ensure_def)

lemma and_then_eq_Inr [result_simps]:
  "and_then r f = Inr y \<longleftrightarrow> (\<exists>x. r = Inr x \<and> f x = Inr y)"
  by (cases r) auto

lemma and_then_eq_Inl [result_simps]:
  "and_then r f = Inl e \<longleftrightarrow> r = Inl e \<or> (\<exists>x. r = Inr x \<and> f x = Inl e)"
  by (cases r) auto

lemma map_err_eq_Inr [result_simps, simp]: "map_err g r = Inr x \<longleftrightarrow> r = Inr x"
  by (cases r) auto

lemma map_err_eq_Inl [result_simps]: "map_err g r = Inl e \<longleftrightarrow> (\<exists>d. r = Inl d \<and> e = g d)"
  by (cases r) auto

lemma ok_or_eq_Inr [result_simps, simp]: "ok_or e x = Inr y \<longleftrightarrow> x = Some y"
  by (cases x) auto

lemma ok_or_eq_Inl [result_simps]: "ok_or e x = Inl d \<longleftrightarrow> x = None \<and> d = e"
  by (cases x) auto

lemma ensure_eq_Inr [result_simps, simp]: "ensure e b = Inr u \<longleftrightarrow> b"
  by (cases b) auto

lemma ensure_eq_Inl [result_simps, simp]: "ensure e b = Inl d \<longleftrightarrow> \<not> b \<and> d = e"
  by (cases b) auto

lemma and_then_cong [fundef_cong]:
  assumes "r = s" and "\<And>x. s = Inr x \<Longrightarrow> f x = g x"
  shows "and_then r f = and_then s g"
  using assms by (cases s) auto

lemma and_then_assoc: "and_then (and_then r f) g = and_then r (\<lambda>x. and_then (f x) g)"
  by (cases r) auto

section \<open>Integers as byte strings\<close>

text \<open>
  \<open>nat_to_be n v\<close> is the \<open>n\<close>-byte big-endian representation of \<open>v\<close> modulo \<open>256 ^ n\<close>;
  \<^verbatim>\<open>to_be_bytes\<close>, \<^verbatim>\<open>to_le_bytes\<close> and their inverses are instances at the width of the word.
\<close>

fun nat_to_be :: "nat \<Rightarrow> nat \<Rightarrow> bytes" where
  "nat_to_be 0 v = []"
| "nat_to_be (Suc n) v = nat_to_be n (v div 256) @ [of_nat (v mod 256)]"

definition nat_from_be :: "bytes \<Rightarrow> nat" where
  "nat_from_be bs = foldl (\<lambda>acc b. acc * 256 + unat b) 0 bs"

lemma nat_from_be_Nil [simp]: "nat_from_be [] = 0"
  by (simp add: nat_from_be_def)

lemma nat_from_be_snoc [simp]: "nat_from_be (bs @ [b]) = nat_from_be bs * 256 + unat b"
  by (simp add: nat_from_be_def)

lemma length_nat_to_be [simp]: "length (nat_to_be n v) = n"
  by (induction n arbitrary: v) simp_all

lemma unat_u8_of_nat_mod [simp]: "unat (of_nat (v mod 256) :: u8) = v mod 256"
  by (simp add: unat_of_nat)

lemma nat_from_to_be: "nat_from_be (nat_to_be n v) = v mod 256 ^ n"
proof (induction n arbitrary: v)
  case 0
  then show ?case by simp
next
  case (Suc n)
  have "nat_from_be (nat_to_be (Suc n) v) = (v div 256) mod 256 ^ n * 256 + v mod 256"
    using Suc.IH by simp
  also have "\<dots> = v mod (256 * 256 ^ n)"
    by (simp add: mod_mult2_eq)
  finally show ?case by simp
qed

lemma nat_from_to_be_id: "v < 256 ^ n \<Longrightarrow> nat_from_be (nat_to_be n v) = v"
  by (simp add: nat_from_to_be)

lemma nat_from_be_less: "nat_from_be bs < 256 ^ length bs"
proof (induction bs rule: rev_induct)
  case Nil
  then show ?case by simp
next
  case (snoc b bs)
  have "unat b < 256" by (rule unat_u8_less)
  then have "nat_from_be bs * 256 + unat b < (nat_from_be bs + 1) * 256" by simp
  also have "\<dots> \<le> 256 ^ length bs * 256"
    using snoc.IH by (intro mult_right_mono) simp_all
  finally show ?case by simp
qed

lemma nat_to_from_be: "length bs = n \<Longrightarrow> nat_to_be n (nat_from_be bs) = bs"
proof (induction bs arbitrary: n rule: rev_induct)
  case Nil
  then show ?case by simp
next
  case (snoc b bs)
  have "unat b < 256" by (rule unat_u8_less)
  with snoc.IH [of "length bs"] snoc.prems show ?case by auto
qed

definition to_be_bytes :: "'a::len word \<Rightarrow> bytes" where
  "to_be_bytes w = nat_to_be (LENGTH('a) div 8) (unat w)"

definition from_be_bytes :: "bytes \<Rightarrow> 'a::len word" where
  "from_be_bytes bs = of_nat (nat_from_be bs)"

definition to_le_bytes :: "'a::len word \<Rightarrow> bytes" where
  "to_le_bytes w = rev (to_be_bytes w)"

definition from_le_bytes :: "bytes \<Rightarrow> 'a::len word" where
  "from_le_bytes bs = from_be_bytes (rev bs)"

lemma length_to_be_bytes [simp]: "length (to_be_bytes (w :: 'a::len word)) = LENGTH('a) div 8"
  by (simp add: to_be_bytes_def)

lemma length_to_le_bytes [simp]: "length (to_le_bytes (w :: 'a::len word)) = LENGTH('a) div 8"
  by (simp add: to_le_bytes_def)

lemma from_to_be_bytes:
  fixes w :: "'a::len word"
  assumes "8 dvd LENGTH('a)"
  shows "from_be_bytes (to_be_bytes w) = w"
proof -
  have "(256::nat) ^ (LENGTH('a) div 8) = (2 ^ 8) ^ (LENGTH('a) div 8)" by simp
  also have "\<dots> = 2 ^ LENGTH('a)"
    using assms by (simp only: power_mult [symmetric] dvd_mult_div_cancel)
  finally have "unat w < 256 ^ (LENGTH('a) div 8)" using unat_less_exp [of w] by simp
  then show ?thesis
    by (simp add: from_be_bytes_def to_be_bytes_def nat_from_to_be_id)
qed

lemma to_from_be_bytes:
  assumes "8 dvd LENGTH('a::len)" and "length bs = LENGTH('a) div 8"
  shows "to_be_bytes (from_be_bytes bs :: 'a word) = bs"
proof -
  have "(256::nat) ^ (LENGTH('a) div 8) = (2 ^ 8) ^ (LENGTH('a) div 8)" by simp
  also have "\<dots> = 2 ^ LENGTH('a)"
    using assms by (simp only: power_mult [symmetric] dvd_mult_div_cancel)
  finally have "nat_from_be bs < 2 ^ LENGTH('a)"
    using nat_from_be_less [of bs] assms(2) by simp
  then have "unat (from_be_bytes bs :: 'a word) = nat_from_be bs"
    by (simp add: from_be_bytes_def unat_of_nat)
  then show ?thesis
    using assms(2) by (simp add: to_be_bytes_def nat_to_from_be)
qed

lemma from_to_be_u16 [simp, codec_simps]: "from_be_bytes (to_be_bytes w) = (w :: u16)"
  and from_to_be_u32 [simp, codec_simps]: "from_be_bytes (to_be_bytes x) = (x :: u32)"
  and from_to_be_u64 [simp, codec_simps]: "from_be_bytes (to_be_bytes y) = (y :: u64)"
  by (rule from_to_be_bytes; simp)+

lemma from_to_le_u16 [simp, codec_simps]: "from_le_bytes (to_le_bytes w) = (w :: u16)"
  and from_to_le_u32 [simp, codec_simps]: "from_le_bytes (to_le_bytes x) = (x :: u32)"
  and from_to_le_u64 [simp, codec_simps]: "from_le_bytes (to_le_bytes y) = (y :: u64)"
  by (simp_all add: from_le_bytes_def to_le_bytes_def)

end
