(* ===== verification/Beryl_Std.thy ===== *)
theory Beryl_Std
  imports Beryl_Prelude
begin

text \<open>
  The parts of Rust's standard library whose values carry an invariant: fixed-size byte arrays
  \<^verbatim>\<open>[u8; 16]\<close> and \<^verbatim>\<open>[u8; 32]\<close>, \<^verbatim>\<open>NonZeroU64\<close>, and \<^verbatim>\<open>str\<close> (a byte string that is valid
  UTF-8, with its \<^verbatim>\<open>chars\<close>, \<^verbatim>\<open>char_indices\<close>, \<^verbatim>\<open>trim\<close> and the two character predicates the
  code calls). Each is a type of its own, so that what Rust guarantees by typing holds by typing.
\<close>

section \<open>Fixed-size byte arrays\<close>

typedef arr16 = "{bs :: bytes. length bs = 16}"
  morphisms arr16_bytes arr16_of
  by (rule exI [of _ "replicate 16 0"]) simp

typedef arr32 = "{bs :: bytes. length bs = 32}"
  morphisms arr32_bytes arr32_of
  by (rule exI [of _ "replicate 32 0"]) simp

lemma length_arr16 [simp]: "length (arr16_bytes a) = 16"
  using arr16_bytes [of a] by simp

lemma length_arr32 [simp]: "length (arr32_bytes a) = 32"
  using arr32_bytes [of a] by simp

lemma arr16_of_bytes [simp]: "arr16_of (arr16_bytes a) = a"
  by (rule arr16_bytes_inverse)

lemma arr32_of_bytes [simp]: "arr32_of (arr32_bytes a) = a"
  by (rule arr32_bytes_inverse)

lemma arr16_bytes_of [simp]: "length bs = 16 \<Longrightarrow> arr16_bytes (arr16_of bs) = bs"
  by (simp add: arr16_of_inverse)

lemma arr32_bytes_of [simp]: "length bs = 32 \<Longrightarrow> arr32_bytes (arr32_of bs) = bs"
  by (simp add: arr32_of_inverse)

lemma arr16_bytes_eq_iff [simp]: "arr16_bytes a = arr16_bytes b \<longleftrightarrow> a = b"
  by (rule arr16_bytes_inject)

lemma arr32_bytes_eq_iff [simp]: "arr32_bytes a = arr32_bytes b \<longleftrightarrow> a = b"
  by (rule arr32_bytes_inject)

text \<open>The array expression \<^verbatim>\<open>[b; 16]\<close>.\<close>

definition arr16_fill :: "u8 \<Rightarrow> arr16" where
  "arr16_fill b = arr16_of (replicate 16 b)"

definition arr32_fill :: "u8 \<Rightarrow> arr32" where
  "arr32_fill b = arr32_of (replicate 32 b)"

lemma arr16_bytes_fill [simp]: "arr16_bytes (arr16_fill b) = replicate 16 b"
  by (simp add: arr16_fill_def)

lemma arr32_bytes_fill [simp]: "arr32_bytes (arr32_fill b) = replicate 32 b"
  by (simp add: arr32_fill_def)

lemma arr16_fill_eq_iff [simp]: "arr16_fill a = arr16_fill b \<longleftrightarrow> a = b"
  using arr16_bytes_eq_iff [of "arr16_fill a" "arr16_fill b"] by simp

text \<open>\<^verbatim>\<open>#[derive(Ord)]\<close> on an array newtype compares lexicographically.\<close>

instantiation arr16 :: linorder
begin

definition less_eq_arr16 :: "arr16 \<Rightarrow> arr16 \<Rightarrow> bool" where
  "less_eq_arr16 a b \<longleftrightarrow> arr16_bytes a \<le> arr16_bytes b"

definition less_arr16 :: "arr16 \<Rightarrow> arr16 \<Rightarrow> bool" where
  "less_arr16 a b \<longleftrightarrow> arr16_bytes a < arr16_bytes b"

instance
  by standard (auto simp: less_eq_arr16_def less_arr16_def less_le)

end

section \<open>Nonzero integers\<close>

typedef nonzero_u64 = "{w :: u64. w \<noteq> 0}"
  morphisms nz_get nz_of
  by (rule exI [of _ 1]) simp

definition nonzero_u64_new :: "u64 \<Rightarrow> nonzero_u64 option" where
  "nonzero_u64_new w = (if w = 0 then None else Some (nz_of w))"

lemma nz_get_nonzero [simp]: "nz_get n \<noteq> 0"
  using nz_get [of n] by simp

lemma nz_get_of [simp]: "w \<noteq> 0 \<Longrightarrow> nz_get (nz_of w) = w"
  by (simp add: nz_of_inverse)

lemma nz_of_get [simp]: "nz_of (nz_get n) = n"
  by (rule nz_get_inverse)

lemma nz_get_eq_iff [simp]: "nz_get a = nz_get b \<longleftrightarrow> a = b"
  by (rule nz_get_inject)

lemma nonzero_u64_new_get [simp, codec_simps]: "nonzero_u64_new (nz_get n) = Some n"
  by (simp add: nonzero_u64_new_def)

lemma nonzero_u64_new_eq_Some: "nonzero_u64_new w = Some n \<longleftrightarrow> w = nz_get n"
  by (auto simp: nonzero_u64_new_def)

lemma nonzero_u64_new_eq_None: "nonzero_u64_new w = None \<longleftrightarrow> w = 0"
  by (simp add: nonzero_u64_new_def)

lemma unat_nz_get_pos: "0 < unat (nz_get n)"
  by (simp add: unat_gt_0)

instantiation nonzero_u64 :: linorder
begin

definition less_eq_nonzero_u64 :: "nonzero_u64 \<Rightarrow> nonzero_u64 \<Rightarrow> bool" where
  "less_eq_nonzero_u64 a b \<longleftrightarrow> nz_get a \<le> nz_get b"

definition less_nonzero_u64 :: "nonzero_u64 \<Rightarrow> nonzero_u64 \<Rightarrow> bool" where
  "less_nonzero_u64 a b \<longleftrightarrow> nz_get a < nz_get b"

instance
  by standard (auto simp: less_eq_nonzero_u64_def less_nonzero_u64_def less_le)

end

text \<open>\<^verbatim>\<open>self.get().checked_add(1).and_then(NonZeroU64::new)\<close>, the common advance of a counter.\<close>

definition nonzero_u64_next :: "nonzero_u64 \<Rightarrow> nonzero_u64 option" where
  "nonzero_u64_next n = Option.bind (checked_add (nz_get n) 1) nonzero_u64_new"

lemma nonzero_u64_next_eq_Some:
  "nonzero_u64_next n = Some m \<longleftrightarrow> unat (nz_get m) = unat (nz_get n) + 1"
proof -
  have "nz_get n + 1 \<noteq> 0" if "unat (nz_get n) + 1 < 2 ^ 64"
  proof -
    from that have "unat (nz_get n + 1) = unat (nz_get n) + 1"
      using unat_plus_no_overflow [of "nz_get n" 1] by simp
    then show ?thesis by (metis add_is_0 one_neq_zero unsigned_0)
  qed
  moreover have "unat (nz_get n) + 1 < 2 ^ 64" if "unat (nz_get m) = unat (nz_get n) + 1"
    using that unat_less_exp [of "nz_get m"] by simp
  moreover have "nz_get m = nz_get n + 1 \<longleftrightarrow> unat (nz_get m) = unat (nz_get n) + 1"
    if "unat (nz_get n) + 1 < 2 ^ 64"
    using that unat_plus_no_overflow [of "nz_get n" 1] by (auto simp: word_unat_eq_iff)
  ultimately show ?thesis
    by (auto simp: nonzero_u64_next_def checked_add_def nonzero_u64_new_eq_Some
        nz_get_eq_iff [symmetric] simp del: nz_get_eq_iff)
qed

lemma nonzero_u64_next_eq_None: "nonzero_u64_next n = None \<longleftrightarrow> unat (nz_get n) = 2 ^ 64 - 1"
proof -
  have "nonzero_u64_next n \<noteq> None" if "unat (nz_get n) + 1 < 2 ^ 64"
  proof -
    have u: "unat (nz_get n + 1) = unat (nz_get n) + 1"
      using that unat_plus_no_overflow [of "nz_get n" 1] by simp
    then have "nz_get n + 1 \<noteq> 0" by (metis add_is_0 one_neq_zero unsigned_0)
    with u have "nonzero_u64_next n = Some (nz_of (nz_get n + 1))"
      by (simp add: nonzero_u64_next_eq_Some)
    then show ?thesis by simp
  qed
  moreover have "nonzero_u64_next n = None" if "unat (nz_get n) = 2 ^ 64 - 1"
    using that by (simp add: nonzero_u64_next_def checked_add_def)
  ultimately show ?thesis
    using unat_less_exp [of "nz_get n"] by force
qed

section \<open>Strings\<close>

text \<open>
  \<open>utf8_next\<close> decodes the first scalar value of a byte string, with its width in bytes and the
  bytes that follow; it is \<open>None\<close> on every sequence that \<^verbatim>\<open>str::from_utf8\<close> rejects (truncated,
  overlong, surrogate, or beyond U+10FFFF).
\<close>

definition utf8_cont :: "u8 \<Rightarrow> bool" where
  "utf8_cont b \<longleftrightarrow> 128 \<le> unat b \<and> unat b \<le> 191"

fun utf8_next :: "bytes \<Rightarrow> (nat \<times> nat \<times> bytes) option" where
  "utf8_next [] = None"
| "utf8_next (a # r) =
     (let x = unat a in
      if x < 128 then Some (x, 1, r)
      else if x < 194 then None
      else if x < 224 then
        (case r of
           b # r' \<Rightarrow>
             if utf8_cont b then Some ((x - 192) * 64 + (unat b - 128), 2, r') else None
         | _ \<Rightarrow> None)
      else if x < 240 then
        (case r of
           b # c # r' \<Rightarrow>
             if utf8_cont b \<and> utf8_cont c \<and> (x = 224 \<longrightarrow> 160 \<le> unat b) \<and>
                (x = 237 \<longrightarrow> unat b \<le> 159)
             then Some ((x - 224) * 4096 + (unat b - 128) * 64 + (unat c - 128), 3, r') else None
         | _ \<Rightarrow> None)
      else if x < 245 then
        (case r of
           b # c # d # r' \<Rightarrow>
             if utf8_cont b \<and> utf8_cont c \<and> utf8_cont d \<and> (x = 240 \<longrightarrow> 144 \<le> unat b) \<and>
                (x = 244 \<longrightarrow> unat b \<le> 143)
             then Some ((x - 240) * 262144 + (unat b - 128) * 4096 + (unat c - 128) * 64 +
                (unat d - 128), 4, r') else None
         | _ \<Rightarrow> None)
      else None)"

lemma utf8_next_shorter: "utf8_next bs = Some (c, n, rest) \<Longrightarrow> length rest < length bs"
  by (cases bs) (auto simp: Let_def split: if_splits list.splits)

text \<open>\<open>utf8_scan off bs\<close> lists the byte offset and the value of every character.\<close>

function utf8_scan :: "nat \<Rightarrow> bytes \<Rightarrow> (nat \<times> nat) list option" where
  "utf8_scan off bs =
     (if bs = [] then Some []
      else case utf8_next bs of
        None \<Rightarrow> None
      | Some (c, n, rest) \<Rightarrow> map_option ((#) (off, c)) (utf8_scan (off + n) rest))"
  by pat_completeness auto
termination
  by (relation "measure (\<lambda>(off, bs). length bs)") (auto dest: utf8_next_shorter)

declare utf8_scan.simps [simp del]

lemma utf8_scan_Nil [simp]: "utf8_scan off [] = Some []"
  by (subst utf8_scan.simps) simp

lemma utf8_scan_Cons [simp]:
  "utf8_scan off (b # bs) = (case utf8_next (b # bs) of
     None \<Rightarrow> None
   | Some (c, n, rest) \<Rightarrow> map_option ((#) (off, c)) (utf8_scan (off + n) rest))"
  by (subst utf8_scan.simps) simp

definition valid_utf8 :: "bytes \<Rightarrow> bool" where
  "valid_utf8 bs \<longleftrightarrow> utf8_scan 0 bs \<noteq> None"

typedef str = "{bs :: bytes. valid_utf8 bs}"
  morphisms str_bytes str_of
  by (rule exI [of _ "[]"]) (simp add: valid_utf8_def)

definition from_utf8 :: "bytes \<Rightarrow> str option" where
  "from_utf8 bs = (if valid_utf8 bs then Some (str_of bs) else None)"

definition str_len :: "str \<Rightarrow> usize" where
  "str_len s = length (str_bytes s)"

definition char_indices :: "str \<Rightarrow> (nat \<times> nat) list" where
  "char_indices s = the (utf8_scan 0 (str_bytes s))"

definition chars :: "str \<Rightarrow> nat list" where
  "chars s = map snd (char_indices s)"

lemma valid_str_bytes [simp]: "valid_utf8 (str_bytes s)"
  using str_bytes [of s] by simp

lemma str_of_bytes [simp]: "str_of (str_bytes s) = s"
  by (rule str_bytes_inverse)

lemma str_bytes_of [simp]: "valid_utf8 bs \<Longrightarrow> str_bytes (str_of bs) = bs"
  by (simp add: str_of_inverse)

lemma str_bytes_eq_iff [simp]: "str_bytes s = str_bytes t \<longleftrightarrow> s = t"
  by (rule str_bytes_inject)

lemma from_utf8_bytes [simp, codec_simps]: "from_utf8 (str_bytes s) = Some s"
  by (simp add: from_utf8_def)

lemma from_utf8_eq_Some: "from_utf8 bs = Some s \<longleftrightarrow> bs = str_bytes s"
  by (auto simp: from_utf8_def)

lemma utf8_next_width:
  "utf8_next bs = Some (c, n, rest) \<Longrightarrow> 0 < n \<and> length bs = n + length rest"
  by (cases bs) (auto simp: Let_def split: if_splits list.splits)

lemma utf8_scan_length: "utf8_scan off bs = Some cs \<Longrightarrow> length cs \<le> length bs"
proof (induction off bs arbitrary: cs rule: utf8_scan.induct)
  case (1 off bs)
  show ?case
  proof (cases "bs = []")
    case True
    with "1.prems" show ?thesis by simp
  next
    case False
    with "1.prems" obtain c n rest ds where d: "utf8_next bs = Some (c, n, rest)"
      "utf8_scan (off + n) rest = Some ds" "cs = (off, c) # ds"
      by (subst (asm) utf8_scan.simps) (auto split: option.splits)
    from "1.IH" [OF False d(1) refl refl d(2)] have "length ds \<le> length rest" .
    with d utf8_next_width [OF d(1)] show ?thesis by simp
  qed
qed

lemma chars_le_len: "length (chars s) \<le> str_len s"
proof -
  from valid_str_bytes [of s] obtain cs where "utf8_scan 0 (str_bytes s) = Some cs"
    by (auto simp: valid_utf8_def simp del: valid_str_bytes)
  then show ?thesis
    using utf8_scan_length by (simp add: chars_def char_indices_def str_len_def)
qed

text \<open>Text literals are ASCII.\<close>

lemma utf8_scan_ascii:
  "\<forall>b \<in> set bs. unat b < 128 \<Longrightarrow> utf8_scan off bs = Some (zip [off..<off + length bs] (map unat bs))"
  by (induction bs arbitrary: off) (auto simp: upt_rec)

lemma valid_utf8_ascii: "\<forall>b \<in> set bs. unat b < 128 \<Longrightarrow> valid_utf8 bs"
  by (simp add: valid_utf8_def utf8_scan_ascii)

definition ascii_bytes :: "string \<Rightarrow> bytes" where
  "ascii_bytes cs = map (\<lambda>c. of_nat (of_char c mod 128)) cs"

definition ascii :: "string \<Rightarrow> str" where
  "ascii cs = str_of (ascii_bytes cs)"

lemma valid_ascii_bytes [simp]: "valid_utf8 (ascii_bytes cs)"
  by (rule valid_utf8_ascii) (auto simp: ascii_bytes_def unat_of_nat)

lemma str_bytes_ascii [simp]: "str_bytes (ascii cs) = ascii_bytes cs"
  by (simp add: ascii_def)

lemma length_ascii_bytes [simp]: "length (ascii_bytes cs) = length cs"
  by (simp add: ascii_bytes_def)

lemma str_len_ascii [simp]: "str_len (ascii cs) = length cs"
  by (simp add: str_len_def)

text \<open>
  \<^verbatim>\<open>char::is_whitespace\<close> is the Unicode property White\_Space and \<^verbatim>\<open>char::is_control\<close> the general
  category Cc. \<^verbatim>\<open>str::trim\<close> drops whitespace characters at both ends, so it changes a string
  exactly if it changes the list of its characters.
\<close>

definition is_whitespace :: "nat \<Rightarrow> bool" where
  "is_whitespace c \<longleftrightarrow> (9 \<le> c \<and> c \<le> 13) \<or> c = 32 \<or> c = 133 \<or> c = 160 \<or> c = 5760 \<or>
     (8192 \<le> c \<and> c \<le> 8202) \<or> c = 8232 \<or> c = 8233 \<or> c = 8239 \<or> c = 8287 \<or> c = 12288"

definition is_control :: "nat \<Rightarrow> bool" where
  "is_control c \<longleftrightarrow> c < 32 \<or> (127 \<le> c \<and> c < 160)"

definition trim_chars :: "nat list \<Rightarrow> nat list" where
  "trim_chars cs = rev (dropWhile is_whitespace (rev (dropWhile is_whitespace cs)))"

definition trim_changes :: "str \<Rightarrow> bool" where
  "trim_changes s \<longleftrightarrow> trim_chars (chars s) \<noteq> chars s"

definition find_char :: "(nat \<Rightarrow> bool) \<Rightarrow> str \<Rightarrow> usize option" where
  "find_char p s = map_option fst (find (\<lambda>(i, c). p c) (char_indices s))"

definition str_starts_with :: "str \<Rightarrow> bytes \<Rightarrow> bool" where
  "str_starts_with s pre \<longleftrightarrow> take (length pre) (str_bytes s) = pre"

lemma find_char_None_iff: "find_char p s = None \<longleftrightarrow> (\<forall>c \<in> set (chars s). \<not> p c)"
  by (auto simp: find_char_def chars_def find_None_iff split: prod.splits)

lemma trim_changes_iff:
  "trim_changes s \<longleftrightarrow> chars s \<noteq> [] \<and> (is_whitespace (hd (chars s)) \<or> is_whitespace (last (chars s)))"
proof -
  have eq: "dropWhile is_whitespace cs = cs \<longleftrightarrow> cs = [] \<or> \<not> is_whitespace (hd cs)" for cs
    by (rule dropWhile_eq_self_iff)
  have len: "length (dropWhile is_whitespace cs) \<le> length cs" for cs
    by (rule length_dropWhile_le)
  have "trim_chars cs = cs \<longleftrightarrow>
      dropWhile is_whitespace cs = cs \<and> dropWhile is_whitespace (rev cs) = rev cs" for cs
  proof
    assume t: "trim_chars cs = cs"
    let ?d = "dropWhile is_whitespace cs"
    from t have "length cs \<le> length ?d"
      unfolding trim_chars_def using len [of "rev ?d"] by (metis length_rev)
    moreover have app: "takeWhile is_whitespace cs @ ?d = cs" by simp
    ultimately have "takeWhile is_whitespace cs = []"
      by (metis add_le_same_cancel2 le_zero_eq length_0_conv length_append)
    with app have d: "?d = cs" by simp
    with t show "?d = cs \<and> dropWhile is_whitespace (rev cs) = rev cs"
      unfolding trim_chars_def by (metis rev_rev_ident)
  qed (simp add: trim_chars_def)
  then show ?thesis
    by (auto simp: trim_changes_def eq hd_rev)
qed

end
