(* ===== verification/Beryl_Model.thy ===== *)
theory Beryl_Model
  imports Beryl_Std
begin

text \<open>
  The pure values of the crate \<^verbatim>\<open>beryl-model\<close> that the storage components share: stable
  identities with their textual form (\<^verbatim>\<open>ids.rs\<close>), monotonic revisions (\<^verbatim>\<open>revision.rs\<close>),
  bounded text, runtime modes and admitted paths (\<^verbatim>\<open>runtime.rs\<close>), opaque external identities
  (\<^verbatim>\<open>provenance.rs\<close>), availability (\<^verbatim>\<open>availability.rs\<close>) and the owner of a discussion
  context (\<^verbatim>\<open>syndic.rs\<close>). The identity newtypes over \<^verbatim>\<open>[u8; 16]\<close> are synonyms of one
  type; their textual prefix is a parameter of the parser and the printer, as it is of the macro.
\<close>

unbundle bit_operations_syntax

section \<open>Stable identities\<close>

type_synonym JobId = arr16
type_synonym ResolutionIntentId = arr16
type_synonym SyndicThreadId = arr16
type_synonym SyndicTurnId = arr16
type_synonym SyndicDraftId = arr16
type_synonym SyndicAcceptedInputId = arr16
type_synonym RuntimeId = arr16
type_synonym RootId = arr16
type_synonym BerylHomeId = arr16

datatype IdentityParseError =
    WrongPrefix str
  | WrongLength usize usize
  | InvalidHex usize

definition decode_nibble :: "u8 \<Rightarrow> usize \<Rightarrow> IdentityParseError + u8" where
  "decode_nibble byte index =
     (if 48 \<le> byte \<and> byte \<le> 57 then Inr (byte - 48)
      else if 97 \<le> byte \<and> byte \<le> 102 then Inr (byte - 97 + 10)
      else Inl (InvalidHex index))"

text \<open>The loop over \<^verbatim>\<open>chunks_exact(2)\<close>; a last single byte is not a chunk.\<close>

fun decode_pairs :: "usize \<Rightarrow> bytes \<Rightarrow> IdentityParseError + bytes" where
  "decode_pairs index (a # b # rest) =
     and_then (decode_nibble a (index * 2)) (\<lambda>high.
     and_then (decode_nibble b (index * 2 + 1)) (\<lambda>low.
     and_then (decode_pairs (Suc index) rest) (\<lambda>bs. Inr ((push_bit 4 high OR low) # bs))))"
| "decode_pairs index bs = Inr []"

definition strip_prefix :: "bytes \<Rightarrow> bytes \<Rightarrow> bytes option" where
  "strip_prefix pre bs =
     (if take (length pre) bs = pre then Some (drop (length pre) bs) else None)"

definition identity_from_str :: "str \<Rightarrow> str \<Rightarrow> IdentityParseError + arr16" where
  "identity_from_str prefix value =
     and_then (ok_or (WrongPrefix prefix) (strip_prefix (str_bytes prefix) (str_bytes value)))
       (\<lambda>payload.
        if length payload \<noteq> 32 then Inl (WrongLength 32 (length payload))
        else and_then (decode_pairs 0 payload) (\<lambda>bs. Inr (arr16_of bs)))"

definition hex_digit :: "u8 \<Rightarrow> u8" where
  "hex_digit n = (if n < 10 then n + 48 else n + 87)"

definition hex_byte :: "u8 \<Rightarrow> bytes" where
  "hex_byte b = [hex_digit (b div 16), hex_digit (b mod 16)]"

definition identity_to_string :: "str \<Rightarrow> arr16 \<Rightarrow> bytes" where
  "identity_to_string prefix a = str_bytes prefix @ concat (map hex_byte (arr16_bytes a))"

text \<open>\<^verbatim>\<open>SyndicDraftId::draft_submitted_turn_id\<close> and \<^verbatim>\<open>draft_accepted_input_id\<close> keep the payload.\<close>

definition draft_submitted_turn_id :: "SyndicDraftId \<Rightarrow> SyndicTurnId" where
  "draft_submitted_turn_id d = arr16_of (arr16_bytes d)"

definition draft_accepted_input_id :: "SyndicDraftId \<Rightarrow> SyndicAcceptedInputId" where
  "draft_accepted_input_id d = arr16_of (arr16_bytes d)"

datatype DiscussionContextOwnerId =
    Draft SyndicDraftId
  | SubmittedTurn SyndicTurnId

definition submitted_from_draft :: "SyndicDraftId \<Rightarrow> DiscussionContextOwnerId" where
  "submitted_from_draft d = SubmittedTurn (draft_submitted_turn_id d)"

lemma u8_cases16:
  fixes b :: u8
  shows "b < 16 \<Longrightarrow> \<exists>n < 16. b = of_nat n"
  by (rule exI [of _ "unat b"]) (simp add: word_less_nat_alt)

lemma nibble_join:
  fixes b :: u8
  shows "push_bit 4 (b div 16) OR (b mod 16) = b"
proof -
  have "b div 16 = drop_bit 4 b" and "b mod 16 = take_bit 4 b"
    by (simp_all add: drop_bit_eq_div take_bit_eq_mod)
  then show ?thesis
    by (auto simp: bit_eq_iff bit_simps)
qed

lemma decode_nibble_hex_digit:
  assumes "n < 16"
  shows "decode_nibble (hex_digit n) i = Inr n"
  using assms
  by (auto simp: decode_nibble_def hex_digit_def word_less_nat_alt word_le_nat_alt unat_sub
      word_unat_eq_iff unat_word_ariths)

lemma u8_div_mod_16_less: "(b :: u8) div 16 < 16" "(b :: u8) mod 16 < 16"
  using unat_u8_less [of b]
  by (simp_all add: word_less_nat_alt unat_div unat_mod)

lemma decode_pairs_hex: "decode_pairs i (concat (map hex_byte bs)) = Inr bs"
  by (induction bs arbitrary: i)
    (simp_all add: hex_byte_def decode_nibble_hex_digit u8_div_mod_16_less nibble_join)

lemma length_concat_hex: "length (concat (map hex_byte bs)) = 2 * length bs"
  by (induction bs) (simp_all add: hex_byte_def)

lemma strip_prefix_append [simp]: "strip_prefix pre (pre @ bs) = Some bs"
  by (simp add: strip_prefix_def)

lemma strip_prefix_eq_Some: "strip_prefix pre bs = Some rest \<longleftrightarrow> bs = pre @ rest"
  by (auto simp: strip_prefix_def) (metis append_take_drop_id)

lemma hex_digit_decode_nibble: "decode_nibble x i = Inr n \<Longrightarrow> hex_digit n = x \<and> n < 16"
  by (auto simp: decode_nibble_def hex_digit_def word_less_nat_alt word_le_nat_alt
      unat_sub word_unat_eq_iff unat_word_ariths split: if_splits)

lemma nibble_split:
  fixes h l :: u8
  assumes "h < 16" and "l < 16"
  shows "(push_bit 4 h OR l) div 16 = h" and "(push_bit 4 h OR l) mod 16 = l"
proof -
  have less: "unat h < 16" "unat l < 16"
    using assms by (simp_all add: word_less_nat_alt)
  have "push_bit 4 h AND l = 0"
  proof -
    have "l = take_bit 4 l"
      using less by (simp add: word_unat_eq_iff take_bit_eq_mod unat_mod)
    then have "push_bit 4 h AND l = push_bit 4 h AND take_bit 4 l" by simp
    also have "\<dots> = 0" by (auto simp: bit_eq_iff bit_simps)
    finally show ?thesis .
  qed
  then have "push_bit 4 h OR l = push_bit 4 h + l"
    by (simp add: disjunctive_add_eq_or)
  then have "unat (push_bit 4 h OR l) = unat h * 16 + unat l"
    using less by (simp add: push_bit_eq_mult unat_word_ariths)
  then show "(push_bit 4 h OR l) div 16 = h" and "(push_bit 4 h OR l) mod 16 = l"
    using less by (simp_all add: word_unat_eq_iff unat_div unat_mod)
qed

lemma decode_pairs_inv:
  "decode_pairs i payload = Inr bs \<Longrightarrow> even (length payload) \<Longrightarrow>
     concat (map hex_byte bs) = payload"
proof (induction i payload arbitrary: bs rule: decode_pairs.induct)
  case (1 index a b rest)
  then obtain high low tl where
    "decode_nibble a (index * 2) = Inr high" "decode_nibble b (index * 2 + 1) = Inr low"
    "decode_pairs (Suc index) rest = Inr tl" "bs = (push_bit 4 high OR low) # tl"
    by (auto simp: result_simps)
  with "1.IH" "1.prems" show ?case
    by (auto simp: hex_byte_def nibble_split dest!: hex_digit_decode_nibble)
qed auto

lemma length_decode_pairs: "decode_pairs i payload = Inr bs \<Longrightarrow> length bs = length payload div 2"
  by (induction i payload arbitrary: bs rule: decode_pairs.induct) (auto simp: result_simps)

text \<open>
  Printing and parsing an identity are inverse to each other: the parser accepts exactly the
  strings that the printer produces, and returns the identity that was printed.
\<close>

theorem identity_parse_print:
  "identity_from_str prefix value = Inr a \<longleftrightarrow> str_bytes value = identity_to_string prefix a"
proof
  assume "identity_from_str prefix value = Inr a"
  then obtain payload bs where p: "str_bytes value = str_bytes prefix @ payload"
    "length payload = 32" "decode_pairs 0 payload = Inr bs" "a = arr16_of bs"
    by (auto simp: identity_from_str_def result_simps strip_prefix_eq_Some split: if_splits)
  from length_decode_pairs [OF p(3)] p(2) have "length bs = 16" by simp
  moreover from decode_pairs_inv [OF p(3)] p(2) have "concat (map hex_byte bs) = payload" by simp
  ultimately show "str_bytes value = identity_to_string prefix a"
    using p by (simp add: identity_to_string_def)
next
  assume "str_bytes value = identity_to_string prefix a"
  then show "identity_from_str prefix value = Inr a"
    by (simp add: identity_from_str_def identity_to_string_def decode_pairs_hex length_concat_hex)
qed

section \<open>Revisions\<close>

text \<open>The macro \<^verbatim>\<open>typed_revision!\<close>; each revision type is one instance of it.\<close>

datatype RevisionError = RevisionZero | RevisionExhausted

type_synonym JobRevision = nonzero_u64
type_synonym DomainRevision = nonzero_u64
type_synonym HomeRevision = nonzero_u64

definition revision_new :: "u64 \<Rightarrow> RevisionError + nonzero_u64" where
  "revision_new value = ok_or RevisionZero (nonzero_u64_new value)"

definition revision_checked_next :: "nonzero_u64 \<Rightarrow> RevisionError + nonzero_u64" where
  "revision_checked_next r = ok_or RevisionExhausted (nonzero_u64_next r)"

lemma revision_new_get [simp, codec_simps]: "revision_new (nz_get r) = Inr r"
  by (simp add: revision_new_def)

lemma revision_new_eq_Inr [result_simps]: "revision_new w = Inr r \<longleftrightarrow> w = nz_get r"
  by (simp add: revision_new_def nonzero_u64_new_eq_Some)

lemma revision_checked_next_eq_Inr [result_simps]:
  "revision_checked_next r = Inr s \<longleftrightarrow> unat (nz_get s) = unat (nz_get r) + 1"
  by (simp add: revision_checked_next_def nonzero_u64_next_eq_Some)

lemma revision_checked_next_eq_Inl [result_simps]:
  "revision_checked_next r = Inl e \<longleftrightarrow> e = RevisionExhausted \<and> unat (nz_get r) = 2 ^ 64 - 1"
  by (auto simp: revision_checked_next_def nonzero_u64_next_eq_None ok_or_eq_Inl)

section \<open>Bounded text, runtime modes and paths\<close>

datatype PathFlavor = Windows | Posix

datatype ValueError =
    ValueEmpty string
  | ValueTooLong string usize usize
  | ValueSurroundingWhitespace string
  | ValueInvalidCharacter string usize
  | ValueNotAbsolute PathFlavor
  | ValueRuntimePathMismatch

definition bounded_text :: "string \<Rightarrow> str \<Rightarrow> usize \<Rightarrow> ValueError + str" where
  "bounded_text kind value max_bytes =
     (if str_len value = 0 then Inl (ValueEmpty kind)
      else if max_bytes < str_len value then Inl (ValueTooLong kind max_bytes (str_len value))
      else if trim_changes value then Inl (ValueSurroundingWhitespace kind)
      else case find_char is_control value of
        Some index \<Rightarrow> Inl (ValueInvalidCharacter kind index)
      | None \<Rightarrow> Inr value)"

definition MAX_WSL_DISTRIBUTION_BYTES :: usize where "MAX_WSL_DISTRIBUTION_BYTES = 256"
definition MAX_PATH_BYTES :: usize where "MAX_PATH_BYTES = 32 * 1024"

definition wsl_distribution_name_new :: "str \<Rightarrow> ValueError + str" where
  "wsl_distribution_name_new value =
     and_then (bounded_text ''WSL distribution name'' value MAX_WSL_DISTRIBUTION_BYTES) (\<lambda>bounded.
       case find_char (\<lambda>c. c = 47 \<or> c = 92 \<or> c = 58) value of
         Some index \<Rightarrow> Inl (ValueInvalidCharacter ''WSL distribution name'' index)
       | None \<Rightarrow> Inr bounded)"

datatype RuntimeMode = Host | Wsl str

definition runtime_mode_wsl :: "str \<Rightarrow> ValueError + RuntimeMode" where
  "runtime_mode_wsl distribution =
     and_then (wsl_distribution_name_new distribution) (\<lambda>name. Inr (Wsl name))"

definition is_ascii_alphabetic :: "u8 \<Rightarrow> bool" where
  "is_ascii_alphabetic b \<longleftrightarrow> (65 \<le> b \<and> b \<le> 90) \<or> (97 \<le> b \<and> b \<le> 122)"

text \<open>
  \<^verbatim>\<open>value.split(['\\', '/'])\<close>: both separators are ASCII, so splitting the characters and
  splitting the bytes give the same components.
\<close>

fun split_path :: "bytes \<Rightarrow> bytes \<Rightarrow> bytes list" where
  "split_path acc [] = [rev acc]"
| "split_path acc (b # bs) =
     (if b = 92 \<or> b = 47 then rev acc # split_path [] bs else split_path (b # acc) bs)"

definition is_windows_absolute :: "str \<Rightarrow> bool" where
  "is_windows_absolute value =
     (let bytes = str_bytes value;
          drive_absolute = (case bytes of
            a # b # c # _ \<Rightarrow> is_ascii_alphabetic a \<and> b = 58 \<and> (c = 92 \<or> c = 47)
          | _ \<Rightarrow> False);
          unc_absolute = ((str_starts_with value [92, 92] \<or> str_starts_with value [47, 47]) \<and>
            2 \<le> length (filter (\<lambda>component. component \<noteq> []) (split_path [] bytes)))
      in drive_absolute \<or> unc_absolute)"

definition validate_absolute_path :: "string \<Rightarrow> PathFlavor \<Rightarrow> str \<Rightarrow> ValueError + str" where
  "validate_absolute_path kind flavor value =
     and_then (bounded_text kind value MAX_PATH_BYTES) (\<lambda>value.
       let absolute = (case flavor of
             Windows \<Rightarrow> is_windows_absolute value
           | Posix \<Rightarrow> str_starts_with value [47])
       in if \<not> absolute then Inl (ValueNotAbsolute flavor) else Inr value)"

record AdmittedHostPath =
  host_flavor :: PathFlavor
  host_value :: str

definition host_path_from_admitted :: "PathFlavor \<Rightarrow> str \<Rightarrow> ValueError + AdmittedHostPath" where
  "host_path_from_admitted flavor value =
     and_then (validate_absolute_path ''host path'' flavor value) (\<lambda>v.
       Inr \<lparr>host_flavor = flavor, host_value = v\<rparr>)"

record RuntimeNativePath =
  native_mode :: RuntimeMode
  native_flavor :: PathFlavor
  native_value :: str

definition native_path_from_admitted ::
    "RuntimeMode \<Rightarrow> PathFlavor \<Rightarrow> str \<Rightarrow> ValueError + RuntimeNativePath" where
  "native_path_from_admitted mode flavor value =
     (if (case mode of Wsl _ \<Rightarrow> True | Host \<Rightarrow> False) \<and> flavor \<noteq> Posix
      then Inl ValueRuntimePathMismatch
      else and_then (validate_absolute_path ''runtime-native path'' flavor value) (\<lambda>v.
        Inr \<lparr>native_mode = mode, native_flavor = flavor, native_value = v\<rparr>))"

lemma bounded_text_eq_Inr [result_simps]:
  "bounded_text kind value m = Inr v \<longleftrightarrow>
     v = value \<and> 0 < str_len value \<and> str_len value \<le> m \<and> \<not> trim_changes value \<and>
     find_char is_control value = None"
  by (auto simp: bounded_text_def split: option.splits)

lemma validate_absolute_path_same:
  "validate_absolute_path kind flavor value = Inr v \<Longrightarrow> v = value"
  by (auto simp: validate_absolute_path_def result_simps Let_def split: if_splits)

section \<open>External identities\<close>

definition MAX_EXTERNAL_ID_BYTES :: usize where "MAX_EXTERNAL_ID_BYTES = 256"

type_synonym CasThreadId = str
type_synonym CasTurnId = str
type_synonym DynamicToolCallId = str

definition cas_thread_id_new :: "str \<Rightarrow> ValueError + CasThreadId" where
  "cas_thread_id_new value = bounded_text ''CAS thread identity'' value MAX_EXTERNAL_ID_BYTES"

definition cas_turn_id_new :: "str \<Rightarrow> ValueError + CasTurnId" where
  "cas_turn_id_new value = bounded_text ''CAS turn identity'' value MAX_EXTERNAL_ID_BYTES"

definition dynamic_tool_call_id_new :: "str \<Rightarrow> ValueError + DynamicToolCallId" where
  "dynamic_tool_call_id_new value =
     bounded_text ''dynamic tool call identity'' value MAX_EXTERNAL_ID_BYTES"

text \<open>The invariant that the three constructors establish.\<close>

definition external_id_ok :: "str \<Rightarrow> bool" where
  "external_id_ok s \<longleftrightarrow> 0 < str_len s \<and> str_len s \<le> 256 \<and> \<not> trim_changes s \<and>
     find_char is_control s = None"

lemma external_id_new_eq_Inr [result_simps]:
  "cas_thread_id_new v = Inr s \<longleftrightarrow> s = v \<and> external_id_ok v"
  "cas_turn_id_new v = Inr s \<longleftrightarrow> s = v \<and> external_id_ok v"
  "dynamic_tool_call_id_new v = Inr s \<longleftrightarrow> s = v \<and> external_id_ok v"
  by (simp_all add: cas_thread_id_new_def cas_turn_id_new_def dynamic_tool_call_id_new_def
      external_id_ok_def bounded_text_eq_Inr MAX_EXTERNAL_ID_BYTES_def conj_assoc)

section \<open>Availability\<close>

datatype UnavailableReason =
    NotFound | AccessDenied | EnvironmentUnavailable | BackendUnavailable
  | StoreUnavailable | OpenElsewhere | Unsupported | Invalid

datatype Availability = Unknown | Available | Unavailable UnavailableReason

end
