(* ===== verification/Job_Value.thy ===== *)
theory Job_Value
  imports Beryl_Model
begin

text \<open>
  The typed values of the durable-job domain, \<^verbatim>\<open>crates/beryl-state/src/durable_job/value.rs\<close>:
  attempt ordinals, resolution text, the identities correlated with a request and with the
  parent turn, and the failure evidence. The private fields of the Rust types can only be
  built by their constructors; what a constructor checks is a predicate \<open>..._ok\<close> here.
\<close>

section \<open>Errors and bounds\<close>

definition RESOLUTION_TEXT_MAX_BYTES :: usize where "RESOLUTION_TEXT_MAX_BYTES = 262144"
definition RESOLUTION_TEXT_MAX_SCALARS :: usize where "RESOLUTION_TEXT_MAX_SCALARS = 65536"
definition HANDOFF_FAILURE_DETAIL_MAX_BYTES :: usize where
  "HANDOFF_FAILURE_DETAIL_MAX_BYTES = 2 * 1024"

datatype DurableJobValueError =
    JobValueEmpty string
  | JobValueTooLong string usize usize
  | TooManyScalars usize usize
  | JobValueSurroundingWhitespace string
  | ControlCharacter string usize
  | ZeroAttemptOrdinal
  | AttemptOrdinalExhausted

section \<open>Ordinals\<close>

type_synonym ResolutionAttemptOrdinal = nonzero_u64
type_synonym ParentQueueOrdinal = u64

definition attempt_ordinal_first :: ResolutionAttemptOrdinal where
  "attempt_ordinal_first = nz_of 1"

definition attempt_ordinal_new :: "u64 \<Rightarrow> DurableJobValueError + ResolutionAttemptOrdinal" where
  "attempt_ordinal_new value = ok_or ZeroAttemptOrdinal (nonzero_u64_new value)"

definition attempt_ordinal_checked_next ::
    "ResolutionAttemptOrdinal \<Rightarrow> DurableJobValueError + ResolutionAttemptOrdinal" where
  "attempt_ordinal_checked_next n = ok_or AttemptOrdinalExhausted (nonzero_u64_next n)"

section \<open>Resolution text and failure detail\<close>

type_synonym ResolutionText = str

definition validate_resolution_text :: "str \<Rightarrow> DurableJobValueError + unit" where
  "validate_resolution_text value =
     (if str_len value = 0 then Inl (JobValueEmpty ''branch resolution text'')
      else if RESOLUTION_TEXT_MAX_BYTES < str_len value
        then Inl (JobValueTooLong ''branch resolution text'' RESOLUTION_TEXT_MAX_BYTES (str_len value))
      else let scalars = length (chars value) in
        if RESOLUTION_TEXT_MAX_SCALARS < scalars
        then Inl (TooManyScalars RESOLUTION_TEXT_MAX_SCALARS scalars)
        else Inr ())"

definition resolution_text_new :: "str \<Rightarrow> DurableJobValueError + ResolutionText" where
  "resolution_text_new value = and_then (validate_resolution_text value) (\<lambda>_. Inr value)"

definition validate_failure_detail :: "str \<Rightarrow> DurableJobValueError + str" where
  "validate_failure_detail value =
     (let KIND = ''handoff failure detail'' in
      if str_len value = 0 then Inl (JobValueEmpty KIND)
      else if HANDOFF_FAILURE_DETAIL_MAX_BYTES < str_len value
        then Inl (JobValueTooLong KIND HANDOFF_FAILURE_DETAIL_MAX_BYTES (str_len value))
      else if trim_changes value then Inl (JobValueSurroundingWhitespace KIND)
      else case find_char is_control value of
        Some index \<Rightarrow> Inl (ControlCharacter KIND index)
      | None \<Rightarrow> Inr value)"

definition resolution_text_ok :: "ResolutionText \<Rightarrow> bool" where
  "resolution_text_ok s \<longleftrightarrow> 0 < str_len s \<and> str_len s \<le> 262144 \<and> length (chars s) \<le> 65536"

definition failure_detail_ok :: "str \<Rightarrow> bool" where
  "failure_detail_ok s \<longleftrightarrow> 0 < str_len s \<and> str_len s \<le> 2048 \<and> \<not> trim_changes s \<and>
     find_char is_control s = None"

section \<open>Correlated identities\<close>

record ResolutionRequestIdentity =
  cas_thread_id :: CasThreadId
  cas_turn_id :: CasTurnId
  tool_call_id :: DynamicToolCallId

record ParentHandoffIdentity =
  accepted_input_id :: SyndicAcceptedInputId
  turn_id :: SyndicTurnId

record ParentCasIdentity =
  parent_cas_thread_id :: CasThreadId
  parent_cas_turn_id :: CasTurnId

definition request_ok :: "ResolutionRequestIdentity \<Rightarrow> bool" where
  "request_ok r \<longleftrightarrow> external_id_ok (cas_thread_id r) \<and> external_id_ok (cas_turn_id r) \<and>
     external_id_ok (tool_call_id r)"

definition cas_ok :: "ParentCasIdentity \<Rightarrow> bool" where
  "cas_ok c \<longleftrightarrow> external_id_ok (parent_cas_thread_id c) \<and> external_id_ok (parent_cas_turn_id c)"

section \<open>Failure evidence\<close>

datatype HandoffFailureKind =
    RuntimeUnavailable
  | RootUnavailable
  | CasUnavailable
  | TransientDeliveryFailure
  | CasRejectedBeforeAcceptance
  | InvariantViolation
  | ParentMissing
  | UnrecoverablePostAppend
  | ParentInterrupted
  | ParentIncomplete
  | ParentTerminalFailure
  | ChildInputPending
  | ParentArchived

definition is_retryable :: "HandoffFailureKind \<Rightarrow> bool" where
  "is_retryable kind \<longleftrightarrow> kind \<in> {RuntimeUnavailable, RootUnavailable, CasUnavailable,
     TransientDeliveryFailure, CasRejectedBeforeAcceptance}"

definition kind_is_terminal :: "HandoffFailureKind \<Rightarrow> bool" where
  "kind_is_terminal kind \<longleftrightarrow> \<not> is_retryable kind"

record HandoffFailureEvidence =
  evidence_kind :: HandoffFailureKind
  evidence_detail :: "str option"

definition evidence_new ::
    "HandoffFailureKind \<Rightarrow> str option \<Rightarrow> DurableJobValueError + HandoffFailureEvidence" where
  "evidence_new kind detail =
     and_then (case detail of None \<Rightarrow> Inr None
               | Some d \<Rightarrow> and_then (validate_failure_detail d) (\<lambda>d. Inr (Some d)))
       (\<lambda>detail. Inr \<lparr>evidence_kind = kind, evidence_detail = detail\<rparr>)"

definition evidence_ok :: "HandoffFailureEvidence \<Rightarrow> bool" where
  "evidence_ok e \<longleftrightarrow> (case evidence_detail e of None \<Rightarrow> True | Some d \<Rightarrow> failure_detail_ok d)"

section \<open>What the constructors establish\<close>

lemma attempt_ordinal_new_get [simp, codec_simps]: "attempt_ordinal_new (nz_get n) = Inr n"
  by (simp add: attempt_ordinal_new_def)

lemma attempt_ordinal_new_eq_Inr [result_simps]:
  "attempt_ordinal_new w = Inr n \<longleftrightarrow> w = nz_get n"
  by (simp add: attempt_ordinal_new_def nonzero_u64_new_eq_Some)

lemma attempt_ordinal_checked_next_eq_Inr [result_simps]:
  "attempt_ordinal_checked_next n = Inr m \<longleftrightarrow> unat (nz_get m) = unat (nz_get n) + 1"
  by (simp add: attempt_ordinal_checked_next_def nonzero_u64_next_eq_Some)

lemma resolution_text_new_eq_Inr [result_simps]:
  "resolution_text_new v = Inr s \<longleftrightarrow> s = v \<and> resolution_text_ok v"
  by (auto simp: resolution_text_new_def validate_resolution_text_def resolution_text_ok_def
      RESOLUTION_TEXT_MAX_BYTES_def RESOLUTION_TEXT_MAX_SCALARS_def Let_def)

lemma validate_failure_detail_eq_Inr [result_simps]:
  "validate_failure_detail v = Inr s \<longleftrightarrow> s = v \<and> failure_detail_ok v"
  by (auto simp: validate_failure_detail_def failure_detail_ok_def Let_def
      HANDOFF_FAILURE_DETAIL_MAX_BYTES_def split: option.splits)

lemma evidence_new_eq_Inr [result_simps]:
  "evidence_new k d = Inr e \<longleftrightarrow>
     e = \<lparr>evidence_kind = k, evidence_detail = d\<rparr> \<and> evidence_ok e"
  by (auto simp: evidence_new_def evidence_ok_def result_simps split: option.splits)

end
