(* ===== verification/Beryl_Parser.thy ===== *)
theory Beryl_Parser
  imports Beryl_Prelude
begin

text \<open>
  Decoders as functions that consume a prefix of a byte string, shared by the codecs of the
  development, and the contract \<open>wire\<close> between an encoder and its decoder. A decoder returns the
  value and the remaining bytes, or an error of type \<open>'e\<close>.
\<close>

section \<open>Sequencing\<close>

type_synonym ('e, 'a) parser = "bytes \<Rightarrow> 'e + ('a \<times> bytes)"

definition dec_return :: "'a \<Rightarrow> ('e, 'a) parser" where
  "dec_return x bs = Inr (x, bs)"

definition dec_then :: "('e, 'a) parser \<Rightarrow> ('a \<Rightarrow> ('e, 'b) parser) \<Rightarrow> ('e, 'b) parser" where
  "dec_then d f bs = and_then (d bs) (\<lambda>(x, rest). f x rest)"

definition dec_lift :: "'e + 'a \<Rightarrow> ('e, 'a) parser" where
  "dec_lift r bs = and_then r (\<lambda>x. Inr (x, bs))"

lemma dec_return_run [simp]: "dec_return x bs = Inr (x, bs)"
  by (simp add: dec_return_def)

lemma dec_lift_run [simp]: "dec_lift (Inr x) bs = Inr (x, bs)" "dec_lift (Inl e) bs = Inl e"
  by (simp_all add: dec_lift_def)

lemma dec_then_run:
  "d bs = Inr (x, rest) \<Longrightarrow> dec_then d f bs = f x rest"
  "d bs = Inl e \<Longrightarrow> dec_then d f bs = Inl e"
  by (simp_all add: dec_then_def)

lemma dec_then_eq_Inr:
  "dec_then d f bs = Inr (y, r) \<longleftrightarrow> (\<exists>x m. d bs = Inr (x, m) \<and> f x m = Inr (y, r))"
  by (auto simp: dec_then_def and_then_eq_Inr)

lemma dec_lift_eq_Inr: "dec_lift v bs = Inr (x, r) \<longleftrightarrow> v = Inr x \<and> r = bs"
  by (auto simp: dec_lift_def and_then_eq_Inr)

lemma dec_return_eq_Inr: "dec_return v bs = Inr (x, r) \<longleftrightarrow> v = x \<and> r = bs"
  by auto

lemmas parse_inv = dec_then_eq_Inr dec_lift_eq_Inr dec_return_eq_Inr

section \<open>The contract of an encoder and its decoder\<close>

text \<open>
  A decoder consumes exactly the output of its encoder: on the encoding of an admissible value
  followed by anything it returns the value and leaves the rest, and it returns nothing else.
\<close>

locale wire =
  fixes enc :: "'a \<Rightarrow> bytes" and dec :: "('e, 'a) parser" and ok :: "'a \<Rightarrow> bool"
  assumes dec_enc: "ok v \<Longrightarrow> dec (enc v @ r) = Inr (v, r)"
    and enc_dec: "dec bs = Inr (v, r) \<Longrightarrow> ok v \<and> bs = enc v @ r"
begin

lemma run_iff: "dec bs = Inr (v, r) \<longleftrightarrow> ok v \<and> bs = enc v @ r"
  using dec_enc enc_dec by blast

lemma run_step: "ok v \<Longrightarrow> dec_then dec f (enc v @ r) = f v r"
  using dec_enc [of v r] by (rule dec_then_run)

lemma prefix_free: "\<lbrakk>ok v; ok w; enc v @ r = enc w @ s\<rbrakk> \<Longrightarrow> v = w \<and> r = s"
  using dec_enc [of v r] dec_enc [of w s] by (metis Inr_inject prod.inject)

lemma enc_inj: "\<lbrakk>ok v; ok w; enc v = enc w\<rbrakk> \<Longrightarrow> v = w"
  using prefix_free [of v w "[]" "[]"] by simp

lemma enc_eq_iff: "\<lbrakk>ok v; ok w\<rbrakk> \<Longrightarrow> enc v = enc w \<longleftrightarrow> v = w"
  using enc_inj by blast

end

lemma wireI:
  assumes "\<And>bs v r. dec bs = Inr (v, r) \<longleftrightarrow> ok v \<and> bs = enc v @ r"
  shows "wire enc dec ok"
  by unfold_locales (use assms in blast)+

end
