(* ===== verification/Beryl_Encoding.thy ===== *)
theory Beryl_Encoding
  imports Job_Value Beryl_Parser
begin

text \<open>
  The record codec shared by every domain of \<^verbatim>\<open>beryl-state\<close>:
  \<^verbatim>\<open>crates/beryl-state/src/encoding.rs\<close> and the package values of \<^verbatim>\<open>value.rs\<close>.

  An \<^verbatim>\<open>Encoder\<close> method appends to a buffer; \<open>enc_m v\<close> is what method \<^verbatim>\<open>m\<close> appends, so a sequence
  of calls is the concatenation. A \<^verbatim>\<open>Decoder\<close> method consumes a prefix of the remaining input:
  \<open>dec_m\<close> maps the remaining input to an error or to the value with the new remaining input.
  The locale \<open>record_wire\<close> extends the contract \<open>wire\<close> of the two to whole records.
\<close>

section \<open>Package values\<close>

datatype StateValueError =
    UnknownAvailabilityObserved
  | AvailabilityObservationMissing
  | ZeroRecordRevision
  | StateRevisionExhausted

type_synonym RecordRevision = nonzero_u64
type_synonym UnixMillis = u64

definition record_revision_new :: "u64 \<Rightarrow> StateValueError + RecordRevision" where
  "record_revision_new value = ok_or ZeroRecordRevision (nonzero_u64_new value)"

definition record_revision_checked_next :: "RecordRevision \<Rightarrow> StateValueError + RecordRevision" where
  "record_revision_checked_next r = ok_or StateRevisionExhausted (nonzero_u64_next r)"

record AvailabilitySnapshot =
  availability :: Availability
  observed_at :: "UnixMillis option"

definition availability_unknown :: AvailabilitySnapshot where
  "availability_unknown = \<lparr>availability = Unknown, observed_at = None\<rparr>"

definition availability_observed ::
    "Availability \<Rightarrow> UnixMillis \<Rightarrow> StateValueError + AvailabilitySnapshot" where
  "availability_observed a t =
     (if a = Unknown then Inl UnknownAvailabilityObserved
      else Inr \<lparr>availability = a, observed_at = Some t\<rparr>)"

definition availability_from_parts ::
    "Availability \<Rightarrow> UnixMillis option \<Rightarrow> StateValueError + AvailabilitySnapshot" where
  "availability_from_parts a t =
     (case (a, t) of
        (Unknown, None) \<Rightarrow> Inr availability_unknown
      | (Unknown, Some _) \<Rightarrow> Inl UnknownAvailabilityObserved
      | (_, None) \<Rightarrow> Inl AvailabilityObservationMissing
      | (_, Some t) \<Rightarrow> availability_observed a t)"

definition availability_ok :: "AvailabilitySnapshot \<Rightarrow> bool" where
  "availability_ok s \<longleftrightarrow> (availability s = Unknown \<longleftrightarrow> observed_at s = None)"

lemma availability_from_parts_eq_Inr [result_simps]:
  "availability_from_parts a t = Inr s \<longleftrightarrow>
     s = \<lparr>availability = a, observed_at = t\<rparr> \<and> availability_ok s"
  by (auto simp: availability_from_parts_def availability_observed_def availability_unknown_def
      availability_ok_def split: Availability.splits option.splits)

lemma record_revision_new_eq_Inr [result_simps]:
  "record_revision_new w = Inr r \<longleftrightarrow> w = nz_get r"
  by (simp add: record_revision_new_def nonzero_u64_new_eq_Some)

section \<open>Codec errors\<close>

text \<open>The boxed source of an invalid value is one of the error types that the codecs box.\<close>

datatype BoxedError =
    BoxedValue ValueError
  | BoxedRevision RevisionError
  | BoxedStateValue StateValueError
  | BoxedJobValue DurableJobValueError
  | BoxedInvalidData string

datatype CodecError =
    Truncated
  | TrailingBytes
  | InvalidTag string u8
  | InvalidLength string
  | InvalidUtf8 string
  | InvalidValue string BoxedError

section \<open>Encoder\<close>

definition enc_u8 :: "u8 \<Rightarrow> bytes" where "enc_u8 v = [v]"
definition enc_u16 :: "u16 \<Rightarrow> bytes" where "enc_u16 v = to_be_bytes v"
definition enc_u32 :: "u32 \<Rightarrow> bytes" where "enc_u32 v = to_be_bytes v"
definition enc_i32 :: "i32 \<Rightarrow> bytes" where "enc_i32 v = to_be_bytes v"
definition enc_u64 :: "u64 \<Rightarrow> bytes" where "enc_u64 v = to_be_bytes v"
definition enc_fixed :: "arr16 \<Rightarrow> bytes" where "enc_fixed v = arr16_bytes v"
definition enc_fixed_32 :: "arr32 \<Rightarrow> bytes" where "enc_fixed_32 v = arr32_bytes v"

definition enc_padded :: "bytes \<Rightarrow> usize \<Rightarrow> bytes" where
  "enc_padded v capacity = v @ replicate (capacity - length v) 0"

text \<open>
  \<^verbatim>\<open>text\<close> panics on a text of \<open>2 ^ 32\<close> bytes or more. The values that reach it are bounded by
  their constructors; \<open>text_fits\<close> is that bound, and every law about \<open>enc_text\<close> assumes it.
\<close>

definition text_fits :: "str \<Rightarrow> bool" where
  "text_fits s \<longleftrightarrow> str_len s < 2 ^ 32"

definition enc_text :: "str \<Rightarrow> bytes" where
  "enc_text v = to_be_bytes (of_nat (str_len v) :: u32) @ str_bytes v"

definition enc_optional_time :: "UnixMillis option \<Rightarrow> bytes" where
  "enc_optional_time v = (case v of Some t \<Rightarrow> enc_u8 1 @ enc_u64 t | None \<Rightarrow> enc_u8 0)"

definition enc_runtime_mode :: "RuntimeMode \<Rightarrow> bytes" where
  "enc_runtime_mode v = (case v of Host \<Rightarrow> enc_u8 0 | Wsl d \<Rightarrow> enc_u8 1 @ enc_text d)"

definition enc_path_flavor :: "PathFlavor \<Rightarrow> bytes" where
  "enc_path_flavor v = enc_u8 (case v of Windows \<Rightarrow> 0 | Posix \<Rightarrow> 1)"

definition enc_host_path :: "AdmittedHostPath \<Rightarrow> bytes" where
  "enc_host_path v = enc_path_flavor (host_flavor v) @ enc_text (host_value v)"

definition enc_runtime_path :: "RuntimeNativePath \<Rightarrow> bytes" where
  "enc_runtime_path v =
     enc_runtime_mode (native_mode v) @ enc_path_flavor (native_flavor v) @ enc_text (native_value v)"

definition encode_unavailable_reason :: "UnavailableReason \<Rightarrow> u8" where
  "encode_unavailable_reason reason = (case reason of
     NotFound \<Rightarrow> 0 | AccessDenied \<Rightarrow> 1 | EnvironmentUnavailable \<Rightarrow> 2 | BackendUnavailable \<Rightarrow> 3
   | StoreUnavailable \<Rightarrow> 4 | OpenElsewhere \<Rightarrow> 5 | Unsupported \<Rightarrow> 6 | Invalid \<Rightarrow> 7)"

definition enc_availability :: "AvailabilitySnapshot \<Rightarrow> bytes" where
  "enc_availability v =
     (case availability v of
        Unknown \<Rightarrow> enc_u8 0
      | Available \<Rightarrow> enc_u8 1
      | Unavailable reason \<Rightarrow> enc_u8 2 @ enc_u8 (encode_unavailable_reason reason)) @
     enc_optional_time (observed_at v)"

section \<open>Decoder\<close>

type_synonym 'a decoder = "(CodecError, 'a) parser"

definition dec_finish :: "unit decoder" where
  "dec_finish bs = (if bs = [] then Inr ((), []) else Inl TrailingBytes)"

text \<open>A whole-record decoder: decode, then \<^verbatim>\<open>finish\<close>.\<close>

definition dec_all :: "'a decoder \<Rightarrow> bytes \<Rightarrow> CodecError + 'a" where
  "dec_all d bs = and_then (dec_then d (\<lambda>x. dec_then dec_finish (\<lambda>_. dec_return x)) bs) (\<lambda>(x, _). Inr x)"

definition dec_take :: "usize \<Rightarrow> bytes decoder" where
  "dec_take n bs = (if length bs < n then Inl Truncated else Inr (take n bs, drop n bs))"

definition dec_u8 :: "u8 decoder" where
  "dec_u8 = dec_then (dec_take 1) (\<lambda>bs. dec_return (bs ! 0))"

definition dec_u16 :: "u16 decoder" where
  "dec_u16 = dec_then (dec_take 2) (\<lambda>bs. dec_return (from_be_bytes bs))"

definition dec_u32 :: "u32 decoder" where
  "dec_u32 = dec_then (dec_take 4) (\<lambda>bs. dec_return (from_be_bytes bs))"

definition dec_i32 :: "i32 decoder" where
  "dec_i32 = dec_then (dec_take 4) (\<lambda>bs. dec_return (from_be_bytes bs))"

definition dec_u64 :: "u64 decoder" where
  "dec_u64 = dec_then (dec_take 8) (\<lambda>bs. dec_return (from_be_bytes bs))"

definition dec_fixed :: "arr16 decoder" where
  "dec_fixed = dec_then (dec_take 16) (\<lambda>bs. dec_return (arr16_of bs))"

definition dec_fixed_32 :: "arr32 decoder" where
  "dec_fixed_32 = dec_then (dec_take 32) (\<lambda>bs. dec_return (arr32_of bs))"

definition dec_text :: "string \<Rightarrow> str decoder" where
  "dec_text kind = dec_then (dec_take 4) (\<lambda>len.
     dec_then (dec_take (unat (from_be_bytes len :: u32))) (\<lambda>bs.
       dec_lift (ok_or (InvalidUtf8 kind) (from_utf8 bs))))"

definition dec_optional_time :: "UnixMillis option decoder" where
  "dec_optional_time = dec_then dec_u8 (\<lambda>tag.
     if tag = 0 then dec_return None
     else if tag = 1 then dec_then dec_u64 (\<lambda>t. dec_return (Some t))
     else dec_lift (Inl (InvalidTag ''optional time'' tag)))"

definition dec_runtime_mode :: "RuntimeMode decoder" where
  "dec_runtime_mode = dec_then dec_u8 (\<lambda>tag.
     if tag = 0 then dec_return Host
     else if tag = 1 then dec_then (dec_text ''WSL distribution name'') (\<lambda>name.
       dec_lift (map_err (\<lambda>e. InvalidValue ''runtime mode'' (BoxedValue e)) (runtime_mode_wsl name)))
     else dec_lift (Inl (InvalidTag ''runtime mode'' tag)))"

definition dec_path_flavor :: "PathFlavor decoder" where
  "dec_path_flavor = dec_then dec_u8 (\<lambda>tag.
     if tag = 0 then dec_return Windows
     else if tag = 1 then dec_return Posix
     else dec_lift (Inl (InvalidTag ''path flavor'' tag)))"

definition dec_host_path :: "AdmittedHostPath decoder" where
  "dec_host_path = dec_then dec_path_flavor (\<lambda>flavor. dec_then (dec_text ''host path'') (\<lambda>v.
     dec_lift (map_err (\<lambda>e. InvalidValue ''host path'' (BoxedValue e))
       (host_path_from_admitted flavor v))))"

definition dec_runtime_path :: "RuntimeNativePath decoder" where
  "dec_runtime_path = dec_then dec_runtime_mode (\<lambda>mode. dec_then dec_path_flavor (\<lambda>flavor.
     dec_then (dec_text ''runtime-native path'') (\<lambda>v.
     dec_lift (map_err (\<lambda>e. InvalidValue ''runtime-native path'' (BoxedValue e))
       (native_path_from_admitted mode flavor v)))))"

definition decode_unavailable_reason :: "u8 \<Rightarrow> CodecError + UnavailableReason" where
  "decode_unavailable_reason tag =
     (if tag = 0 then Inr NotFound
      else if tag = 1 then Inr AccessDenied
      else if tag = 2 then Inr EnvironmentUnavailable
      else if tag = 3 then Inr BackendUnavailable
      else if tag = 4 then Inr StoreUnavailable
      else if tag = 5 then Inr OpenElsewhere
      else if tag = 6 then Inr Unsupported
      else if tag = 7 then Inr Invalid
      else Inl (InvalidTag ''unavailable reason'' tag))"

definition dec_availability_tag :: "Availability decoder" where
  "dec_availability_tag = dec_then dec_u8 (\<lambda>tag.
     if tag = 0 then dec_return Unknown
     else if tag = 1 then dec_return Available
     else if tag = 2 then dec_then dec_u8 (\<lambda>r.
       dec_lift (and_then (decode_unavailable_reason r) (\<lambda>reason. Inr (Unavailable reason))))
     else dec_lift (Inl (InvalidTag ''availability'' tag)))"

definition dec_availability :: "AvailabilitySnapshot decoder" where
  "dec_availability = dec_then dec_availability_tag (\<lambda>a. dec_then dec_optional_time (\<lambda>t.
     dec_lift (map_err (\<lambda>e. InvalidValue ''availability snapshot'' (BoxedStateValue e))
       (availability_from_parts a t))))"

definition dec_record_revision :: "RecordRevision decoder" where
  "dec_record_revision = dec_then dec_u64 (\<lambda>v.
     dec_lift (map_err (\<lambda>e. InvalidValue ''record revision'' (BoxedStateValue e))
       (record_revision_new v)))"

definition decode_identity :: "bytes \<Rightarrow> string \<Rightarrow> CodecError + arr16" where
  "decode_identity bs kind = (if length bs = 16 then Inr (arr16_of bs) else Inl (InvalidLength kind))"

section \<open>Running decoders\<close>

lemma dec_take_append: "length v = n \<Longrightarrow> dec_take n (v @ r) = Inr (v, r)"
  by (simp add: dec_take_def)

lemma dec_take_eq_Inr: "dec_take n bs = Inr (v, r) \<longleftrightarrow> length v = n \<and> bs = v @ r"
proof
  assume *: "dec_take n bs = Inr (v, r)"
  then have "n \<le> length bs" "v = take n bs" "r = drop n bs"
    by (simp_all add: dec_take_def split: if_splits)
  then show "length v = n \<and> bs = v @ r" by simp
qed (simp add: dec_take_append)

lemmas dec_inv = parse_inv dec_take_eq_Inr

lemma dec_all_eq_Inr: "dec_all d bs = Inr x \<longleftrightarrow> d bs = Inr (x, [])"
  by (auto simp: dec_all_def dec_finish_def and_then_eq_Inr dec_inv split: if_splits)

section \<open>Decoders of whole records\<close>

locale record_wire = wire enc dec ok
  for enc :: "'a \<Rightarrow> bytes" and dec :: "'a decoder" and ok :: "'a \<Rightarrow> bool"
begin

lemma all_iff: "dec_all dec bs = Inr v \<longleftrightarrow> ok v \<and> bs = enc v"
  by (simp add: dec_all_eq_Inr run_iff)

lemma all_enc: "ok v \<Longrightarrow> dec_all dec (enc v) = Inr v"
  by (simp add: all_iff)

end

lemma record_wireI:
  assumes "\<And>bs v r. dec bs = Inr (v, r) \<longleftrightarrow> ok v \<and> bs = enc v @ r"
  shows "record_wire enc dec ok"
  by unfold_locales (use assms in blast)+

section \<open>Primitive encodings\<close>

lemma word_take_iff:
  assumes "8 dvd LENGTH('a::len)"
  shows "(\<exists>b. length b = LENGTH('a) div 8 \<and> bs = b @ r \<and> from_be_bytes b = (v :: 'a word)) \<longleftrightarrow>
     bs = to_be_bytes v @ r"
  using from_to_be_bytes [OF assms, of v] to_from_be_bytes [OF assms] by (metis length_to_be_bytes)

lemmas word_take_u16 = word_take_iff [where 'a = 16, simplified]
  and word_take_u32 = word_take_iff [where 'a = 32, simplified]
  and word_take_u64 = word_take_iff [where 'a = 64, simplified]

lemma dec_u8_iff: "dec_u8 bs = Inr (v, r) \<longleftrightarrow> bs = enc_u8 v @ r"
proof -
  have "(\<exists>b. length b = 1 \<and> bs = b @ r \<and> b ! 0 = v) \<longleftrightarrow> bs = [v] @ r"
    by (auto simp: length_Suc_conv)
  then show ?thesis by (simp add: dec_u8_def enc_u8_def dec_inv conj_assoc)
qed

lemma dec_u16_iff: "dec_u16 bs = Inr (v, r) \<longleftrightarrow> bs = enc_u16 v @ r"
  using word_take_u16 [of bs r v] by (auto simp: dec_u16_def enc_u16_def dec_inv)

lemma dec_u32_iff: "dec_u32 bs = Inr (v, r) \<longleftrightarrow> bs = enc_u32 v @ r"
  using word_take_u32 [of bs r v] by (auto simp: dec_u32_def enc_u32_def dec_inv)

lemma dec_i32_iff: "dec_i32 bs = Inr (v, r) \<longleftrightarrow> bs = enc_i32 v @ r"
  using word_take_u32 [of bs r v] by (auto simp: dec_i32_def enc_i32_def dec_inv)

lemma dec_u64_iff: "dec_u64 bs = Inr (v, r) \<longleftrightarrow> bs = enc_u64 v @ r"
  using word_take_u64 [of bs r v] by (auto simp: dec_u64_def enc_u64_def dec_inv)

lemma dec_fixed_iff: "dec_fixed bs = Inr (v, r) \<longleftrightarrow> bs = enc_fixed v @ r"
  by (auto simp: dec_fixed_def enc_fixed_def dec_inv intro!: exI [of _ "arr16_bytes v"])

lemma dec_fixed_32_iff: "dec_fixed_32 bs = Inr (v, r) \<longleftrightarrow> bs = enc_fixed_32 v @ r"
  by (auto simp: dec_fixed_32_def enc_fixed_32_def dec_inv intro!: exI [of _ "arr32_bytes v"])

lemma unat_len_u32: "n < 2 ^ 32 \<Longrightarrow> unat (of_nat n :: u32) = n"
  by (simp add: unat_of_nat)

lemma dec_text_iff: "dec_text kind bs = Inr (v, r) \<longleftrightarrow> text_fits v \<and> bs = enc_text v @ r"
proof
  assume "dec_text kind bs = Inr (v, r)"
  then obtain l b where l: "length l = 4" "length b = unat (from_be_bytes l :: u32)"
    and "bs = l @ b @ r" "b = str_bytes v"
    by (auto simp: dec_text_def dec_inv from_utf8_eq_Some)
  moreover have "str_len v = unat (from_be_bytes l :: u32)"
    using l \<open>b = str_bytes v\<close> by (simp add: str_len_def)
  moreover have "unat (from_be_bytes l :: u32) < 2 ^ 32"
    using unat_less_exp [of "from_be_bytes l :: u32"] by simp
  moreover have "to_be_bytes (from_be_bytes l :: u32) = l"
    using l by (intro to_from_be_bytes) simp_all
  ultimately show "text_fits v \<and> bs = enc_text v @ r"
    by (simp add: text_fits_def enc_text_def)
next
  assume "text_fits v \<and> bs = enc_text v @ r"
  then show "dec_text kind bs = Inr (v, r)"
    by (auto simp: dec_text_def enc_text_def text_fits_def dec_inv from_utf8_eq_Some unat_len_u32
        str_len_def intro!: exI [of _ "to_be_bytes (of_nat (length (str_bytes v)) :: u32)"])
qed

lemmas dec_prim_iff = dec_u8_iff dec_u16_iff dec_u32_iff dec_i32_iff dec_u64_iff dec_fixed_iff
  dec_fixed_32_iff dec_text_iff

lemmas enc_prim_defs = enc_u8_def enc_u16_def enc_u32_def enc_i32_def enc_u64_def enc_fixed_def
  enc_fixed_32_def

lemma length_enc_prim [simp]:
  "length (enc_u8 a) = 1" "length (enc_u16 b) = 2" "length (enc_u32 c) = 4"
  "length (enc_i32 d) = 4" "length (enc_u64 e) = 8" "length (enc_fixed f) = 16"
  "length (enc_fixed_32 g) = 32" "length (enc_text h) = 4 + str_len h"
  by (simp_all add: enc_prim_defs enc_text_def str_len_def)

interpretation w_u8: record_wire enc_u8 dec_u8 "\<lambda>_. True"
  by (rule record_wireI) (simp add: dec_u8_iff)

interpretation w_u16: record_wire enc_u16 dec_u16 "\<lambda>_. True"
  by (rule record_wireI) (simp add: dec_u16_iff)

interpretation w_u32: record_wire enc_u32 dec_u32 "\<lambda>_. True"
  by (rule record_wireI) (simp add: dec_u32_iff)

interpretation w_i32: record_wire enc_i32 dec_i32 "\<lambda>_. True"
  by (rule record_wireI) (simp add: dec_i32_iff)

interpretation w_u64: record_wire enc_u64 dec_u64 "\<lambda>_. True"
  by (rule record_wireI) (simp add: dec_u64_iff)

interpretation w_fixed: record_wire enc_fixed dec_fixed "\<lambda>_. True"
  by (rule record_wireI) (simp add: dec_fixed_iff)

interpretation w_fixed_32: record_wire enc_fixed_32 dec_fixed_32 "\<lambda>_. True"
  by (rule record_wireI) (simp add: dec_fixed_32_iff)

interpretation w_text: record_wire enc_text "dec_text kind" text_fits for kind
  by (rule record_wireI) (simp add: dec_text_iff)

lemmas dec_prim_step = w_u16.run_step [OF TrueI] w_u32.run_step [OF TrueI]
  w_i32.run_step [OF TrueI] w_u64.run_step [OF TrueI] w_fixed.run_step [OF TrueI]
  w_fixed_32.run_step [OF TrueI] w_text.run_step w_u8.run_step [OF TrueI]

section \<open>Composite encodings\<close>

definition runtime_mode_ok :: "RuntimeMode \<Rightarrow> bool" where
  "runtime_mode_ok m \<longleftrightarrow> (case m of Host \<Rightarrow> True | Wsl d \<Rightarrow> wsl_distribution_name_new d = Inr d)"

definition host_path_ok :: "AdmittedHostPath \<Rightarrow> bool" where
  "host_path_ok p \<longleftrightarrow> host_path_from_admitted (host_flavor p) (host_value p) = Inr p"

definition native_path_ok :: "RuntimeNativePath \<Rightarrow> bool" where
  "native_path_ok p \<longleftrightarrow> runtime_mode_ok (native_mode p) \<and>
     native_path_from_admitted (native_mode p) (native_flavor p) (native_value p) = Inr p"

lemma wsl_name_new_same: "wsl_distribution_name_new d = Inr n \<Longrightarrow> n = d \<and> text_fits d"
  by (auto simp: wsl_distribution_name_new_def result_simps text_fits_def
      MAX_WSL_DISTRIBUTION_BYTES_def split: option.splits)

lemma absolute_path_fits: "validate_absolute_path k f v = Inr w \<Longrightarrow> w = v \<and> text_fits v"
  by (auto simp: validate_absolute_path_def result_simps Let_def MAX_PATH_BYTES_def text_fits_def
      split: if_splits)

text \<open>Tags are read first; with the input exposed the dispatch is a plain case distinction.\<close>

lemma dec_tag [simp]:
  "dec_then dec_u8 f [] = Inl Truncated"
  "dec_then dec_u8 f (tag # m) = f tag m"
  by (simp_all add: dec_then_def dec_u8_def dec_take_def)

lemma dec_optional_time_iff:
  "dec_optional_time bs = Inr (v, r) \<longleftrightarrow> bs = enc_optional_time v @ r"
  by (cases bs; cases v) (auto simp: dec_optional_time_def enc_optional_time_def enc_u8_def dec_inv
      dec_prim_iff split: if_splits)

lemma dec_path_flavor_iff: "dec_path_flavor bs = Inr (v, r) \<longleftrightarrow> bs = enc_path_flavor v @ r"
  by (cases bs; cases v) (auto simp: dec_path_flavor_def enc_path_flavor_def enc_u8_def dec_inv dec_prim_iff
      split: if_splits)

lemma dec_runtime_mode_iff:
  "dec_runtime_mode bs = Inr (v, r) \<longleftrightarrow> runtime_mode_ok v \<and> bs = enc_runtime_mode v @ r"
  by (cases bs; cases v) (auto simp: dec_runtime_mode_def enc_runtime_mode_def enc_u8_def dec_inv dec_prim_iff
      runtime_mode_wsl_def runtime_mode_ok_def and_then_eq_Inr dest: wsl_name_new_same
      split: if_splits)

lemma dec_host_path_iff:
  "dec_host_path bs = Inr (v, r) \<longleftrightarrow> host_path_ok v \<and> bs = enc_host_path v @ r"
  by (cases v) (auto simp: dec_host_path_def enc_host_path_def host_path_ok_def dec_inv
      dec_path_flavor_iff dec_prim_iff host_path_from_admitted_def and_then_eq_Inr
      dest: absolute_path_fits)

lemma native_path_from_admitted_D:
  "native_path_from_admitted m f v = Inr p \<Longrightarrow>
     p = \<lparr>native_mode = m, native_flavor = f, native_value = v\<rparr> \<and> text_fits v"
  by (auto simp: native_path_from_admitted_def and_then_eq_Inr dest: absolute_path_fits
      split: if_splits)

lemma decode_unavailable_reason_iff:
  "decode_unavailable_reason t = Inr v \<longleftrightarrow> t = encode_unavailable_reason v"
  by (cases v) (auto simp: decode_unavailable_reason_def encode_unavailable_reason_def
      split: if_splits)

lemma dec_availability_tag_iff:
  "dec_availability_tag bs = Inr (a, r) \<longleftrightarrow>
   bs = (case a of Unknown \<Rightarrow> enc_u8 0 | Available \<Rightarrow> enc_u8 1
         | Unavailable reason \<Rightarrow> enc_u8 2 @ enc_u8 (encode_unavailable_reason reason)) @ r"
  by (cases bs; cases a) (auto simp: dec_availability_tag_def enc_u8_def dec_inv dec_u8_iff
      and_then_eq_Inr decode_unavailable_reason_iff split: if_splits)

lemma dec_availability_iff:
  "dec_availability bs = Inr (v, r) \<longleftrightarrow> availability_ok v \<and> bs = enc_availability v @ r"
  by (cases v) (auto simp: dec_availability_def enc_availability_def dec_inv dec_optional_time_iff
      dec_availability_tag_iff availability_from_parts_eq_Inr)

lemma dec_record_revision_iff:
  "dec_record_revision bs = Inr (v, r) \<longleftrightarrow> bs = enc_u64 (nz_get v) @ r"
  by (auto simp: dec_record_revision_def dec_inv dec_prim_iff record_revision_new_eq_Inr)

interpretation w_optional_time: record_wire enc_optional_time dec_optional_time "\<lambda>_. True"
  by (rule record_wireI) (simp add: dec_optional_time_iff)

interpretation w_runtime_mode: record_wire enc_runtime_mode dec_runtime_mode runtime_mode_ok
  by (rule record_wireI) (rule dec_runtime_mode_iff)

interpretation w_host_path: record_wire enc_host_path dec_host_path host_path_ok
  by (rule record_wireI) (rule dec_host_path_iff)

interpretation w_path_flavor: record_wire enc_path_flavor dec_path_flavor "\<lambda>_. True"
  by (rule record_wireI) (simp add: dec_path_flavor_iff)

interpretation w_runtime_path: record_wire enc_runtime_path dec_runtime_path native_path_ok
proof
  fix v r assume ok: "native_path_ok v"
  then have "text_fits (native_value v)"
    by (auto simp: native_path_ok_def dest: native_path_from_admitted_D)
  with ok show "dec_runtime_path (enc_runtime_path v @ r) = Inr (v, r)"
    by (simp add: dec_runtime_path_def enc_runtime_path_def native_path_ok_def dec_prim_step
        w_runtime_mode.run_step w_path_flavor.run_step)
next
  fix bs v r assume "dec_runtime_path bs = Inr (v, r)"
  then show "native_path_ok v \<and> bs = enc_runtime_path v @ r"
    by (auto simp: dec_runtime_path_def enc_runtime_path_def native_path_ok_def dec_inv
        dec_path_flavor_iff dec_runtime_mode_iff dec_prim_iff)
      (frule native_path_from_admitted_D, simp)+
qed

interpretation w_availability: record_wire enc_availability dec_availability availability_ok
  by (rule record_wireI) (rule dec_availability_iff)

interpretation w_record_revision: record_wire "\<lambda>v. enc_u64 (nz_get v)" dec_record_revision "\<lambda>_. True"
  by (rule record_wireI) (simp add: dec_record_revision_iff)

lemma decode_identity_iff [result_simps]:
  "decode_identity bs kind = Inr a \<longleftrightarrow> bs = arr16_bytes a"
  by (auto simp: decode_identity_def)

end
