(* ===== verification/Home_Keyspace.thy ===== *)
theory Home_Keyspace
  imports Beryl_Encoding
begin

text \<open>
  Typed record families over the storage engine:
  \<^verbatim>\<open>crates/beryl-home-store/src/codec.rs\<close> (codec trait, ranges, limits, pages),
  \<^verbatim>\<open>read.rs\<close> and \<^verbatim>\<open>read/execute.rs\<close> (bounded point and cursor reads, the record envelope) and the
  family tables of \<^verbatim>\<open>domain.rs\<close> and \<^verbatim>\<open>domain/definition.rs\<close>.

  The storage engine itself (the crate \<^verbatim>\<open>fjall\<close>) is not part of the repository. A snapshot of it
  is a parameter: a record of the three operations the code calls. What the code relies on is
  stated as the predicates \<open>snapshot_of\<close> and \<open>snapshot_reliable\<close> over the contents of the
  keyspaces.
\<close>

section \<open>Codecs, ranges and limits\<close>

definition RECORD_VERSION_BYTES :: usize where "RECORD_VERSION_BYTES = 4"

text \<open>
  The trait \<^verbatim>\<open>RecordCodec<D>\<close> as a record of its constants and functions. \<^verbatim>\<open>TypeId::of::<R>()\<close>
  is the name of the implementing type.
\<close>

record ('k, 'v, 'e) record_codec =
  c_domain :: string
  c_family :: string
  c_type :: string
  c_version :: u32
  c_max_key_bytes :: usize
  c_max_value_bytes :: usize
  c_encode_key :: "'k \<Rightarrow> 'e + bytes"
  c_decode_key :: "bytes \<Rightarrow> 'e + 'k"
  c_validate_stored_key :: "'k \<Rightarrow> 'e + unit"
  c_encode_value :: "'v \<Rightarrow> 'e + bytes"
  c_decode_value :: "bytes \<Rightarrow> 'e + 'v"
  c_decoded_key_bytes :: "bytes \<Rightarrow> 'k \<Rightarrow> usize"
  c_decoded_value_bytes :: "bytes \<Rightarrow> 'v \<Rightarrow> usize"

datatype ReadLimitError = ZeroBytes | ZeroItems

definition point_read_limit_new :: "usize \<Rightarrow> ReadLimitError + usize" where
  "point_read_limit_new max_bytes = (if max_bytes = 0 then Inl ZeroBytes else Inr max_bytes)"

record CursorReadLimits =
  max_items :: usize
  max_bytes :: usize

definition cursor_read_limits_new :: "usize \<Rightarrow> usize \<Rightarrow> ReadLimitError + CursorReadLimits" where
  "cursor_read_limits_new items bytes =
     (if items = 0 then Inl ZeroItems
      else if bytes = 0 then Inl ZeroBytes
      else Inr \<lparr>max_items = items, max_bytes = bytes\<rparr>)"

datatype CursorDirection = Forward | Reverse

text \<open>A cursor range never holds an unbounded endpoint, so a bound has two cases.\<close>

datatype 'k bound = Included 'k | Excluded 'k

record 'k CursorRange =
  range_start :: "'k bound"
  range_end :: "'k bound"

definition range_closed :: "'k \<Rightarrow> 'k \<Rightarrow> 'k CursorRange" where
  "range_closed s e = \<lparr>range_start = Included s, range_end = Included e\<rparr>"

definition range_half_open :: "'k \<Rightarrow> 'k \<Rightarrow> 'k CursorRange" where
  "range_half_open s e = \<lparr>range_start = Included s, range_end = Excluded e\<rparr>"

definition range_after :: "'k \<Rightarrow> 'k \<Rightarrow> 'k CursorRange" where
  "range_after s e = \<lparr>range_start = Excluded s, range_end = Included e\<rparr>"

definition range_open :: "'k \<Rightarrow> 'k \<Rightarrow> 'k CursorRange" where
  "range_open s e = \<lparr>range_start = Excluded s, range_end = Excluded e\<rparr>"

record ('k, 'v) CursorPage =
  records :: "('k \<times> 'v) list"
  stored_bytes :: usize
  decoded_bytes :: usize
  has_more :: bool

section \<open>Errors\<close>

datatype CodecOperation = EncodeKey | DecodeKey | EncodeValue | DecodeValue

datatype ReadStage =
    StageHomeRevision | StageDomainRevision | PointSize | PointValue | CursorKey
  | CursorValueSize | CursorValue | PhysicalKey | PhysicalValueSize | PhysicalValue | Confirmation

text \<open>
  The errors of the typed read path. \<open>'io\<close> is the error type of the storage engine, \<open>'e\<close> the
  error type of the codec that the source boxes. The errors of the health gate and of frozen
  reads are raised before a typed read starts and are not modelled here.
\<close>

datatype ('io, 'e) ReadError =
    UnknownFamily string string
  | CodecTypeMismatch string string
  | InvalidCodecContract string string
  | InvalidKeySize string string usize usize
  | InvalidStoredKeySize string string usize usize
  | ReversedRange string string
  | BoundExceeded string string usize usize
  | InvalidStoredValueSize string string usize usize
  | UnsupportedRecordVersion string string u32 u32
  | MalformedRecord string string
  | Codec string string CodecOperation 'e
  | Storage ReadStage 'io
  | InvalidRevisionMetadata string string

section \<open>The storage engine's snapshot\<close>

type_synonym keyspace = string

record 'io cursor_item =
  item_key :: bytes
  item_value_len :: u32
  item_acquire :: "'io + (bytes \<times> bytes)"

text \<open>
  \<open>snap_point\<close> is \<^verbatim>\<open>Snapshot::point\<close>: no record, or the stored length and the value that
  \<^verbatim>\<open>acquire\<close> returns. \<open>snap_range_ok\<close> is whether \<^verbatim>\<open>OwnedRange::new\<close> accepts the bounds.
  \<open>snap_cursor\<close> is \<^verbatim>\<open>Snapshot::cursor\<close> followed by the results of the calls of \<^verbatim>\<open>next\<close> (forward)
  or \<^verbatim>\<open>next_back\<close> (reverse) until it returns nothing; \<open>snap_exhaustive\<close> is the same for
  \<^verbatim>\<open>Snapshot::exhaustive\<close>.
\<close>

record 'io snapshot =
  snap_point :: "keyspace \<Rightarrow> bytes \<Rightarrow> 'io + (u32 \<times> ('io + bytes)) option"
  snap_range_ok :: "bytes bound \<Rightarrow> bytes bound \<Rightarrow> bool"
  snap_cursor :: "keyspace \<Rightarrow> CursorDirection \<Rightarrow> bytes bound \<Rightarrow> bytes bound \<Rightarrow>
    'io + ('io + 'io cursor_item) list"
  snap_exhaustive :: "keyspace \<Rightarrow> 'io + ('io + 'io cursor_item) list"

section \<open>Registered families\<close>

record RegisteredFamily =
  fam_logical_name :: string
  fam_codec_type :: string
  fam_max_key_bytes :: usize
  fam_max_stored_value_bytes :: usize
  fam_keyspace :: keyspace
  fam_schema :: u32

text \<open>
  A family is looked up by its logical name; names are unique in a domain, so the slot map of
  the source and the position in the family list agree.
\<close>

fun family_slot_from :: "nat \<Rightarrow> RegisteredFamily list \<Rightarrow> string \<Rightarrow> usize option" where
  "family_slot_from n [] name = None"
| "family_slot_from n (f # fs) name =
     (if fam_logical_name f = name then Some n else family_slot_from (Suc n) fs name)"

definition family_slot :: "RegisteredFamily list \<Rightarrow> string \<Rightarrow> usize option" where
  "family_slot fs name = family_slot_from 0 fs name"

definition family_of :: "RegisteredFamily list \<Rightarrow> string \<Rightarrow> RegisteredFamily option" where
  "family_of fs name = map_option ((!) fs) (family_slot fs name)"

record 'io DomainReader =
  rd_snapshot :: "'io snapshot"
  rd_families :: "RegisteredFamily list"

section \<open>Checks\<close>

definition validate_codec :: "('k, 'v, 'e) record_codec \<Rightarrow> ('io, 'e) ReadError + unit" where
  "validate_codec c =
     (if c_max_key_bytes c = 0 \<or> 65535 < c_max_key_bytes c \<or>
         (2 ^ 32 - 1) - RECORD_VERSION_BYTES < c_max_value_bytes c
      then Inl (InvalidCodecContract (c_domain c) (c_family c))
      else Inr ())"

definition resolve_family ::
    "RegisteredFamily list \<Rightarrow> ('k, 'v, 'e) record_codec \<Rightarrow> ('io, 'e) ReadError + RegisteredFamily" where
  "resolve_family families c =
     and_then (ok_or (UnknownFamily (c_domain c) (c_family c)) (family_of families (c_family c)))
       (\<lambda>family. if fam_codec_type family \<noteq> c_type c
          then Inl (CodecTypeMismatch (c_domain c) (c_family c)) else Inr family)"

definition ensure_caller_key_size ::
    "('k, 'v, 'e) record_codec \<Rightarrow> bytes \<Rightarrow> ('io, 'e) ReadError + unit" where
  "ensure_caller_key_size c encoded =
     (if encoded = [] \<or> c_max_key_bytes c < length encoded
      then Inl (InvalidKeySize (c_domain c) (c_family c) (c_max_key_bytes c) (length encoded))
      else Inr ())"

definition validate_stored_key_size ::
    "string \<Rightarrow> string \<Rightarrow> usize \<Rightarrow> bytes \<Rightarrow> ('io, 'e) ReadError + unit" where
  "validate_stored_key_size domain family maximum encoded =
     (if encoded = [] \<or> maximum < length encoded
      then Inl (InvalidStoredKeySize domain family maximum (length encoded))
      else Inr ())"

definition ensure_stored_value_size ::
    "('k, 'v, 'e) record_codec \<Rightarrow> usize \<Rightarrow> ('io, 'e) ReadError + unit" where
  "ensure_stored_value_size c actual =
     (let maximum = usize_saturating_add (c_max_value_bytes c) RECORD_VERSION_BYTES in
      if maximum < actual
      then Inl (InvalidStoredValueSize (c_domain c) (c_family c) maximum actual)
      else Inr ())"

definition ensure_caller_byte_bound ::
    "('k, 'v, 'e) record_codec \<Rightarrow> usize \<Rightarrow> usize \<Rightarrow> ('io, 'e) ReadError + unit" where
  "ensure_caller_byte_bound c actual caller_maximum =
     (if caller_maximum < actual
      then Inl (BoundExceeded (c_domain c) (c_family c) caller_maximum actual)
      else Inr ())"

section \<open>The record envelope\<close>

definition encode_cursor_key :: "('k, 'v, 'e) record_codec \<Rightarrow> 'k \<Rightarrow> ('io, 'e) ReadError + bytes" where
  "encode_cursor_key c key =
     and_then (map_err (Codec (c_domain c) (c_family c) EncodeKey) (c_encode_key c key)) (\<lambda>encoded.
     and_then (ensure_caller_key_size c encoded) (\<lambda>_. Inr encoded))"

definition encode_stored_key :: "('k, 'v, 'e) record_codec \<Rightarrow> 'k \<Rightarrow> ('io, 'e) ReadError + bytes" where
  "encode_stored_key c key =
     and_then (map_err (Codec (c_domain c) (c_family c) EncodeKey) (c_validate_stored_key c key))
       (\<lambda>_. encode_cursor_key c key)"

definition decode_stored_key_with_size ::
    "('k, 'v, 'e) record_codec \<Rightarrow> bytes \<Rightarrow> ('io, 'e) ReadError + ('k \<times> usize)" where
  "decode_stored_key_with_size c encoded =
     and_then (map_err (Codec (c_domain c) (c_family c) DecodeKey) (c_decode_key c encoded)) (\<lambda>key.
     and_then (map_err (Codec (c_domain c) (c_family c) DecodeKey) (c_validate_stored_key c key))
       (\<lambda>_. Inr (key, c_decoded_key_bytes c encoded key)))"

definition store_encode_value :: "('k, 'v, 'e) record_codec \<Rightarrow> 'v \<Rightarrow> ('io, 'e) ReadError + bytes" where
  "store_encode_value c value =
     and_then (validate_codec c) (\<lambda>_.
     and_then (map_err (Codec (c_domain c) (c_family c) EncodeValue) (c_encode_value c value)) (\<lambda>payload.
       if c_max_value_bytes c < length payload
       then Inl (BoundExceeded (c_domain c) (c_family c) (c_max_value_bytes c) (length payload))
       else Inr (to_be_bytes (c_version c) @ payload)))"

definition decode_value_with_size ::
    "('k, 'v, 'e) record_codec \<Rightarrow> bytes \<Rightarrow> ('io, 'e) ReadError + ('v \<times> usize)" where
  "decode_value_with_size c encoded =
     (if length encoded < RECORD_VERSION_BYTES then Inl (MalformedRecord (c_domain c) (c_family c))
      else let found = from_be_bytes (take RECORD_VERSION_BYTES encoded) in
        if found \<noteq> c_version c
        then Inl (UnsupportedRecordVersion (c_domain c) (c_family c) (c_version c) found)
        else let payload = drop RECORD_VERSION_BYTES encoded in
          if c_max_value_bytes c < length payload
          then Inl (InvalidStoredValueSize (c_domain c) (c_family c)
                 (usize_saturating_add (c_max_value_bytes c) RECORD_VERSION_BYTES) (length encoded))
          else and_then (map_err (Codec (c_domain c) (c_family c) DecodeValue)
                 (c_decode_value c payload)) (\<lambda>value.
            Inr (value, c_decoded_value_bytes c payload value)))"

definition store_decode_value :: "('k, 'v, 'e) record_codec \<Rightarrow> bytes \<Rightarrow> ('io, 'e) ReadError + 'v" where
  "store_decode_value c encoded = and_then (decode_value_with_size c encoded) (\<lambda>(value, _). Inr value)"

definition decode_record_envelope ::
    "('k, 'v, 'e) record_codec \<Rightarrow> bytes \<Rightarrow> bytes \<Rightarrow> ('io, 'e) ReadError + 'v" where
  "decode_record_envelope c encoded_key encoded_value =
     and_then (validate_codec c) (\<lambda>_.
     and_then (validate_stored_key_size (c_domain c) (c_family c) (c_max_key_bytes c) encoded_key) (\<lambda>_.
     and_then (decode_stored_key_with_size c encoded_key) (\<lambda>_.
     and_then (ensure_stored_value_size c (length encoded_value)) (\<lambda>_.
       store_decode_value c encoded_value))))"

section \<open>Point and cursor reads\<close>

definition read_point ::
    "'io DomainReader \<Rightarrow> ('k, 'v, 'e) record_codec \<Rightarrow> 'k \<Rightarrow> usize \<Rightarrow> ('io, 'e) ReadError + 'v option" where
  "read_point rd c key limit =
     and_then (validate_codec c) (\<lambda>_.
     and_then (resolve_family (rd_families rd) c) (\<lambda>family.
     and_then (encode_stored_key c key) (\<lambda>encoded_key.
     and_then (map_err (Storage PointSize)
         (snap_point (rd_snapshot rd) (fam_keyspace family) encoded_key)) (\<lambda>point.
     case point of
       None \<Rightarrow> Inr None
     | Some (len, acquire) \<Rightarrow>
         let size = unat len in
         and_then (ensure_stored_value_size c size) (\<lambda>_.
         and_then (ensure_caller_byte_bound c size limit) (\<lambda>_.
         and_then (map_err (Storage PointValue) acquire) (\<lambda>stored.
         and_then (decode_value_with_size c stored) (\<lambda>(value, decoded).
         and_then (ensure_caller_byte_bound c decoded limit) (\<lambda>_.
           Inr (Some value))))))))))"

definition encode_bound ::
    "('k, 'v, 'e) record_codec \<Rightarrow> 'k bound \<Rightarrow> ('io, 'e) ReadError + bytes bound" where
  "encode_bound c b = (case b of
     Included key \<Rightarrow> and_then (encode_cursor_key c key) (\<lambda>k. Inr (Included k))
   | Excluded key \<Rightarrow> and_then (encode_cursor_key c key) (\<lambda>k. Inr (Excluded k)))"

fun bound_bytes :: "bytes bound \<Rightarrow> bytes" where
  "bound_bytes (Included bs) = bs"
| "bound_bytes (Excluded bs) = bs"

definition cursor_page ::
    "('k \<times> 'v) list \<Rightarrow> usize \<Rightarrow> usize \<Rightarrow> bool \<Rightarrow> ('k, 'v) CursorPage" where
  "cursor_page recs stored decoded has_next =
     \<lparr>records = recs, stored_bytes = stored, decoded_bytes = decoded, has_more = has_next\<rparr>"

text \<open>One turn of the loop acquires and decodes the item at hand: the decoded pair and its size.\<close>

definition cursor_decode_item ::
    "('k, 'v, 'e) record_codec \<Rightarrow> usize \<Rightarrow> 'io cursor_item \<Rightarrow> ('io, 'e) ReadError + (('k \<times> 'v) \<times> usize)" where
  "cursor_decode_item c limit current =
     and_then (map_err (Storage CursorValue) (item_acquire current)) (\<lambda>(stored_key, stored_value).
     and_then (decode_stored_key_with_size c stored_key) (\<lambda>(key, decoded_key).
     and_then (decode_value_with_size c stored_value) (\<lambda>(value, decoded_value).
     and_then (ok_or (BoundExceeded (c_domain c) (c_family c) limit usize_max)
         (usize_checked_add decoded_key decoded_value)) (\<lambda>decoded.
       Inr ((key, value), decoded)))))"

text \<open>The size checks before an item is acquired; the result is the new stored total.\<close>

definition cursor_next_total ::
    "('k, 'v, 'e) record_codec \<Rightarrow> usize \<Rightarrow> usize \<Rightarrow> 'io cursor_item \<Rightarrow> ('io, 'e) ReadError + usize" where
  "cursor_next_total c limit stored current =
     and_then (validate_stored_key_size (c_domain c) (c_family c) (c_max_key_bytes c) (item_key current)) (\<lambda>_.
     let value_size = unat (item_value_len current) in
     and_then (ensure_stored_value_size c value_size) (\<lambda>_.
     and_then (ensure_caller_byte_bound c value_size limit) (\<lambda>_.
     and_then (ok_or (BoundExceeded (c_domain c) (c_family c) limit usize_max)
         (usize_checked_add (length (item_key current)) value_size)) (\<lambda>record_bytes.
       ok_or (BoundExceeded (c_domain c) (c_family c) limit usize_max)
         (usize_checked_add stored record_bytes)))))"

fun cursor_loop ::
    "('k, 'v, 'e) record_codec \<Rightarrow> CursorReadLimits \<Rightarrow> ('io + 'io cursor_item) list \<Rightarrow>
     ('k \<times> 'v) list \<Rightarrow> usize \<Rightarrow> usize \<Rightarrow> ('io, 'e) ReadError + ('k, 'v) CursorPage" where
  "cursor_loop c limits [] recs stored decoded = Inr (cursor_page recs stored decoded False)"
| "cursor_loop c limits (Inl source # rest) recs stored decoded = Inl (Storage CursorKey source)"
| "cursor_loop c limits (Inr current # rest) recs stored decoded =
     (if length recs = max_items limits then Inr (cursor_page recs stored decoded True)
      else and_then (cursor_next_total c (max_bytes limits) stored current) (\<lambda>next_total.
        if max_bytes limits < next_total then
          (if recs = [] then Inl (BoundExceeded (c_domain c) (c_family c) (max_bytes limits) next_total)
           else Inr (cursor_page recs stored decoded True))
        else and_then (cursor_decode_item c (max_bytes limits) current) (\<lambda>(record, record_decoded).
          and_then (ok_or (BoundExceeded (c_domain c) (c_family c) (max_bytes limits) usize_max)
              (usize_checked_add decoded record_decoded)) (\<lambda>next_decoded.
          if max_bytes limits < next_decoded then
            (if recs = [] then Inl (BoundExceeded (c_domain c) (c_family c) (max_bytes limits) next_decoded)
             else Inr (cursor_page recs stored decoded True))
          else cursor_loop c limits rest (recs @ [record]) next_total next_decoded))))"

definition read_cursor ::
    "'io DomainReader \<Rightarrow> ('k, 'v, 'e) record_codec \<Rightarrow> 'k CursorRange \<Rightarrow> CursorDirection \<Rightarrow>
     CursorReadLimits \<Rightarrow> ('io, 'e) ReadError + ('k, 'v) CursorPage" where
  "read_cursor rd c rng direction limits =
     and_then (validate_codec c) (\<lambda>_.
     and_then (resolve_family (rd_families rd) c) (\<lambda>family.
     and_then (encode_bound c (range_start rng)) (\<lambda>start.
     and_then (encode_bound c (range_end rng)) (\<lambda>end_bound.
       if bound_bytes end_bound < bound_bytes start \<or> \<not> snap_range_ok (rd_snapshot rd) start end_bound
       then Inl (ReversedRange (c_domain c) (c_family c))
       else and_then (map_err (Storage CursorKey)
           (snap_cursor (rd_snapshot rd) (fam_keyspace family) direction start end_bound)) (\<lambda>items.
         cursor_loop c limits items [] 0 0)))))"

text \<open>
  Exhaustive validation of a physical family; the erased \<^verbatim>\<open>validate_envelope\<close> of the registered
  family is the last argument.
\<close>

fun physical_loop ::
    "string \<Rightarrow> RegisteredFamily \<Rightarrow> (bytes \<Rightarrow> bytes \<Rightarrow> ('io, 'e) ReadError + unit) \<Rightarrow>
     ('io + 'io cursor_item) list \<Rightarrow> ('io, 'e) ReadError + unit" where
  "physical_loop domain family validate_envelope [] = Inr ()"
| "physical_loop domain family validate_envelope (Inl source # rest) = Inl (Storage PhysicalKey source)"
| "physical_loop domain family validate_envelope (Inr current # rest) =
     and_then (validate_stored_key_size domain (fam_logical_name family) (fam_max_key_bytes family)
       (item_key current)) (\<lambda>_.
     let value_size = unat (item_value_len current) in
     if fam_max_stored_value_bytes family < value_size
     then Inl (InvalidStoredValueSize domain (fam_logical_name family)
            (fam_max_stored_value_bytes family) value_size)
     else and_then (map_err (Storage PhysicalValue) (item_acquire current)) (\<lambda>(key, value).
       and_then (validate_envelope key value) (\<lambda>_.
         physical_loop domain family validate_envelope rest)))"

definition validate_physical_family ::
    "'io snapshot \<Rightarrow> string \<Rightarrow> RegisteredFamily \<Rightarrow> (bytes \<Rightarrow> bytes \<Rightarrow> ('io, 'e) ReadError + unit) \<Rightarrow>
     ('io, 'e) ReadError + unit" where
  "validate_physical_family sn domain family validate_envelope =
     and_then (map_err (Storage PhysicalKey) (snap_exhaustive sn (fam_keyspace family)))
       (physical_loop domain family validate_envelope)"

section \<open>Domain declarations\<close>

record RecordFamily =
  decl_name :: string
  decl_codec_type :: string
  decl_max_key_bytes :: usize
  decl_max_stored_value_bytes :: usize
  decl_schema :: u32

definition record_family_new :: "('k, 'v, 'e) record_codec \<Rightarrow> u32 \<Rightarrow> RecordFamily" where
  "record_family_new c schema =
     \<lparr>decl_name = c_family c, decl_codec_type = c_type c,
      decl_max_key_bytes = c_max_key_bytes c,
      decl_max_stored_value_bytes = usize_saturating_add (c_max_value_bytes c) RECORD_VERSION_BYTES,
      decl_schema = schema\<rparr>"

datatype DomainDefinitionError =
    InvalidName string string
  | NoKeyspaces string
  | DuplicateKeyspace string string
  | InvalidRecordCodec string string

definition MAX_COMPONENT_BYTES :: usize where "MAX_COMPONENT_BYTES = 64"

definition component_char :: "char \<Rightarrow> bool" where
  "component_char ch =
     (let b = of_char ch :: nat in
      (97 \<le> b \<and> b \<le> 122) \<or> (48 \<le> b \<and> b \<le> 57) \<or> b = 95 \<or> b = 45)"

definition validate_component :: "string \<Rightarrow> string \<Rightarrow> DomainDefinitionError + unit" where
  "validate_component kind name =
     (if name \<noteq> [] \<and> length name \<le> MAX_COMPONENT_BYTES \<and> list_all component_char name
      then Inr () else Inl (InvalidName kind name))"

definition physical_name :: "string \<Rightarrow> string \<Rightarrow> string" where
  "physical_name domain family = ''d.'' @ domain @ ''.'' @ family"

fun blueprint_families ::
    "string \<Rightarrow> string list \<Rightarrow> RecordFamily list \<Rightarrow> DomainDefinitionError + RegisteredFamily list" where
  "blueprint_families domain seen [] = Inr []"
| "blueprint_families domain seen (family # rest) =
     and_then (validate_component ''keyspace family'' (decl_name family)) (\<lambda>_.
     if decl_name family \<in> set seen then Inl (DuplicateKeyspace domain (decl_name family))
     else if decl_max_key_bytes family = 0 \<or> 65535 < decl_max_key_bytes family \<or>
         decl_max_stored_value_bytes family < 4 \<or> 2 ^ 32 - 1 < decl_max_stored_value_bytes family
     then Inl (InvalidRecordCodec domain (decl_name family))
     else and_then (blueprint_families domain (decl_name family # seen) rest) (\<lambda>families.
       Inr (\<lparr>fam_logical_name = decl_name family, fam_codec_type = decl_codec_type family,
             fam_max_key_bytes = decl_max_key_bytes family,
             fam_max_stored_value_bytes = decl_max_stored_value_bytes family,
             fam_keyspace = physical_name domain (decl_name family),
             fam_schema = decl_schema family\<rparr> # families)))"

text \<open>The families are sorted by their names, compared as the bytes of their ASCII spelling.\<close>

definition blueprint_for_domain ::
    "string \<Rightarrow> RecordFamily list \<Rightarrow> DomainDefinitionError + RegisteredFamily list" where
  "blueprint_for_domain domain declared =
     and_then (validate_component ''domain'' domain) (\<lambda>_.
     if declared = [] then Inl (NoKeyspaces domain)
     else and_then (blueprint_families domain [] declared) (\<lambda>families.
       Inr (sort_key (\<lambda>f. ascii_bytes (fam_logical_name f)) families)))"

end
