(* ===== verification/Home_Table.thy ===== *)
theory Home_Table
  imports Home_Keyspace
begin

text \<open>
  What the code relies on from the storage engine, what it relies on from a record codec, and
  the typed table that a keyspace then is: a successful typed read returns the entry of the
  table, and on a reliable snapshot every read within its bounds succeeds.
\<close>

section \<open>Contents of the keyspaces\<close>

type_synonym contents = "keyspace \<Rightarrow> bytes \<Rightarrow> bytes option"

fun above :: "bytes bound \<Rightarrow> bytes \<Rightarrow> bool" where
  "above (Included s) k \<longleftrightarrow> s \<le> k"
| "above (Excluded s) k \<longleftrightarrow> s < k"

fun below :: "bytes bound \<Rightarrow> bytes \<Rightarrow> bool" where
  "below (Included e) k \<longleftrightarrow> k \<le> e"
| "below (Excluded e) k \<longleftrightarrow> k < e"

text \<open>The records of a keyspace between two bounds, in the order of a cursor.\<close>

definition scan_keys :: "contents \<Rightarrow> keyspace \<Rightarrow> (bytes \<Rightarrow> bool) \<Rightarrow> bytes list" where
  "scan_keys m ks p = sorted_list_of_set {k \<in> dom (m ks). p k}"

definition directed :: "CursorDirection \<Rightarrow> 'a list \<Rightarrow> 'a list" where
  "directed d xs = (case d of Forward \<Rightarrow> xs | Reverse \<Rightarrow> rev xs)"

definition scan :: "contents \<Rightarrow> keyspace \<Rightarrow> CursorDirection \<Rightarrow> bytes bound \<Rightarrow> bytes bound \<Rightarrow> (bytes \<times> bytes) list" where
  "scan m ks d s e = map (\<lambda>k. (k, the (m ks k))) (directed d (scan_keys m ks (\<lambda>k. above s k \<and> below e k)))"

definition scan_all :: "contents \<Rightarrow> keyspace \<Rightarrow> (bytes \<times> bytes) list" where
  "scan_all m ks = map (\<lambda>k. (k, the (m ks k))) (scan_keys m ks (\<lambda>_. True))"

section \<open>Documented behaviour of a snapshot\<close>

definition item_matches :: "'io cursor_item \<Rightarrow> bytes \<times> bytes \<Rightarrow> bool" where
  "item_matches it kv \<longleftrightarrow> item_key it = fst kv \<and> unat (item_value_len it) = length (snd kv) \<and>
     (\<forall>p. item_acquire it = Inr p \<longrightarrow> p = kv)"

text \<open>
  The results of the cursor calls agree with the records up to the first failed call, and reach
  the end of the records when no call fails.
\<close>

fun cursor_agrees :: "('io + 'io cursor_item) list \<Rightarrow> (bytes \<times> bytes) list \<Rightarrow> bool" where
  "cursor_agrees [] kvs \<longleftrightarrow> kvs = []"
| "cursor_agrees (Inl e # its) kvs \<longleftrightarrow> True"
| "cursor_agrees (Inr it # its) [] \<longleftrightarrow> False"
| "cursor_agrees (Inr it # its) (kv # kvs) \<longleftrightarrow> item_matches it kv \<and> cursor_agrees its kvs"

definition point_agrees :: "(u32 \<times> ('io + bytes)) option \<Rightarrow> bytes option \<Rightarrow> bool" where
  "point_agrees r v = (case (r, v) of
     (None, None) \<Rightarrow> True
   | (Some (len, acquire), Some bs) \<Rightarrow> unat len = length bs \<and> (\<forall>w. acquire = Inr w \<longrightarrow> w = bs)
   | _ \<Rightarrow> False)"

definition snapshot_of :: "'io snapshot \<Rightarrow> contents \<Rightarrow> bool" where
  "snapshot_of sn m \<longleftrightarrow>
     (\<forall>ks. finite (dom (m ks))) \<and>
     (\<forall>ks k r. snap_point sn ks k = Inr r \<longrightarrow> point_agrees r (m ks k)) \<and>
     (\<forall>ks d s e its. snap_cursor sn ks d s e = Inr its \<longrightarrow> cursor_agrees its (scan m ks d s e)) \<and>
     (\<forall>ks its. snap_exhaustive sn ks = Inr its \<longrightarrow> cursor_agrees its (scan_all m ks))"

text \<open>A snapshot on which no call fails and every non-empty range is accepted.\<close>

definition reliable_items :: "('io + 'io cursor_item) list \<Rightarrow> bool" where
  "reliable_items its \<longleftrightarrow> (\<forall>r \<in> set its. \<exists>it p. r = Inr it \<and> item_acquire it = Inr p)"

definition range_nonempty :: "bytes bound \<Rightarrow> bytes bound \<Rightarrow> bool" where
  "range_nonempty s e \<longleftrightarrow> bound_bytes s < bound_bytes e \<or> (\<exists>k. s = Included k \<and> e = Included k)"

definition snapshot_reliable :: "'io snapshot \<Rightarrow> contents \<Rightarrow> bool" where
  "snapshot_reliable sn m \<longleftrightarrow> snapshot_of sn m \<and>
     (\<forall>ks k. \<exists>r. snap_point sn ks k = Inr r \<and> (\<forall>len a. r = Some (len, a) \<longrightarrow> (\<exists>w. a = Inr w))) \<and>
     (\<forall>s e. range_nonempty s e \<longrightarrow> snap_range_ok sn s e) \<and>
     (\<forall>ks d s e. \<exists>its. snap_cursor sn ks d s e = Inr its \<and> reliable_items its) \<and>
     (\<forall>ks. \<exists>its. snap_exhaustive sn ks = Inr its \<and> reliable_items its)"

lemma snapshot_reliable_of: "snapshot_reliable sn m \<Longrightarrow> snapshot_of sn m"
  by (simp add: snapshot_reliable_def)

lemma snapshot_of_point:
  assumes "snapshot_of sn m" and "snap_point sn ks k = Inr r"
  shows "point_agrees r (m ks k)"
  using assms by (simp add: snapshot_of_def)

lemma snapshot_of_cursor:
  "\<lbrakk>snapshot_of sn m; snap_cursor sn ks d s e = Inr its\<rbrakk> \<Longrightarrow> cursor_agrees its (scan m ks d s e)"
  by (simp add: snapshot_of_def)

lemma snapshot_reliable_point:
  assumes "snapshot_reliable sn m"
  obtains r where "snap_point sn ks k = Inr r" and "point_agrees r (m ks k)"
    and "\<And>len a. r = Some (len, a) \<Longrightarrow> \<exists>w. a = Inr w"
proof -
  obtain r where r: "snap_point sn ks k = Inr r" "\<And>len a. r = Some (len, a) \<Longrightarrow> \<exists>w. a = Inr w"
    using assms unfolding snapshot_reliable_def by meson
  with snapshot_of_point [OF snapshot_reliable_of [OF assms] r(1)] that show ?thesis by blast
qed

lemma snapshot_reliable_cursor:
  assumes "snapshot_reliable sn m"
  obtains its where "snap_cursor sn ks d s e = Inr its" and "cursor_agrees its (scan m ks d s e)"
    and "reliable_items its"
proof -
  obtain its where its: "snap_cursor sn ks d s e = Inr its" "reliable_items its"
    using assms unfolding snapshot_reliable_def by meson
  with snapshot_of_cursor [OF snapshot_reliable_of [OF assms] its(1)] that show ?thesis by blast
qed

section \<open>The contract of a record codec\<close>

text \<open>
  \<open>kenc\<close> and \<open>venc\<close> are the encodings, \<open>kok\<close> the keys that may be stored and \<open>vok\<close> the values
  that the constructors of the value type admit.
\<close>

definition stored_as :: "('k, 'v, 'e) record_codec \<Rightarrow> ('v \<Rightarrow> bytes) \<Rightarrow> 'v \<Rightarrow> bytes" where
  "stored_as c venc v = to_be_bytes (c_version c) @ venc v"

definition serves :: "RegisteredFamily list \<Rightarrow> ('k, 'v, 'e) record_codec \<Rightarrow> keyspace \<Rightarrow> bool" where
  "serves families c ks \<longleftrightarrow> (\<exists>f. family_of families (c_family c) = Some f \<and>
     fam_codec_type f = c_type c \<and> fam_keyspace f = ks)"

text \<open>
  The keyspace \<open>ks\<close> holds the typed table \<open>T\<close>: every entry is stored under its encoded key, and
  nothing else is stored.
\<close>

definition table_rep ::
    "('k, 'v, 'e) record_codec \<Rightarrow> ('k \<Rightarrow> bytes) \<Rightarrow> ('v \<Rightarrow> bytes) \<Rightarrow> ('k \<Rightarrow> bool) \<Rightarrow> ('v \<Rightarrow> bool) \<Rightarrow>
     contents \<Rightarrow> keyspace \<Rightarrow> ('k \<rightharpoonup> 'v) \<Rightarrow> bool" where
  "table_rep c kenc venc kok vok m ks T \<longleftrightarrow>
     (\<forall>k. kok k \<longrightarrow> m ks (kenc k) = map_option (stored_as c venc) (T k)) \<and>
     (\<forall>bs w. m ks bs = Some w \<longrightarrow> (\<exists>k. kok k \<and> bs = kenc k)) \<and>
     (\<forall>k v. T k = Some v \<longrightarrow> kok k \<and> vok v)"

text \<open>The entries of a table whose encoded keys satisfy \<open>p\<close>, in the order of the encoded keys.\<close>

definition entries_in ::
    "('k \<Rightarrow> bytes) \<Rightarrow> ('k \<rightharpoonup> 'v) \<Rightarrow> (bytes \<Rightarrow> bool) \<Rightarrow> ('k \<times> 'v) list \<Rightarrow> bool" where
  "entries_in kenc T p xs \<longleftrightarrow>
     sorted_wrt (\<lambda>a b. kenc (fst a) < kenc (fst b)) xs \<and>
     set xs = {(k, v). T k = Some v \<and> p (kenc k)}"

lemma table_rep_lookup:
  "\<lbrakk>table_rep c kenc venc kok vok m ks T; kok k\<rbrakk> \<Longrightarrow> m ks (kenc k) = map_option (stored_as c venc) (T k)"
  unfolding table_rep_def by blast

lemma table_rep_key:
  "\<lbrakk>table_rep c kenc venc kok vok m ks T; m ks bs = Some w\<rbrakk> \<Longrightarrow> \<exists>k. kok k \<and> kenc k = bs"
  unfolding table_rep_def by blast

lemma table_rep_ok:
  "\<lbrakk>table_rep c kenc venc kok vok m ks T; T k = Some v\<rbrakk> \<Longrightarrow> kok k \<and> vok v"
  unfolding table_rep_def by blast

lemma length_stored_as [simp]: "length (stored_as c venc v) = 4 + length (venc v)"
  by (simp add: stored_as_def)

locale typed_family =
  fixes c :: "('k, 'v, 'e) record_codec"
    and kenc :: "'k \<Rightarrow> bytes" and venc :: "'v \<Rightarrow> bytes"
    and kok :: "'k \<Rightarrow> bool" and vok :: "'v \<Rightarrow> bool"
  assumes codec_bounds: "0 < c_max_key_bytes c" "c_max_key_bytes c \<le> 65535"
      "c_max_value_bytes c \<le> 2 ^ 32 - 5"
    and encode_key: "c_encode_key c k = Inr (kenc k)"
    and decode_key: "c_decode_key c bs = Inr k \<and> c_validate_stored_key c k = Inr () \<longleftrightarrow> kok k \<and> bs = kenc k"
    and kenc_bounds: "kok k \<Longrightarrow> 0 < length (kenc k) \<and> length (kenc k) \<le> c_max_key_bytes c"
    and encode_value: "vok v \<Longrightarrow> c_encode_value c v = Inr (venc v)"
    and decode_value: "c_decode_value c bs = Inr v \<longleftrightarrow> vok v \<and> bs = venc v"
    and venc_bound: "vok v \<Longrightarrow> length (venc v) \<le> c_max_value_bytes c"
    and decoded_key_bytes: "c_decoded_key_bytes c bs k = length bs"
    and decoded_value_bytes: "c_decoded_value_bytes c bs v = length bs"
begin

lemma validate_codec_ok: "validate_codec c = Inr ()"
  using codec_bounds by (simp add: validate_codec_def RECORD_VERSION_BYTES_def)

lemma validate_key_ok: "kok k \<Longrightarrow> c_validate_stored_key c k = Inr ()"
  using decode_key [of "kenc k" k] by simp

lemma kenc_inj: "\<lbrakk>kok k; kok k'; kenc k = kenc k'\<rbrakk> \<Longrightarrow> k = k'"
  using decode_key [of "kenc k" k] decode_key [of "kenc k" k'] by simp

lemma venc_inj: "\<lbrakk>vok v; vok v'; venc v = venc v'\<rbrakk> \<Longrightarrow> v = v'"
  using decode_value [of "venc v" v] decode_value [of "venc v" v'] by simp

lemma encode_cursor_key_ok: "kok k \<Longrightarrow> encode_cursor_key c k = Inr (kenc k)"
  using kenc_bounds [of k] by (auto simp: encode_cursor_key_def ensure_caller_key_size_def encode_key)

lemma encode_stored_key_ok: "kok k \<Longrightarrow> encode_stored_key c k = Inr (kenc k)"
  by (simp add: encode_stored_key_def validate_key_ok encode_cursor_key_ok)

lemma store_encode_value_ok: "vok v \<Longrightarrow> store_encode_value c v = Inr (stored_as c venc v)"
  using venc_bound [of v] by (simp add: store_encode_value_def validate_codec_ok encode_value stored_as_def)

lemma decode_stored_key_iff:
  "decode_stored_key_with_size c bs = Inr (k, n) \<longleftrightarrow> kok k \<and> bs = kenc k \<and> n = length bs"
  using decode_key [of bs k]
  by (auto simp: decode_stored_key_with_size_def and_then_eq_Inr decoded_key_bytes)

lemma decode_stored_value_iff:
  "decode_value_with_size c bs = Inr (v, n) \<longleftrightarrow>
     vok v \<and> bs = stored_as c venc v \<and> n = length (venc v)"
proof
  assume *: "decode_value_with_size c bs = Inr (v, n)"
  then have len: "\<not> length bs < 4" and ver: "from_be_bytes (take 4 bs) = c_version c"
    and dec: "c_decode_value c (drop 4 bs) = Inr v" "n = length (drop 4 bs)"
    by (auto simp: decode_value_with_size_def RECORD_VERSION_BYTES_def Let_def and_then_eq_Inr
        decoded_value_bytes split: if_splits)
  have "to_be_bytes (from_be_bytes (take 4 bs) :: u32) = take 4 bs"
    using len by (intro to_from_be_bytes) simp_all
  then have "take 4 bs = to_be_bytes (c_version c)" using ver by simp
  moreover have "vok v" "drop 4 bs = venc v" using dec(1) by (simp_all add: decode_value)
  ultimately have "bs = stored_as c venc v"
    using append_take_drop_id [of 4 bs] by (simp add: stored_as_def)
  with \<open>vok v\<close> \<open>drop 4 bs = venc v\<close> dec(2)
  show "vok v \<and> bs = stored_as c venc v \<and> n = length (venc v)" by simp
next
  assume "vok v \<and> bs = stored_as c venc v \<and> n = length (venc v)"
  then show "decode_value_with_size c bs = Inr (v, n)"
    using venc_bound [of v] decode_value [of "venc v" v]
    by (simp add: decode_value_with_size_def RECORD_VERSION_BYTES_def Let_def stored_as_def
        decoded_value_bytes)
qed

lemma resolve_serves:
  "serves fs c ks \<Longrightarrow> \<exists>f. resolve_family fs c = Inr f \<and> fam_keyspace f = ks"
  by (auto simp: serves_def resolve_family_def)

lemma read_point_sound:
  fixes rd :: "'io DomainReader"
  assumes sn: "snapshot_of (rd_snapshot rd) m" and fam: "serves (rd_families rd) c ks"
    and k: "kok k" and read: "read_point rd c k lim = Inr r"
  shows "m ks (kenc k) = map_option (stored_as c venc) r \<and> (\<forall>v. r = Some v \<longrightarrow> vok v)"
proof -
  obtain f where f: "resolve_family (rd_families rd) c = (Inr f :: ('io, 'e) ReadError + _)"
    "fam_keyspace f = ks"
    using resolve_serves [OF fam] by blast
  obtain p where p: "snap_point (rd_snapshot rd) ks (kenc k) = Inr p"
    using read by (auto simp: read_point_def validate_codec_ok f encode_stored_key_ok k and_then_eq_Inr)
  have agrees: "point_agrees p (m ks (kenc k))" using snapshot_of_point [OF sn p] .
  show ?thesis
  proof (cases p)
    case None
    then show ?thesis
      using read agrees by (auto simp: read_point_def validate_codec_ok f encode_stored_key_ok k p
          point_agrees_def split: option.splits)
  next
    case (Some q)
    then show ?thesis
      using read agrees by (cases q) (auto simp: read_point_def validate_codec_ok f encode_stored_key_ok
          k p point_agrees_def and_then_eq_Inr decode_stored_value_iff Let_def split: option.splits)
  qed
qed

lemma read_point_complete:
  fixes rd :: "'io DomainReader"
  assumes sn: "snapshot_reliable (rd_snapshot rd) m" and fam: "serves (rd_families rd) c ks"
    and k: "kok k" and m: "m ks (kenc k) = map_option (stored_as c venc) r"
    and ok: "\<And>v. r = Some v \<Longrightarrow> vok v \<and> length (stored_as c venc v) \<le> lim"
  shows "read_point rd c k lim = Inr r"
proof -
  obtain f where f: "resolve_family (rd_families rd) c = (Inr f :: ('io, 'e) ReadError + _)"
    "fam_keyspace f = ks"
    using resolve_serves [OF fam] by blast
  obtain p where p: "snap_point (rd_snapshot rd) ks (kenc k) = Inr p"
    and agrees: "point_agrees p (m ks (kenc k))" and acq: "\<And>len a. p = Some (len, a) \<Longrightarrow> \<exists>w. a = Inr w"
    using snapshot_reliable_point [OF sn] by blast
  show ?thesis
  proof (cases r)
    case None
    with agrees m have "p = None" by (simp add: point_agrees_def split: option.splits)
    with None show ?thesis
      by (simp add: read_point_def validate_codec_ok f encode_stored_key_ok k p)
  next
    case (Some v)
    with agrees m acq obtain len where q: "p = Some (len, Inr (stored_as c venc v))"
      and len: "unat len = length (stored_as c venc v)"
      by (auto simp: point_agrees_def split: option.splits)
    have v: "vok v" "4 + length (venc v) \<le> lim" using ok [OF Some] by simp_all
    have dec: "decode_value_with_size c (stored_as c venc v) = Inr (v, length (venc v))"
      using v by (simp add: decode_stored_value_iff)
    show ?thesis
      using Some v len venc_bound [OF v(1)] codec_bounds(3)
      by (simp add: read_point_def validate_codec_ok f encode_stored_key_ok k p q Let_def dec
          ensure_stored_value_size_def ensure_caller_byte_bound_def usize_saturating_add_def
          RECORD_VERSION_BYTES_def usize_max_def)
  qed
qed

lemma stored_as_inj: "\<lbrakk>vok v; vok w; stored_as c venc v = stored_as c venc w\<rbrakk> \<Longrightarrow> v = w"
  using venc_inj by (auto simp: stored_as_def)

lemma table_rep_le:
  assumes T: "table_rep c kenc venc kok vok m ks T" and U: "table_rep c kenc venc kok vok m ks U"
    and v: "T k = Some v"
  shows "U k = Some v"
proof -
  have k: "kok k" "vok v" using table_rep_ok [OF T v] by simp_all
  have "map_option (stored_as c venc) (U k) = Some (stored_as c venc v)"
    using table_rep_lookup [OF T k(1)] table_rep_lookup [OF U k(1)] v by simp
  then obtain w where w: "U k = Some w" "stored_as c venc w = stored_as c venc v" by (cases "U k") auto
  have "vok w" using table_rep_ok [OF U w(1)] by simp
  from stored_as_inj [OF this k(2) w(2)] w(1) show ?thesis by simp
qed

lemma table_rep_unique:
  assumes "table_rep c kenc venc kok vok m ks T" and "table_rep c kenc venc kok vok m ks U"
  shows "T = U"
proof
  fix k
  show "T k = U k"
    using table_rep_le [OF assms, of k] table_rep_le [OF assms(2,1), of k] by (cases "T k"; cases "U k") simp_all
qed

lemma read_point_table:
  assumes sn: "snapshot_of (rd_snapshot rd) m" and fam: "serves (rd_families rd) c ks"
    and rep: "table_rep c kenc venc kok vok m ks T"
    and k: "kok k" and read: "read_point rd c k lim = Inr r"
  shows "r = T k"
  using read_point_sound [OF sn fam k read] table_rep_lookup [OF rep k] table_rep_ok [OF rep, of k]
  by (cases r; cases "T k") (auto dest: stored_as_inj)

lemma read_point_table_complete:
  assumes sn: "snapshot_reliable (rd_snapshot rd) m" and fam: "serves (rd_families rd) c ks"
    and rep: "table_rep c kenc venc kok vok m ks T"
    and k: "kok k" and lim: "\<And>v. T k = Some v \<Longrightarrow> 4 + length (venc v) \<le> lim"
  shows "read_point rd c k lim = Inr (T k)"
  using k lim table_rep_ok [OF rep]
  by (intro read_point_complete [OF sn fam k table_rep_lookup [OF rep k]]) simp

lemma scan_entries:
  assumes rep: "table_rep c kenc venc kok vok m ks T" and fin: "finite (dom (m ks))"
  obtains xs where "entries_in kenc T (\<lambda>k. above s k \<and> below e k) xs"
    and "scan m ks Forward s e = map (\<lambda>(k, v). (kenc k, stored_as c venc v)) xs"
proof -
  let ?p = "\<lambda>k. above s k \<and> below e k"
  let ?B = "scan_keys m ks ?p"
  define dk where "dk bs = (SOME k. kok k \<and> kenc k = bs)" for bs
  define xs where "xs = map (\<lambda>bs. (dk bs, the (T (dk bs)))) ?B"
  have dk: "kok (dk bs) \<and> kenc (dk bs) = bs" if "m ks bs = Some w" for bs w
  proof -
    have "\<exists>k. kok k \<and> kenc k = bs" using table_rep_key [OF rep that] .
    then show ?thesis unfolding dk_def by (rule someI_ex)
  qed
  have dk_kenc: "dk (kenc k) = k" if "T k = Some v" for k v
  proof -
    have k: "kok k" using table_rep_ok [OF rep that] by simp
    then have "m ks (kenc k) = Some (stored_as c venc v)"
      using table_rep_lookup [OF rep] that by simp
    from dk [OF this] show ?thesis using kenc_inj k by blast
  qed
  have setB: "set ?B = {k \<in> dom (m ks). ?p k}" and sortB: "sorted_wrt (<) ?B"
    using fin by (simp_all add: scan_keys_def)
  have T: "\<exists>v. T (dk bs) = Some v \<and> w = stored_as c venc v" if "m ks bs = Some w" for bs w
  proof -
    have "m ks (kenc (dk bs)) = map_option (stored_as c venc) (T (dk bs))"
      using table_rep_lookup [OF rep] dk [OF that] by blast
    with dk [OF that] that show ?thesis by (cases "T (dk bs)") auto
  qed
  have sorted: "sorted_wrt (\<lambda>a b. kenc (fst a) < kenc (fst b)) xs"
    unfolding xs_def sorted_wrt_map
  proof (rule sorted_wrt_mono_rel [OF _ sortB])
    fix x y assume "x \<in> set ?B" "y \<in> set ?B" "x < y"
    moreover from this obtain u w where "m ks x = Some u" "m ks y = Some w" using setB by auto
    ultimately show "kenc (fst (dk x, the (T (dk x)))) < kenc (fst (dk y, the (T (dk y))))"
      using dk by simp
  qed
  have set: "set xs = {(k, v). T k = Some v \<and> ?p (kenc k)}"
  proof (intro equalityI subrelI)
    fix k v assume "(k, v) \<in> set xs"
    then obtain bs w where "m ks bs = Some w" "?p bs" "k = dk bs" "v = the (T (dk bs))"
      using setB by (auto simp: xs_def)
    then show "(k, v) \<in> {(k, v). T k = Some v \<and> ?p (kenc k)}"
      using T [OF \<open>m ks bs = Some w\<close>] dk [OF \<open>m ks bs = Some w\<close>] by auto
  next
    fix k v assume "(k, v) \<in> {(k, v). T k = Some v \<and> ?p (kenc k)}"
    then have "T k = Some v" "?p (kenc k)" "kok k" using table_rep_ok [OF rep] by auto
    then have "kenc k \<in> set ?B" using table_rep_lookup [OF rep, of k] setB by auto
    then have "(dk (kenc k), the (T (dk (kenc k)))) \<in> set xs" by (simp add: xs_def)
    then show "(k, v) \<in> set xs"
      using dk_kenc \<open>T k = Some v\<close> by simp
  qed
  have "scan m ks Forward s e = map (\<lambda>(k, v). (kenc k, stored_as c venc v)) xs"
    unfolding scan_def directed_def xs_def CursorDirection.case map_map
  proof (rule map_cong [OF refl])
    fix bs assume "bs \<in> set ?B"
    then obtain w where "m ks bs = Some w" using setB by auto
    with T [OF this] dk [OF this] show "(bs, the (m ks bs)) =
        ((\<lambda>(k, v). (kenc k, stored_as c venc v)) \<circ> (\<lambda>bs. (dk bs, the (T (dk bs))))) bs" by auto
  qed
  then show thesis using that sorted set by (auto simp: entries_in_def)
qed

lemma cursor_decode_item_matches:
  fixes current :: "'io cursor_item"
  assumes it: "item_matches current (kenc k, stored_as c venc v)"
    and dec: "cursor_decode_item c lim current = Inr (rec, n)" and ok: "kok k" "vok v"
  shows "rec = (k, v) \<and> n = length (kenc k) + length (venc v)"
proof -
  have "item_acquire current = Inr (kenc k, stored_as c venc v)"
    using it dec by (cases "item_acquire current") (auto simp: item_matches_def cursor_decode_item_def)
  moreover have "decode_stored_key_with_size c (kenc k) = (Inr (k, length (kenc k)) :: ('io, 'e) ReadError + _)"
    using ok by (simp add: decode_stored_key_iff)
  moreover have "decode_value_with_size c (stored_as c venc v) = (Inr (v, length (venc v)) :: ('io, 'e) ReadError + _)"
    using ok by (simp add: decode_stored_value_iff)
  ultimately show ?thesis
    using dec by (auto simp: cursor_decode_item_def and_then_eq_Inr usize_checked_add_eq_Some)
qed

text \<open>
  What a page is: a prefix of the entries, with \<^verbatim>\<open>has_more\<close> exactly when entries are left, and
  never an empty page with more to come.
\<close>

lemma cursor_loop_sound:
  fixes its :: "('io + 'io cursor_item) list"
  assumes "cursor_agrees its (map (\<lambda>(k, v). (kenc k, stored_as c venc v)) xs)"
    and "\<And>k v. (k, v) \<in> set xs \<Longrightarrow> kok k \<and> vok v"
    and "0 < max_items limits"
    and "cursor_loop c limits its recs st de = Inr page"
  shows "\<exists>ys zs. xs = ys @ zs \<and> records page = recs @ ys \<and> (has_more page \<longleftrightarrow> zs \<noteq> []) \<and>
    (zs \<noteq> [] \<longrightarrow> records page \<noteq> [])"
  using assms
proof (induction its arbitrary: xs recs st de)
  case Nil
  then show ?case by (auto simp: cursor_page_def)
next
  case (Cons it its)
  then obtain current where it: "it = Inr current" by (cases it) auto
  with Cons.prems(1) obtain k v xs' where xs: "xs = (k, v) # xs'"
    and match: "item_matches current (kenc k, stored_as c venc v)"
    and agrees: "cursor_agrees its (map (\<lambda>(k, v). (kenc k, stored_as c venc v)) xs')"
    by (cases xs) auto
  have stop: ?case if "page = cursor_page recs st de True" "recs \<noteq> []"
    using that xs by (intro exI [of _ "[]"] exI [of _ xs]) (simp add: cursor_page_def)
  show ?case
  proof (cases "page = cursor_page recs st de True \<and> recs \<noteq> []")
    case True
    then show ?thesis using stop by blast
  next
    case False
    with Cons.prems(3,4) it obtain nt rec n nd where
      dec: "cursor_decode_item c (max_bytes limits) current = (Inr (rec, n) :: ('io, 'e) ReadError + _)"
      and loop: "cursor_loop c limits its (recs @ [rec]) nt nd = Inr page"
      by (auto simp: and_then_eq_Inr split: if_splits)
    have "rec = (k, v)" using cursor_decode_item_matches [OF match dec] Cons.prems(2) xs by auto
    with Cons.IH [OF agrees _ Cons.prems(3) loop] Cons.prems(2) xs obtain ys zs where
      "xs' = ys @ zs" "records page = recs @ [(k, v)] @ ys" "has_more page \<longleftrightarrow> zs \<noteq> []"
      by auto
    then show ?thesis using xs by (intro exI [of _ "(k, v) # ys"] exI [of _ zs]) simp
  qed
qed

lemma encode_bound_eq_Inr: "encode_bound c b = Inr s \<Longrightarrow> s = map_bound kenc b"
  by (auto simp: encode_bound_def encode_cursor_key_def encode_key and_then_eq_Inr split: bound.splits)

lemma read_cursor_table:
  fixes rd :: "'io DomainReader"
  assumes sn: "snapshot_of (rd_snapshot rd) m" and fam: "serves (rd_families rd) c ks"
    and rep: "table_rep c kenc venc kok vok m ks T" and items: "0 < max_items limits"
    and read: "read_cursor rd c rng Forward limits = Inr page"
  obtains xs ys zs where
    "entries_in kenc T (\<lambda>k. above (map_bound kenc (range_start rng)) k \<and> below (map_bound kenc (range_end rng)) k) xs"
    and "xs = ys @ zs" and "records page = ys" and "has_more page \<longleftrightarrow> zs \<noteq> []"
    and "zs \<noteq> [] \<Longrightarrow> ys \<noteq> []"
proof -
  obtain f where f: "resolve_family (rd_families rd) c = (Inr f :: ('io, 'e) ReadError + _)"
    "fam_keyspace f = ks"
    using resolve_serves [OF fam] by blast
  let ?s = "map_bound kenc (range_start rng)" and ?e = "map_bound kenc (range_end rng)"
  obtain its where its: "snap_cursor (rd_snapshot rd) ks Forward ?s ?e = Inr its"
    and loop: "cursor_loop c limits its [] 0 0 = Inr page"
    using read f by (auto simp: read_cursor_def and_then_eq_Inr dest!: encode_bound_eq_Inr split: if_splits)
  have "finite (dom (m ks))" using sn by (simp add: snapshot_of_def)
  then obtain xs where xs: "entries_in kenc T (\<lambda>k. above ?s k \<and> below ?e k) xs"
    and scan: "scan m ks Forward ?s ?e = map (\<lambda>(k, v). (kenc k, stored_as c venc v)) xs"
    using scan_entries [OF rep] by blast
  have "cursor_agrees its (map (\<lambda>(k, v). (kenc k, stored_as c venc v)) xs)"
    using snapshot_of_cursor [OF sn its] scan by simp
  moreover have "\<And>k v. (k, v) \<in> set xs \<Longrightarrow> kok k \<and> vok v"
    using xs table_rep_ok [OF rep] by (auto simp: entries_in_def)
  ultimately have "\<exists>ys zs. xs = ys @ zs \<and> records page = [] @ ys \<and> (has_more page \<longleftrightarrow> zs \<noteq> []) \<and>
      (zs \<noteq> [] \<longrightarrow> records page \<noteq> [])"
    using items loop by (rule cursor_loop_sound)
  with xs that show thesis by auto
qed

lemma cursor_item_fits:
  fixes current :: "'io cursor_item"
  assumes match: "item_matches current (kenc k, stored_as c venc v)"
    and acq: "item_acquire current = Inr p" and ok: "kok k" "vok v"
    and fits: "length (kenc k) + 4 + length (venc v) \<le> lim" "st + lim \<le> usize_max"
  shows "cursor_next_total c lim st current = (Inr (st + (length (kenc k) + 4 + length (venc v))) :: ('io, 'e) ReadError + _)"
    and "cursor_decode_item c lim current = (Inr ((k, v), length (kenc k) + length (venc v)) :: ('io, 'e) ReadError + _)"
proof -
  have it: "item_key current = kenc k" "unat (item_value_len current) = 4 + length (venc v)"
    "item_acquire current = Inr (kenc k, stored_as c venc v)"
    using match acq by (auto simp: item_matches_def)
  show "cursor_next_total c lim st current = (Inr (st + (length (kenc k) + 4 + length (venc v))) :: ('io, 'e) ReadError + _)"
    using it fits kenc_bounds [OF ok(1)] venc_bound [OF ok(2)] codec_bounds
    by (auto simp: cursor_next_total_def validate_stored_key_size_def ensure_stored_value_size_def
        ensure_caller_byte_bound_def usize_checked_add_def usize_saturating_add_def
        RECORD_VERSION_BYTES_def usize_max_def Let_def)
  have "decode_stored_key_with_size c (kenc k) = (Inr (k, length (kenc k)) :: ('io, 'e) ReadError + _)"
    using ok by (simp add: decode_stored_key_iff)
  moreover have "decode_value_with_size c (stored_as c venc v) = (Inr (v, length (venc v)) :: ('io, 'e) ReadError + _)"
    using ok by (simp add: decode_stored_value_iff)
  ultimately show "cursor_decode_item c lim current = (Inr ((k, v), length (kenc k) + length (venc v)) :: ('io, 'e) ReadError + _)"
    using it fits by (simp add: cursor_decode_item_def usize_checked_add_def)
qed

lemma cursor_loop_complete:
  fixes its :: "('io + 'io cursor_item) list"
  assumes "cursor_agrees its (map (\<lambda>(k, v). (kenc k, stored_as c venc v)) xs)"
    and "reliable_items its"
    and "\<And>k v. (k, v) \<in> set xs \<Longrightarrow> kok k \<and> vok v \<and> length (kenc k) + 4 + length (venc v) \<le> max_bytes limits"
    and "2 * max_bytes limits \<le> usize_max"
    and "st \<le> max_bytes limits" "de \<le> max_bytes limits" "recs = [] \<Longrightarrow> st = 0 \<and> de = 0"
  shows "\<exists>page. cursor_loop c limits its recs st de = (Inr page :: ('io, 'e) ReadError + _)"
  using assms
proof (induction its arbitrary: xs recs st de)
  case Nil
  then show ?case by simp
next
  case (Cons it its)
  then obtain current p where it: "it = Inr current" and acq: "item_acquire current = Inr p"
    by (auto simp: reliable_items_def)
  with Cons.prems(1) obtain k v xs' where xs: "xs = (k, v) # xs'"
    and match: "item_matches current (kenc k, stored_as c venc v)"
    and agrees: "cursor_agrees its (map (\<lambda>(k, v). (kenc k, stored_as c venc v)) xs')"
    by (cases xs) auto
  have ok: "kok k" "vok v" and fits: "length (kenc k) + 4 + length (venc v) \<le> max_bytes limits"
    using Cons.prems(3) xs by auto
  note step = cursor_item_fits [OF match acq ok fits]
  have "reliable_items its" using Cons.prems(2) by (simp add: reliable_items_def)
  have IH: "\<exists>page. cursor_loop c limits its (recs @ [(k, v)]) st' de' = (Inr page :: ('io, 'e) ReadError + _)"
    if "st' \<le> max_bytes limits" "de' \<le> max_bytes limits" for st' de'
    by (rule Cons.IH [OF agrees \<open>reliable_items its\<close>]) (use that Cons.prems(3,4) xs in auto)
  show ?case
    using it IH Cons.prems(4-7) fits step [of st]
    by (auto simp: and_then_eq_Inr usize_checked_add_def)
qed

lemma encode_bound_ok:
  assumes "\<And>k. k \<in> set_bound b \<Longrightarrow> 0 < length (kenc k) \<and> length (kenc k) \<le> c_max_key_bytes c"
  shows "encode_bound c b = Inr (map_bound kenc b)"
  using assms by (cases b) (auto simp: encode_bound_def encode_cursor_key_def encode_key
      ensure_caller_key_size_def)

lemma read_cursor_table_complete:
  fixes rd :: "'io DomainReader"
  assumes sn: "snapshot_reliable (rd_snapshot rd) m" and fam: "serves (rd_families rd) c ks"
    and rep: "table_rep c kenc venc kok vok m ks T"
    and bounds: "\<And>k. k \<in> set_bound (range_start rng) \<union> set_bound (range_end rng) \<Longrightarrow>
      0 < length (kenc k) \<and> length (kenc k) \<le> c_max_key_bytes c"
    and nonempty: "range_nonempty (map_bound kenc (range_start rng)) (map_bound kenc (range_end rng))"
    and fits: "\<And>k v. T k = Some v \<Longrightarrow> length (kenc k) + 4 + length (venc v) \<le> max_bytes limits"
    and usize: "2 * max_bytes limits \<le> usize_max"
  shows "\<exists>page. read_cursor rd c rng Forward limits = Inr page"
proof -
  obtain f where f: "resolve_family (rd_families rd) c = (Inr f :: ('io, 'e) ReadError + _)"
    "fam_keyspace f = ks"
    using resolve_serves [OF fam] by blast
  let ?s = "map_bound kenc (range_start rng)" and ?e = "map_bound kenc (range_end rng)"
  have enc: "encode_bound c (range_start rng) = (Inr ?s :: ('io, 'e) ReadError + _)"
    "encode_bound c (range_end rng) = (Inr ?e :: ('io, 'e) ReadError + _)"
    using bounds by (simp_all add: encode_bound_ok)
  have range: "\<not> bound_bytes ?e < bound_bytes ?s" "snap_range_ok (rd_snapshot rd) ?s ?e"
    using nonempty sn by (auto simp: range_nonempty_def snapshot_reliable_def)
  obtain its where its: "snap_cursor (rd_snapshot rd) ks Forward ?s ?e = Inr its"
    and agrees: "cursor_agrees its (scan m ks Forward ?s ?e)" and rel: "reliable_items its"
    using snapshot_reliable_cursor [OF sn] by blast
  have "finite (dom (m ks))" using sn by (simp add: snapshot_reliable_def snapshot_of_def)
  then obtain xs where xs: "entries_in kenc T (\<lambda>k. above ?s k \<and> below ?e k) xs"
    and scan: "scan m ks Forward ?s ?e = map (\<lambda>(k, v). (kenc k, stored_as c venc v)) xs"
    using scan_entries [OF rep] by blast
  have "\<exists>page. cursor_loop c limits its [] 0 0 = (Inr page :: ('io, 'e) ReadError + _)"
    using xs table_rep_ok [OF rep] fits
    by (intro cursor_loop_complete [OF agrees [unfolded scan] rel _ usize]) (auto simp: entries_in_def)
  then show ?thesis
    using f enc range its by (auto simp: read_cursor_def validate_codec_ok)
qed

end

end
