(* ===== verification/Home_Command.thy ===== *)
theory Home_Command
  imports Home_Table
begin

text \<open>
  Typed mutations of a domain: the mutation builder and the reconciliation reservation of
  \<^verbatim>\<open>crates/beryl-home-store/src/command.rs\<close>, and the effect of a committed batch on the contents
  of the keyspaces (\<^verbatim>\<open>writer/batch.rs\<close>).
\<close>

section \<open>Pending mutations\<close>

datatype PendingAction = Put bytes | Delete

record PendingMutation =
  pm_family_slot :: usize
  pm_key :: bytes
  pm_action :: PendingAction

datatype ('io, 'e) MutationBuildError =
    BuildUnknownFamily string string
  | BuildCodecTypeMismatch string string
  | DuplicateRecord string
  | ZeroReconciliationReservation string string
  | DuplicateReconciliationReservation string string
  | ReconciliationReservationOverflow string string
  | BuildCodec "('io, 'e) ReadError"

record MutationBuilder =
  mb_families :: "RegisteredFamily list"
  mb_pending :: "PendingMutation list"
  mb_touched :: "(usize \<times> bytes) set"

definition builder_new :: "RegisteredFamily list \<Rightarrow> MutationBuilder" where
  "builder_new families = \<lparr>mb_families = families, mb_pending = [], mb_touched = {}\<rparr>"

definition builder_family_slot ::
    "MutationBuilder \<Rightarrow> ('k, 'v, 'e) record_codec \<Rightarrow> ('io, 'e) MutationBuildError + usize" where
  "builder_family_slot mb c =
     and_then (ok_or (BuildUnknownFamily (c_domain c) (c_family c))
         (family_slot (mb_families mb) (c_family c))) (\<lambda>slot.
       if fam_codec_type (mb_families mb ! slot) \<noteq> c_type c
       then Inl (BuildCodecTypeMismatch (c_domain c) (c_family c)) else Inr slot)"

definition builder_push ::
    "MutationBuilder \<Rightarrow> string \<Rightarrow> usize \<Rightarrow> bytes \<Rightarrow> PendingAction \<Rightarrow> ('io, 'e) MutationBuildError + MutationBuilder" where
  "builder_push mb domain slot key action =
     (if (slot, key) \<in> mb_touched mb then Inl (DuplicateRecord domain)
      else Inr (mb\<lparr>mb_touched := insert (slot, key) (mb_touched mb),
                   mb_pending := mb_pending mb @
                     [\<lparr>pm_family_slot = slot, pm_key = key, pm_action = action\<rparr>]\<rparr>))"

definition builder_put ::
    "('k, 'v, 'e) record_codec \<Rightarrow> 'k \<Rightarrow> 'v \<Rightarrow> MutationBuilder \<Rightarrow> ('io, 'e) MutationBuildError + MutationBuilder" where
  "builder_put c key value mb =
     and_then (builder_family_slot mb c) (\<lambda>slot.
     and_then (map_err BuildCodec (encode_stored_key c key)) (\<lambda>k.
     and_then (map_err BuildCodec (store_encode_value c value)) (\<lambda>v.
       builder_push mb (c_domain c) slot k (Put v))))"

definition builder_delete ::
    "('k, 'v, 'e) record_codec \<Rightarrow> 'k \<Rightarrow> MutationBuilder \<Rightarrow> ('io, 'e) MutationBuildError + MutationBuilder" where
  "builder_delete c key mb =
     and_then (builder_family_slot mb c) (\<lambda>slot.
     and_then (map_err BuildCodec (encode_stored_key c key)) (\<lambda>k.
       builder_push mb (c_domain c) slot k Delete))"

section \<open>Effect of a committed batch\<close>

text \<open>
  The batch inserts or removes every pending record, in order, in the keyspace of its family;
  committing it yields the new contents.
\<close>

definition apply_mutation :: "RegisteredFamily list \<Rightarrow> contents \<Rightarrow> PendingMutation \<Rightarrow> contents" where
  "apply_mutation families m p =
     (let ks = fam_keyspace (families ! pm_family_slot p)
      in m(ks := (m ks)(pm_key p := (case pm_action p of Put v \<Rightarrow> Some v | Delete \<Rightarrow> None))))"

definition apply_pending :: "RegisteredFamily list \<Rightarrow> contents \<Rightarrow> PendingMutation list \<Rightarrow> contents" where
  "apply_pending families = foldl (apply_mutation families)"

section \<open>Reconciliation reservation\<close>

definition RECONCILIATION_DESCRIPTOR_FIXED_BYTES :: usize where
  "RECONCILIATION_DESCRIPTOR_FIXED_BYTES = 128"
definition RECONCILIATION_DOMAIN_FIXED_BYTES :: usize where
  "RECONCILIATION_DOMAIN_FIXED_BYTES = 128"
definition RECONCILIATION_RECORD_FIXED_BYTES :: usize where
  "RECONCILIATION_RECORD_FIXED_BYTES = 256"

record ReservedRecordQuota =
  quota_family :: string
  quota_codec_type :: string
  quota_count :: usize

record ReconciliationReservation =
  res_quotas :: "ReservedRecordQuota list"
  res_families :: "string set"
  res_descriptor_bytes :: usize

definition reservation_new :: ReconciliationReservation where
  "reservation_new = \<lparr>res_quotas = [], res_families = {},
     res_descriptor_bytes = usize_saturating_add RECONCILIATION_DESCRIPTOR_FIXED_BYTES
       RECONCILIATION_DOMAIN_FIXED_BYTES\<rparr>"

definition reserve_records ::
    "('k, 'v, 'e) record_codec \<Rightarrow> usize \<Rightarrow> ReconciliationReservation \<Rightarrow>
     ('io, 'e) MutationBuildError + ReconciliationReservation" where
  "reserve_records c count r =
     (if count = 0 then Inl (ZeroReconciliationReservation (c_domain c) (c_family c))
      else if c_family c \<in> res_families r
      then Inl (DuplicateReconciliationReservation (c_domain c) (c_family c))
      else
        let overflow = ReconciliationReservationOverflow (c_domain c) (c_family c);
            stored_value = usize_saturating_add (c_max_value_bytes c) RECORD_VERSION_BYTES
        in and_then (ok_or overflow
             (Option.bind (Option.bind
                (usize_checked_add RECONCILIATION_RECORD_FIXED_BYTES (c_max_key_bytes c))
                (\<lambda>bytes. usize_checked_add bytes stored_value))
                (\<lambda>bytes. usize_checked_add bytes stored_value))) (\<lambda>per_record.
           and_then (ok_or overflow (usize_checked_mul per_record count)) (\<lambda>total.
           and_then (ok_or overflow (usize_checked_add (res_descriptor_bytes r) total)) (\<lambda>descriptor.
             Inr (r\<lparr>res_families := insert (c_family c) (res_families r),
                    res_descriptor_bytes := descriptor,
                    res_quotas := res_quotas r @ [\<lparr>quota_family = c_family c,
                      quota_codec_type = c_type c, quota_count = count\<rparr>]\<rparr>)))))"

section \<open>Laws of the builder\<close>

definition pending_contents :: "contents \<Rightarrow> MutationBuilder \<Rightarrow> contents" where
  "pending_contents m mb = apply_pending (mb_families mb) m (mb_pending mb)"

lemma pending_contents_new [simp]: "pending_contents m (builder_new fs) = m"
  by (simp add: pending_contents_def builder_new_def apply_pending_def)

lemma mb_families_new [simp]: "mb_families (builder_new fs) = fs"
  by (simp add: builder_new_def)

lemma builder_push_eq_Inr:
  "builder_push mb d slot key action = Inr mb' \<longleftrightarrow> (slot, key) \<notin> mb_touched mb \<and>
     mb' = mb\<lparr>mb_touched := insert (slot, key) (mb_touched mb),
              mb_pending := mb_pending mb @
                [\<lparr>pm_family_slot = slot, pm_key = key, pm_action = action\<rparr>]\<rparr>"
  by (auto simp: builder_push_def)

lemma serves_slot:
  assumes "serves fs c ks"
  obtains slot where "family_slot fs (c_family c) = Some slot" "fam_codec_type (fs ! slot) = c_type c"
    "fam_keyspace (fs ! slot) = ks"
  using assms by (auto simp: serves_def family_of_def)

lemma table_rep_cong:
  "m ks = m' ks \<Longrightarrow> table_rep c kenc venc kok vok m ks T \<longleftrightarrow> table_rep c kenc venc kok vok m' ks T"
  by (simp add: table_rep_def)

context typed_family
begin

lemma table_rep_put:
  assumes "table_rep c kenc venc kok vok m ks T" and "kok k" "vok v"
  shows "table_rep c kenc venc kok vok (m(ks := (m ks)(kenc k \<mapsto> stored_as c venc v))) ks (T(k \<mapsto> v))"
  using assms kenc_inj unfolding table_rep_def by (auto split: if_splits)

lemma table_rep_delete:
  assumes "table_rep c kenc venc kok vok m ks T" and "kok k"
  shows "table_rep c kenc venc kok vok (m(ks := (m ks)(kenc k := None))) ks (T(k := None))"
  using assms kenc_inj unfolding table_rep_def by (auto split: if_splits)

lemma builder_put_effect:
  assumes "serves (mb_families mb) c ks" and "kok k" "vok v"
    and "builder_put c k v mb = (Inr mb' :: ('io, 'e) MutationBuildError + _)"
  shows "mb_families mb' = mb_families mb \<and>
    pending_contents m mb' =
      (pending_contents m mb)(ks := (pending_contents m mb ks)(kenc k \<mapsto> stored_as c venc v))"
proof -
  obtain slot where "family_slot (mb_families mb) (c_family c) = Some slot"
    "fam_codec_type (mb_families mb ! slot) = c_type c" "fam_keyspace (mb_families mb ! slot) = ks"
    using serves_slot [OF assms(1)] by blast
  with assms(2-4) show ?thesis
    by (auto simp: builder_put_def builder_family_slot_def builder_push_eq_Inr encode_stored_key_ok
        store_encode_value_ok pending_contents_def apply_pending_def apply_mutation_def)
qed

lemma builder_delete_effect:
  assumes "serves (mb_families mb) c ks" and "kok k"
    and "builder_delete c k mb = (Inr mb' :: ('io, 'e) MutationBuildError + _)"
  shows "mb_families mb' = mb_families mb \<and>
    pending_contents m mb' =
      (pending_contents m mb)(ks := (pending_contents m mb ks)(kenc k := None))"
proof -
  obtain slot where "family_slot (mb_families mb) (c_family c) = Some slot"
    "fam_codec_type (mb_families mb ! slot) = c_type c" "fam_keyspace (mb_families mb ! slot) = ks"
    using serves_slot [OF assms(1)] by blast
  with assms(2-3) show ?thesis
    by (auto simp: builder_delete_def builder_family_slot_def builder_push_eq_Inr encode_stored_key_ok
        pending_contents_def apply_pending_def apply_mutation_def)
qed

lemma builder_put_succeeds:
  assumes "serves (mb_families mb) c ks" and "kok k" "vok v"
    and fresh: "\<And>slot. family_slot (mb_families mb) (c_family c) = Some slot \<Longrightarrow>
      (slot, kenc k) \<notin> mb_touched mb"
  shows "\<exists>mb' slot. builder_put c k v mb = (Inr mb' :: ('io, 'e) MutationBuildError + _) \<and>
    mb_families mb' = mb_families mb \<and> family_slot (mb_families mb) (c_family c) = Some slot \<and>
    mb_touched mb' = insert (slot, kenc k) (mb_touched mb)"
proof -
  obtain slot where "family_slot (mb_families mb) (c_family c) = Some slot"
    "fam_codec_type (mb_families mb ! slot) = c_type c" "fam_keyspace (mb_families mb ! slot) = ks"
    using serves_slot [OF assms(1)] by blast
  with assms(2,3) fresh show ?thesis
    by (auto simp: builder_put_def builder_family_slot_def builder_push_def encode_stored_key_ok
        store_encode_value_ok)
qed

lemma builder_delete_succeeds:
  assumes "serves (mb_families mb) c ks" and "kok k"
    and fresh: "\<And>slot. family_slot (mb_families mb) (c_family c) = Some slot \<Longrightarrow>
      (slot, kenc k) \<notin> mb_touched mb"
  shows "\<exists>mb' slot. builder_delete c k mb = (Inr mb' :: ('io, 'e) MutationBuildError + _) \<and>
    mb_families mb' = mb_families mb \<and> family_slot (mb_families mb) (c_family c) = Some slot \<and>
    mb_touched mb' = insert (slot, kenc k) (mb_touched mb)"
proof -
  obtain slot where "family_slot (mb_families mb) (c_family c) = Some slot"
    "fam_codec_type (mb_families mb ! slot) = c_type c" "fam_keyspace (mb_families mb ! slot) = ks"
    using serves_slot [OF assms(1)] by blast
  with assms(2) fresh show ?thesis
    by (auto simp: builder_delete_def builder_family_slot_def builder_push_def encode_stored_key_ok)
qed

end

end
