(* ===== verification/Home_Paging.thy ===== *)
theory Home_Paging
  imports Home_Command
begin

text \<open>
  The paged scan that every validator of a domain runs: read a bounded page, check its records,
  continue after its last key until the cursor reports no more. The scan ends, visits exactly
  the entries of the table in key order, and its checks see each entry once.
\<close>

section \<open>The loop\<close>

fun try_fold :: "('s \<Rightarrow> 'a \<Rightarrow> 'e + 's) \<Rightarrow> 'a list \<Rightarrow> 's \<Rightarrow> 'e + 's" where
  "try_fold body [] st = Inr st"
| "try_fold body (x # xs) st = and_then (body st x) (try_fold body xs)"

lemma try_fold_append: "try_fold body (xs @ ys) st = and_then (try_fold body xs st) (try_fold body ys)"
  by (induction xs arbitrary: st) (auto simp: and_then_assoc fun_eq_iff intro: and_then_cong)

text \<open>
  \<open>stuck\<close> is the error of a cursor that reports more without a record. Not returning is \<open>None\<close>.
\<close>

partial_function (option) page_loop ::
    "('k option \<Rightarrow> 'e + ('k, 'v) CursorPage) \<Rightarrow> ('s \<Rightarrow> 'k \<times> 'v \<Rightarrow> 'e + 's) \<Rightarrow> ('s \<Rightarrow> 'e + 'r) \<Rightarrow> 'e \<Rightarrow>
     'k option \<Rightarrow> 's \<Rightarrow> ('e + 'r) option" where
  "page_loop read body finish stuck after st =
     (case read after of
        Inl e \<Rightarrow> Some (Inl e)
      | Inr page \<Rightarrow> (case try_fold body (records page) st of
          Inl e \<Rightarrow> Some (Inl e)
        | Inr st' \<Rightarrow>
            if \<not> has_more page then Some (finish st')
            else if records page = [] then Some (Inl stuck)
            else page_loop read body finish stuck (Some (fst (last (records page)))) st'))"

declare page_loop.simps [code]

lemma try_fold_unit: "try_fold f xs () = Inr () \<longleftrightarrow> (\<forall>x\<in>set xs. f () x = Inr ())"
  by (induction xs) (auto simp: and_then_eq_Inr)

text \<open>The page that the list operations of \<^verbatim>\<open>beryl-state\<close> return.\<close>

record 'r StatePage =
  page_records :: "'r list"
  page_stored_bytes :: usize
  page_decoded_bytes :: usize
  page_has_more :: bool

section \<open>Entries in key order\<close>

lemma sorted_wrt_unique:
  assumes "\<And>x y. P x y \<Longrightarrow> \<not> P y x" and "sorted_wrt P xs" and "sorted_wrt P ys" and "set xs = set ys"
  shows "xs = ys"
  using assms(2-4)
proof (induction xs arbitrary: ys)
  case Nil
  then show ?case by simp
next
  case (Cons x xs)
  then obtain y zs where ys: "ys = y # zs" by (cases ys) auto
  have irrefl: "\<not> P z z" for z using assms(1) by blast
  have "x \<in> set (y # zs)" "y \<in> set (x # xs)" using Cons.prems(3) by (auto simp: ys)
  then have xy: "x = y"
    using Cons.prems(1,2) assms(1) [of x y] by (auto simp: ys)
  have "x \<notin> set xs" "x \<notin> set zs" using Cons.prems irrefl xy by (auto simp: ys)
  then have "set xs = set zs" using Cons.prems(3) xy by (auto simp: ys)
  then show ?case using Cons.IH [of zs] Cons.prems xy by (simp add: ys)
qed

lemma entries_in_unique: "\<lbrakk>entries_in kenc T p xs; entries_in kenc T p ys\<rbrakk> \<Longrightarrow> xs = ys"
  unfolding entries_in_def by (rule sorted_wrt_unique [where P = "\<lambda>a b. kenc (fst a) < kenc (fst b)"]) auto

lemma entries_in_cong:
  "(\<And>k v. T k = Some v \<Longrightarrow> p (kenc k) = q (kenc k)) \<Longrightarrow> entries_in kenc T p xs = entries_in kenc T q xs"
  unfolding entries_in_def by (rule conj_cong) auto

lemma entries_in_mem: "\<lbrakk>entries_in kenc T p xs; x \<in> set xs\<rbrakk> \<Longrightarrow> T (fst x) = Some (snd x) \<and> p (kenc (fst x))"
  by (auto simp: entries_in_def)

lemma entries_in_suffix:
  assumes "entries_in kenc T p (ys @ zs)" and "ys \<noteq> []"
  shows "entries_in kenc T (\<lambda>b. p b \<and> kenc (fst (last ys)) < b) zs"
proof -
  have sorted: "sorted_wrt (\<lambda>a b. kenc (fst a) < kenc (fst b)) (ys @ zs)"
    and entries: "set ys \<union> set zs = {(k, v). T k = Some v \<and> p (kenc k)}"
    using assms(1) by (simp_all add: entries_in_def)
  have above: "kenc (fst (last ys)) < kenc (fst z)" if "z \<in> set zs" for z
    using sorted that assms(2) by (simp add: sorted_wrt_append)
  have upto: "kenc (fst y) \<le> kenc (fst (last ys))" if "y \<in> set ys" for y
  proof -
    obtain init where "ys = init @ [last ys]" using assms(2) by (metis append_butlast_last_id)
    with that have "y \<in> set init \<or> y = last ys" by (metis Un_iff empty_iff insert_iff list.set set_append)
    moreover have "sorted_wrt (\<lambda>a b. kenc (fst a) < kenc (fst b)) (init @ [last ys])"
      using sorted \<open>ys = init @ [last ys]\<close> by (simp add: sorted_wrt_append)
    ultimately show ?thesis by (auto simp: sorted_wrt_append)
  qed
  have "set zs = {(k, v). T k = Some v \<and> p (kenc k) \<and> kenc (fst (last ys)) < kenc k}"
  proof (intro set_eqI iffI)
    show "x \<in> {(k, v). T k = Some v \<and> p (kenc k) \<and> kenc (fst (last ys)) < kenc k}" if "x \<in> set zs" for x
      using that entries above [OF that] by auto
    show "x \<in> set zs" if "x \<in> {(k, v). T k = Some v \<and> p (kenc k) \<and> kenc (fst (last ys)) < kenc k}" for x
    proof -
      have "x \<in> set ys \<union> set zs" using that entries by auto
      then show ?thesis using that upto [of x] by auto
    qed
  qed
  then show ?thesis using sorted by (simp add: entries_in_def sorted_wrt_append)
qed

section \<open>Laws of the scan\<close>

definition key_range :: "'k \<Rightarrow> 'k \<Rightarrow> 'k option \<Rightarrow> 'k CursorRange" where
  "key_range lo up after = (case after of None \<Rightarrow> range_closed lo up | Some k \<Rightarrow> range_after k up)"

definition last_key :: "('k \<times> 'v) list \<Rightarrow> 'k option" where
  "last_key xs = (if xs = [] then None else Some (fst (last xs)))"

lemma last_key_append: "ys \<noteq> [] \<Longrightarrow> last_key (xs @ ys) = Some (fst (last ys))"
  by (simp add: last_key_def)

text \<open>The keys of a keyspace that a scan between two bounds reaches.\<close>

definition keys_within :: "contents \<Rightarrow> keyspace \<Rightarrow> bytes \<Rightarrow> bytes \<Rightarrow> bool" where
  "keys_within m ks lo up \<longleftrightarrow> (\<forall>b\<in>dom (m ks). lo \<le> b \<and> b \<le> up)"

context typed_family
begin

lemma page_entries:
  assumes all: "entries_in kenc T (\<lambda>_. True) (seen @ rest)"
    and range: "\<forall>k\<in>dom T. kenc lo \<le> kenc k \<and> kenc k \<le> kenc up"
  shows "entries_in kenc T (\<lambda>b. above (map_bound kenc (range_start (key_range lo up (last_key seen)))) b \<and>
    below (map_bound kenc (range_end (key_range lo up (last_key seen)))) b) rest"
proof (cases "seen = []")
  case True
  then show ?thesis
    using all range by (simp add: key_range_def last_key_def range_closed_def entries_in_def set_eq_iff) blast
next
  case False
  have "entries_in kenc T (\<lambda>b. True \<and> kenc (fst (last seen)) < b) rest"
    by (rule entries_in_suffix [OF all False])
  then show ?thesis
    using False range
    by (simp add: key_range_def last_key_def range_after_def)
      (subst entries_in_cong [where q = "\<lambda>b. kenc (fst (last seen)) < b"], auto simp: domIff)
qed

lemma page_step:
  fixes rd :: "'io DomainReader"
  assumes sn: "snapshot_of (rd_snapshot rd) m" and fam: "serves (rd_families rd) c ks"
    and rep: "table_rep c kenc venc kok vok m ks T" and items: "0 < max_items limits"
    and all: "entries_in kenc T (\<lambda>_. True) (seen @ rest)"
    and range: "\<forall>k\<in>dom T. kenc lo \<le> kenc k \<and> kenc k \<le> kenc up"
    and read: "read_cursor rd c (key_range lo up (last_key seen)) Forward limits = Inr page"
  shows "\<exists>zs. rest = records page @ zs \<and> (has_more page \<longleftrightarrow> zs \<noteq> []) \<and> (zs \<noteq> [] \<longrightarrow> records page \<noteq> [])"
proof -
  obtain xs ys zs where "entries_in kenc T
      (\<lambda>b. above (map_bound kenc (range_start (key_range lo up (last_key seen)))) b \<and>
        below (map_bound kenc (range_end (key_range lo up (last_key seen)))) b) xs"
    and "xs = ys @ zs" "records page = ys" "has_more page \<longleftrightarrow> zs \<noteq> []" "zs \<noteq> [] \<Longrightarrow> ys \<noteq> []"
    by (rule read_cursor_table [OF sn fam rep items read]) blast
  moreover from this(1) have "xs = rest" by (rule entries_in_unique) (rule page_entries [OF all range])
  ultimately show ?thesis by blast
qed

text \<open>
  The scan returns whatever bytes the keyspace holds: a page that does not fail has decoded its keys,
  a decoded key is encoded as it is stored, and the next page starts behind it.
\<close>

lemma cursor_loop_keys:
  fixes its :: "('io + 'io cursor_item) list"
  assumes "cursor_loop c limits its recs st de = (Inr page :: ('io, 'e) ReadError + _)" "cursor_agrees its kvs"
    and "x \<in> set (records page)"
  shows "x \<in> set recs \<or> kenc (fst x) \<in> fst ` set kvs"
  using assms
proof (induction its arbitrary: kvs recs st de)
  case (Cons it its)
  then obtain current where it: "it = Inr current" by (cases it) auto
  with Cons.prems(2) obtain kv kvs' where kvs: "kvs = kv # kvs'" and match: "item_matches current kv" and agrees: "cursor_agrees its kvs'"
    by (cases kvs) auto
  show ?case
  proof (cases "page = cursor_page recs st de True")
    case False
    with Cons.prems(1) it obtain nt rec n nd where
      dec: "cursor_decode_item c (max_bytes limits) current = (Inr (rec, n) :: ('io, 'e) ReadError + _)"
      and loop: "cursor_loop c limits its (recs @ [rec]) nt nd = Inr page"
      by (auto simp: and_then_eq_Inr split: if_splits)
    have "kenc (fst rec) = fst kv"
      using dec match by (auto simp: cursor_decode_item_def item_matches_def and_then_eq_Inr decode_stored_key_iff)
    with Cons.IH [OF loop agrees Cons.prems(3)] show ?thesis by (auto simp: kvs)
  qed (use Cons.prems(3) in \<open>simp add: cursor_page_def\<close>)
qed (auto simp: cursor_page_def)

lemma page_keys:
  fixes rd :: "'io DomainReader"
  assumes sn: "snapshot_of (rd_snapshot rd) m" and fam: "serves (rd_families rd) c ks"
    and read: "read_cursor rd c (key_range lo up after) Forward limits = (Inr page :: ('io, 'e) ReadError + _)" and x: "x \<in> set (records page)"
  shows "kenc (fst x) \<in> dom (m ks) \<and> (\<forall>k. after = Some k \<longrightarrow> kenc k < kenc (fst x))"
proof -
  obtain f where f: "resolve_family (rd_families rd) c = (Inr f :: ('io, 'e) ReadError + _)" "fam_keyspace f = ks"
    using resolve_serves [OF fam] by blast
  from read f obtain s e its where bounds: "encode_bound c (range_start (key_range lo up after)) = (Inr s :: ('io, 'e) ReadError + _)"
      "encode_bound c (range_end (key_range lo up after)) = (Inr e :: ('io, 'e) ReadError + _)"
    and its: "snap_cursor (rd_snapshot rd) ks Forward s e = Inr its" and loop: "cursor_loop c limits its [] 0 0 = (Inr page :: ('io, 'e) ReadError + _)"
    by (auto simp: read_cursor_def and_then_eq_Inr split: if_splits)
  from cursor_loop_keys [OF loop snapshot_of_cursor [OF sn its] x]
  have "kenc (fst x) \<in> fst ` set (scan m ks Forward s e)" by simp
  moreover have "finite (dom (m ks))" using sn by (simp add: snapshot_of_def)
  ultimately have "kenc (fst x) \<in> dom (m ks)" "above s (kenc (fst x))"
    by (auto simp: scan_def directed_def scan_keys_def)
  with encode_bound_eq_Inr [OF bounds(1)] show ?thesis by (auto simp: key_range_def range_after_def)
qed

lemma page_loop_returns:
  fixes rd :: "'io DomainReader" and lift :: "('io, 'e) ReadError \<Rightarrow> 'f"
  assumes sn: "snapshot_of (rd_snapshot rd) m" and fam: "serves (rd_families rd) c ks"
    and read: "\<And>after. read after = map_err lift (read_cursor rd c (key_range lo up after) Forward limits)"
  shows "\<exists>res. page_loop read body finish stuck after st = Some res"
proof (induction "case after of None \<Rightarrow> Suc (card (dom (m ks))) | Some k \<Rightarrow> card {b \<in> dom (m ks). kenc k < b}"
    arbitrary: after st rule: less_induct)
  case less
  have fin: "finite (dom (m ks))" using sn by (simp add: snapshot_of_def)
  show ?case
  proof (cases "read_cursor rd c (key_range lo up after) Forward limits")
    case (Inr page)
    have "\<exists>res. page_loop read body finish stuck (Some (fst (last (records page)))) st' = Some res" if "records page \<noteq> []" for st'
    proof (rule less)
      let ?k = "fst (last (records page))"
      from page_keys [OF sn fam Inr] that have k: "kenc ?k \<in> dom (m ks)" "\<forall>k. after = Some k \<longrightarrow> kenc k < kenc ?k" by auto
      have "{b \<in> dom (m ks). kenc ?k < b} \<subset> dom (m ks)" using k(1) by auto
      then have "card {b \<in> dom (m ks). kenc ?k < b} < card (dom (m ks))" using fin by (rule psubset_card_mono [rotated])
      moreover have "card {b \<in> dom (m ks). kenc ?k < b} < card {b \<in> dom (m ks). kenc k < b}" if "after = Some k" for k
        using fin k that by (intro psubset_card_mono) auto
      ultimately show "(case Some ?k of None \<Rightarrow> Suc (card (dom (m ks))) | Some k \<Rightarrow> card {b \<in> dom (m ks). kenc k < b}) <
          (case after of None \<Rightarrow> Suc (card (dom (m ks))) | Some k \<Rightarrow> card {b \<in> dom (m ks). kenc k < b})"
        by (cases after) simp_all
    qed
    then show ?thesis by (subst page_loop.simps) (auto simp: read Inr split: sum.split)
  qed (subst page_loop.simps, simp add: read)
qed

lemma cursor_loop_prefix:
  fixes its :: "('io + 'io cursor_item) list"
  assumes "cursor_loop c limits its recs st de = (Inr page :: ('io, 'e) ReadError + _)" "cursor_agrees its kvs"
  shows "\<exists>ys zs. records page = recs @ ys \<and> kvs = map (\<lambda>x. (kenc (fst x), stored_as c venc (snd x))) ys @ zs \<and>
    (\<forall>x\<in>set ys. kok (fst x) \<and> vok (snd x)) \<and> (\<not> has_more page \<longrightarrow> zs = [])"
  using assms
proof (induction its arbitrary: kvs recs st de)
  case (Cons it its)
  then obtain current where it: "it = Inr current" by (cases it) auto
  with Cons.prems(2) obtain kv kvs' where kvs: "kvs = kv # kvs'" and match: "item_matches current kv" and agrees: "cursor_agrees its kvs'"
    by (cases kvs) auto
  show ?case
  proof (cases "page = cursor_page recs st de True")
    case False
    with Cons.prems(1) it obtain nt rec n nd where
      dec: "cursor_decode_item c (max_bytes limits) current = (Inr (rec, n) :: ('io, 'e) ReadError + _)"
      and loop: "cursor_loop c limits its (recs @ [rec]) nt nd = Inr page"
      by (auto simp: and_then_eq_Inr split: if_splits)
    have rec: "kv = (kenc (fst rec), stored_as c venc (snd rec))" "kok (fst rec)" "vok (snd rec)"
      using dec match by (auto simp: cursor_decode_item_def item_matches_def and_then_eq_Inr decode_stored_key_iff decode_stored_value_iff)
    obtain ys zs where "records page = (recs @ [rec]) @ ys" "kvs' = map (\<lambda>x. (kenc (fst x), stored_as c venc (snd x))) ys @ zs"
        "\<forall>x\<in>set ys. kok (fst x) \<and> vok (snd x)" "\<not> has_more page \<longrightarrow> zs = []"
      using Cons.IH [OF loop agrees] by blast
    then show ?thesis using rec kvs by (intro exI [of _ "rec # ys"] exI [of _ zs]) simp
  qed (simp add: cursor_page_def)
qed (auto simp: cursor_page_def)

text \<open>The records of a page, and whether they are all that is stored in its range.\<close>

lemma page_decodes:
  fixes rd :: "'io DomainReader"
  assumes sn: "snapshot_of (rd_snapshot rd) m" and fam: "serves (rd_families rd) c ks"
    and read: "read_cursor rd c (key_range lo up after) Forward limits = (Inr page :: ('io, 'e) ReadError + _)"
    and b: "m ks b = Some w" "above (map_bound kenc (range_start (key_range lo up after))) b"
      "below (map_bound kenc (range_end (key_range lo up after))) b"
  shows "(\<exists>x\<in>set (records page). kok (fst x) \<and> vok (snd x) \<and> b = kenc (fst x) \<and> w = stored_as c venc (snd x)) \<or>
    has_more page \<and> (records page \<noteq> [] \<longrightarrow> kenc (fst (last (records page))) < b)"
proof -
  let ?stored = "\<lambda>x. (kenc (fst x), stored_as c venc (snd x))"
  obtain f where f: "resolve_family (rd_families rd) c = (Inr f :: ('io, 'e) ReadError + _)" "fam_keyspace f = ks"
    using resolve_serves [OF fam] by blast
  from read f obtain s e its where bounds: "encode_bound c (range_start (key_range lo up after)) = (Inr s :: ('io, 'e) ReadError + _)"
      "encode_bound c (range_end (key_range lo up after)) = (Inr e :: ('io, 'e) ReadError + _)"
    and its: "snap_cursor (rd_snapshot rd) ks Forward s e = Inr its" and loop: "cursor_loop c limits its [] 0 0 = (Inr page :: ('io, 'e) ReadError + _)"
    by (auto simp: read_cursor_def and_then_eq_Inr split: if_splits)
  have fin: "finite (dom (m ks))" using sn by (simp add: snapshot_of_def)
  obtain zs where scan: "scan m ks Forward s e = map ?stored (records page) @ zs"
      and ok: "\<forall>x\<in>set (records page). kok (fst x) \<and> vok (snd x)" and more: "\<not> has_more page \<longrightarrow> zs = []"
    using cursor_loop_prefix [OF loop snapshot_of_cursor [OF sn its]] by auto
  have "(b, w) \<in> set (scan m ks Forward s e)"
    using b encode_bound_eq_Inr [OF bounds(1)] encode_bound_eq_Inr [OF bounds(2)] fin
    by (force simp: scan_def directed_def scan_keys_def)
  then consider "(b, w) \<in> set (map ?stored (records page))" | "(b, w) \<in> set zs" by (auto simp: scan)
  then show ?thesis
  proof cases
    case 2
    have "sorted_wrt (<) (map fst (scan m ks Forward s e))"
      by (simp add: scan_def directed_def scan_keys_def comp_def)
    then have "sorted_wrt (<) (map (kenc \<circ> fst) (records page) @ map fst zs)" by (simp add: scan comp_def)
    then have "\<forall>x\<in>set (records page). kenc (fst x) < b" using 2 by (fastforce simp: sorted_wrt_append)
    then show ?thesis using more 2 by auto
  qed (use ok in auto)
qed

text \<open>A scan that succeeds has decoded every record that is stored in its range.\<close>

lemma page_loop_decodes:
  fixes rd :: "'io DomainReader" and lift :: "('io, 'e) ReadError \<Rightarrow> 'f"
  assumes sn: "snapshot_of (rd_snapshot rd) m" and fam: "serves (rd_families rd) c ks"
    and read: "\<And>after. read after = map_err lift (read_cursor rd c (key_range lo up after) Forward limits)"
  shows "\<lbrakk>page_loop read body finish stuck after st = Some (Inr r); m ks b = Some w;
      above (map_bound kenc (range_start (key_range lo up after))) b; below (map_bound kenc (range_end (key_range lo up after))) b\<rbrakk> \<Longrightarrow>
    \<exists>k v. kok k \<and> vok v \<and> b = kenc k \<and> w = stored_as c venc v"
proof (induction "case after of None \<Rightarrow> Suc (card (dom (m ks))) | Some k \<Rightarrow> card {b \<in> dom (m ks). kenc k < b}"
    arbitrary: after st rule: less_induct)
  case less
  have fin: "finite (dom (m ks))" using sn by (simp add: snapshot_of_def)
  from less.prems(1) obtain page st' where page: "read_cursor rd c (key_range lo up after) Forward limits = Inr page"
      and rest: "has_more page \<longrightarrow> records page \<noteq> [] \<and>
        page_loop read body finish stuck (Some (fst (last (records page)))) st' = Some (Inr r)"
    by (subst (asm) page_loop.simps) (auto simp: read split: sum.splits if_splits)
  let ?k = "fst (last (records page))"
  from page_decodes [OF sn fam page less.prems(2-4)] show ?case
  proof (elim disjE)
    assume more: "has_more page \<and> (records page \<noteq> [] \<longrightarrow> kenc ?k < b)"
    with rest have run: "page_loop read body finish stuck (Some ?k) st' = Some (Inr r)" and ne: "records page \<noteq> []" and b: "kenc ?k < b" by auto
    from page_keys [OF sn fam page] ne have k: "kenc ?k \<in> dom (m ks)" "\<forall>k. after = Some k \<longrightarrow> kenc k < kenc ?k" by auto
    have "card {b \<in> dom (m ks). kenc ?k < b} < card (dom (m ks))" using fin k(1) by (intro psubset_card_mono) auto
    moreover have "card {b \<in> dom (m ks). kenc ?k < b} < card {b \<in> dom (m ks). kenc k < b}" if "after = Some k" for k
      using fin k that by (intro psubset_card_mono) auto
    ultimately have less': "(case Some ?k of None \<Rightarrow> Suc (card (dom (m ks))) | Some k \<Rightarrow> card {b \<in> dom (m ks). kenc k < b}) <
        (case after of None \<Rightarrow> Suc (card (dom (m ks))) | Some k \<Rightarrow> card {b \<in> dom (m ks). kenc k < b})"
      by (cases after) simp_all
    show ?thesis
      by (rule less.hyps [OF less' run less.prems(2)]) (use b less.prems(4) in \<open>auto simp: key_range_def range_after_def range_closed_def split: option.splits\<close>)
  qed blast
qed

lemma decoded_table:
  assumes "\<And>b w. m ks b = Some w \<Longrightarrow> \<exists>k v. kok k \<and> vok v \<and> b = kenc k \<and> w = stored_as c venc v"
  shows "\<exists>T. table_rep c kenc venc kok vok m ks T"
proof -
  define T where "T k = (if kok k then map_option (\<lambda>w. SOME v. vok v \<and> w = stored_as c venc v) (m ks (kenc k)) else None)" for k
  have val: "vok (SOME v. vok v \<and> w = stored_as c venc v) \<and> w = stored_as c venc (SOME v. vok v \<and> w = stored_as c venc v)"
    if "m ks b = Some w" for b w
    using assms [OF that] by (intro someI_ex [of "\<lambda>v. vok v \<and> w = stored_as c venc v"]) blast
  show ?thesis
    unfolding table_rep_def
  proof (intro exI [of _ T] conjI allI impI)
    fix k assume "kok k"
    then show "m ks (kenc k) = map_option (stored_as c venc) (T k)"
      using val by (cases "m ks (kenc k)") (auto simp: T_def)
  next
    fix bs w assume "m ks bs = Some w"
    then show "\<exists>k. kok k \<and> bs = kenc k" using assms by blast
  qed (use val in \<open>auto simp: T_def split: if_splits\<close>)
qed

lemma scan_table:
  fixes rd :: "'io DomainReader" and lift :: "('io, 'e) ReadError \<Rightarrow> 'f"
  assumes sn: "snapshot_of (rd_snapshot rd) m" and fam: "serves (rd_families rd) c ks"
    and read: "\<And>after. read after = map_err lift (read_cursor rd c (key_range lo up after) Forward limits)"
    and ok: "page_loop read body finish stuck None st = Some (Inr r)" and keys: "keys_within m ks (kenc lo) (kenc up)"
  shows "\<exists>T. table_rep c kenc venc kok vok m ks T"
proof (rule decoded_table)
  fix b w assume "m ks b = Some w"
  with keys show "\<exists>k v. kok k \<and> vok v \<and> b = kenc k \<and> w = stored_as c venc v"
    by (intro page_loop_decodes [OF sn fam read ok]) (auto simp: keys_within_def key_range_def range_closed_def)
qed

text \<open>If the keyspace holds a table, a successful scan is the fold of its checks over the entries that are left.\<close>

lemma page_loop_scans:
  fixes rd :: "'io DomainReader" and lift :: "('io, 'e) ReadError \<Rightarrow> 'f"
  assumes sn: "snapshot_of (rd_snapshot rd) m" and fam: "serves (rd_families rd) c ks"
    and rep: "table_rep c kenc venc kok vok m ks T" and items: "0 < max_items limits"
    and range: "\<forall>k\<in>dom T. kenc lo \<le> kenc k \<and> kenc k \<le> kenc up"
    and read: "\<And>after. read after = map_err lift (read_cursor rd c (key_range lo up after) Forward limits)"
    and all: "entries_in kenc T (\<lambda>_. True) (seen @ rest)"
  shows "\<exists>res. page_loop read body finish stuck (last_key seen) st = Some res \<and>
    (\<forall>r. res = Inr r \<longrightarrow> and_then (try_fold body rest st) finish = Inr r)"
  using all
proof (induction "length rest" arbitrary: seen rest st rule: less_induct)
  case less
  show ?case
  proof (cases "read_cursor rd c (key_range lo up (last_key seen)) Forward limits")
    case (Inl e)
    then show ?thesis by (subst page_loop.simps) (simp add: read)
  next
    case (Inr page)
    obtain zs where zs: "rest = records page @ zs" "has_more page \<longleftrightarrow> zs \<noteq> []" "zs \<noteq> [] \<longrightarrow> records page \<noteq> []"
      using page_step [OF sn fam rep items less.prems range Inr] by blast
    show ?thesis
    proof (cases "try_fold body (records page) st")
      case (Inl e)
      then show ?thesis using Inr by (subst page_loop.simps) (simp add: read)
    next
      case fold: (Inr st')
      show ?thesis
      proof (cases "zs = []")
        case True
        then show ?thesis using Inr fold zs by (subst page_loop.simps) (simp add: read)
      next
        case False
        with less.hyps [of zs "seen @ records page" st'] less.prems zs
        obtain res where "page_loop read body finish stuck (last_key (seen @ records page)) st' = Some res"
          "\<forall>r. res = Inr r \<longrightarrow> and_then (try_fold body zs st') finish = Inr r"
          by auto
        then show ?thesis using False Inr fold zs
          by (subst page_loop.simps) (auto simp: read last_key_append try_fold_append)
      qed
    qed
  qed
qed

lemma page_reads:
  fixes rd :: "'io DomainReader"
  assumes sn: "snapshot_reliable (rd_snapshot rd) m" and fam: "serves (rd_families rd) c ks"
    and rep: "table_rep c kenc venc kok vok m ks T"
    and all: "entries_in kenc T (\<lambda>_. True) (seen @ rest)" and left: "seen = [] \<or> rest \<noteq> []"
    and range: "\<forall>k\<in>dom T. kenc lo \<le> kenc k \<and> kenc k \<le> kenc up"
    and bounds: "kenc lo \<le> kenc up" "0 < length (kenc lo)" "length (kenc lo) \<le> c_max_key_bytes c"
      "0 < length (kenc up)" "length (kenc up) \<le> c_max_key_bytes c"
    and fits: "c_max_key_bytes c + 4 + c_max_value_bytes c \<le> max_bytes limits"
    and usize: "2 * max_bytes limits \<le> usize_max"
  shows "\<exists>page. read_cursor rd c (key_range lo up (last_key seen)) Forward limits = Inr page"
proof -
  have sizes: "length (kenc k) + 4 + length (venc v) \<le> max_bytes limits" if "T k = Some v" for k v
    using table_rep_ok [OF rep that] kenc_bounds [of k] venc_bound [of v] fits by simp
  have key: "0 < length (kenc k) \<and> length (kenc k) \<le> c_max_key_bytes c" if "k \<in> dom T" for k
    using that table_rep_ok [OF rep] kenc_bounds by blast
  show ?thesis
  proof (cases "seen = []")
    case True
    with bounds sizes usize show ?thesis
      by (intro read_cursor_table_complete [OF sn fam rep])
        (auto simp: key_range_def last_key_def range_closed_def range_nonempty_def)
  next
    case False
    then obtain z where z: "z \<in> set rest" using left by (cases rest) auto
    have "last seen \<in> set (seen @ rest)" "z \<in> set (seen @ rest)" using False z by auto
    then have dom: "fst (last seen) \<in> dom T" "fst z \<in> dom T"
      using entries_in_mem [OF all] by blast+
    have "kenc (fst (last seen)) < kenc (fst z)"
      using all False z by (simp add: entries_in_def sorted_wrt_append)
    moreover have "kenc (fst z) \<le> kenc up" using range dom(2) by blast
    ultimately have "kenc (fst (last seen)) < kenc up" by simp
    with False bounds sizes usize key [OF dom(1)] show ?thesis
      by (intro read_cursor_table_complete [OF sn fam rep])
        (auto simp: key_range_def last_key_def range_after_def range_nonempty_def)
  qed
qed

text \<open>On a reliable snapshot the scan is the fold of its checks over all entries.\<close>

lemma page_loop_complete:
  fixes rd :: "'io DomainReader" and lift :: "('io, 'e) ReadError \<Rightarrow> 'f"
  assumes sn: "snapshot_reliable (rd_snapshot rd) m" and fam: "serves (rd_families rd) c ks"
    and rep: "table_rep c kenc venc kok vok m ks T" and items: "0 < max_items limits"
    and range: "\<forall>k\<in>dom T. kenc lo \<le> kenc k \<and> kenc k \<le> kenc up"
    and bounds: "kenc lo \<le> kenc up" "0 < length (kenc lo)" "length (kenc lo) \<le> c_max_key_bytes c"
      "0 < length (kenc up)" "length (kenc up) \<le> c_max_key_bytes c"
    and fits: "c_max_key_bytes c + 4 + c_max_value_bytes c \<le> max_bytes limits"
    and usize: "2 * max_bytes limits \<le> usize_max"
    and read: "\<And>after. read after = map_err lift (read_cursor rd c (key_range lo up after) Forward limits)"
    and all: "entries_in kenc T (\<lambda>_. True) (seen @ rest)" and left: "seen = [] \<or> rest \<noteq> []"
  shows "page_loop read body finish stuck (last_key seen) st = Some (and_then (try_fold body rest st) finish)"
  using all left
proof (induction "length rest" arbitrary: seen rest st rule: less_induct)
  case less
  obtain page where page: "read_cursor rd c (key_range lo up (last_key seen)) Forward limits = Inr page"
    using page_reads [OF sn fam rep less.prems range bounds fits usize] by blast
  obtain zs where zs: "rest = records page @ zs" "has_more page \<longleftrightarrow> zs \<noteq> []" "zs \<noteq> [] \<longrightarrow> records page \<noteq> []"
    using page_step [OF snapshot_reliable_of [OF sn] fam rep items less.prems(1) range page] by blast
  show ?case
  proof (cases "try_fold body (records page) st")
    case (Inl e)
    then show ?thesis using page zs by (subst page_loop.simps) (simp add: read try_fold_append)
  next
    case fold: (Inr st')
    show ?thesis
    proof (cases "zs = []")
      case True
      then show ?thesis using page fold zs by (subst page_loop.simps) (simp add: read)
    next
      case False
      with less.hyps [of zs "seen @ records page" st'] less.prems zs
      have "page_loop read body finish stuck (last_key (seen @ records page)) st' =
          Some (and_then (try_fold body zs st') finish)"
        by auto
      then show ?thesis using False page fold zs
        by (subst page_loop.simps) (auto simp: read last_key_append try_fold_append)
    qed
  qed
qed

lemma all_entries:
  fixes rd :: "'io DomainReader"
  assumes sn: "snapshot_of (rd_snapshot rd) m" and rep: "table_rep c kenc venc kok vok m ks T"
    and range: "\<forall>k\<in>dom T. kenc lo \<le> kenc k \<and> kenc k \<le> kenc up"
  obtains xs where "entries_in kenc T (\<lambda>_. True) xs"
proof -
  have "finite (dom (m ks))" using sn by (simp add: snapshot_of_def)
  then obtain xs where xs: "entries_in kenc T (\<lambda>b. above (Included (kenc lo)) b \<and> below (Included (kenc up)) b) xs"
    using scan_entries [OF rep] by blast
  then have "entries_in kenc T (\<lambda>_. True) xs"
    using range by (subst entries_in_cong [where q = "\<lambda>b. above (Included (kenc lo)) b \<and> below (Included (kenc up)) b"]) auto
  then show thesis by (rule that)
qed

text \<open>A scan whose checks keep no state.\<close>

lemma unit_scan:
  fixes rd :: "'io DomainReader" and lift :: "('io, 'e) ReadError \<Rightarrow> 'f"
  assumes sn: "snapshot_of (rd_snapshot rd) m" and fam: "serves (rd_families rd) c ks"
    and rep: "table_rep c kenc venc kok vok m ks T" and items: "0 < max_items limits"
    and range: "\<forall>k\<in>dom T. kenc lo \<le> kenc k \<and> kenc k \<le> kenc up"
    and read: "\<And>after. read after = map_err lift (read_cursor rd c (key_range lo up after) Forward limits)"
  shows "\<exists>res. page_loop read check Inr stuck None () = Some res \<and>
    (res = Inr () \<longrightarrow> (\<forall>k v. T k = Some v \<longrightarrow> check () (k, v) = Inr ()))"
proof -
  obtain xs where xs: "entries_in kenc T (\<lambda>_. True) xs" by (rule all_entries [OF sn rep range])
  then have mem: "(k, v) \<in> set xs" if "T k = Some v" for k v using that by (simp add: entries_in_def)
  obtain res where "page_loop read check Inr stuck None () = Some res"
    and "\<forall>r. res = Inr r \<longrightarrow> and_then (try_fold check xs ()) Inr = Inr r"
    using page_loop_scans [OF sn fam rep items range read, of "[]" xs, where body = check and finish = Inr
        and stuck = stuck and st = "()"] xs by (auto simp: last_key_def)
  then show ?thesis using mem by (auto simp: and_then_eq_Inr try_fold_unit)
qed

lemma unit_scan_complete:
  fixes rd :: "'io DomainReader" and lift :: "('io, 'e) ReadError \<Rightarrow> 'f"
  assumes sn: "snapshot_reliable (rd_snapshot rd) m" and fam: "serves (rd_families rd) c ks"
    and rep: "table_rep c kenc venc kok vok m ks T" and items: "0 < max_items limits"
    and range: "\<forall>k\<in>dom T. kenc lo \<le> kenc k \<and> kenc k \<le> kenc up"
    and bounds: "kenc lo \<le> kenc up" "0 < length (kenc lo)" "length (kenc lo) \<le> c_max_key_bytes c"
      "0 < length (kenc up)" "length (kenc up) \<le> c_max_key_bytes c"
    and fits: "c_max_key_bytes c + 4 + c_max_value_bytes c \<le> max_bytes limits"
    and usize: "2 * max_bytes limits \<le> usize_max"
    and read: "\<And>after. read after = map_err lift (read_cursor rd c (key_range lo up after) Forward limits)"
    and check: "\<And>k v. T k = Some v \<Longrightarrow> check () (k, v) = Inr ()"
  shows "page_loop read check Inr stuck None () = Some (Inr ())"
proof -
  obtain xs where xs: "entries_in kenc T (\<lambda>_. True) xs"
    by (rule all_entries [OF snapshot_reliable_of [OF sn] rep range])
  have "try_fold check xs () = Inr ()"
    using entries_in_mem [OF xs] check by (force simp: try_fold_unit)
  then show ?thesis
    using page_loop_complete [OF sn fam rep items range bounds fits usize read, of "[]" xs, where body = check
        and finish = Inr and stuck = stuck and st = "()"] xs by (simp add: last_key_def)
qed

end

end
