(* ===== verification/Home_Batch.thy ===== *)
theory Home_Batch
  imports Home_Command "HOL-Library.Multiset"
begin

text \<open>
  The batch that a mutation builder collects: it names no record twice, so the order in which the
  writer applies its mutations does not matter.
\<close>

section \<open>Independence of the order\<close>

definition pending_place :: "PendingMutation \<Rightarrow> usize \<times> bytes" where
  "pending_place p = (pm_family_slot p, pm_key p)"

text \<open>The builder remembers every record it has touched and touches none twice.\<close>

definition builder_inv :: "MutationBuilder \<Rightarrow> bool" where
  "builder_inv mb \<longleftrightarrow> distinct (map pending_place (mb_pending mb)) \<and>
     mb_touched mb = pending_place ` set (mb_pending mb) \<and>
     (\<forall>p\<in>set (mb_pending mb). pm_family_slot p < length (mb_families mb))"

lemma builder_new_inv: "builder_inv (builder_new fs)"
  by (simp add: builder_inv_def builder_new_def)

lemma family_slot_from_less: "family_slot_from n fs name = Some i \<Longrightarrow> n \<le> i \<and> i < n + length fs"
proof (induction fs arbitrary: n)
  case (Cons f fs)
  show ?case using Cons.IH [of "Suc n"] Cons.prems by (simp split: if_splits)
qed simp

lemma family_slot_less: "family_slot fs name = Some i \<Longrightarrow> i < length fs"
  using family_slot_from_less [of 0 fs name i] by (simp add: family_slot_def)

lemma builder_push_inv:
  "\<lbrakk>builder_push mb d slot key action = Inr mb'; slot < length (mb_families mb); builder_inv mb\<rbrakk> \<Longrightarrow>
     builder_inv mb' \<and> mb_families mb' = mb_families mb"
  by (auto simp: builder_push_eq_Inr builder_inv_def pending_place_def)

lemma builder_put_inv:
  "\<lbrakk>builder_put c k v mb = Inr mb'; builder_inv mb\<rbrakk> \<Longrightarrow> builder_inv mb' \<and> mb_families mb' = mb_families mb"
  by (auto simp: builder_put_def builder_family_slot_def and_then_eq_Inr dest!: family_slot_less builder_push_inv
      split: if_splits)

lemma builder_delete_inv:
  "\<lbrakk>builder_delete c k mb = Inr mb'; builder_inv mb\<rbrakk> \<Longrightarrow> builder_inv mb' \<and> mb_families mb' = mb_families mb"
  by (auto simp: builder_delete_def builder_family_slot_def and_then_eq_Inr dest!: family_slot_less builder_push_inv
      split: if_splits)

lemma apply_mutation_commute:
  assumes "distinct (map fam_keyspace fs)" and "pm_family_slot p < length fs" "pm_family_slot q < length fs"
    and "pending_place p \<noteq> pending_place q"
  shows "apply_mutation fs (apply_mutation fs m p) q = apply_mutation fs (apply_mutation fs m q) p"
proof -
  have "fam_keyspace (fs ! pm_family_slot p) = fam_keyspace (fs ! pm_family_slot q) \<longleftrightarrow>
      pm_family_slot p = pm_family_slot q"
    using assms(1-3) nth_eq_iff_index_eq [of "map fam_keyspace fs" "pm_family_slot p" "pm_family_slot q"] by simp
  with assms(4) show ?thesis
    by (cases "pm_family_slot p = pm_family_slot q")
      (simp_all add: apply_mutation_def pending_place_def Let_def fun_upd_twist)
qed

lemma apply_pending_Cons_commute:
  assumes "distinct (map fam_keyspace fs)" and "\<forall>q\<in>set (p # ps). pm_family_slot q < length fs"
    and "pending_place p \<notin> pending_place ` set ps"
  shows "apply_pending fs (apply_mutation fs m p) ps = apply_mutation fs (apply_pending fs m ps) p"
  using assms(2,3)
proof (induction ps arbitrary: m)
  case (Cons q ps)
  then have "apply_mutation fs (apply_mutation fs m p) q = apply_mutation fs (apply_mutation fs m q) p"
    by (intro apply_mutation_commute [OF assms(1)]) auto
  with Cons show ?case by (simp add: apply_pending_def)
qed (simp add: apply_pending_def)

lemma apply_pending_order:
  assumes "distinct (map fam_keyspace fs)" and "\<forall>q\<in>set ps. pm_family_slot q < length fs"
    and "distinct (map pending_place ps)" and "mset qs = mset ps"
  shows "apply_pending fs m qs = apply_pending fs m ps"
  using assms(2-4)
proof (induction ps arbitrary: qs m)
  case (Cons p ps)
  then have "p \<in> set qs" by (metis list.set_intros(1) mset_eq_setD)
  then obtain as bs where qs: "qs = as @ p # bs" by (meson split_list)
  with Cons.prems(3) have ps: "mset (as @ bs) = mset ps" by simp
  then have sets: "set as \<subseteq> set ps" by (metis Un_upper1 mset_eq_setD set_append)
  have "apply_pending fs m qs = apply_pending fs (apply_mutation fs (apply_pending fs m as) p) bs"
    by (simp add: qs apply_pending_def)
  also have "\<dots> = apply_pending fs (apply_pending fs (apply_mutation fs m p) as) bs"
    using Cons.prems sets by (subst apply_pending_Cons_commute [OF assms(1)]) auto
  also have "\<dots> = apply_pending fs (apply_mutation fs m p) (as @ bs)"
    by (simp add: apply_pending_def)
  also have "\<dots> = apply_pending fs (apply_mutation fs m p) ps"
    using Cons.IH [OF _ _ ps] Cons.prems by simp
  finally show ?case by (simp add: apply_pending_def)
qed simp

end
