(* ===== verification/Memory_Store.thy ===== *)
theory Memory_Store
  imports Home_Command
begin

text \<open>
  A storage engine in memory. It has the documented behaviour that the development assumes of
  the engine of the source, so the hypotheses of the properties can hold.
\<close>

definition memory_item :: "bytes \<times> bytes \<Rightarrow> unit + unit cursor_item" where
  "memory_item kv = Inr \<lparr>item_key = fst kv, item_value_len = of_nat (length (snd kv)), item_acquire = Inr kv\<rparr>"

definition memory_snapshot :: "contents \<Rightarrow> unit snapshot" where
  "memory_snapshot m =
     \<lparr>snap_point = (\<lambda>ks k. Inr (map_option (\<lambda>v. (of_nat (length v), Inr v)) (m ks k))),
      snap_range_ok = (\<lambda>s e. True),
      snap_cursor = (\<lambda>ks d s e. Inr (map memory_item (scan m ks d s e))),
      snap_exhaustive = (\<lambda>ks. Inr (map memory_item (scan_all m ks)))\<rparr>"

text \<open>The engine stores finitely many records, each with a length of 32 bits.\<close>

definition storable :: "contents \<Rightarrow> bool" where
  "storable m \<longleftrightarrow> (\<forall>ks. finite (dom (m ks)) \<and> (\<forall>v\<in>ran (m ks). length v < 2 ^ 32))"

definition empty_contents :: contents where
  "empty_contents = (\<lambda>ks k. None)"

lemma storable_empty [simp]: "storable empty_contents"
  by (simp add: storable_def empty_contents_def)

lemma storable_length: "\<lbrakk>storable m; m ks k = Some v\<rbrakk> \<Longrightarrow> length v < 2 ^ 32"
  unfolding storable_def by (meson ranI)

lemma memory_items_agree:
  "\<forall>kv\<in>set kvs. length (snd kv) < 2 ^ 32 \<Longrightarrow> cursor_agrees (map memory_item kvs) kvs"
  by (induction kvs) (auto simp: memory_item_def item_matches_def unat_len_u32)

lemma reliable_memory_items: "reliable_items (map memory_item kvs)"
  by (auto simp: reliable_items_def memory_item_def)

lemma scan_keys_values:
  assumes "storable m" and "k \<in> set (scan_keys m ks p)"
  shows "length (the (m ks k)) < 2 ^ 32"
proof -
  have fin: "finite {k \<in> dom (m ks). p k}" using assms(1) by (simp add: storable_def)
  with assms(2) obtain v where "m ks k = Some v" by (auto simp: scan_keys_def)
  with storable_length [OF assms(1)] show ?thesis by simp
qed

lemma scan_values:
  assumes "storable m"
  shows "\<forall>kv\<in>set (scan m ks d s e). length (snd kv) < 2 ^ 32"
    and "\<forall>kv\<in>set (scan_all m ks). length (snd kv) < 2 ^ 32"
  using scan_keys_values [OF assms]
  by (auto simp: scan_def scan_all_def directed_def split: CursorDirection.splits)

lemma memory_snapshot_reliable:
  assumes "storable m"
  shows "snapshot_reliable (memory_snapshot m) m"
proof -
  have "unat (of_nat (length v) :: u32) = length v" if "m ks k = Some v" for ks k v
    by (rule unat_len_u32) (rule storable_length [OF assms that])
  then show ?thesis
    using assms memory_items_agree [OF scan_values(1) [OF assms]] memory_items_agree [OF scan_values(2) [OF assms]]
    by (auto simp: snapshot_reliable_def snapshot_of_def memory_snapshot_def point_agrees_def
        reliable_memory_items storable_def split: option.splits)
qed

text \<open>A table without entries is stored as an empty keyspace.\<close>

lemma table_rep_empty: "table_rep c kenc venc kok vok empty_contents ks Map.empty"
  by (simp add: table_rep_def empty_contents_def)

end
