(* ===== verification/Job_Record.thy ===== *)
theory Job_Record
  imports Job_Value
begin

text \<open>
  The branch-handoff job record and its life cycle:
  \<^verbatim>\<open>crates/beryl-state/src/durable_job/record.rs\<close>, the pure successor functions of
  \<^verbatim>\<open>mutation/transition/successor.rs\<close> and the transition dispatch of \<^verbatim>\<open>mutation/prepared.rs\<close>.

  The three enumerations of the source share constructor names; those of the life cycle carry
  the prefix \<open>Lc_\<close>, those of the checkpoint \<open>Cp_\<close>, those of the transition \<open>T_\<close>.
\<close>

section \<open>Records\<close>

definition branch_handoff_job_id :: "ResolutionIntentId \<Rightarrow> JobId" where
  "branch_handoff_job_id intent = arr16_of (arr16_bytes intent)"

record BranchHandoffJobAdmission =
  adm_intent_id :: ResolutionIntentId
  adm_attempt_ordinal :: ResolutionAttemptOrdinal
  adm_discussion_thread_id :: SyndicThreadId
  adm_parent_thread_id :: SyndicThreadId
  adm_context_owner_id :: DiscussionContextOwnerId
  adm_context_digest :: arr32
  adm_resolving_turn_id :: SyndicTurnId
  adm_request :: ResolutionRequestIdentity
  adm_parent_queue_ordinal :: ParentQueueOrdinal
  adm_resolution :: ResolutionText

datatype BranchHandoffJobLifecycle =
    Lc_WaitingResolvingTurn
  | Lc_WaitingParent
  | Lc_StartingParent
  | Lc_ParentActive
  | Lc_RetryableFailed
  | Lc_TerminalFailed
  | Lc_Succeeded

definition is_live :: "BranchHandoffJobLifecycle \<Rightarrow> bool" where
  "is_live l \<longleftrightarrow> l \<in> {Lc_WaitingResolvingTurn, Lc_WaitingParent, Lc_StartingParent,
     Lc_ParentActive, Lc_RetryableFailed}"

definition is_terminal :: "BranchHandoffJobLifecycle \<Rightarrow> bool" where
  "is_terminal l \<longleftrightarrow> l \<in> {Lc_TerminalFailed, Lc_Succeeded}"

datatype BranchHandoffCheckpoint =
    Cp_WaitingResolvingTurn
  | Cp_WaitingParent
  | Cp_StartingParent ParentHandoffIdentity
  | Cp_ParentActive ParentHandoffIdentity ParentCasIdentity

datatype BranchHandoffJobState =
    WaitingResolvingTurn
  | WaitingParent
  | StartingParent ParentHandoffIdentity
  | ParentActive ParentHandoffIdentity ParentCasIdentity
  | RetryableFailed BranchHandoffCheckpoint HandoffFailureEvidence
  | TerminalFailed BranchHandoffCheckpoint HandoffFailureEvidence
  | Succeeded ParentHandoffIdentity ParentCasIdentity

fun checkpoint_lifecycle :: "BranchHandoffCheckpoint \<Rightarrow> BranchHandoffJobLifecycle" where
  "checkpoint_lifecycle Cp_WaitingResolvingTurn = Lc_WaitingResolvingTurn"
| "checkpoint_lifecycle Cp_WaitingParent = Lc_WaitingParent"
| "checkpoint_lifecycle (Cp_StartingParent _) = Lc_StartingParent"
| "checkpoint_lifecycle (Cp_ParentActive _ _) = Lc_ParentActive"

fun into_state :: "BranchHandoffCheckpoint \<Rightarrow> BranchHandoffJobState" where
  "into_state Cp_WaitingResolvingTurn = WaitingResolvingTurn"
| "into_state Cp_WaitingParent = WaitingParent"
| "into_state (Cp_StartingParent parent) = StartingParent parent"
| "into_state (Cp_ParentActive parent cas) = ParentActive parent cas"

fun checkpoint_parent :: "BranchHandoffCheckpoint \<Rightarrow> ParentHandoffIdentity option" where
  "checkpoint_parent (Cp_StartingParent parent) = Some parent"
| "checkpoint_parent (Cp_ParentActive parent _) = Some parent"
| "checkpoint_parent _ = None"

fun checkpoint_parent_cas :: "BranchHandoffCheckpoint \<Rightarrow> ParentCasIdentity option" where
  "checkpoint_parent_cas (Cp_ParentActive _ cas) = Some cas"
| "checkpoint_parent_cas _ = None"

definition failure_state_is_compatible ::
    "BranchHandoffJobLifecycle \<Rightarrow> BranchHandoffCheckpoint \<Rightarrow> HandoffFailureKind \<Rightarrow> bool" where
  "failure_state_is_compatible failure_lifecycle checkpoint kind =
     (let disposition_matches = (case failure_lifecycle of
            Lc_RetryableFailed \<Rightarrow> is_retryable kind
          | Lc_TerminalFailed \<Rightarrow> kind_is_terminal kind
          | _ \<Rightarrow> False)
      in if \<not> disposition_matches then False
         else let l = checkpoint_lifecycle checkpoint in
           (case kind of
              ParentArchived \<Rightarrow> l = Lc_WaitingResolvingTurn \<or> l = Lc_WaitingParent
            | ChildInputPending \<Rightarrow> l = Lc_WaitingResolvingTurn
            | CasRejectedBeforeAcceptance \<Rightarrow> l = Lc_StartingParent
            | UnrecoverablePostAppend \<Rightarrow> l = Lc_StartingParent \<or> l = Lc_ParentActive
            | ParentInterrupted \<Rightarrow> l = Lc_ParentActive
            | ParentIncomplete \<Rightarrow> l = Lc_ParentActive
            | ParentTerminalFailure \<Rightarrow> l = Lc_ParentActive
            | _ \<Rightarrow> True))"

fun state_lifecycle :: "BranchHandoffJobState \<Rightarrow> BranchHandoffJobLifecycle" where
  "state_lifecycle WaitingResolvingTurn = Lc_WaitingResolvingTurn"
| "state_lifecycle WaitingParent = Lc_WaitingParent"
| "state_lifecycle (StartingParent _) = Lc_StartingParent"
| "state_lifecycle (ParentActive _ _) = Lc_ParentActive"
| "state_lifecycle (RetryableFailed _ _) = Lc_RetryableFailed"
| "state_lifecycle (TerminalFailed _ _) = Lc_TerminalFailed"
| "state_lifecycle (Succeeded _ _) = Lc_Succeeded"

fun state_checkpoint :: "BranchHandoffJobState \<Rightarrow> BranchHandoffCheckpoint option" where
  "state_checkpoint WaitingResolvingTurn = Some Cp_WaitingResolvingTurn"
| "state_checkpoint WaitingParent = Some Cp_WaitingParent"
| "state_checkpoint (StartingParent parent) = Some (Cp_StartingParent parent)"
| "state_checkpoint (ParentActive parent cas) = Some (Cp_ParentActive parent cas)"
| "state_checkpoint (RetryableFailed resume _) = Some resume"
| "state_checkpoint (TerminalFailed _ _) = None"
| "state_checkpoint (Succeeded _ _) = None"

fun state_parent :: "BranchHandoffJobState \<Rightarrow> ParentHandoffIdentity option" where
  "state_parent (StartingParent parent) = Some parent"
| "state_parent (ParentActive parent _) = Some parent"
| "state_parent (Succeeded parent _) = Some parent"
| "state_parent (RetryableFailed resume _) = checkpoint_parent resume"
| "state_parent (TerminalFailed stopped_at _) = checkpoint_parent stopped_at"
| "state_parent WaitingResolvingTurn = None"
| "state_parent WaitingParent = None"

fun state_parent_cas :: "BranchHandoffJobState \<Rightarrow> ParentCasIdentity option" where
  "state_parent_cas (ParentActive _ cas) = Some cas"
| "state_parent_cas (Succeeded _ cas) = Some cas"
| "state_parent_cas (RetryableFailed resume _) = checkpoint_parent_cas resume"
| "state_parent_cas (TerminalFailed stopped_at _) = checkpoint_parent_cas stopped_at"
| "state_parent_cas _ = None"

record BranchHandoffJobRecord =
  job_id :: JobId
  intent_id :: ResolutionIntentId
  attempt_ordinal :: ResolutionAttemptOrdinal
  discussion_thread_id :: SyndicThreadId
  parent_thread_id :: SyndicThreadId
  context_owner_id :: DiscussionContextOwnerId
  context_digest :: arr32
  resolving_turn_id :: SyndicTurnId
  request :: ResolutionRequestIdentity
  parent_queue_ordinal :: ParentQueueOrdinal
  resolution :: ResolutionText
  state :: BranchHandoffJobState
  revision :: JobRevision

definition job_initial :: "BranchHandoffJobAdmission \<Rightarrow> BranchHandoffJobRecord" where
  "job_initial a =
     \<lparr>job_id = branch_handoff_job_id (adm_intent_id a),
      intent_id = adm_intent_id a,
      attempt_ordinal = adm_attempt_ordinal a,
      discussion_thread_id = adm_discussion_thread_id a,
      parent_thread_id = adm_parent_thread_id a,
      context_owner_id = adm_context_owner_id a,
      context_digest = adm_context_digest a,
      resolving_turn_id = adm_resolving_turn_id a,
      request = adm_request a,
      parent_queue_ordinal = adm_parent_queue_ordinal a,
      resolution = adm_resolution a,
      state = WaitingResolvingTurn,
      revision = nz_of 1\<rparr>"

definition lifecycle :: "BranchHandoffJobRecord \<Rightarrow> BranchHandoffJobLifecycle" where
  "lifecycle job = state_lifecycle (state job)"

record ResolutionRequestAdmission =
  ra_job_id :: JobId
  ra_intent_id :: ResolutionIntentId
  ra_discussion_thread_id :: SyndicThreadId
  ra_attempt_ordinal :: ResolutionAttemptOrdinal

definition request_admission_from_job :: "BranchHandoffJobRecord \<Rightarrow> ResolutionRequestAdmission" where
  "request_admission_from_job job =
     \<lparr>ra_job_id = job_id job, ra_intent_id = intent_id job,
      ra_discussion_thread_id = discussion_thread_id job,
      ra_attempt_ordinal = attempt_ordinal job\<rparr>"

record LatestBranchHandoffAttempt =
  la_job_id :: JobId
  la_attempt_ordinal :: ResolutionAttemptOrdinal

definition latest_from_job :: "BranchHandoffJobRecord \<Rightarrow> LatestBranchHandoffAttempt" where
  "latest_from_job job = \<lparr>la_job_id = job_id job, la_attempt_ordinal = attempt_ordinal job\<rparr>"

section \<open>Values that the constructors admit\<close>

fun checkpoint_ok :: "BranchHandoffCheckpoint \<Rightarrow> bool" where
  "checkpoint_ok (Cp_ParentActive _ cas) \<longleftrightarrow> cas_ok cas"
| "checkpoint_ok _ \<longleftrightarrow> True"

fun state_ok :: "BranchHandoffJobState \<Rightarrow> bool" where
  "state_ok (ParentActive _ cas) \<longleftrightarrow> cas_ok cas"
| "state_ok (Succeeded _ cas) \<longleftrightarrow> cas_ok cas"
| "state_ok (RetryableFailed resume evidence) \<longleftrightarrow> checkpoint_ok resume \<and> evidence_ok evidence \<and>
     failure_state_is_compatible Lc_RetryableFailed resume (evidence_kind evidence)"
| "state_ok (TerminalFailed stopped_at evidence) \<longleftrightarrow> checkpoint_ok stopped_at \<and> evidence_ok evidence \<and>
     failure_state_is_compatible Lc_TerminalFailed stopped_at (evidence_kind evidence)"
| "state_ok _ \<longleftrightarrow> True"

definition job_ok :: "BranchHandoffJobRecord \<Rightarrow> bool" where
  "job_ok job \<longleftrightarrow> job_id job = branch_handoff_job_id (intent_id job) \<and> request_ok (request job) \<and>
     resolution_text_ok (resolution job) \<and> state_ok (state job)"

definition admission_ok :: "BranchHandoffJobAdmission \<Rightarrow> bool" where
  "admission_ok a \<longleftrightarrow> request_ok (adm_request a) \<and> resolution_text_ok (adm_resolution a)"

lemma branch_handoff_job_id [simp]: "branch_handoff_job_id i = i"
  by (simp add: branch_handoff_job_id_def)

lemma job_initial_ok: "admission_ok a \<Longrightarrow> job_ok (job_initial a)"
  by (simp add: admission_ok_def job_ok_def job_initial_def)

lemma is_live_iff_not_terminal: "is_live l \<longleftrightarrow> \<not> is_terminal l"
  by (cases l) (simp_all add: is_live_def is_terminal_def)

lemma into_state_checkpoint: "state_checkpoint (into_state cp) = Some cp"
  by (cases cp) simp_all

lemma checkpoint_exists_iff: "(\<exists>cp. state_checkpoint s = Some cp) \<longleftrightarrow> is_live (state_lifecycle s)"
  by (cases s) (simp_all add: is_live_def)

end
