(* ===== verification/Job_Sample.thy ===== *)
theory Job_Sample
  imports Job_Record
begin

text \<open>
  Concrete values of the durable-job domain: an admission, its first record and the values that
  its transitions carry. The witnesses evaluate the definitions on them.
\<close>

section \<open>ASCII text\<close>

lemma unat_ascii_bytes: "map unat (ascii_bytes cs) = map (\<lambda>c. of_char c mod 128) cs"
  by (simp add: ascii_bytes_def unat_of_nat)

lemma chars_ascii: "chars (ascii cs) = map (\<lambda>c. of_char c mod 128) cs"
proof -
  have "\<forall>b\<in>set (ascii_bytes cs). unat b < 128" by (auto simp: ascii_bytes_def unat_of_nat)
  then show ?thesis
    by (simp add: chars_def char_indices_def utf8_scan_ascii unat_ascii_bytes)
qed

lemma external_id_ascii:
  "external_id_ok (ascii cs) \<longleftrightarrow> 0 < length cs \<and> length cs \<le> 256 \<and>
     \<not> is_whitespace (hd (map (\<lambda>c. of_char c mod 128) cs)) \<and>
     \<not> is_whitespace (last (map (\<lambda>c. of_char c mod 128) cs)) \<and>
     (\<forall>c\<in>set cs. \<not> is_control (of_char c mod 128))"
  by (auto simp: external_id_ok_def trim_changes_iff find_char_None_iff chars_ascii)

lemmas text_samples = external_id_ascii is_whitespace_def is_control_def

section \<open>Samples\<close>

definition sample_request :: ResolutionRequestIdentity where
  "sample_request = \<lparr>cas_thread_id = ascii ''thread'', cas_turn_id = ascii ''turn'', tool_call_id = ascii ''call''\<rparr>"

definition sample_admission :: BranchHandoffJobAdmission where
  "sample_admission =
     \<lparr>adm_intent_id = arr16_fill 1, adm_attempt_ordinal = attempt_ordinal_first,
      adm_discussion_thread_id = arr16_fill 2, adm_parent_thread_id = arr16_fill 3,
      adm_context_owner_id = Draft (arr16_fill 4), adm_context_digest = arr32_fill 5,
      adm_resolving_turn_id = arr16_fill 6, adm_request = sample_request,
      adm_parent_queue_ordinal = 0, adm_resolution = ascii ''done''\<rparr>"

definition sample_job :: BranchHandoffJobRecord where
  "sample_job = job_initial sample_admission"

definition sample_parent :: ParentHandoffIdentity where
  "sample_parent = \<lparr>accepted_input_id = arr16_fill 7, turn_id = arr16_fill 8\<rparr>"

definition sample_cas :: ParentCasIdentity where
  "sample_cas = \<lparr>parent_cas_thread_id = ascii ''thread'', parent_cas_turn_id = ascii ''turn''\<rparr>"

definition sample_evidence :: HandoffFailureEvidence where
  "sample_evidence = \<lparr>evidence_kind = InvariantViolation, evidence_detail = None\<rparr>"

lemma sample_request_ok: "request_ok sample_request"
  by (simp add: request_ok_def sample_request_def text_samples)

lemma sample_cas_ok: "cas_ok sample_cas"
  by (simp add: cas_ok_def sample_cas_def text_samples)

lemma sample_evidence_ok: "evidence_ok sample_evidence"
  by (simp add: evidence_ok_def sample_evidence_def)

lemma sample_admission_ok: "admission_ok sample_admission"
  by (simp add: admission_ok_def sample_admission_def sample_request_ok resolution_text_ok_def chars_ascii)

lemma sample_job_ok: "job_ok sample_job"
  by (simp add: sample_job_def job_initial_ok sample_admission_ok)

lemma sample_job_sel:
  "job_id sample_job = arr16_fill 1" "discussion_thread_id sample_job = arr16_fill 2"
  "attempt_ordinal sample_job = attempt_ordinal_first" "state sample_job = WaitingResolvingTurn"
  "request sample_job = sample_request" "revision sample_job = nz_of 1"
  by (simp_all add: sample_job_def job_initial_def sample_admission_def)

end
