(* ===== verification/Job_Codec.thy ===== *)
theory Job_Codec
  imports Home_Paging Home_Batch Memory_Store Job_Sample
begin

text \<open>
  The record codecs of the durable-job domain:
  \<^verbatim>\<open>crates/beryl-state/src/durable_job/codec.rs\<close> and \<^verbatim>\<open>codec/state.rs\<close>. Each of the five codecs
  is shown to satisfy the contract \<open>typed_family\<close>.
\<close>

section \<open>Parts of the record\<close>

definition encode_context_owner :: "DiscussionContextOwnerId \<Rightarrow> bytes" where
  "encode_context_owner owner = (case owner of
     Draft i \<Rightarrow> enc_u8 0 @ enc_fixed i
   | SubmittedTurn i \<Rightarrow> enc_u8 1 @ enc_fixed i)"

definition decode_context_owner :: "DiscussionContextOwnerId decoder" where
  "decode_context_owner = dec_then dec_u8 (\<lambda>tag.
     if tag = 0 then dec_then dec_fixed (\<lambda>i. dec_return (Draft i))
     else if tag = 1 then dec_then dec_fixed (\<lambda>i. dec_return (SubmittedTurn i))
     else dec_lift (Inl (InvalidTag ''discussion context owner'' tag)))"

definition encode_request :: "ResolutionRequestIdentity \<Rightarrow> bytes" where
  "encode_request r = enc_text (cas_thread_id r) @ enc_text (cas_turn_id r) @ enc_text (tool_call_id r)"

definition invalid_value :: "string \<Rightarrow> ValueError \<Rightarrow> CodecError" where
  "invalid_value kind e = InvalidValue kind (BoxedValue e)"

definition decode_request :: "ResolutionRequestIdentity decoder" where
  "decode_request =
     dec_then (dec_text ''resolving CAS thread identity'') (\<lambda>s.
     dec_then (dec_lift (map_err (invalid_value ''resolving CAS thread identity'') (cas_thread_id_new s))) (\<lambda>thread.
     dec_then (dec_text ''resolving CAS turn identity'') (\<lambda>s.
     dec_then (dec_lift (map_err (invalid_value ''resolving CAS turn identity'') (cas_turn_id_new s))) (\<lambda>turn.
     dec_then (dec_text ''resolution tool call identity'') (\<lambda>s.
     dec_then (dec_lift (map_err (invalid_value ''resolution tool call identity'') (dynamic_tool_call_id_new s))) (\<lambda>call.
       dec_return \<lparr>cas_thread_id = thread, cas_turn_id = turn, tool_call_id = call\<rparr>))))))"

definition decode_attempt_ordinal :: "ResolutionAttemptOrdinal decoder" where
  "decode_attempt_ordinal = dec_then dec_u64 (\<lambda>v.
     dec_lift (map_err (\<lambda>e. InvalidValue ''resolution attempt ordinal'' (BoxedJobValue e))
       (attempt_ordinal_new v)))"

definition encode_parent :: "ParentHandoffIdentity \<Rightarrow> bytes" where
  "encode_parent p = enc_fixed (accepted_input_id p) @ enc_fixed (turn_id p)"

definition decode_parent :: "ParentHandoffIdentity decoder" where
  "decode_parent = dec_then dec_fixed (\<lambda>a. dec_then dec_fixed (\<lambda>t.
     dec_return \<lparr>accepted_input_id = a, turn_id = t\<rparr>))"

definition encode_cas :: "ParentCasIdentity \<Rightarrow> bytes" where
  "encode_cas cas = enc_text (parent_cas_thread_id cas) @ enc_text (parent_cas_turn_id cas)"

definition decode_cas :: "ParentCasIdentity decoder" where
  "decode_cas =
     dec_then (dec_text ''parent CAS thread identity'') (\<lambda>s.
     dec_then (dec_lift (map_err (invalid_value ''parent CAS thread identity'') (cas_thread_id_new s))) (\<lambda>thread.
     dec_then (dec_text ''parent CAS turn identity'') (\<lambda>s.
     dec_then (dec_lift (map_err (invalid_value ''parent CAS turn identity'') (cas_turn_id_new s))) (\<lambda>turn.
       dec_return \<lparr>parent_cas_thread_id = thread, parent_cas_turn_id = turn\<rparr>))))"

definition encode_failure_kind :: "HandoffFailureKind \<Rightarrow> u8" where
  "encode_failure_kind kind = (case kind of
     RuntimeUnavailable \<Rightarrow> 0 | RootUnavailable \<Rightarrow> 1 | CasUnavailable \<Rightarrow> 2
   | TransientDeliveryFailure \<Rightarrow> 3 | CasRejectedBeforeAcceptance \<Rightarrow> 4 | InvariantViolation \<Rightarrow> 5
   | ParentMissing \<Rightarrow> 6 | UnrecoverablePostAppend \<Rightarrow> 7 | ParentInterrupted \<Rightarrow> 8
   | ParentIncomplete \<Rightarrow> 9 | ParentTerminalFailure \<Rightarrow> 10 | ChildInputPending \<Rightarrow> 11
   | ParentArchived \<Rightarrow> 12)"

definition decode_failure_kind :: "u8 \<Rightarrow> CodecError + HandoffFailureKind" where
  "decode_failure_kind tag =
     (if tag = 0 then Inr RuntimeUnavailable else if tag = 1 then Inr RootUnavailable
      else if tag = 2 then Inr CasUnavailable else if tag = 3 then Inr TransientDeliveryFailure
      else if tag = 4 then Inr CasRejectedBeforeAcceptance else if tag = 5 then Inr InvariantViolation
      else if tag = 6 then Inr ParentMissing else if tag = 7 then Inr UnrecoverablePostAppend
      else if tag = 8 then Inr ParentInterrupted else if tag = 9 then Inr ParentIncomplete
      else if tag = 10 then Inr ParentTerminalFailure else if tag = 11 then Inr ChildInputPending
      else if tag = 12 then Inr ParentArchived
      else Inl (InvalidTag ''handoff failure kind'' tag))"

definition encode_detail :: "str option \<Rightarrow> bytes" where
  "encode_detail d = (case d of Some detail \<Rightarrow> enc_u8 1 @ enc_text detail | None \<Rightarrow> enc_u8 0)"

definition encode_evidence :: "HandoffFailureEvidence \<Rightarrow> bytes" where
  "encode_evidence e = enc_u8 (encode_failure_kind (evidence_kind e)) @ encode_detail (evidence_detail e)"

definition decode_detail :: "str option decoder" where
  "decode_detail = dec_then dec_u8 (\<lambda>tag.
     if tag = 0 then dec_return None
     else if tag = 1 then dec_then (dec_text ''handoff failure detail'') (\<lambda>d. dec_return (Some d))
     else dec_lift (Inl (InvalidTag ''handoff failure detail option'' tag)))"

definition decode_evidence :: "HandoffFailureEvidence decoder" where
  "decode_evidence =
     dec_then dec_u8 (\<lambda>tag. dec_then (dec_lift (decode_failure_kind tag)) (\<lambda>kind.
     dec_then decode_detail (\<lambda>detail.
       dec_lift (map_err (\<lambda>e. InvalidValue ''handoff failure evidence'' (BoxedJobValue e))
         (evidence_new kind detail)))))"

section \<open>Checkpoints and states\<close>

definition encode_checkpoint :: "BranchHandoffCheckpoint \<Rightarrow> bytes" where
  "encode_checkpoint cp = (case cp of
     Cp_WaitingResolvingTurn \<Rightarrow> enc_u8 0
   | Cp_WaitingParent \<Rightarrow> enc_u8 1
   | Cp_StartingParent parent \<Rightarrow> enc_u8 2 @ encode_parent parent
   | Cp_ParentActive parent cas \<Rightarrow> enc_u8 3 @ encode_parent parent @ encode_cas cas)"

definition decode_checkpoint :: "BranchHandoffCheckpoint decoder" where
  "decode_checkpoint = dec_then dec_u8 (\<lambda>tag.
     if tag = 0 then dec_return Cp_WaitingResolvingTurn
     else if tag = 1 then dec_return Cp_WaitingParent
     else if tag = 2 then dec_then decode_parent (\<lambda>parent. dec_return (Cp_StartingParent parent))
     else if tag = 3 then dec_then decode_parent (\<lambda>parent. dec_then decode_cas (\<lambda>cas.
       dec_return (Cp_ParentActive parent cas)))
     else dec_lift (Inl (InvalidTag ''branch handoff retry checkpoint'' tag)))"

definition encode_state :: "BranchHandoffJobState \<Rightarrow> bytes" where
  "encode_state s = (case s of
     WaitingResolvingTurn \<Rightarrow> enc_u8 0
   | WaitingParent \<Rightarrow> enc_u8 1
   | StartingParent parent \<Rightarrow> enc_u8 2 @ encode_parent parent
   | ParentActive parent cas \<Rightarrow> enc_u8 3 @ encode_parent parent @ encode_cas cas
   | RetryableFailed resume evidence \<Rightarrow> enc_u8 4 @ encode_checkpoint resume @ encode_evidence evidence
   | TerminalFailed stopped_at evidence \<Rightarrow> enc_u8 5 @ encode_checkpoint stopped_at @ encode_evidence evidence
   | Succeeded parent cas \<Rightarrow> enc_u8 6 @ encode_parent parent @ encode_cas cas)"

definition invalid_state :: "string \<Rightarrow> CodecError" where
  "invalid_state message = InvalidValue ''branch handoff job state'' (BoxedInvalidData message)"

definition decode_state :: "BranchHandoffJobState decoder" where
  "decode_state = dec_then dec_u8 (\<lambda>tag.
     if tag = 0 then dec_return WaitingResolvingTurn
     else if tag = 1 then dec_return WaitingParent
     else if tag = 2 then dec_then decode_parent (\<lambda>parent. dec_return (StartingParent parent))
     else if tag = 3 then dec_then decode_parent (\<lambda>parent. dec_then decode_cas (\<lambda>cas.
       dec_return (ParentActive parent cas)))
     else if tag = 4 then dec_then decode_checkpoint (\<lambda>resume. dec_then decode_evidence (\<lambda>evidence.
       if \<not> failure_state_is_compatible Lc_RetryableFailed resume (evidence_kind evidence)
       then dec_lift (Inl (invalid_state
         ''retryable failure kind is incompatible with its retained checkpoint''))
       else dec_return (RetryableFailed resume evidence)))
     else if tag = 5 then dec_then decode_checkpoint (\<lambda>stopped_at. dec_then decode_evidence (\<lambda>evidence.
       if \<not> failure_state_is_compatible Lc_TerminalFailed stopped_at (evidence_kind evidence)
       then dec_lift (Inl (invalid_state
         ''terminal failure kind is incompatible with its retained checkpoint''))
       else dec_return (TerminalFailed stopped_at evidence)))
     else if tag = 6 then dec_then decode_parent (\<lambda>parent. dec_then decode_cas (\<lambda>cas.
       dec_return (Succeeded parent cas)))
     else dec_lift (Inl (InvalidTag ''branch handoff job state'' tag)))"

section \<open>Each part is a wire encoding\<close>

lemma external_id_fits: "external_id_ok s \<Longrightarrow> text_fits s"
  by (simp add: external_id_ok_def text_fits_def)

lemma resolution_text_fits: "resolution_text_ok s \<Longrightarrow> text_fits s"
  by (simp add: resolution_text_ok_def text_fits_def)

lemma failure_detail_fits: "failure_detail_ok s \<Longrightarrow> text_fits s"
  by (simp add: failure_detail_ok_def text_fits_def)

lemma dec_lift_Inr_step [simp]: "dec_then (dec_lift (Inr x)) f bs = f x bs"
  by (simp add: dec_then_def)

lemma external_id_new_ok [simp]:
  "external_id_ok s \<Longrightarrow> cas_thread_id_new s = Inr s"
  "external_id_ok s \<Longrightarrow> cas_turn_id_new s = Inr s"
  "external_id_ok s \<Longrightarrow> dynamic_tool_call_id_new s = Inr s"
  by (simp_all add: external_id_new_eq_Inr)

interpretation w_context_owner: record_wire encode_context_owner decode_context_owner "\<lambda>_. True"
proof
  show "decode_context_owner (encode_context_owner v @ r) = Inr (v, r)" for v r
    by (cases v) (simp_all add: decode_context_owner_def encode_context_owner_def enc_u8_def dec_prim_step)
  show "True \<and> bs = encode_context_owner v @ r" if "decode_context_owner bs = Inr (v, r)" for bs v r
    using that by (cases bs) (auto simp: decode_context_owner_def encode_context_owner_def enc_u8_def
        dec_inv dec_prim_iff split: if_splits)
qed

interpretation w_request: record_wire encode_request decode_request request_ok
proof
  show "decode_request (encode_request v @ r) = Inr (v, r)" if "request_ok v" for v r
    using that by (simp add: decode_request_def encode_request_def request_ok_def dec_prim_step external_id_fits)
  show "request_ok v \<and> bs = encode_request v @ r" if "decode_request bs = Inr (v, r)" for bs v r
    using that by (auto simp: decode_request_def encode_request_def request_ok_def dec_inv dec_prim_iff
        external_id_new_eq_Inr)
qed

interpretation w_attempt_ordinal: record_wire "\<lambda>n. enc_u64 (nz_get n)" decode_attempt_ordinal "\<lambda>_. True"
  by (rule record_wireI) (auto simp: decode_attempt_ordinal_def dec_inv dec_prim_iff attempt_ordinal_new_eq_Inr)

interpretation w_parent: record_wire encode_parent decode_parent "\<lambda>_. True"
proof
  show "decode_parent (encode_parent v @ r) = Inr (v, r)" for v r
    by (simp add: decode_parent_def encode_parent_def dec_prim_step)
  show "True \<and> bs = encode_parent v @ r" if "decode_parent bs = Inr (v, r)" for bs v r
    using that by (auto simp: decode_parent_def encode_parent_def dec_inv dec_prim_iff)
qed

interpretation w_cas: record_wire encode_cas decode_cas cas_ok
proof
  show "decode_cas (encode_cas v @ r) = Inr (v, r)" if "cas_ok v" for v r
    using that by (simp add: decode_cas_def encode_cas_def cas_ok_def dec_prim_step external_id_fits)
  show "cas_ok v \<and> bs = encode_cas v @ r" if "decode_cas bs = Inr (v, r)" for bs v r
    using that by (auto simp: decode_cas_def encode_cas_def cas_ok_def dec_inv dec_prim_iff
        external_id_new_eq_Inr)
qed

lemma decode_failure_kind_encode [simp]: "decode_failure_kind (encode_failure_kind k) = Inr k"
  by (cases k) (simp_all add: decode_failure_kind_def encode_failure_kind_def)

lemma decode_failure_kind_iff: "decode_failure_kind t = Inr k \<longleftrightarrow> t = encode_failure_kind k"
proof
  show "decode_failure_kind t = Inr k \<Longrightarrow> t = encode_failure_kind k"
    by (auto simp: decode_failure_kind_def encode_failure_kind_def split: if_splits)
qed simp

definition detail_fits :: "str option \<Rightarrow> bool" where
  "detail_fits d \<longleftrightarrow> (case d of None \<Rightarrow> True | Some s \<Rightarrow> text_fits s)"

interpretation w_detail: record_wire encode_detail decode_detail detail_fits
proof (rule record_wireI)
  show "decode_detail bs = Inr (d, r) \<longleftrightarrow> detail_fits d \<and> bs = encode_detail d @ r" for bs d r
    by (cases bs; cases d) (auto simp: decode_detail_def encode_detail_def detail_fits_def enc_u8_def
        dec_inv dec_prim_iff split: if_splits)
qed

lemma evidence_detail_fits: "evidence_ok e \<Longrightarrow> detail_fits (evidence_detail e)"
  by (simp add: evidence_ok_def detail_fits_def failure_detail_fits split: option.splits)

interpretation w_evidence: record_wire encode_evidence decode_evidence evidence_ok
proof
  show "decode_evidence (encode_evidence v @ r) = Inr (v, r)" if "evidence_ok v" for v r
  proof -
    have "evidence_new (evidence_kind v) (evidence_detail v) = Inr v"
      using that by (simp add: evidence_new_eq_Inr)
    with evidence_detail_fits [OF that] show ?thesis
      by (simp add: decode_evidence_def encode_evidence_def dec_prim_step w_detail.run_step)
  qed
  show "evidence_ok v \<and> bs = encode_evidence v @ r" if "decode_evidence bs = Inr (v, r)" for bs v r
    using that by (auto simp: decode_evidence_def encode_evidence_def dec_inv dec_prim_iff
        decode_failure_kind_iff w_detail.run_iff evidence_new_eq_Inr)
qed

lemmas job_part_steps = w_context_owner.run_step [OF TrueI] w_request.run_step
  w_attempt_ordinal.run_step [OF TrueI] w_parent.run_step [OF TrueI] w_cas.run_step w_evidence.run_step

lemmas job_part_iff = w_context_owner.run_iff w_request.run_iff w_attempt_ordinal.run_iff
  w_parent.run_iff w_cas.run_iff w_evidence.run_iff

interpretation w_checkpoint: record_wire encode_checkpoint decode_checkpoint checkpoint_ok
proof
  show "decode_checkpoint (encode_checkpoint v @ r) = Inr (v, r)" if "checkpoint_ok v" for v r
    using that by (cases v) (simp_all add: decode_checkpoint_def encode_checkpoint_def enc_u8_def job_part_steps)
  show "checkpoint_ok v \<and> bs = encode_checkpoint v @ r" if "decode_checkpoint bs = Inr (v, r)" for bs v r
    using that by (cases bs) (auto simp: decode_checkpoint_def encode_checkpoint_def enc_u8_def
        dec_inv job_part_iff split: if_splits)
qed

interpretation w_state: record_wire encode_state decode_state state_ok
proof
  show "decode_state (encode_state v @ r) = Inr (v, r)" if "state_ok v" for v r
    using that by (cases v) (simp_all add: decode_state_def encode_state_def enc_u8_def job_part_steps
        w_checkpoint.run_step)
  show "state_ok v \<and> bs = encode_state v @ r" if "decode_state bs = Inr (v, r)" for bs v r
    using that by (cases bs) (auto simp: decode_state_def encode_state_def enc_u8_def
        dec_inv job_part_iff w_checkpoint.run_iff split: if_splits)
qed

section \<open>The job record\<close>

definition encode_job_record :: "BranchHandoffJobRecord \<Rightarrow> bytes" where
  "encode_job_record job =
     enc_fixed (job_id job) @
     enc_fixed (intent_id job) @
     enc_u64 (nz_get (attempt_ordinal job)) @
     enc_fixed (discussion_thread_id job) @
     enc_fixed (parent_thread_id job) @
     encode_context_owner (context_owner_id job) @
     enc_fixed_32 (context_digest job) @
     enc_fixed (resolving_turn_id job) @
     encode_request (request job) @
     enc_u64 (parent_queue_ordinal job) @
     enc_text (resolution job) @
     encode_state (state job) @
     enc_u64 (nz_get (revision job))"

text \<open>The fields in order, up to the call of \<^verbatim>\<open>finish\<close>.\<close>

definition decode_job_fields :: "BranchHandoffJobRecord decoder" where
  "decode_job_fields =
     dec_then dec_fixed (\<lambda>jid.
     dec_then dec_fixed (\<lambda>intent.
     dec_then decode_attempt_ordinal (\<lambda>attempt.
     dec_then dec_fixed (\<lambda>discussion.
     dec_then dec_fixed (\<lambda>parent.
     dec_then decode_context_owner (\<lambda>owner.
     dec_then dec_fixed_32 (\<lambda>digest.
     dec_then dec_fixed (\<lambda>resolving.
     dec_then decode_request (\<lambda>req.
     dec_then dec_u64 (\<lambda>queue.
     dec_then (dec_text ''branch resolution text'') (\<lambda>text.
     dec_then (dec_lift (map_err (\<lambda>e. InvalidValue ''branch resolution text'' (BoxedJobValue e))
       (resolution_text_new text))) (\<lambda>res.
     dec_then decode_state (\<lambda>st.
     dec_then dec_u64 (\<lambda>raw.
     dec_then (dec_lift (map_err (\<lambda>e. InvalidValue ''job revision'' (BoxedRevision e))
       (revision_new raw))) (\<lambda>rev.
       dec_return \<lparr>job_id = jid, intent_id = intent, attempt_ordinal = attempt,
         discussion_thread_id = discussion, parent_thread_id = parent, context_owner_id = owner,
         context_digest = digest, resolving_turn_id = resolving, request = req,
         parent_queue_ordinal = queue, resolution = res, state = st, revision = rev\<rparr>)))))))))))))))"

definition invalid_record :: "string \<Rightarrow> CodecError" where
  "invalid_record message = InvalidValue ''branch handoff job record'' (BoxedInvalidData message)"

definition decode_job_record :: "bytes \<Rightarrow> CodecError + BranchHandoffJobRecord" where
  "decode_job_record encoded =
     and_then (dec_all decode_job_fields encoded) (\<lambda>job.
       if job_id job \<noteq> branch_handoff_job_id (intent_id job)
       then Inl (invalid_record ''job identity does not derive from its resolution intent'')
       else Inr job)"

definition job_fields_ok :: "BranchHandoffJobRecord \<Rightarrow> bool" where
  "job_fields_ok job \<longleftrightarrow> request_ok (request job) \<and> resolution_text_ok (resolution job) \<and> state_ok (state job)"

interpretation w_job_fields: record_wire encode_job_record decode_job_fields job_fields_ok
proof
  fix v r assume "job_fields_ok v"
  then show "decode_job_fields (encode_job_record v @ r) = Inr (v, r)"
    by (simp add: decode_job_fields_def encode_job_record_def job_fields_ok_def dec_prim_step job_part_steps
        w_state.run_step resolution_text_fits resolution_text_new_eq_Inr [THEN iffD2])
next
  fix bs v r assume "decode_job_fields bs = Inr (v, r)"
  then show "job_fields_ok v \<and> bs = encode_job_record v @ r"
    by (auto simp: decode_job_fields_def encode_job_record_def job_fields_ok_def dec_inv dec_prim_iff
        job_part_iff w_state.run_iff resolution_text_new_eq_Inr revision_new_eq_Inr)
qed

lemma decode_job_record_iff: "decode_job_record bs = Inr job \<longleftrightarrow> job_ok job \<and> bs = encode_job_record job"
  by (auto simp: decode_job_record_def and_then_eq_Inr w_job_fields.all_iff job_ok_def job_fields_ok_def
      split: if_splits)

section \<open>Sizes\<close>

lemma length_encode_context_owner [simp]: "length (encode_context_owner w) = 17"
  by (cases w) (simp_all add: encode_context_owner_def)

lemma length_encode_request: "request_ok q \<Longrightarrow> length (encode_request q) \<le> 780"
  by (simp add: encode_request_def request_ok_def external_id_ok_def)

lemma length_encode_parent [simp]: "length (encode_parent p) = 32"
  by (simp add: encode_parent_def)

lemma length_encode_cas: "cas_ok s \<Longrightarrow> length (encode_cas s) \<le> 520"
  by (simp add: encode_cas_def cas_ok_def external_id_ok_def)

lemma length_encode_evidence: "evidence_ok e \<Longrightarrow> length (encode_evidence e) \<le> 2054"
  by (auto simp: encode_evidence_def encode_detail_def evidence_ok_def failure_detail_ok_def
      split: option.splits)

lemma length_encode_checkpoint: "checkpoint_ok p \<Longrightarrow> length (encode_checkpoint p) \<le> 553"
  by (cases p) (auto simp: encode_checkpoint_def dest: length_encode_cas)

lemma length_encode_state: "state_ok s \<Longrightarrow> length (encode_state s) \<le> 2608"
  by (cases s) (auto simp: encode_state_def dest!: length_encode_cas length_encode_checkpoint
      length_encode_evidence)

lemma length_encode_job_record:
  assumes "job_ok job"
  shows "length (encode_job_record job) \<le> 265689"
proof -
  have "length (encode_request (request job)) \<le> 780" "length (encode_state (state job)) \<le> 2608"
    "str_len (resolution job) \<le> 262144"
    using assms by (simp_all add: job_ok_def length_encode_request length_encode_state resolution_text_ok_def)
  then show ?thesis by (simp add: encode_job_record_def)
qed

section \<open>The five codecs\<close>

definition BRANCH_HANDOFF_JOB_RECORD_LIMIT :: usize where
  "BRANCH_HANDOFF_JOB_RECORD_LIMIT = 320 * 1024"
definition REQUEST_IDEMPOTENCY_RECORD_LIMIT :: usize where
  "REQUEST_IDEMPOTENCY_RECORD_LIMIT = 64"
definition DURABLE_JOB_DOMAIN :: string where
  "DURABLE_JOB_DOMAIN = ''beryl-durable-job''"

definition decode_job_id :: "bytes \<Rightarrow> CodecError + JobId" where
  "decode_job_id encoded = decode_identity encoded ''job identity''"

definition decode_thread_id :: "bytes \<Rightarrow> CodecError + SyndicThreadId" where
  "decode_thread_id encoded = decode_identity encoded ''Syndic thread identity''"

definition job_record_codec :: "(JobId, BranchHandoffJobRecord, CodecError) record_codec" where
  "job_record_codec =
     \<lparr>c_domain = DURABLE_JOB_DOMAIN, c_family = ''records'', c_type = ''JobRecordCodec'',
      c_version = 1, c_max_key_bytes = 16, c_max_value_bytes = BRANCH_HANDOFF_JOB_RECORD_LIMIT,
      c_encode_key = (\<lambda>key. Inr (arr16_bytes key)), c_decode_key = decode_job_id,
      c_validate_stored_key = (\<lambda>_. Inr ()),
      c_encode_value = (\<lambda>v. Inr (encode_job_record v)), c_decode_value = decode_job_record,
      c_decoded_key_bytes = (\<lambda>encoded _. length encoded),
      c_decoded_value_bytes = (\<lambda>encoded _. length encoded)\<rparr>"

definition live_job_codec :: "(JobId, BranchHandoffJobRecord, CodecError) record_codec" where
  "live_job_codec =
     \<lparr>c_domain = DURABLE_JOB_DOMAIN, c_family = ''live-jobs'', c_type = ''LiveJobIndexCodec'',
      c_version = 1, c_max_key_bytes = 16, c_max_value_bytes = BRANCH_HANDOFF_JOB_RECORD_LIMIT,
      c_encode_key = (\<lambda>key. Inr (arr16_bytes key)), c_decode_key = decode_job_id,
      c_validate_stored_key = (\<lambda>_. Inr ()),
      c_encode_value = (\<lambda>v. Inr (encode_job_record v)), c_decode_value = decode_job_record,
      c_decoded_key_bytes = (\<lambda>encoded _. length encoded),
      c_decoded_value_bytes = (\<lambda>encoded _. length encoded)\<rparr>"

datatype RequestIndexKey = Lower | RequestValue ResolutionRequestIdentity | Upper

definition encode_request_key :: "RequestIndexKey \<Rightarrow> bytes" where
  "encode_request_key key = (case key of
     Lower \<Rightarrow> enc_u8 0
   | RequestValue r \<Rightarrow> enc_u8 1 @ encode_request r
   | Upper \<Rightarrow> enc_u8 255)"

definition decode_request_key_body :: "RequestIndexKey decoder" where
  "decode_request_key_body = dec_then dec_u8 (\<lambda>tag.
     if tag = 0 then dec_return Lower
     else if tag = 1 then dec_then decode_request (\<lambda>r. dec_return (RequestValue r))
     else if tag = 255 then dec_return Upper
     else dec_lift (Inl (InvalidTag ''request-idempotency key'' tag)))"

definition validate_request_key :: "RequestIndexKey \<Rightarrow> CodecError + unit" where
  "validate_request_key key = (case key of
     RequestValue _ \<Rightarrow> Inr ()
   | _ \<Rightarrow> Inl (invalid_record ''request-idempotency cursor bound is not storable''))"

definition encode_request_admission :: "ResolutionRequestAdmission \<Rightarrow> bytes" where
  "encode_request_admission v = enc_fixed (ra_job_id v) @ enc_fixed (ra_intent_id v) @
     enc_fixed (ra_discussion_thread_id v) @ enc_u64 (nz_get (ra_attempt_ordinal v))"

definition decode_request_admission_fields :: "ResolutionRequestAdmission decoder" where
  "decode_request_admission_fields =
     dec_then dec_fixed (\<lambda>jid. dec_then dec_fixed (\<lambda>intent. dec_then dec_fixed (\<lambda>discussion.
     dec_then decode_attempt_ordinal (\<lambda>attempt.
       dec_return \<lparr>ra_job_id = jid, ra_intent_id = intent, ra_discussion_thread_id = discussion,
         ra_attempt_ordinal = attempt\<rparr>))))"

definition decode_request_admission :: "bytes \<Rightarrow> CodecError + ResolutionRequestAdmission" where
  "decode_request_admission encoded =
     and_then (dec_all decode_request_admission_fields encoded) (\<lambda>v.
       if ra_job_id v \<noteq> branch_handoff_job_id (ra_intent_id v)
       then Inl (invalid_record ''request admission job does not derive from its intent'')
       else Inr v)"

definition request_codec :: "(RequestIndexKey, ResolutionRequestAdmission, CodecError) record_codec" where
  "request_codec =
     \<lparr>c_domain = DURABLE_JOB_DOMAIN, c_family = ''request-idempotency'',
      c_type = ''RequestIdempotencyIndexCodec'',
      c_version = 1, c_max_key_bytes = 1024, c_max_value_bytes = 64,
      c_encode_key = (\<lambda>key. Inr (encode_request_key key)),
      c_decode_key = dec_all decode_request_key_body,
      c_validate_stored_key = validate_request_key,
      c_encode_value = (\<lambda>v. Inr (encode_request_admission v)),
      c_decode_value = decode_request_admission,
      c_decoded_key_bytes = (\<lambda>encoded _. length encoded),
      c_decoded_value_bytes = (\<lambda>encoded _. length encoded)\<rparr>"

record DiscussionAttemptKey =
  dk_discussion_thread_id :: SyndicThreadId
  dk_attempt_ordinal :: ResolutionAttemptOrdinal

definition encode_attempt_key :: "DiscussionAttemptKey \<Rightarrow> bytes" where
  "encode_attempt_key key =
     enc_fixed (dk_discussion_thread_id key) @ enc_u64 (nz_get (dk_attempt_ordinal key))"

definition decode_attempt_key_body :: "DiscussionAttemptKey decoder" where
  "decode_attempt_key_body = dec_then dec_fixed (\<lambda>thread. dec_then decode_attempt_ordinal (\<lambda>ordinal.
     dec_return \<lparr>dk_discussion_thread_id = thread, dk_attempt_ordinal = ordinal\<rparr>))"

definition attempt_codec :: "(DiscussionAttemptKey, JobId, CodecError) record_codec" where
  "attempt_codec =
     \<lparr>c_domain = DURABLE_JOB_DOMAIN, c_family = ''discussion-attempts'',
      c_type = ''DiscussionAttemptIndexCodec'',
      c_version = 1, c_max_key_bytes = 24, c_max_value_bytes = 16,
      c_encode_key = (\<lambda>key. Inr (encode_attempt_key key)),
      c_decode_key = dec_all decode_attempt_key_body,
      c_validate_stored_key = (\<lambda>_. Inr ()),
      c_encode_value = (\<lambda>v. Inr (arr16_bytes v)), c_decode_value = decode_job_id,
      c_decoded_key_bytes = (\<lambda>encoded _. length encoded),
      c_decoded_value_bytes = (\<lambda>encoded _. length encoded)\<rparr>"

definition encode_latest :: "LatestBranchHandoffAttempt \<Rightarrow> bytes" where
  "encode_latest v = enc_fixed (la_job_id v) @ enc_u64 (nz_get (la_attempt_ordinal v))"

definition decode_latest_body :: "LatestBranchHandoffAttempt decoder" where
  "decode_latest_body = dec_then dec_fixed (\<lambda>jid. dec_then decode_attempt_ordinal (\<lambda>attempt.
     dec_return \<lparr>la_job_id = jid, la_attempt_ordinal = attempt\<rparr>))"

definition latest_codec :: "(SyndicThreadId, LatestBranchHandoffAttempt, CodecError) record_codec" where
  "latest_codec =
     \<lparr>c_domain = DURABLE_JOB_DOMAIN, c_family = ''latest-attempts'',
      c_type = ''LatestAttemptIndexCodec'',
      c_version = 1, c_max_key_bytes = 16, c_max_value_bytes = 24,
      c_encode_key = (\<lambda>key. Inr (arr16_bytes key)), c_decode_key = decode_thread_id,
      c_validate_stored_key = (\<lambda>_. Inr ()),
      c_encode_value = (\<lambda>v. Inr (encode_latest v)), c_decode_value = dec_all decode_latest_body,
      c_decoded_key_bytes = (\<lambda>encoded _. length encoded),
      c_decoded_value_bytes = (\<lambda>encoded _. length encoded)\<rparr>"

lemmas job_codec_defs = job_record_codec_def live_job_codec_def request_codec_def attempt_codec_def
  latest_codec_def

section \<open>The codecs satisfy the contract\<close>

fun request_key_ok :: "RequestIndexKey \<Rightarrow> bool" where
  "request_key_ok (RequestValue r) \<longleftrightarrow> request_ok r"
| "request_key_ok _ \<longleftrightarrow> False"

definition request_admission_ok :: "ResolutionRequestAdmission \<Rightarrow> bool" where
  "request_admission_ok v \<longleftrightarrow> ra_job_id v = branch_handoff_job_id (ra_intent_id v)"

lemma decode_request_key_iff:
  "decode_request_key_body bs = Inr (k, r) \<longleftrightarrow>
     (case k of RequestValue q \<Rightarrow> request_ok q | _ \<Rightarrow> True) \<and> bs = encode_request_key k @ r"
  by (cases bs; cases k) (auto simp: decode_request_key_body_def encode_request_key_def enc_u8_def
      dec_inv w_request.run_iff split: if_splits)

interpretation w_request_admission: record_wire encode_request_admission decode_request_admission_fields "\<lambda>_. True"
proof
  show "decode_request_admission_fields (encode_request_admission v @ r) = Inr (v, r)" for v r
    by (simp add: decode_request_admission_fields_def encode_request_admission_def dec_prim_step job_part_steps)
  show "True \<and> bs = encode_request_admission v @ r" if "decode_request_admission_fields bs = Inr (v, r)" for bs v r
    using that by (auto simp: decode_request_admission_fields_def encode_request_admission_def dec_inv
        dec_prim_iff job_part_iff)
qed

interpretation w_attempt_key: record_wire encode_attempt_key decode_attempt_key_body "\<lambda>_. True"
proof
  show "decode_attempt_key_body (encode_attempt_key v @ r) = Inr (v, r)" for v r
    by (simp add: decode_attempt_key_body_def encode_attempt_key_def dec_prim_step job_part_steps)
  show "True \<and> bs = encode_attempt_key v @ r" if "decode_attempt_key_body bs = Inr (v, r)" for bs v r
    using that by (auto simp: decode_attempt_key_body_def encode_attempt_key_def dec_inv dec_prim_iff
        job_part_iff)
qed

interpretation w_latest: record_wire encode_latest decode_latest_body "\<lambda>_. True"
proof
  show "decode_latest_body (encode_latest v @ r) = Inr (v, r)" for v r
    by (simp add: decode_latest_body_def encode_latest_def dec_prim_step job_part_steps)
  show "True \<and> bs = encode_latest v @ r" if "decode_latest_body bs = Inr (v, r)" for bs v r
    using that by (auto simp: decode_latest_body_def encode_latest_def dec_inv dec_prim_iff job_part_iff)
qed

lemma decode_request_admission_iff:
  "decode_request_admission bs = Inr v \<longleftrightarrow> request_admission_ok v \<and> bs = encode_request_admission v"
  by (auto simp: decode_request_admission_def and_then_eq_Inr w_request_admission.all_iff
      request_admission_ok_def split: if_splits)

lemma length_small_encodings [simp]:
  "length (encode_request_admission v) = 56" "length (encode_attempt_key k) = 24"
  "length (encode_latest w) = 24"
  by (simp_all add: encode_request_admission_def encode_attempt_key_def encode_latest_def)

lemma length_encode_request_key:
  "request_key_ok k \<Longrightarrow> 0 < length (encode_request_key k) \<and> length (encode_request_key k) \<le> 781"
  by (cases k) (auto simp: encode_request_key_def dest: length_encode_request)

lemmas id_codec_simps = decode_job_id_def decode_thread_id_def decode_identity_iff

interpretation tf_job: typed_family job_record_codec arr16_bytes encode_job_record "\<lambda>_. True" job_ok
  by unfold_locales (auto simp: job_record_codec_def BRANCH_HANDOFF_JOB_RECORD_LIMIT_def id_codec_simps
      decode_job_record_iff dest: length_encode_job_record)

interpretation tf_live: typed_family live_job_codec arr16_bytes encode_job_record "\<lambda>_. True" job_ok
  by unfold_locales (auto simp: live_job_codec_def BRANCH_HANDOFF_JOB_RECORD_LIMIT_def id_codec_simps
      decode_job_record_iff dest: length_encode_job_record)

interpretation tf_request: typed_family request_codec encode_request_key encode_request_admission
    request_key_ok request_admission_ok
proof unfold_locales
  fix bs k
  show "c_decode_key request_codec bs = Inr k \<and> c_validate_stored_key request_codec k = Inr () \<longleftrightarrow>
      request_key_ok k \<and> bs = encode_request_key k"
    by (cases k) (auto simp: request_codec_def dec_all_eq_Inr decode_request_key_iff validate_request_key_def)
next
  show "0 < length (encode_request_key k) \<and> length (encode_request_key k) \<le> c_max_key_bytes request_codec"
    if "request_key_ok k" for k
    using length_encode_request_key [OF that] by (simp add: request_codec_def)
qed (simp_all add: request_codec_def decode_request_admission_iff)

interpretation tf_attempt: typed_family attempt_codec encode_attempt_key arr16_bytes "\<lambda>_. True" "\<lambda>_. True"
  by unfold_locales (auto simp: attempt_codec_def id_codec_simps w_attempt_key.all_iff)

interpretation tf_latest: typed_family latest_codec arr16_bytes encode_latest "\<lambda>_. True" "\<lambda>_. True"
  by unfold_locales (auto simp: latest_codec_def id_codec_simps w_latest.all_iff)

section \<open>The registered families\<close>

definition DURABLE_JOB_FAMILIES :: "RecordFamily list" where
  "DURABLE_JOB_FAMILIES =
     [record_family_new job_record_codec 1, record_family_new live_job_codec 1,
      record_family_new request_codec 1, record_family_new attempt_codec 1,
      record_family_new latest_codec 1]"

definition job_families :: "RegisteredFamily list" where
  "job_families = (case blueprint_for_domain DURABLE_JOB_DOMAIN DURABLE_JOB_FAMILIES of
     Inr fs \<Rightarrow> fs | Inl _ \<Rightarrow> [])"

abbreviation "ks_jobs \<equiv> ''d.beryl-durable-job.records''"
abbreviation "ks_live \<equiv> ''d.beryl-durable-job.live-jobs''"
abbreviation "ks_requests \<equiv> ''d.beryl-durable-job.request-idempotency''"
abbreviation "ks_attempts \<equiv> ''d.beryl-durable-job.discussion-attempts''"
abbreviation "ks_latest \<equiv> ''d.beryl-durable-job.latest-attempts''"

lemma job_families_eq:
  "job_families =
     [\<lparr>fam_logical_name = ''discussion-attempts'', fam_codec_type = ''DiscussionAttemptIndexCodec'',
       fam_max_key_bytes = 24, fam_max_stored_value_bytes = 20, fam_keyspace = ks_attempts, fam_schema = 1\<rparr>,
      \<lparr>fam_logical_name = ''latest-attempts'', fam_codec_type = ''LatestAttemptIndexCodec'',
       fam_max_key_bytes = 16, fam_max_stored_value_bytes = 28, fam_keyspace = ks_latest, fam_schema = 1\<rparr>,
      \<lparr>fam_logical_name = ''live-jobs'', fam_codec_type = ''LiveJobIndexCodec'',
       fam_max_key_bytes = 16, fam_max_stored_value_bytes = 327684, fam_keyspace = ks_live, fam_schema = 1\<rparr>,
      \<lparr>fam_logical_name = ''records'', fam_codec_type = ''JobRecordCodec'',
       fam_max_key_bytes = 16, fam_max_stored_value_bytes = 327684, fam_keyspace = ks_jobs, fam_schema = 1\<rparr>,
      \<lparr>fam_logical_name = ''request-idempotency'', fam_codec_type = ''RequestIdempotencyIndexCodec'',
       fam_max_key_bytes = 1024, fam_max_stored_value_bytes = 68, fam_keyspace = ks_requests, fam_schema = 1\<rparr>]"
  by (simp add: job_families_def blueprint_for_domain_def DURABLE_JOB_FAMILIES_def record_family_new_def
      job_codec_defs DURABLE_JOB_DOMAIN_def validate_component_def component_char_def physical_name_def
      MAX_COMPONENT_BYTES_def BRANCH_HANDOFF_JOB_RECORD_LIMIT_def usize_saturating_add_def
      usize_max_def RECORD_VERSION_BYTES_def ascii_bytes_def)

lemma job_family_slots [simp]:
  "family_slot job_families ''discussion-attempts'' = Some 0"
  "family_slot job_families ''latest-attempts'' = Some 1"
  "family_slot job_families ''live-jobs'' = Some 2"
  "family_slot job_families ''records'' = Some 3"
  "family_slot job_families ''request-idempotency'' = Some 4"
  by (simp_all add: job_families_eq family_slot_def)

lemma job_families_serve [simp]:
  "serves job_families job_record_codec ks_jobs"
  "serves job_families live_job_codec ks_live"
  "serves job_families request_codec ks_requests"
  "serves job_families attempt_codec ks_attempts"
  "serves job_families latest_codec ks_latest"
  by (simp_all add: serves_def family_of_def job_codec_defs) (simp_all add: job_families_eq)

section \<open>Properties of the codecs\<close>

text \<open>
  C33. The decoders of the job record, of the request admission and of the latest attempt and the
  decoder of the attempt key accept exactly the encodings of valid values: decoding is the inverse
  of encoding, no other byte string is accepted, and an accepted record is well formed.
\<close>

theorem job_codecs_canonical:
  "(decode_job_record bs = Inr job \<longleftrightarrow> job_ok job \<and> bs = encode_job_record job) \<and>
   (decode_request_admission bs = Inr a \<longleftrightarrow> request_admission_ok a \<and> bs = encode_request_admission a) \<and>
   (c_decode_value latest_codec bs = Inr l \<longleftrightarrow> bs = encode_latest l) \<and>
   (c_decode_key attempt_codec bs = Inr d \<longleftrightarrow> bs = encode_attempt_key d)"
  by (simp add: decode_job_record_iff decode_request_admission_iff latest_codec_def attempt_codec_def
      w_latest.all_iff w_attempt_key.all_iff)

text \<open>
  Every well-formed job record fits the limit declared for its family, and every request key
  fits the limit of the request index, so neither can be refused for its size when it is written.
\<close>

theorem job_encodings_bounded:
  assumes "job_ok job"
  shows "length (encode_job_record job) \<le> BRANCH_HANDOFF_JOB_RECORD_LIMIT \<and>
    length (encode_request_key (RequestValue (request job))) \<le> c_max_key_bytes request_codec"
  using length_encode_job_record [OF assms] length_encode_request_key [of "RequestValue (request job)"] assms
  by (simp add: BRANCH_HANDOFF_JOB_RECORD_LIMIT_def request_codec_def job_ok_def)

theorem job_encodings_bounded_witness:
  "job_ok sample_job \<and> length (encode_job_record sample_job) \<le> 320 * 1024"
  using sample_job_ok job_encodings_bounded [OF sample_job_ok]
  by (simp add: BRANCH_HANDOFF_JOB_RECORD_LIMIT_def)

end
