(* ===== verification/Job_Mutation.thy ===== *)
theory Job_Mutation
  imports Job_Codec
begin

text \<open>
  Mutations of the durable-job domain: the successor functions of
  \<^verbatim>\<open>durable_job/mutation/transition/successor.rs\<close>, the commands of \<^verbatim>\<open>mutation.rs\<close>,
  \<^verbatim>\<open>mutation/transition.rs\<close>, \<^verbatim>\<open>mutation/admission.rs\<close> and \<^verbatim>\<open>mutation/prepared.rs\<close>, and the
  reads they share in \<^verbatim>\<open>mutation/access.rs\<close>.
\<close>

section \<open>Errors\<close>

datatype 'io DurableJobMutationError =
    MutRead "('io, CodecError) ReadError"
  | MutBuild "('io, CodecError) MutationBuildError"
  | MutValue DurableJobValueError
  | MutRevision RevisionError
  | RequestAlreadyAdmitted ResolutionRequestAdmission
  | JobAlreadyExists JobId
  | JobMissing JobId
  | AttemptAlreadyExists SyndicThreadId ResolutionAttemptOrdinal
  | AttemptOrdinalConflict ResolutionAttemptOrdinal ResolutionAttemptOrdinal
  | LiveAttemptExists JobId
  | SuccessfulAttemptExists JobId
  | JobRevisionConflict JobRevision JobRevision
  | InvalidTransition string BranchHandoffJobLifecycle
  | FailureKindMismatch string HandoffFailureKind
  | Invariant string

definition invalid_transition :: "string \<Rightarrow> BranchHandoffJobLifecycle \<Rightarrow> 'io DurableJobMutationError" where
  "invalid_transition expected current = InvalidTransition expected current"

definition invariant_transition :: "'io DurableJobMutationError" where
  "invariant_transition = Invariant ''job state changed between transition validation and contribution''"

fun lifecycle_name :: "BranchHandoffJobLifecycle \<Rightarrow> string" where
  "lifecycle_name Lc_WaitingResolvingTurn = ''waiting_resolving_turn''"
| "lifecycle_name Lc_WaitingParent = ''waiting_parent''"
| "lifecycle_name Lc_StartingParent = ''starting_parent''"
| "lifecycle_name Lc_ParentActive = ''parent_active''"
| "lifecycle_name Lc_RetryableFailed = ''retryable_failed''"
| "lifecycle_name Lc_TerminalFailed = ''terminal_failed''"
| "lifecycle_name Lc_Succeeded = ''succeeded''"

section \<open>Successors\<close>

type_synonym 'io job_result = "'io DurableJobMutationError + BranchHandoffJobRecord"

definition advance :: "BranchHandoffJobRecord \<Rightarrow> 'io job_result" where
  "advance job = and_then (map_err MutRevision (revision_checked_next (revision job))) (\<lambda>r.
     Inr (job\<lparr>revision := r\<rparr>))"

definition validate_failure_checkpoint ::
    "BranchHandoffJobRecord \<Rightarrow> HandoffFailureEvidence \<Rightarrow> BranchHandoffJobLifecycle \<Rightarrow>
     'io DurableJobMutationError + unit" where
  "validate_failure_checkpoint job evidence failure_lifecycle =
     and_then (ok_or invariant_transition (state_checkpoint (state job))) (\<lambda>cp.
       if failure_state_is_compatible failure_lifecycle cp (evidence_kind evidence) then Inr ()
       else Inl (FailureKindMismatch ''failure kind valid for the retained checkpoint''
              (evidence_kind evidence)))"

definition retry_job :: "BranchHandoffJobRecord \<Rightarrow> 'io job_result" where
  "retry_job job =
     (if lifecycle job \<noteq> Lc_RetryableFailed
      then Inl (invalid_transition ''retryable_failed'' (lifecycle job))
      else case state job of
        RetryableFailed resume _ \<Rightarrow> advance (job\<lparr>state := into_state resume\<rparr>)
      | _ \<Rightarrow> Inl invariant_transition)"

definition parent_accepted_job :: "BranchHandoffJobRecord \<Rightarrow> ParentCasIdentity \<Rightarrow> 'io job_result" where
  "parent_accepted_job job cas =
     (if lifecycle job \<noteq> Lc_StartingParent
      then Inl (invalid_transition ''starting_parent'' (lifecycle job))
      else case state job of
        StartingParent parent \<Rightarrow> advance (job\<lparr>state := ParentActive parent cas\<rparr>)
      | _ \<Rightarrow> Inl invariant_transition)"

definition retryable_failed_job :: "BranchHandoffJobRecord \<Rightarrow> HandoffFailureEvidence \<Rightarrow> 'io job_result" where
  "retryable_failed_job job evidence =
     (if lifecycle job \<notin> {Lc_WaitingResolvingTurn, Lc_WaitingParent, Lc_StartingParent, Lc_ParentActive}
      then Inl (invalid_transition ''a non-failed live checkpoint'' (lifecycle job))
      else and_then (validate_failure_checkpoint job evidence Lc_RetryableFailed) (\<lambda>_.
        and_then (ok_or invariant_transition (state_checkpoint (state job))) (\<lambda>resume.
          advance (job\<lparr>state := RetryableFailed resume evidence\<rparr>))))"

definition succeeded_job :: "BranchHandoffJobRecord \<Rightarrow> 'io job_result" where
  "succeeded_job job =
     (if lifecycle job \<noteq> Lc_ParentActive
      then Inl (invalid_transition ''parent_active'' (lifecycle job))
      else case state job of
        ParentActive parent cas \<Rightarrow> advance (job\<lparr>state := Succeeded parent cas\<rparr>)
      | _ \<Rightarrow> Inl invariant_transition)"

definition start_parent_job :: "BranchHandoffJobRecord \<Rightarrow> ParentHandoffIdentity \<Rightarrow> 'io job_result" where
  "start_parent_job job parent =
     (if lifecycle job \<noteq> Lc_WaitingParent
      then Inl (invalid_transition ''waiting parent'' (lifecycle job))
      else advance (job\<lparr>state := StartingParent parent\<rparr>))"

definition complete_resolving_job :: "BranchHandoffJobRecord \<Rightarrow> 'io job_result" where
  "complete_resolving_job job =
     (if lifecycle job \<noteq> Lc_WaitingResolvingTurn
      then Inl (invalid_transition ''waiting resolving turn'' (lifecycle job))
      else advance (job\<lparr>state := WaitingParent\<rparr>))"

definition terminal_failed_job :: "BranchHandoffJobRecord \<Rightarrow> HandoffFailureEvidence \<Rightarrow> 'io job_result" where
  "terminal_failed_job job evidence =
     (if \<not> is_live (lifecycle job)
      then Inl (invalid_transition ''a live job'' (lifecycle job))
      else and_then (validate_failure_checkpoint job evidence Lc_TerminalFailed) (\<lambda>_.
        and_then (ok_or invariant_transition (state_checkpoint (state job))) (\<lambda>stopped_at.
          advance (job\<lparr>state := TerminalFailed stopped_at evidence\<rparr>))))"

datatype HandoffJobTransition =
    T_Retry
  | T_CompleteResolving
  | T_ChildInputPending HandoffFailureEvidence
  | T_StartParent ParentHandoffIdentity
  | T_ParentArchived HandoffFailureEvidence
  | T_ParentAccepted ParentCasIdentity
  | T_RetryableFailure HandoffFailureEvidence
  | T_TerminalFailure HandoffFailureEvidence
  | T_Succeed

fun successor :: "HandoffJobTransition \<Rightarrow> BranchHandoffJobRecord \<Rightarrow> 'io job_result" where
  "successor T_Retry job = retry_job job"
| "successor T_CompleteResolving job = complete_resolving_job job"
| "successor (T_StartParent parent) job = start_parent_job job parent"
| "successor (T_ParentAccepted cas) job = parent_accepted_job job cas"
| "successor (T_RetryableFailure evidence) job = retryable_failed_job job evidence"
| "successor (T_TerminalFailure evidence) job = terminal_failed_job job evidence"
| "successor T_Succeed job = succeeded_job job"
| "successor (T_ChildInputPending evidence) job =
     (if evidence_kind evidence \<noteq> ChildInputPending
      then Inl (FailureKindMismatch ''child input pending'' (evidence_kind evidence))
      else terminal_failed_job job evidence)"
| "successor (T_ParentArchived evidence) job =
     (if evidence_kind evidence \<noteq> ParentArchived
      then Inl (FailureKindMismatch ''parent archived'' (evidence_kind evidence))
      else terminal_failed_job job evidence)"

section \<open>Readers\<close>

text \<open>
  The trait \<^verbatim>\<open>Reader\<close> has one generic method; it is used at the five codecs of the domain. A reader
  is the record of these five instances. \<open>domain_reader\<close> is its implementation by a
  \<^verbatim>\<open>DomainReader\<close>.
\<close>

record 'io job_reader =
  jr_job :: "JobId \<Rightarrow> usize \<Rightarrow> ('io, CodecError) ReadError + BranchHandoffJobRecord option"
  jr_live :: "JobId \<Rightarrow> usize \<Rightarrow> ('io, CodecError) ReadError + BranchHandoffJobRecord option"
  jr_request :: "RequestIndexKey \<Rightarrow> usize \<Rightarrow> ('io, CodecError) ReadError + ResolutionRequestAdmission option"
  jr_attempt :: "DiscussionAttemptKey \<Rightarrow> usize \<Rightarrow> ('io, CodecError) ReadError + JobId option"
  jr_latest :: "SyndicThreadId \<Rightarrow> usize \<Rightarrow> ('io, CodecError) ReadError + LatestBranchHandoffAttempt option"

definition domain_reader :: "'io DomainReader \<Rightarrow> 'io job_reader" where
  "domain_reader rd =
     \<lparr>jr_job = read_point rd job_record_codec, jr_live = read_point rd live_job_codec,
      jr_request = read_point rd request_codec, jr_attempt = read_point rd attempt_codec,
      jr_latest = read_point rd latest_codec\<rparr>"

definition job_point_limit :: usize where
  "job_point_limit = BRANCH_HANDOFF_JOB_RECORD_LIMIT + 4"
definition request_point_limit :: usize where
  "request_point_limit = REQUEST_IDEMPOTENCY_RECORD_LIMIT + 4"
definition small_point_limit :: usize where
  "small_point_limit = 64"

definition attempt_key :: "SyndicThreadId \<Rightarrow> ResolutionAttemptOrdinal \<Rightarrow> DiscussionAttemptKey" where
  "attempt_key thread ordinal = \<lparr>dk_discussion_thread_id = thread, dk_attempt_ordinal = ordinal\<rparr>"

definition read_identity :: "'io job_reader \<Rightarrow> JobId \<Rightarrow> 'io job_result" where
  "read_identity rd jid =
     and_then (map_err MutRead (jr_job rd jid job_point_limit)) (\<lambda>found.
     and_then (ok_or (JobMissing jid) found) (\<lambda>job.
     and_then (map_err MutRead (jr_live rd jid job_point_limit)) (\<lambda>live.
     and_then (map_err MutRead (jr_request rd (RequestValue (request job)) request_point_limit)) (\<lambda>req.
     and_then (map_err MutRead (jr_attempt rd
         (attempt_key (discussion_thread_id job) (attempt_ordinal job)) small_point_limit)) (\<lambda>attempt.
       if job_id job \<noteq> jid \<or>
          live \<noteq> (if is_live (lifecycle job) then Some job else None) \<or>
          req \<noteq> Some (request_admission_from_job job) \<or>
          attempt \<noteq> Some jid
       then Inl (Invariant ''handoff job index closure disagrees'')
       else Inr job)))))"

definition read_authenticated :: "'io job_reader \<Rightarrow> JobId \<Rightarrow> 'io job_result" where
  "read_authenticated rd jid =
     and_then (read_identity rd jid) (\<lambda>job.
     and_then (map_err MutRead (jr_latest rd (discussion_thread_id job) small_point_limit)) (\<lambda>latest.
       if \<not> is_live (lifecycle job) \<or> latest \<noteq> Some (latest_from_job job)
       then Inl (Invariant ''handoff job latest-attempt closure disagrees'')
       else Inr job))"

section \<open>Admission\<close>

text \<open>The closure over the latest attempt inside \<^verbatim>\<open>validate_new\<close>.\<close>

definition admission_prior ::
    "'io job_reader \<Rightarrow> BranchHandoffJobRecord \<Rightarrow> LatestBranchHandoffAttempt \<Rightarrow> 'io job_result" where
  "admission_prior rd job latest =
     and_then (read_identity rd (la_job_id latest)) (\<lambda>prior.
       if discussion_thread_id prior \<noteq> discussion_thread_id job \<or> latest_from_job prior \<noteq> latest
       then Inl (Invariant ''latest-attempt index does not match its authoritative job'')
       else case lifecycle prior of
         Lc_TerminalFailed \<Rightarrow> Inr prior
       | Lc_Succeeded \<Rightarrow> Inl (SuccessfulAttemptExists (job_id prior))
       | _ \<Rightarrow> Inl (LiveAttemptExists (job_id prior)))"

definition validate_new ::
    "'io job_reader \<Rightarrow> BranchHandoffJobRecord \<Rightarrow> 'io DurableJobMutationError + BranchHandoffJobRecord option" where
  "validate_new rd job =
     and_then (map_err MutRead (jr_request rd (RequestValue (request job)) request_point_limit)) (\<lambda>req.
     case req of Some existing \<Rightarrow> Inl (RequestAlreadyAdmitted existing) | None \<Rightarrow>
     and_then (map_err MutRead (jr_job rd (job_id job) job_point_limit)) (\<lambda>existing.
     if existing \<noteq> None then Inl (JobAlreadyExists (job_id job)) else
     and_then (map_err MutRead (jr_live rd (job_id job) job_point_limit)) (\<lambda>live.
     if live \<noteq> None
     then Inl (Invariant ''live-job index exists without its authoritative job record'') else
     and_then (map_err MutRead (jr_attempt rd
         (attempt_key (discussion_thread_id job) (attempt_ordinal job)) small_point_limit)) (\<lambda>attempt.
     if attempt \<noteq> None
     then Inl (AttemptAlreadyExists (discussion_thread_id job) (attempt_ordinal job)) else
     and_then (map_err MutRead (jr_latest rd (discussion_thread_id job) small_point_limit)) (\<lambda>latest.
     and_then (case latest of None \<Rightarrow> Inr None
         | Some l \<Rightarrow> and_then (admission_prior rd job l) (\<lambda>p. Inr (Some p))) (\<lambda>prior.
     and_then (case prior of
           Some p \<Rightarrow> map_err MutValue (attempt_ordinal_checked_next (attempt_ordinal p))
         | None \<Rightarrow> Inr attempt_ordinal_first) (\<lambda>expected.
       if attempt_ordinal job \<noteq> expected
       then Inl (AttemptOrdinalConflict expected (attempt_ordinal job))
       else Inr prior)))))))"

type_synonym 'io build_step = "MutationBuilder \<Rightarrow> 'io DurableJobMutationError + MutationBuilder"

definition job_put :: "('k, 'v, CodecError) record_codec \<Rightarrow> 'k \<Rightarrow> 'v \<Rightarrow> 'io build_step" where
  "job_put c key value mb = map_err MutBuild (builder_put c key value mb)"

definition job_delete :: "('k, 'v, CodecError) record_codec \<Rightarrow> 'k \<Rightarrow> 'io build_step" where
  "job_delete c key mb = map_err MutBuild (builder_delete c key mb)"

definition admission_write :: "BranchHandoffJobRecord \<Rightarrow> 'io build_step" where
  "admission_write job mb =
     and_then (job_put job_record_codec (job_id job) job mb) (\<lambda>mb.
     and_then (job_put live_job_codec (job_id job) job mb) (\<lambda>mb.
     and_then (job_put request_codec (RequestValue (request job)) (request_admission_from_job job) mb) (\<lambda>mb.
     and_then (job_put attempt_codec (attempt_key (discussion_thread_id job) (attempt_ordinal job))
       (job_id job) mb) (\<lambda>mb.
       job_put latest_codec (discussion_thread_id job) (latest_from_job job) mb))))"

type_synonym 'io reserve_step =
  "ReconciliationReservation \<Rightarrow> 'io DurableJobMutationError + ReconciliationReservation"

definition job_reserve :: "('k, 'v, CodecError) record_codec \<Rightarrow> 'io reserve_step" where
  "job_reserve c r = map_err MutBuild (reserve_records c 1 r)"

definition admission_reserve :: "'io reserve_step" where
  "admission_reserve r =
     and_then (job_reserve job_record_codec r) (\<lambda>r.
     and_then (job_reserve live_job_codec r) (\<lambda>r.
     and_then (job_reserve request_codec r) (\<lambda>r.
     and_then (job_reserve attempt_codec r) (\<lambda>r.
       job_reserve latest_codec r))))"

definition admit_prepare :: "'io job_reader \<Rightarrow> BranchHandoffJobAdmission \<Rightarrow> 'io job_result" where
  "admit_prepare rd admission =
     (let job = job_initial admission in and_then (validate_new rd job) (\<lambda>_. Inr job))"

section \<open>Transition commands\<close>

definition required_job :: "'io job_reader \<Rightarrow> JobId \<Rightarrow> 'io job_result" where
  "required_job rd jid =
     and_then (map_err MutRead (jr_job rd jid job_point_limit)) (ok_or (JobMissing jid))"

definition ensure_revision :: "JobRevision \<Rightarrow> JobRevision \<Rightarrow> 'io DurableJobMutationError + unit" where
  "ensure_revision expected current =
     (if expected = current then Inr () else Inl (JobRevisionConflict expected current))"

definition validate_current :: "'io job_reader \<Rightarrow> JobId \<Rightarrow> JobRevision \<Rightarrow> 'io job_result" where
  "validate_current rd jid expected =
     and_then (required_job rd jid) (\<lambda>job.
     and_then (ensure_revision expected (revision job)) (\<lambda>_. Inr job))"

definition validate_lifecycle ::
    "'io job_reader \<Rightarrow> JobId \<Rightarrow> JobRevision \<Rightarrow> BranchHandoffJobLifecycle \<Rightarrow> 'io job_result" where
  "validate_lifecycle rd jid expected expected_lifecycle =
     and_then (validate_current rd jid expected) (\<lambda>job.
       if lifecycle job \<noteq> expected_lifecycle
       then Inl (invalid_transition (lifecycle_name expected_lifecycle) (lifecycle job))
       else Inr job)"

definition complete_resolving_turn_prepare :: "'io job_reader \<Rightarrow> JobId \<Rightarrow> JobRevision \<Rightarrow> 'io job_result" where
  "complete_resolving_turn_prepare rd jid expected =
     and_then (validate_lifecycle rd jid expected Lc_WaitingResolvingTurn) complete_resolving_job"

definition start_parent_handoff_prepare ::
    "'io job_reader \<Rightarrow> JobId \<Rightarrow> JobRevision \<Rightarrow> ParentHandoffIdentity \<Rightarrow> 'io job_result" where
  "start_parent_handoff_prepare rd jid expected parent =
     and_then (validate_lifecycle rd jid expected Lc_WaitingParent) (\<lambda>job. start_parent_job job parent)"

definition record_parent_cas_acceptance_prepare ::
    "'io job_reader \<Rightarrow> JobId \<Rightarrow> JobRevision \<Rightarrow> ParentCasIdentity \<Rightarrow> 'io job_result" where
  "record_parent_cas_acceptance_prepare rd jid expected cas =
     and_then (validate_current rd jid expected) (\<lambda>job. parent_accepted_job job cas)"

definition record_retryable_failure_prepare ::
    "'io job_reader \<Rightarrow> JobId \<Rightarrow> JobRevision \<Rightarrow> HandoffFailureEvidence \<Rightarrow> 'io job_result" where
  "record_retryable_failure_prepare rd jid expected evidence =
     and_then (validate_current rd jid expected) (\<lambda>job. retryable_failed_job job evidence)"

definition retry_branch_handoff_prepare :: "'io job_reader \<Rightarrow> JobId \<Rightarrow> JobRevision \<Rightarrow> 'io job_result" where
  "retry_branch_handoff_prepare rd jid expected =
     and_then (validate_current rd jid expected) retry_job"

definition record_terminal_failure_prepare ::
    "'io job_reader \<Rightarrow> JobId \<Rightarrow> JobRevision \<Rightarrow> HandoffFailureEvidence \<Rightarrow> 'io job_result" where
  "record_terminal_failure_prepare rd jid expected evidence =
     and_then (validate_current rd jid expected) (\<lambda>job. terminal_failed_job job evidence)"

definition succeed_branch_handoff_prepare :: "'io job_reader \<Rightarrow> JobId \<Rightarrow> JobRevision \<Rightarrow> 'io job_result" where
  "succeed_branch_handoff_prepare rd jid expected =
     and_then (validate_current rd jid expected) succeeded_job"

definition put_live_transition :: "BranchHandoffJobRecord \<Rightarrow> 'io build_step" where
  "put_live_transition job mb =
     and_then (job_put job_record_codec (job_id job) job mb) (job_put live_job_codec (job_id job) job)"

definition put_terminal_transition :: "BranchHandoffJobRecord \<Rightarrow> 'io build_step" where
  "put_terminal_transition job mb =
     and_then (job_put job_record_codec (job_id job) job mb) (job_delete live_job_codec (job_id job))"

definition transition_reserve :: "'io reserve_step" where
  "transition_reserve r =
     and_then (job_reserve job_record_codec r) (job_reserve live_job_codec)"

section \<open>Prepared commands\<close>

text \<open>
  \<^verbatim>\<open>ReadAccess\<close> reads the domain revision before and after a group of point reads and rejects the
  group when it changed: \<open>acc_revision_before\<close> and \<open>acc_revision_after\<close> are the two results.
\<close>

record 'io read_access =
  acc_home_id :: BerylHomeId
  acc_revision_before :: "('io, CodecError) ReadError + DomainRevision"
  acc_revision_after :: "('io, CodecError) ReadError + DomainRevision"
  acc_reader :: "'io job_reader"

definition access_confirm :: "'io read_access \<Rightarrow> DomainRevision \<Rightarrow> 'io DurableJobMutationError + unit" where
  "access_confirm acc expected =
     and_then (map_err MutRead (acc_revision_after acc)) (\<lambda>r.
       if r \<noteq> expected then Inl (Invariant ''handoff job source revision changed'') else Inr ())"

record AdmissionRecords =
  aw_home_id :: BerylHomeId
  aw_job :: BranchHandoffJobRecord
  aw_prior :: "BranchHandoffJobRecord option"

record TransitionRecords =
  tw_home_id :: BerylHomeId
  tw_old :: BranchHandoffJobRecord
  tw_new :: BranchHandoffJobRecord

datatype HandoffJobStatus = ExactOld | ExactNew | Collision

definition prepare_handoff_job_admission ::
    "'io read_access \<Rightarrow> BranchHandoffJobAdmission \<Rightarrow>
     'io DurableJobMutationError + (DomainRevision \<times> AdmissionRecords)" where
  "prepare_handoff_job_admission acc admission =
     and_then (map_err MutRead (acc_revision_before acc)) (\<lambda>rev.
     let job = job_initial admission; prior = validate_new (acc_reader acc) job in
     and_then (access_confirm acc rev) (\<lambda>_.
     and_then prior (\<lambda>prior.
       Inr (rev, \<lparr>aw_home_id = acc_home_id acc, aw_job = job, aw_prior = prior\<rparr>))))"

definition prepared_admission_prepare ::
    "'io job_reader \<Rightarrow> AdmissionRecords \<Rightarrow> 'io DurableJobMutationError + AdmissionRecords" where
  "prepared_admission_prepare rd w =
     and_then (validate_new rd (aw_job w)) (\<lambda>prior.
       if prior \<noteq> aw_prior w then Inl (Invariant ''handoff admission predecessor changed'')
       else Inr w)"

definition prepare_handoff_job ::
    "'io read_access \<Rightarrow> JobId \<Rightarrow> JobRevision \<Rightarrow> HandoffJobTransition \<Rightarrow>
     'io DurableJobMutationError + (DomainRevision \<times> TransitionRecords)" where
  "prepare_handoff_job acc jid expected transition =
     and_then (map_err MutRead (acc_revision_before acc)) (\<lambda>rev.
     let result =
       and_then (read_authenticated (acc_reader acc) jid) (\<lambda>old.
       and_then (ensure_revision expected (revision old)) (\<lambda>_.
       and_then (successor transition old) (\<lambda>new.
         Inr \<lparr>tw_home_id = acc_home_id acc, tw_old = old, tw_new = new\<rparr>)))
     in and_then (access_confirm acc rev) (\<lambda>_.
        and_then result (\<lambda>w. Inr (rev, w))))"

definition prepared_transition_prepare ::
    "'io job_reader \<Rightarrow> TransitionRecords \<Rightarrow> 'io DurableJobMutationError + TransitionRecords" where
  "prepared_transition_prepare rd w =
     and_then (read_authenticated rd (job_id (tw_old w))) (\<lambda>current.
       if current \<noteq> tw_old w then Inl (Invariant ''handoff job transition source changed'')
       else Inr w)"

definition prepared_transition_contribute :: "TransitionRecords \<Rightarrow> 'io build_step" where
  "prepared_transition_contribute w mb =
     (if is_live (lifecycle (tw_new w)) then put_live_transition (tw_new w) mb
      else put_terminal_transition (tw_new w) mb)"

definition transition_outcome ::
    "'io job_reader \<Rightarrow> TransitionRecords \<Rightarrow> 'io DurableJobMutationError + HandoffJobStatus" where
  "transition_outcome rd w =
     (let key = job_id (tw_old w) in
      and_then (map_err MutRead (jr_job rd key job_point_limit)) (\<lambda>job.
      and_then (map_err MutRead (jr_live rd key job_point_limit)) (\<lambda>live.
        Inr (if job = Some (tw_old w) \<and> live = Some (tw_old w) then ExactOld
             else if job = Some (tw_new w) \<and>
               live = (if is_live (lifecycle (tw_new w)) then Some (tw_new w) else None) then ExactNew
             else Collision))))"

definition handoff_job_status ::
    "'io read_access \<Rightarrow> TransitionRecords \<Rightarrow> 'io DurableJobMutationError + HandoffJobStatus" where
  "handoff_job_status acc w =
     and_then (map_err MutRead (acc_revision_before acc)) (\<lambda>rev.
     if acc_home_id acc \<noteq> tw_home_id w
     then Inl (Invariant ''handoff job witness belongs to another home'')
     else let result = transition_outcome (acc_reader acc) w in
       and_then (access_confirm acc rev) (\<lambda>_. result))"

text \<open>The predecessor check of \<^verbatim>\<open>classify\<close>, with the short-circuiting of its disjunction.\<close>

definition prior_intact ::
    "'io job_reader \<Rightarrow> BranchHandoffJobRecord \<Rightarrow> 'io DurableJobMutationError + bool" where
  "prior_intact rd prior =
     and_then (map_err MutRead (jr_job rd (job_id prior) job_point_limit)) (\<lambda>job.
     if job \<noteq> Some prior then Inr False else
     and_then (map_err MutRead (jr_live rd (job_id prior) job_point_limit)) (\<lambda>live.
     if live \<noteq> None then Inr False else
     and_then (map_err MutRead (jr_request rd (RequestValue (request prior)) request_point_limit)) (\<lambda>req.
     if req \<noteq> Some (request_admission_from_job prior) then Inr False else
     and_then (map_err MutRead (jr_attempt rd
         (attempt_key (discussion_thread_id prior) (attempt_ordinal prior)) small_point_limit)) (\<lambda>attempt.
       Inr (attempt = Some (job_id prior))))))"

definition admission_classify ::
    "'io job_reader \<Rightarrow> AdmissionRecords \<Rightarrow> 'io DurableJobMutationError + HandoffJobStatus" where
  "admission_classify rd w =
     (let expected = aw_job w in
      and_then (case aw_prior w of None \<Rightarrow> Inr True | Some prior \<Rightarrow> prior_intact rd prior) (\<lambda>intact.
      if \<not> intact then Inr Collision else
      and_then (map_err MutRead (jr_job rd (job_id expected) job_point_limit)) (\<lambda>job.
      and_then (map_err MutRead (jr_live rd (job_id expected) job_point_limit)) (\<lambda>live.
      and_then (map_err MutRead (jr_request rd (RequestValue (request expected)) request_point_limit)) (\<lambda>req.
      and_then (map_err MutRead (jr_attempt rd
          (attempt_key (discussion_thread_id expected) (attempt_ordinal expected)) small_point_limit)) (\<lambda>attempt.
      and_then (map_err MutRead (jr_latest rd (discussion_thread_id expected) small_point_limit)) (\<lambda>latest.
        Inr (if job = None \<and> live = None \<and> req = None \<and> attempt = None \<and>
               latest = map_option latest_from_job (aw_prior w) then ExactOld
             else if job = Some expected \<and> live = Some expected \<and>
               req = Some (request_admission_from_job expected) \<and>
               attempt = Some (job_id expected) \<and> latest = Some (latest_from_job expected) then ExactNew
             else Collision))))))))"

definition admission_status ::
    "'io read_access \<Rightarrow> AdmissionRecords \<Rightarrow> 'io DurableJobMutationError + HandoffJobStatus" where
  "admission_status acc w =
     and_then (map_err MutRead (acc_revision_before acc)) (\<lambda>rev.
     if acc_home_id acc \<noteq> aw_home_id w
     then Inl (Invariant ''handoff admission witness belongs to another home'')
     else let result = admission_classify (acc_reader acc) w in
       and_then (access_confirm acc rev) (\<lambda>_. result))"

definition admitted_request ::
    "'io read_access \<Rightarrow> ResolutionRequestIdentity \<Rightarrow>
     'io DurableJobMutationError + BranchHandoffJobRecord option" where
  "admitted_request acc req =
     and_then (map_err MutRead (acc_revision_before acc)) (\<lambda>rev.
     let rd = acc_reader acc;
         result = and_then (map_err MutRead (jr_request rd (RequestValue req) request_point_limit)) (\<lambda>found.
           case found of None \<Rightarrow> Inr None
           | Some admission \<Rightarrow>
               and_then (read_identity rd (ra_job_id admission)) (\<lambda>job.
                 if request job \<noteq> req \<or> admission \<noteq> request_admission_from_job job
                 then Inl (Invariant ''request admission disagrees with its historical job'')
                 else Inr (Some job)))
     in and_then (access_confirm acc rev) (\<lambda>_. result))"

section \<open>Commands of the domain\<close>

text \<open>
  Every mutation that the domain offers, with the three callbacks of \<^verbatim>\<open>DomainMutation\<close>. The
  prepared value of each is a job record to be written. \<open>run_command\<close> is what the writer makes of
  a command (\<^verbatim>\<open>command/participant.rs\<close>): prepare on the snapshot, contribute to a fresh builder,
  take the pending mutations.
\<close>

datatype JobCommand =
    AdmitBranchHandoffJob BranchHandoffJobAdmission
  | CompleteResolvingTurn JobId JobRevision
  | StartParentHandoff JobId JobRevision ParentHandoffIdentity
  | RecordParentCasAcceptance JobId JobRevision ParentCasIdentity
  | RecordRetryableHandoffFailure JobId JobRevision HandoffFailureEvidence
  | RetryBranchHandoff JobId JobRevision
  | RecordTerminalHandoffFailure JobId JobRevision HandoffFailureEvidence
  | SucceedBranchHandoff JobId JobRevision
  | PreparedHandoffJobAdmission AdmissionRecords
  | PreparedHandoffJobTransition TransitionRecords

fun command_prepare :: "'io job_reader \<Rightarrow> JobCommand \<Rightarrow> 'io job_result" where
  "command_prepare rd (AdmitBranchHandoffJob admission) = admit_prepare rd admission"
| "command_prepare rd (CompleteResolvingTurn jid expected) = complete_resolving_turn_prepare rd jid expected"
| "command_prepare rd (StartParentHandoff jid expected parent) = start_parent_handoff_prepare rd jid expected parent"
| "command_prepare rd (RecordParentCasAcceptance jid expected cas) =
     record_parent_cas_acceptance_prepare rd jid expected cas"
| "command_prepare rd (RecordRetryableHandoffFailure jid expected evidence) =
     record_retryable_failure_prepare rd jid expected evidence"
| "command_prepare rd (RetryBranchHandoff jid expected) = retry_branch_handoff_prepare rd jid expected"
| "command_prepare rd (RecordTerminalHandoffFailure jid expected evidence) =
     record_terminal_failure_prepare rd jid expected evidence"
| "command_prepare rd (SucceedBranchHandoff jid expected) = succeed_branch_handoff_prepare rd jid expected"
| "command_prepare rd (PreparedHandoffJobAdmission w) =
     and_then (prepared_admission_prepare rd w) (\<lambda>w. Inr (aw_job w))"
| "command_prepare rd (PreparedHandoffJobTransition w) =
     and_then (prepared_transition_prepare rd w) (\<lambda>w. Inr (tw_new w))"

fun command_reserve :: "JobCommand \<Rightarrow> 'io reserve_step" where
  "command_reserve (AdmitBranchHandoffJob _) r = admission_reserve r"
| "command_reserve (PreparedHandoffJobAdmission _) r = admission_reserve r"
| "command_reserve _ r = transition_reserve r"

fun command_contribute :: "JobCommand \<Rightarrow> BranchHandoffJobRecord \<Rightarrow> 'io build_step" where
  "command_contribute (AdmitBranchHandoffJob _) job mb = admission_write job mb"
| "command_contribute (PreparedHandoffJobAdmission _) job mb = admission_write job mb"
| "command_contribute (RecordTerminalHandoffFailure _ _ _) job mb = put_terminal_transition job mb"
| "command_contribute (SucceedBranchHandoff _ _) job mb = put_terminal_transition job mb"
| "command_contribute (PreparedHandoffJobTransition w) job mb = prepared_transition_contribute w mb"
| "command_contribute _ job mb = put_live_transition job mb"

definition run_command ::
    "'io DomainReader \<Rightarrow> JobCommand \<Rightarrow> 'io DurableJobMutationError + PendingMutation list" where
  "run_command rd cmd =
     and_then (command_prepare (domain_reader rd) cmd) (\<lambda>job.
     and_then (command_contribute cmd job (builder_new (rd_families rd))) (\<lambda>mb.
       Inr (mb_pending mb)))"

end
