(* ===== verification/Job_Machine.thy ===== *)
theory Job_Machine
  imports Job_Mutation
begin

text \<open>
  The life cycle of a branch-handoff job as a state machine. \<open>state_step\<close> is the specification;
  the successor functions of the source are exactly its steps, and what every run of the
  machine keeps follows by rule induction.
\<close>

section \<open>The machine\<close>

inductive state_step :: "BranchHandoffJobState \<Rightarrow> BranchHandoffJobState \<Rightarrow> bool" where
  complete: "state_step WaitingResolvingTurn WaitingParent"
| start: "state_step WaitingParent (StartingParent p)"
| accept: "state_step (StartingParent p) (ParentActive p cas)"
| succeed: "state_step (ParentActive p cas) (Succeeded p cas)"
| suspend: "\<lbrakk>state_checkpoint s = Some cp; state_lifecycle s \<noteq> Lc_RetryableFailed;
     failure_state_is_compatible Lc_RetryableFailed cp (evidence_kind ev)\<rbrakk> \<Longrightarrow>
   state_step s (RetryableFailed cp ev)"
| resume: "state_step (RetryableFailed cp ev) (into_state cp)"
| fail: "\<lbrakk>state_checkpoint s = Some cp;
     failure_state_is_compatible Lc_TerminalFailed cp (evidence_kind ev)\<rbrakk> \<Longrightarrow>
   state_step s (TerminalFailed cp ev)"

inductive_cases state_step_from_terminal: "state_step (TerminalFailed cp ev) s"
inductive_cases state_step_from_succeeded: "state_step (Succeeded p cas) s"

definition moved :: "BranchHandoffJobRecord \<Rightarrow> BranchHandoffJobState \<Rightarrow> BranchHandoffJobRecord \<Rightarrow> bool" where
  "moved j s j' \<longleftrightarrow> (\<exists>r. revision_checked_next (revision j) = Inr r \<and> j' = j\<lparr>state := s, revision := r\<rparr>)"

definition job_step :: "BranchHandoffJobRecord \<Rightarrow> BranchHandoffJobRecord \<Rightarrow> bool" where
  "job_step j j' \<longleftrightarrow> (\<exists>s. state_step (state j) s \<and> moved j s j')"

text \<open>The values that a transition carries were built by their constructors.\<close>

fun transition_ok :: "HandoffJobTransition \<Rightarrow> bool" where
  "transition_ok (T_ChildInputPending e) \<longleftrightarrow> evidence_ok e"
| "transition_ok (T_ParentArchived e) \<longleftrightarrow> evidence_ok e"
| "transition_ok (T_RetryableFailure e) \<longleftrightarrow> evidence_ok e"
| "transition_ok (T_TerminalFailure e) \<longleftrightarrow> evidence_ok e"
| "transition_ok (T_ParentAccepted cas) \<longleftrightarrow> cas_ok cas"
| "transition_ok _ \<longleftrightarrow> True"

section \<open>Successors are steps\<close>

lemma advance_iff: "advance (j\<lparr>state := s\<rparr>) = Inr j' \<longleftrightarrow> moved j s j'"
  by (auto simp: advance_def moved_def and_then_eq_Inr)

lemma validate_failure_checkpoint_eq_Inr:
  "validate_failure_checkpoint job ev l = Inr u \<longleftrightarrow>
     (\<exists>cp. state_checkpoint (state job) = Some cp \<and> failure_state_is_compatible l cp (evidence_kind ev))"
  by (auto simp: validate_failure_checkpoint_def and_then_eq_Inr split: if_splits)

text \<open>Each successor function by the state it starts from.\<close>

lemma complete_resolving_job_iff:
  "complete_resolving_job j = Inr j' \<longleftrightarrow> state j = WaitingResolvingTurn \<and> moved j WaitingParent j'"
  by (cases "state j") (simp_all add: complete_resolving_job_def lifecycle_def advance_iff)

lemma start_parent_job_iff:
  "start_parent_job j p = Inr j' \<longleftrightarrow> state j = WaitingParent \<and> moved j (StartingParent p) j'"
  by (cases "state j") (simp_all add: start_parent_job_def lifecycle_def advance_iff)

lemma parent_accepted_job_iff:
  "parent_accepted_job j cas = Inr j' \<longleftrightarrow>
     (\<exists>p. state j = StartingParent p \<and> moved j (ParentActive p cas) j')"
  by (cases "state j") (simp_all add: parent_accepted_job_def lifecycle_def advance_iff)

lemma succeeded_job_iff:
  "succeeded_job j = Inr j' \<longleftrightarrow>
     (\<exists>p cas. state j = ParentActive p cas \<and> moved j (Succeeded p cas) j')"
  by (cases "state j") (simp_all add: succeeded_job_def lifecycle_def advance_iff)

lemma retry_job_iff:
  "retry_job j = Inr j' \<longleftrightarrow>
     (\<exists>cp ev. state j = RetryableFailed cp ev \<and> moved j (into_state cp) j')"
  by (cases "state j") (simp_all add: retry_job_def lifecycle_def advance_iff)

lemma retryable_failed_job_iff:
  "retryable_failed_job j ev = Inr j' \<longleftrightarrow>
     (\<exists>cp. state_checkpoint (state j) = Some cp \<and> state_lifecycle (state j) \<noteq> Lc_RetryableFailed \<and>
       failure_state_is_compatible Lc_RetryableFailed cp (evidence_kind ev) \<and>
       moved j (RetryableFailed cp ev) j')"
  by (cases "state j") (auto simp: retryable_failed_job_def lifecycle_def and_then_eq_Inr advance_iff
      validate_failure_checkpoint_eq_Inr)

lemma terminal_failed_job_iff:
  "terminal_failed_job j ev = Inr j' \<longleftrightarrow>
     (\<exists>cp. state_checkpoint (state j) = Some cp \<and>
       failure_state_is_compatible Lc_TerminalFailed cp (evidence_kind ev) \<and>
       moved j (TerminalFailed cp ev) j')"
  by (cases "state j") (auto simp: terminal_failed_job_def lifecycle_def is_live_def and_then_eq_Inr advance_iff
      validate_failure_checkpoint_eq_Inr)

lemmas successor_iffs = complete_resolving_job_iff start_parent_job_iff parent_accepted_job_iff
  succeeded_job_iff retry_job_iff retryable_failed_job_iff terminal_failed_job_iff

lemma job_stepI: "\<lbrakk>moved j s j'; state_step (state j) s\<rbrakk> \<Longrightarrow> job_step j j'"
  by (auto simp: job_step_def)

lemma successor_job_step: "successor t j = Inr j' \<Longrightarrow> job_step j j'"
  by (cases t) (auto simp: successor_iffs state_step.intros split: if_splits elim!: job_stepI)

lemma job_step_successor:
  assumes "job_step j j'"
  shows "\<exists>t. successor t j = (Inr j' :: 'io job_result)"
proof -
  obtain s where s: "state_step (state j) s" and j': "moved j s j'"
    using assms by (auto simp: job_step_def)
  from s show ?thesis
  proof cases
    case complete
    then show ?thesis using j' by (intro exI [of _ T_CompleteResolving]) (simp add: successor_iffs)
  next
    case (start p)
    then show ?thesis using j' by (intro exI [of _ "T_StartParent p"]) (simp add: successor_iffs)
  next
    case (accept p cas)
    then show ?thesis using j' by (intro exI [of _ "T_ParentAccepted cas"]) (simp add: successor_iffs)
  next
    case (succeed p cas)
    then show ?thesis using j' by (intro exI [of _ T_Succeed]) (simp add: successor_iffs)
  next
    case (suspend cp ev)
    then show ?thesis using j' by (intro exI [of _ "T_RetryableFailure ev"]) (simp add: successor_iffs)
  next
    case (resume cp ev)
    then show ?thesis using j' by (intro exI [of _ T_Retry]) (simp add: successor_iffs)
  next
    case (fail cp ev)
    then show ?thesis using j' by (intro exI [of _ "T_TerminalFailure ev"]) (simp add: successor_iffs)
  qed
qed

section \<open>What a step keeps\<close>

definition same_identity :: "BranchHandoffJobRecord \<Rightarrow> BranchHandoffJobRecord \<Rightarrow> bool" where
  "same_identity j j' \<longleftrightarrow> job_id j' = job_id j \<and> intent_id j' = intent_id j \<and>
     attempt_ordinal j' = attempt_ordinal j \<and> discussion_thread_id j' = discussion_thread_id j \<and>
     parent_thread_id j' = parent_thread_id j \<and> context_owner_id j' = context_owner_id j \<and>
     context_digest j' = context_digest j \<and> resolving_turn_id j' = resolving_turn_id j \<and>
     request j' = request j \<and> parent_queue_ordinal j' = parent_queue_ordinal j \<and>
     resolution j' = resolution j"

lemma state_step_from_live: "state_step s s' \<Longrightarrow> is_live (state_lifecycle s)"
  by (induction rule: state_step.induct) (use checkpoint_exists_iff in \<open>auto simp: is_live_def\<close>)

lemma job_step_live: "job_step j j' \<Longrightarrow> is_live (lifecycle j)"
  by (auto simp: job_step_def lifecycle_def dest: state_step_from_live)

lemma job_step_same: "job_step j j' \<Longrightarrow> same_identity j j'"
  by (auto simp: job_step_def moved_def same_identity_def)

lemma job_step_revision: "job_step j j' \<Longrightarrow> unat (nz_get (revision j')) = unat (nz_get (revision j)) + 1"
  by (auto simp: job_step_def moved_def revision_checked_next_eq_Inr)

lemma into_state_parent: "state_parent (into_state cp) = checkpoint_parent cp"
    "state_parent_cas (into_state cp) = checkpoint_parent_cas cp"
  by (cases cp; simp)+

lemma checkpoint_keeps_parent:
  "state_checkpoint s = Some cp \<Longrightarrow> checkpoint_parent cp = state_parent s \<and> checkpoint_parent_cas cp = state_parent_cas s"
  by (cases s) auto

lemma state_step_parent: "\<lbrakk>state_step s s'; state_parent s = Some p\<rbrakk> \<Longrightarrow> state_parent s' = Some p"
  by (induction rule: state_step.induct) (auto simp: into_state_parent dest: checkpoint_keeps_parent)

lemma state_step_parent_cas:
  "\<lbrakk>state_step s s'; state_parent_cas s = Some c\<rbrakk> \<Longrightarrow> state_parent_cas s' = Some c"
  by (induction rule: state_step.induct) (auto simp: into_state_parent dest: checkpoint_keeps_parent)

lemma state_ok_checkpoint: "\<lbrakk>state_ok s; state_checkpoint s = Some cp\<rbrakk> \<Longrightarrow> checkpoint_ok cp"
  by (cases s) auto

lemma state_ok_into_state: "checkpoint_ok cp \<Longrightarrow> state_ok (into_state cp)"
  by (cases cp) auto

lemma moved_ok: "\<lbrakk>moved j s j'; job_ok j; state_ok s\<rbrakk> \<Longrightarrow> job_ok j'"
  by (auto simp: moved_def job_ok_def)

lemma job_ok_state: "job_ok j \<Longrightarrow> state_ok (state j)"
  by (simp add: job_ok_def)

lemma successor_ok: "\<lbrakk>successor t j = Inr j'; transition_ok t; job_ok j\<rbrakk> \<Longrightarrow> job_ok j'"
  using job_ok_state [of j]
  by (cases t) (auto simp: successor_iffs state_ok_checkpoint state_ok_into_state split: if_splits
      elim: moved_ok)

section \<open>Properties of the life cycle\<close>

lemma job_run_same: "job_step\<^sup>*\<^sup>* j j' \<Longrightarrow> same_identity j j'"
  by (induction rule: rtranclp_induct) (auto simp: same_identity_def dest!: job_step_same)

lemma job_run_revision:
  "job_step\<^sup>*\<^sup>* j j' \<Longrightarrow> unat (nz_get (revision j)) \<le> unat (nz_get (revision j'))"
  by (induction rule: rtranclp_induct) (auto dest: job_step_revision)

lemma job_run_parent:
  assumes "job_step\<^sup>*\<^sup>* j j'"
  shows "state_parent (state j) = Some p \<Longrightarrow> state_parent (state j') = Some p"
    and "state_parent_cas (state j) = Some c \<Longrightarrow> state_parent_cas (state j') = Some c"
  using assms by (induction rule: rtranclp_induct)
    (auto simp: job_step_def moved_def dest: state_step_parent state_step_parent_cas)

text \<open>
  C28. The nine transitions of the source make exactly the steps of the life cycle: a job has a
  successor \<open>j'\<close> under some transition if and only if \<open>job_step\<close> leads from it to \<open>j'\<close>.
\<close>

theorem successor_iff_step:
  "(\<exists>t. successor t j = (Inr j' :: 'io job_result)) \<longleftrightarrow> job_step j j'"
  using successor_job_step job_step_successor by blast

text \<open>
  A job that has succeeded or failed terminally is final: every transition of it is refused.
\<close>

theorem terminal_refuses_transitions:
  "is_terminal (lifecycle j) \<Longrightarrow> \<exists>e. successor t j = (Inl e :: 'io job_result)"
  using successor_job_step [of t j] job_step_live [of j]
  by (cases "successor t j :: 'io job_result") (auto simp: is_live_iff_not_terminal)

theorem terminal_refuses_transitions_witness:
  "\<exists>e. successor T_Retry (sample_job\<lparr>state := Succeeded sample_parent sample_cas\<rparr>) = (Inl e :: unit job_result)"
  by (rule terminal_refuses_transitions) (simp add: lifecycle_def is_terminal_def)

text \<open>A sample step.\<close>

lemma sample_job_steps:
  "job_step (sample_job\<lparr>state := StartingParent sample_parent\<rparr>)
     (sample_job\<lparr>state := ParentActive sample_parent sample_cas, revision := nz_of 2\<rparr>)"
  unfolding job_step_def moved_def
  by (intro exI [of _ "ParentActive sample_parent sample_cas"] conjI exI [of _ "nz_of 2"])
    (simp_all add: state_step.accept result_simps sample_job_sel)

end
