(* ===== verification/Job_Store.thy ===== *)
theory Job_Store
  imports Job_Machine
begin

text \<open>
  The five typed tables of the durable-job domain, the invariant that ties them together, and
  the proof that every command of the domain keeps it.
\<close>

section \<open>Tables\<close>

record job_tables =
  t_jobs :: "JobId \<rightharpoonup> BranchHandoffJobRecord"
  t_live :: "JobId \<rightharpoonup> BranchHandoffJobRecord"
  t_requests :: "RequestIndexKey \<rightharpoonup> ResolutionRequestAdmission"
  t_attempts :: "DiscussionAttemptKey \<rightharpoonup> JobId"
  t_latest :: "SyndicThreadId \<rightharpoonup> LatestBranchHandoffAttempt"

definition jobs_rep :: "contents \<Rightarrow> job_tables \<Rightarrow> bool" where
  "jobs_rep m T \<longleftrightarrow>
     table_rep job_record_codec arr16_bytes encode_job_record (\<lambda>_. True) job_ok m ks_jobs (t_jobs T) \<and>
     table_rep live_job_codec arr16_bytes encode_job_record (\<lambda>_. True) job_ok m ks_live (t_live T) \<and>
     table_rep request_codec encode_request_key encode_request_admission request_key_ok
       request_admission_ok m ks_requests (t_requests T) \<and>
     table_rep attempt_codec encode_attempt_key arr16_bytes (\<lambda>_. True) (\<lambda>_. True) m ks_attempts (t_attempts T) \<and>
     table_rep latest_codec arr16_bytes encode_latest (\<lambda>_. True) (\<lambda>_. True) m ks_latest (t_latest T)"

lemma jobs_repD:
  assumes "jobs_rep m T"
  shows "table_rep job_record_codec arr16_bytes encode_job_record (\<lambda>_. True) job_ok m ks_jobs (t_jobs T)"
    and "table_rep live_job_codec arr16_bytes encode_job_record (\<lambda>_. True) job_ok m ks_live (t_live T)"
    and "table_rep request_codec encode_request_key encode_request_admission request_key_ok
      request_admission_ok m ks_requests (t_requests T)"
    and "table_rep attempt_codec encode_attempt_key arr16_bytes (\<lambda>_. True) (\<lambda>_. True) m ks_attempts (t_attempts T)"
    and "table_rep latest_codec arr16_bytes encode_latest (\<lambda>_. True) (\<lambda>_. True) m ks_latest (t_latest T)"
  using assms by (simp_all add: jobs_rep_def)

lemma jobs_rep_unique:
  assumes "jobs_rep m T" and "jobs_rep m U"
  shows "T = U"
  using tf_job.table_rep_unique [OF jobs_repD(1) [OF assms(1)] jobs_repD(1) [OF assms(2)]]
    tf_live.table_rep_unique [OF jobs_repD(2) [OF assms(1)] jobs_repD(2) [OF assms(2)]]
    tf_request.table_rep_unique [OF jobs_repD(3) [OF assms(1)] jobs_repD(3) [OF assms(2)]]
    tf_attempt.table_rep_unique [OF jobs_repD(4) [OF assms(1)] jobs_repD(4) [OF assms(2)]]
    tf_latest.table_rep_unique [OF jobs_repD(5) [OF assms(1)] jobs_repD(5) [OF assms(2)]]
  by simp

text \<open>A reader whose successful reads return the entries of the tables.\<close>

definition reader_sees :: "'io job_reader \<Rightarrow> job_tables \<Rightarrow> bool" where
  "reader_sees rd T \<longleftrightarrow>
     (\<forall>k l r. jr_job rd k l = Inr r \<longrightarrow> r = t_jobs T k) \<and>
     (\<forall>k l r. jr_live rd k l = Inr r \<longrightarrow> r = t_live T k) \<and>
     (\<forall>q l r. request_ok q \<longrightarrow> jr_request rd (RequestValue q) l = Inr r \<longrightarrow> r = t_requests T (RequestValue q)) \<and>
     (\<forall>k l r. jr_attempt rd k l = Inr r \<longrightarrow> r = t_attempts T k) \<and>
     (\<forall>k l r. jr_latest rd k l = Inr r \<longrightarrow> r = t_latest T k)"

lemma reader_seesD:
  assumes "reader_sees rd T"
  shows "jr_job rd k l = Inr j \<Longrightarrow> t_jobs T k = j"
    and "jr_live rd k l = Inr j \<Longrightarrow> t_live T k = j"
    and "\<lbrakk>jr_request rd (RequestValue q) l = Inr a; request_ok q\<rbrakk> \<Longrightarrow> t_requests T (RequestValue q) = a"
    and "jr_attempt rd d l = Inr i \<Longrightarrow> t_attempts T d = i"
    and "jr_latest rd t l = Inr x \<Longrightarrow> t_latest T t = x"
  using assms by (auto simp: reader_sees_def)

lemma domain_reader_sees:
  assumes sn: "snapshot_of (rd_snapshot rd) m" and fam: "rd_families rd = job_families"
    and rep: "jobs_rep m T"
  shows "reader_sees (domain_reader rd) T"
proof -
  note tables = jobs_repD [OF rep]
  note served = job_families_serve [folded fam]
  show ?thesis
    using tf_job.read_point_table [OF sn served(1) tables(1) TrueI]
      tf_live.read_point_table [OF sn served(2) tables(2) TrueI]
      tf_request.read_point_table [OF sn served(3) tables(3)]
      tf_attempt.read_point_table [OF sn served(4) tables(4) TrueI]
      tf_latest.read_point_table [OF sn served(5) tables(5) TrueI]
    by (simp add: reader_sees_def domain_reader_def)
qed

section \<open>The invariant\<close>

definition latest_covers :: "job_tables \<Rightarrow> BranchHandoffJobRecord \<Rightarrow> bool" where
  "latest_covers T j \<longleftrightarrow> (\<exists>l. t_latest T (discussion_thread_id j) = Some l \<and>
     attempt_ordinal j \<le> la_attempt_ordinal l \<and>
     (attempt_ordinal j = la_attempt_ordinal l \<longrightarrow> la_job_id l = job_id j) \<and>
     (is_live (lifecycle j) \<longrightarrow> la_job_id l = job_id j))"

definition job_entry_ok :: "job_tables \<Rightarrow> JobId \<Rightarrow> BranchHandoffJobRecord \<Rightarrow> bool" where
  "job_entry_ok T k j \<longleftrightarrow> job_id j = k \<and>
     t_requests T (RequestValue (request j)) = Some (request_admission_from_job j) \<and>
     t_attempts T (attempt_key (discussion_thread_id j) (attempt_ordinal j)) = Some k \<and>
     latest_covers T j \<and>
     t_live T k = (if is_live (lifecycle j) then Some j else None)"

definition request_entry_ok :: "job_tables \<Rightarrow> RequestIndexKey \<Rightarrow> ResolutionRequestAdmission \<Rightarrow> bool" where
  "request_entry_ok T q a \<longleftrightarrow> (\<exists>j. t_jobs T (ra_job_id a) = Some j \<and> q = RequestValue (request j) \<and>
     request_admission_from_job j = a)"

text \<open>
  An attempt is the first one of its discussion or follows one that failed terminally.
\<close>

definition attempt_follows :: "job_tables \<Rightarrow> DiscussionAttemptKey \<Rightarrow> bool" where
  "attempt_follows T d \<longleftrightarrow> dk_attempt_ordinal d = attempt_ordinal_first \<or>
     (\<exists>n k j. attempt_ordinal_checked_next n = Inr (dk_attempt_ordinal d) \<and>
        t_attempts T (attempt_key (dk_discussion_thread_id d) n) = Some k \<and>
        t_jobs T k = Some j \<and> lifecycle j = Lc_TerminalFailed)"

definition attempt_entry_ok :: "job_tables \<Rightarrow> DiscussionAttemptKey \<Rightarrow> JobId \<Rightarrow> bool" where
  "attempt_entry_ok T d k \<longleftrightarrow>
     (\<exists>j. t_jobs T k = Some j \<and> d = attempt_key (discussion_thread_id j) (attempt_ordinal j)) \<and>
     attempt_follows T d"

definition latest_entry_ok :: "job_tables \<Rightarrow> SyndicThreadId \<Rightarrow> LatestBranchHandoffAttempt \<Rightarrow> bool" where
  "latest_entry_ok T t l \<longleftrightarrow> (\<exists>j. t_jobs T (la_job_id l) = Some j \<and> discussion_thread_id j = t \<and>
     latest_from_job j = l)"

definition job_inv :: "job_tables \<Rightarrow> bool" where
  "job_inv T \<longleftrightarrow>
     (\<forall>k j. t_jobs T k = Some j \<longrightarrow> job_ok j \<and> job_entry_ok T k j) \<and>
     (\<forall>k j. t_live T k = Some j \<longrightarrow> t_jobs T k = Some j) \<and>
     (\<forall>q a. t_requests T q = Some a \<longrightarrow> request_entry_ok T q a) \<and>
     (\<forall>d k. t_attempts T d = Some k \<longrightarrow> attempt_entry_ok T d k) \<and>
     (\<forall>t l. t_latest T t = Some l \<longrightarrow> latest_entry_ok T t l)"

lemma job_invD:
  assumes "job_inv T"
  shows "t_jobs T k = Some j \<Longrightarrow> job_ok j \<and> job_entry_ok T k j"
    and "t_live T k = Some j \<Longrightarrow> t_jobs T k = Some j"
    and "t_requests T q = Some a \<Longrightarrow> request_entry_ok T q a"
    and "t_attempts T d = Some k \<Longrightarrow> attempt_entry_ok T d k"
    and "t_latest T t = Some l \<Longrightarrow> latest_entry_ok T t l"
  using assms by (auto simp: job_inv_def)

text \<open>A live job is the latest attempt of its discussion.\<close>

lemma live_is_latest:
  assumes inv: "job_inv T" and j: "t_jobs T k = Some j" and live: "is_live (lifecycle j)"
  shows "t_latest T (discussion_thread_id j) = Some (latest_from_job j)"
proof -
  have entry: "job_entry_ok T k j" using job_invD(1) [OF inv j] by simp
  then obtain l where l: "t_latest T (discussion_thread_id j) = Some l" "la_job_id l = job_id j"
    using live by (auto simp: job_entry_ok_def latest_covers_def)
  from job_invD(5) [OF inv l(1)] l(2) entry j have "latest_from_job j = l"
    by (auto simp: latest_entry_ok_def job_entry_ok_def)
  with l show ?thesis by simp
qed

section \<open>Steps of the tables\<close>

definition admitted :: "BranchHandoffJobRecord \<Rightarrow> job_tables \<Rightarrow> job_tables" where
  "admitted j T =
     \<lparr>t_jobs = (t_jobs T)(job_id j \<mapsto> j), t_live = (t_live T)(job_id j \<mapsto> j),
      t_requests = (t_requests T)(RequestValue (request j) \<mapsto> request_admission_from_job j),
      t_attempts = (t_attempts T)(attempt_key (discussion_thread_id j) (attempt_ordinal j) \<mapsto> job_id j),
      t_latest = (t_latest T)(discussion_thread_id j \<mapsto> latest_from_job j)\<rparr>"

definition transitioned :: "BranchHandoffJobRecord \<Rightarrow> job_tables \<Rightarrow> job_tables" where
  "transitioned j T =
     T\<lparr>t_jobs := (t_jobs T)(job_id j \<mapsto> j),
       t_live := (t_live T)(job_id j := if is_live (lifecycle j) then Some j else None)\<rparr>"

definition admissible :: "job_tables \<Rightarrow> BranchHandoffJobRecord \<Rightarrow> bool" where
  "admissible T j \<longleftrightarrow>
     t_requests T (RequestValue (request j)) = None \<and> t_jobs T (job_id j) = None \<and>
     t_live T (job_id j) = None \<and>
     t_attempts T (attempt_key (discussion_thread_id j) (attempt_ordinal j)) = None \<and>
     (case t_latest T (discussion_thread_id j) of
        None \<Rightarrow> attempt_ordinal j = attempt_ordinal_first
      | Some l \<Rightarrow> (\<exists>p. t_jobs T (la_job_id l) = Some p \<and> lifecycle p = Lc_TerminalFailed \<and>
          attempt_ordinal_checked_next (attempt_ordinal p) = Inr (attempt_ordinal j)))"

inductive tables_step :: "job_tables \<Rightarrow> job_tables \<Rightarrow> bool" where
  admit: "\<lbrakk>admission_ok a; j = job_initial a; admissible T j\<rbrakk> \<Longrightarrow> tables_step T (admitted j T)"
| move: "\<lbrakk>t_jobs T k = Some j; job_step j j'; job_ok j'\<rbrakk> \<Longrightarrow> tables_step T (transitioned j' T)"

definition empty_tables :: job_tables where
  "empty_tables = \<lparr>t_jobs = Map.empty, t_live = Map.empty, t_requests = Map.empty,
     t_attempts = Map.empty, t_latest = Map.empty\<rparr>"

lemma empty_tables_inv: "job_inv empty_tables"
  by (simp add: job_inv_def empty_tables_def)

lemma attempt_key_eq [simp]: "attempt_key t n = attempt_key t' n' \<longleftrightarrow> t = t' \<and> n = n'"
  by (auto simp: attempt_key_def)

lemma attempt_key_sel [simp]:
  "dk_discussion_thread_id (attempt_key t n) = t" "dk_attempt_ordinal (attempt_key t n) = n"
  by (simp_all add: attempt_key_def)

lemma lifecycle_job_initial [simp]: "lifecycle (job_initial a) = Lc_WaitingResolvingTurn"
  by (simp add: lifecycle_def job_initial_def)

lemma attempt_ordinal_next_less: "attempt_ordinal_checked_next n = Inr m \<Longrightarrow> n < m"
  by (simp add: result_simps less_nonzero_u64_def word_less_nat_alt)

text \<open>What the latest-attempt index says of the earlier attempts of an admissible job.\<close>

lemma admissible_prior:
  assumes inv: "job_inv T" and adm: "admissible T j" and k: "t_jobs T k = Some i"
    and same: "discussion_thread_id i = discussion_thread_id j"
  shows "attempt_ordinal i < attempt_ordinal j \<and> \<not> is_live (lifecycle i)"
proof -
  have "job_entry_ok T k i" using job_invD(1) [OF inv k] by simp
  then obtain l where l: "t_latest T (discussion_thread_id j) = Some l"
      "attempt_ordinal i \<le> la_attempt_ordinal l" "is_live (lifecycle i) \<longrightarrow> la_job_id l = k"
    by (auto simp: job_entry_ok_def latest_covers_def same)
  obtain p where p: "t_jobs T (la_job_id l) = Some p" "lifecycle p = Lc_TerminalFailed"
      "attempt_ordinal_checked_next (attempt_ordinal p) = Inr (attempt_ordinal j)"
    using adm l(1) by (auto simp: admissible_def)
  have "la_attempt_ordinal l = attempt_ordinal p"
    using job_invD(5) [OF inv l(1)] p(1) by (auto simp: latest_entry_ok_def latest_from_job_def)
  with l(2) attempt_ordinal_next_less [OF p(3)] have "attempt_ordinal i < attempt_ordinal j" by simp
  moreover have "\<not> is_live (lifecycle i)"
    using l(3) k p(1,2) by (auto simp: is_live_def)
  ultimately show ?thesis by simp
qed

lemma admissible_follows:
  assumes inv: "job_inv T" and adm: "admissible T j"
  shows "attempt_follows T (attempt_key (discussion_thread_id j) (attempt_ordinal j))"
proof (cases "t_latest T (discussion_thread_id j)")
  case None
  then show ?thesis using adm by (simp add: admissible_def attempt_follows_def)
next
  case (Some l)
  then obtain p where p: "t_jobs T (la_job_id l) = Some p" "lifecycle p = Lc_TerminalFailed"
      "attempt_ordinal_checked_next (attempt_ordinal p) = Inr (attempt_ordinal j)"
    using adm by (auto simp: admissible_def)
  have "discussion_thread_id p = discussion_thread_id j"
    using job_invD(5) [OF inv Some] p(1) by (auto simp: latest_entry_ok_def)
  moreover have "t_attempts T (attempt_key (discussion_thread_id p) (attempt_ordinal p)) = Some (la_job_id l)"
    using job_invD(1) [OF inv p(1)] by (simp add: job_entry_ok_def)
  ultimately show ?thesis using p by (auto simp: attempt_follows_def)
qed

lemma attempt_follows_mono:
  assumes "attempt_follows T d"
    and "\<And>d k. t_attempts T d = Some k \<Longrightarrow> t_attempts T' d = Some k"
    and "\<And>k j. \<lbrakk>t_jobs T k = Some j; lifecycle j = Lc_TerminalFailed\<rbrakk> \<Longrightarrow> t_jobs T' k = Some j"
  shows "attempt_follows T' d"
  using assms unfolding attempt_follows_def by meson

section \<open>Steps keep the invariant\<close>

lemma admitted_sel [simp]:
  "t_jobs (admitted j T) = (t_jobs T)(job_id j \<mapsto> j)"
  "t_live (admitted j T) = (t_live T)(job_id j \<mapsto> j)"
  "t_requests (admitted j T) = (t_requests T)(RequestValue (request j) \<mapsto> request_admission_from_job j)"
  "t_attempts (admitted j T) =
     (t_attempts T)(attempt_key (discussion_thread_id j) (attempt_ordinal j) \<mapsto> job_id j)"
  "t_latest (admitted j T) = (t_latest T)(discussion_thread_id j \<mapsto> latest_from_job j)"
  by (simp_all add: admitted_def)

lemma transitioned_sel [simp]:
  "t_jobs (transitioned j T) = (t_jobs T)(job_id j \<mapsto> j)"
  "t_live (transitioned j T) = (t_live T)(job_id j := if is_live (lifecycle j) then Some j else None)"
  "t_requests (transitioned j T) = t_requests T"
  "t_attempts (transitioned j T) = t_attempts T"
  "t_latest (transitioned j T) = t_latest T"
  by (simp_all add: transitioned_def)

lemma admitted_latest_covers:
  assumes inv: "job_inv T" and adm: "admissible T j" and i: "t_jobs T k = Some i"
  shows "latest_covers (admitted j T) i"
proof (cases "discussion_thread_id i = discussion_thread_id j")
  case True
  then show ?thesis using admissible_prior [OF inv adm i True]
    by (auto simp: latest_covers_def latest_from_job_def)
next
  case False
  then show ?thesis using job_invD(1) [OF inv i] by (auto simp: job_entry_ok_def latest_covers_def)
qed

lemma admitted_job_entry:
  assumes inv: "job_inv T" and adm: "admissible T j" and i: "t_jobs T k = Some i"
  shows "job_entry_ok (admitted j T) k i"
proof -
  have "job_entry_ok T k i" using job_invD(1) [OF inv i] by simp
  with adm i admitted_latest_covers [OF inv adm i] show ?thesis
    by (auto simp: job_entry_ok_def admissible_def)
qed

lemma admitted_attempt_entry:
  assumes inv: "job_inv T" and adm: "admissible T j" and d: "t_attempts T d = Some k"
  shows "attempt_entry_ok (admitted j T) d k"
proof -
  have "attempt_entry_ok T d k" by (rule job_invD(4) [OF inv d])
  then show ?thesis using adm
    by (auto simp: attempt_entry_ok_def admissible_def elim!: attempt_follows_mono)
qed

lemma admitted_inv:
  assumes inv: "job_inv T" and adm: "admissible T j" and ok: "job_ok j" and live: "is_live (lifecycle j)"
  shows "job_inv (admitted j T)"
proof -
  have new: "job_entry_ok (admitted j T) (job_id j) j"
    using live by (simp add: job_entry_ok_def latest_covers_def latest_from_job_def)
  have "attempt_follows (admitted j T) (attempt_key (discussion_thread_id j) (attempt_ordinal j))"
    by (rule attempt_follows_mono [OF admissible_follows [OF inv adm]])
      (use adm in \<open>auto simp: admissible_def\<close>)
  then have new_attempt: "attempt_entry_ok (admitted j T)
      (attempt_key (discussion_thread_id j) (attempt_ordinal j)) (job_id j)"
    by (simp add: attempt_entry_ok_def)
  have new_latest: "latest_entry_ok (admitted j T) (discussion_thread_id j) (latest_from_job j)"
    by (simp add: latest_entry_ok_def latest_from_job_def)
  have new_request: "request_entry_ok (admitted j T) (RequestValue (request j)) (request_admission_from_job j)"
    by (simp add: request_entry_ok_def request_admission_from_job_def)
  have requests: "request_entry_ok (admitted j T) q a" if "t_requests T q = Some a" for q a
    using job_invD(3) [OF inv that] adm by (auto simp: request_entry_ok_def admissible_def)
  have latest: "latest_entry_ok (admitted j T) t l" if "t_latest T t = Some l" for t l
    using job_invD(5) [OF inv that] adm by (auto simp: latest_entry_ok_def admissible_def)
  show ?thesis
    unfolding job_inv_def
  proof (intro conjI allI impI)
    show "job_ok i" if "t_jobs (admitted j T) k = Some i" for k i
      using that ok job_invD(1) [OF inv] by (auto split: if_splits)
    show "job_entry_ok (admitted j T) k i" if "t_jobs (admitted j T) k = Some i" for k i
      using that new admitted_job_entry [OF inv adm] by (auto split: if_splits)
    show "t_jobs (admitted j T) k = Some i" if "t_live (admitted j T) k = Some i" for k i
      using that job_invD(2) [OF inv] by (auto split: if_splits)
    show "request_entry_ok (admitted j T) q a" if "t_requests (admitted j T) q = Some a" for q a
      using that requests new_request by (auto split: if_splits)
    show "attempt_entry_ok (admitted j T) d k" if "t_attempts (admitted j T) d = Some k" for d k
      using that new_attempt admitted_attempt_entry [OF inv adm] by (auto split: if_splits)
    show "latest_entry_ok (admitted j T) t l" if "t_latest (admitted j T) t = Some l" for t l
      using that latest new_latest by (auto split: if_splits)
  qed
qed

lemma same_identity_images:
  assumes "same_identity j j'"
  shows "request_admission_from_job j' = request_admission_from_job j" "latest_from_job j' = latest_from_job j"
    "job_id j' = job_id j" "request j' = request j" "discussion_thread_id j' = discussion_thread_id j"
    "attempt_ordinal j' = attempt_ordinal j"
  using assms by (simp_all add: same_identity_def request_admission_from_job_def latest_from_job_def)

lemma transitioned_inv:
  assumes inv: "job_inv T" and j: "t_jobs T k = Some j" and step: "job_step j j'" and ok: "job_ok j'"
  shows "job_inv (transitioned j' T)"
proof -
  note same = same_identity_images [OF job_step_same [OF step]]
  have live: "is_live (lifecycle j)" by (rule job_step_live [OF step])
  have entry: "job_entry_ok T k j" using job_invD(1) [OF inv j] by simp
  then have k: "job_id j = k" by (simp add: job_entry_ok_def)
  have latest: "t_latest T (discussion_thread_id j) = Some (latest_from_job j)"
    by (rule live_is_latest [OF inv j live])
  have new: "job_entry_ok (transitioned j' T) k j'"
    using entry latest k by (simp add: job_entry_ok_def latest_covers_def same latest_from_job_def)
  have follows: "attempt_follows (transitioned j' T) d" if "attempt_follows T d" for d
    using that live j k by (auto elim!: attempt_follows_mono simp: same is_live_def)
  show ?thesis
    unfolding job_inv_def
  proof (intro conjI allI impI)
    show "job_ok i" if "t_jobs (transitioned j' T) l = Some i" for l i
      using that ok job_invD(1) [OF inv] by (auto split: if_splits)
    show "job_entry_ok (transitioned j' T) l i" if "t_jobs (transitioned j' T) l = Some i" for l i
    proof (cases "l = k")
      case True
      then show ?thesis using that new k same(3) by auto
    next
      case False
      with that k have "job_entry_ok T l i" using job_invD(1) [OF inv, of l i] by (simp add: same(3))
      with False k show ?thesis by (auto simp: job_entry_ok_def latest_covers_def same(3))
    qed
    show "t_jobs (transitioned j' T) l = Some i" if "t_live (transitioned j' T) l = Some i" for l i
      using that job_invD(2) [OF inv] by (auto split: if_splits)
    show "request_entry_ok (transitioned j' T) q a" if "t_requests (transitioned j' T) q = Some a" for q a
      using job_invD(3) [OF inv, of q a] that j k by (auto simp: request_entry_ok_def same)
    show "attempt_entry_ok (transitioned j' T) d l" if "t_attempts (transitioned j' T) d = Some l" for d l
      using job_invD(4) [OF inv, of d l] that j k follows by (auto simp: attempt_entry_ok_def same)
    show "latest_entry_ok (transitioned j' T) t l" if "t_latest (transitioned j' T) t = Some l" for t l
      using job_invD(5) [OF inv, of t l] that j k by (auto simp: latest_entry_ok_def same)
  qed
qed

lemma tables_step_inv: "\<lbrakk>tables_step T T'; job_inv T\<rbrakk> \<Longrightarrow> job_inv T'"
  by (induction rule: tables_step.induct)
    (auto intro!: admitted_inv transitioned_inv job_initial_ok simp: is_live_def)

lemma tables_run_inv: "\<lbrakk>tables_step\<^sup>*\<^sup>* T T'; job_inv T\<rbrakk> \<Longrightarrow> job_inv T'"
  by (induction rule: rtranclp_induct) (auto intro: tables_step_inv)

end
