(* ===== verification/Job_Refinement.thy ===== *)
theory Job_Refinement
  imports Job_Store
begin

text \<open>
  The commands of the durable-job domain implement the steps of the tables: what a command reads
  and writes, down to the bytes of the five keyspaces, is one \<open>tables_step\<close>.
\<close>

section \<open>Writes\<close>

lemma keyspaces_distinct [simp]: "distinct [ks_jobs, ks_live, ks_requests, ks_attempts, ks_latest]"
  by simp

lemma job_put_eq_Inr: 
  "job_put c k v mb = (Inr mb' :: 'io DurableJobMutationError + _) \<longleftrightarrow>
     builder_put c k v mb = (Inr mb' :: ('io, CodecError) MutationBuildError + _)"
  by (simp add: job_put_def)

lemma job_delete_eq_Inr: 
  "job_delete c k mb = (Inr mb' :: 'io DurableJobMutationError + _) \<longleftrightarrow>
     builder_delete c k mb = (Inr mb' :: ('io, CodecError) MutationBuildError + _)"
  by (simp add: job_delete_def)

definition builder_rep :: "contents \<Rightarrow> MutationBuilder \<Rightarrow> job_tables \<Rightarrow> bool" where
  "builder_rep m mb T \<longleftrightarrow> mb_families mb = job_families \<and> jobs_rep (pending_contents m mb) T"

lemma builder_rep_new: "jobs_rep m T \<Longrightarrow> builder_rep m (builder_new job_families) T"
  by (simp add: builder_rep_def)

lemma jobs_rep_update:
  assumes "jobs_rep m T"
  shows "\<And>f J. table_rep job_record_codec arr16_bytes encode_job_record (\<lambda>_. True) job_ok (m(ks_jobs := f)) ks_jobs J
      \<Longrightarrow> jobs_rep (m(ks_jobs := f)) (T\<lparr>t_jobs := J\<rparr>)"
    and "\<And>f J. table_rep live_job_codec arr16_bytes encode_job_record (\<lambda>_. True) job_ok (m(ks_live := f)) ks_live J
      \<Longrightarrow> jobs_rep (m(ks_live := f)) (T\<lparr>t_live := J\<rparr>)"
    and "\<And>f J. table_rep request_codec encode_request_key encode_request_admission request_key_ok
        request_admission_ok (m(ks_requests := f)) ks_requests J
      \<Longrightarrow> jobs_rep (m(ks_requests := f)) (T\<lparr>t_requests := J\<rparr>)"
    and "\<And>f J. table_rep attempt_codec encode_attempt_key arr16_bytes (\<lambda>_. True) (\<lambda>_. True)
        (m(ks_attempts := f)) ks_attempts J
      \<Longrightarrow> jobs_rep (m(ks_attempts := f)) (T\<lparr>t_attempts := J\<rparr>)"
    and "\<And>f J. table_rep latest_codec arr16_bytes encode_latest (\<lambda>_. True) (\<lambda>_. True)
        (m(ks_latest := f)) ks_latest J
      \<Longrightarrow> jobs_rep (m(ks_latest := f)) (T\<lparr>t_latest := J\<rparr>)"
  using assms by (simp_all add: jobs_rep_def table_rep_cong [of "m(_ := _)" _ m])

lemma job_put_rep:
  assumes "builder_rep m mb T"
  shows "\<lbrakk>job_put job_record_codec k j mb = (Inr mb' :: 'io DurableJobMutationError + _); job_ok j\<rbrakk> \<Longrightarrow>
      builder_rep m mb' (T\<lparr>t_jobs := (t_jobs T)(k \<mapsto> j)\<rparr>)"
    and "\<lbrakk>job_put live_job_codec k j mb = (Inr mb' :: 'io DurableJobMutationError + _); job_ok j\<rbrakk> \<Longrightarrow>
      builder_rep m mb' (T\<lparr>t_live := (t_live T)(k \<mapsto> j)\<rparr>)"
    and "job_delete live_job_codec k mb = (Inr mb' :: 'io DurableJobMutationError + _) \<Longrightarrow>
      builder_rep m mb' (T\<lparr>t_live := (t_live T)(k := None)\<rparr>)"
    and "\<lbrakk>job_put request_codec q a mb = (Inr mb' :: 'io DurableJobMutationError + _); request_key_ok q;
        request_admission_ok a\<rbrakk> \<Longrightarrow> builder_rep m mb' (T\<lparr>t_requests := (t_requests T)(q \<mapsto> a)\<rparr>)"
    and "job_put attempt_codec d k mb = (Inr mb' :: 'io DurableJobMutationError + _) \<Longrightarrow>
      builder_rep m mb' (T\<lparr>t_attempts := (t_attempts T)(d \<mapsto> k)\<rparr>)"
    and "job_put latest_codec t l mb = (Inr mb' :: 'io DurableJobMutationError + _) \<Longrightarrow>
      builder_rep m mb' (T\<lparr>t_latest := (t_latest T)(t \<mapsto> l)\<rparr>)"
proof -
  have fam: "mb_families mb = job_families" and rep: "jobs_rep (pending_contents m mb) T"
    using assms by (simp_all add: builder_rep_def)
  note served = job_families_serve [folded fam]
  note tables = rep [unfolded jobs_rep_def]
  show "builder_rep m mb' (T\<lparr>t_jobs := (t_jobs T)(k \<mapsto> j)\<rparr>)"
    if "job_put job_record_codec k j mb = (Inr mb' :: 'io DurableJobMutationError + _)" "job_ok j"
    using tf_job.builder_put_effect [OF served(1) TrueI that(2) that(1) [unfolded job_put_eq_Inr], of m]
      tf_job.table_rep_put [OF _ TrueI that(2)] tables jobs_rep_update(1) [OF rep] fam
    by (simp add: builder_rep_def)
  show "builder_rep m mb' (T\<lparr>t_live := (t_live T)(k \<mapsto> j)\<rparr>)"
    if "job_put live_job_codec k j mb = (Inr mb' :: 'io DurableJobMutationError + _)" "job_ok j"
    using tf_live.builder_put_effect [OF served(2) TrueI that(2) that(1) [unfolded job_put_eq_Inr], of m]
      tf_live.table_rep_put [OF _ TrueI that(2)] tables jobs_rep_update(2) [OF rep] fam
    by (simp add: builder_rep_def)
  show "builder_rep m mb' (T\<lparr>t_live := (t_live T)(k := None)\<rparr>)"
    if "job_delete live_job_codec k mb = (Inr mb' :: 'io DurableJobMutationError + _)"
    using tf_live.builder_delete_effect [OF served(2) TrueI that [unfolded job_delete_eq_Inr], of m]
      tf_live.table_rep_delete [OF _ TrueI] tables jobs_rep_update(2) [OF rep] fam
    by (simp add: builder_rep_def)
  show "builder_rep m mb' (T\<lparr>t_requests := (t_requests T)(q \<mapsto> a)\<rparr>)"
    if "job_put request_codec q a mb = (Inr mb' :: 'io DurableJobMutationError + _)" "request_key_ok q"
      "request_admission_ok a"
    using tf_request.builder_put_effect [OF served(3) that(2,3) that(1) [unfolded job_put_eq_Inr], of m]
      tf_request.table_rep_put [OF _ that(2,3)] tables jobs_rep_update(3) [OF rep] fam
    by (simp add: builder_rep_def)
  show "builder_rep m mb' (T\<lparr>t_attempts := (t_attempts T)(d \<mapsto> k)\<rparr>)"
    if "job_put attempt_codec d k mb = (Inr mb' :: 'io DurableJobMutationError + _)"
    using tf_attempt.builder_put_effect [OF served(4) TrueI TrueI that [unfolded job_put_eq_Inr], of m]
      tf_attempt.table_rep_put [OF _ TrueI TrueI] tables jobs_rep_update(4) [OF rep] fam
    by (simp add: builder_rep_def)
  show "builder_rep m mb' (T\<lparr>t_latest := (t_latest T)(t \<mapsto> l)\<rparr>)"
    if "job_put latest_codec t l mb = (Inr mb' :: 'io DurableJobMutationError + _)"
    using tf_latest.builder_put_effect [OF served(5) TrueI TrueI that [unfolded job_put_eq_Inr], of m]
      tf_latest.table_rep_put [OF _ TrueI TrueI] tables jobs_rep_update(5) [OF rep] fam
    by (simp add: builder_rep_def)
qed

lemma job_ok_request: "job_ok j \<Longrightarrow> request_ok (request j)"
  by (simp add: job_ok_def)

lemma job_ok_request_admission: "job_ok j \<Longrightarrow> request_admission_ok (request_admission_from_job j)"
  by (simp add: job_ok_def request_admission_ok_def request_admission_from_job_def)

lemma admission_write_rep:
  assumes "builder_rep m mb T" and "job_ok j"
    and "admission_write j mb = (Inr mb' :: 'io DurableJobMutationError + _)"
  shows "builder_rep m mb' (admitted j T)"
proof -
  obtain mb1 mb2 mb3 mb4 :: MutationBuilder where writes:
      "job_put job_record_codec (job_id j) j mb = (Inr mb1 :: 'io DurableJobMutationError + _)"
      "job_put live_job_codec (job_id j) j mb1 = (Inr mb2 :: 'io DurableJobMutationError + _)"
      "job_put request_codec (RequestValue (request j)) (request_admission_from_job j) mb2 =
        (Inr mb3 :: 'io DurableJobMutationError + _)"
      "job_put attempt_codec (attempt_key (discussion_thread_id j) (attempt_ordinal j)) (job_id j) mb3 =
        (Inr mb4 :: 'io DurableJobMutationError + _)"
      "job_put latest_codec (discussion_thread_id j) (latest_from_job j) mb4 =
        (Inr mb' :: 'io DurableJobMutationError + _)"
    using assms(3) by (auto simp: admission_write_def and_then_eq_Inr)
  note step1 = job_put_rep(1) [OF assms(1) writes(1) assms(2)]
  note step2 = job_put_rep(2) [OF step1 writes(2) assms(2)]
  note step3 = job_put_rep(4) [OF step2 writes(3) _ job_ok_request_admission [OF assms(2)]]
  note step4 = job_put_rep(5) [OF step3 writes(4)]
  from job_put_rep(6) [OF step4 writes(5)] job_ok_request [OF assms(2)] show ?thesis
    by (cases T) (simp add: admitted_def)
qed

lemma put_transition_rep:
  assumes "builder_rep m mb T" and "job_ok j"
  shows "\<lbrakk>put_live_transition j mb = (Inr mb' :: 'io DurableJobMutationError + _); is_live (lifecycle j)\<rbrakk> \<Longrightarrow>
      builder_rep m mb' (transitioned j T)"
    and "\<lbrakk>put_terminal_transition j mb = (Inr mb' :: 'io DurableJobMutationError + _); \<not> is_live (lifecycle j)\<rbrakk> \<Longrightarrow>
      builder_rep m mb' (transitioned j T)"
  using assms
  by (auto simp: put_live_transition_def put_terminal_transition_def and_then_eq_Inr transitioned_def
      dest!: job_put_rep(1) [OF assms(1)] dest: job_put_rep(2,3))

section \<open>Reads\<close>

lemma read_identity_sees:
  assumes "reader_sees rd T" and "read_identity rd k = Inr j"
  shows "t_jobs T k = Some j"
  using assms by (auto simp: read_identity_def and_then_eq_Inr dest: reader_seesD(1) split: if_splits)

lemma read_authenticated_sees:
  assumes "reader_sees rd T" and "read_authenticated rd k = Inr j"
  shows "t_jobs T k = Some j"
  using assms by (auto simp: read_authenticated_def and_then_eq_Inr dest: read_identity_sees split: if_splits)

lemma admission_prior_sees:
  assumes "reader_sees rd T" and "admission_prior rd j l = Inr p"
  shows "t_jobs T (la_job_id l) = Some p \<and> lifecycle p = Lc_TerminalFailed \<and> latest_from_job p = l"
  using assms by (auto simp: admission_prior_def and_then_eq_Inr dest: read_identity_sees
      split: if_splits BranchHandoffJobLifecycle.splits)

definition prior_of :: "job_tables \<Rightarrow> BranchHandoffJobRecord \<Rightarrow> BranchHandoffJobRecord option" where
  "prior_of T j = Option.bind (t_latest T (discussion_thread_id j)) (\<lambda>l. t_jobs T (la_job_id l))"

lemma validate_new_sees:
  assumes sees: "reader_sees rd T" and q: "request_ok (request j)" and ok: "validate_new rd j = Inr prior"
  shows "admissible T j \<and> prior = prior_of T j"
proof -
  obtain req job live attempt latest where reads:
      "jr_request rd (RequestValue (request j)) request_point_limit = Inr req" "req = None"
      "jr_job rd (job_id j) job_point_limit = Inr job" "job = None"
      "jr_live rd (job_id j) job_point_limit = Inr live" "live = None"
      "jr_attempt rd (attempt_key (discussion_thread_id j) (attempt_ordinal j)) small_point_limit = Inr attempt"
      "attempt = None"
      "jr_latest rd (discussion_thread_id j) small_point_limit = Inr latest"
    and prior: "case latest of None \<Rightarrow> prior = None | Some l \<Rightarrow> \<exists>p. admission_prior rd j l = Inr p \<and> prior = Some p"
    and ordinal: "case prior of None \<Rightarrow> attempt_ordinal j = attempt_ordinal_first
        | Some p \<Rightarrow> attempt_ordinal_checked_next (attempt_ordinal p) = Inr (attempt_ordinal j)"
    using ok by (auto simp: validate_new_def and_then_eq_Inr split: if_splits option.splits)
  note seen = reader_seesD(3) [OF sees reads(1) q] reader_seesD(1) [OF sees reads(3)]
    reader_seesD(2) [OF sees reads(5)] reader_seesD(4) [OF sees reads(7)] reader_seesD(5) [OF sees reads(9)]
  show ?thesis
    using seen reads prior ordinal admission_prior_sees [OF sees]
    by (cases latest) (auto simp: admissible_def prior_of_def)
qed

lemma validate_current_sees:
  "\<lbrakk>reader_sees rd T; validate_current rd k r = Inr j\<rbrakk> \<Longrightarrow> t_jobs T k = Some j \<and> revision j = r"
  by (auto simp: validate_current_def required_job_def ensure_revision_def and_then_eq_Inr
      dest: reader_seesD(1) split: if_splits)

lemma validate_lifecycle_eq_Inr:
  "validate_lifecycle rd k r l = Inr j \<longleftrightarrow> validate_current rd k r = Inr j \<and> lifecycle j = l"
  by (auto simp: validate_lifecycle_def and_then_eq_Inr split: if_splits)

section \<open>Commands\<close>

text \<open>
  The values a command carries were built by their constructors. A prepared command carries
  records that \<^verbatim>\<open>prepare_handoff_job_admission\<close> or \<^verbatim>\<open>prepare_handoff_job\<close> made.
\<close>

fun command_ok :: "JobCommand \<Rightarrow> bool" where
  "command_ok (AdmitBranchHandoffJob a) \<longleftrightarrow> admission_ok a"
| "command_ok (RecordParentCasAcceptance _ _ cas) \<longleftrightarrow> cas_ok cas"
| "command_ok (RecordRetryableHandoffFailure _ _ e) \<longleftrightarrow> evidence_ok e"
| "command_ok (RecordTerminalHandoffFailure _ _ e) \<longleftrightarrow> evidence_ok e"
| "command_ok (PreparedHandoffJobAdmission w) \<longleftrightarrow> (\<exists>a. admission_ok a \<and> aw_job w = job_initial a)"
| "command_ok (PreparedHandoffJobTransition w) \<longleftrightarrow>
     job_step (tw_old w) (tw_new w) \<and> (job_ok (tw_old w) \<longrightarrow> job_ok (tw_new w))"
| "command_ok _ \<longleftrightarrow> True"

lemma prepare_handoff_job_admission_ok:
  assumes "prepare_handoff_job_admission acc a = Inr (r, w)" and "admission_ok a"
  shows "command_ok (PreparedHandoffJobAdmission w)"
  using assms by (auto simp: prepare_handoff_job_admission_def and_then_eq_Inr Let_def)

lemma prepare_handoff_job_ok:
  assumes "prepare_handoff_job acc k expected t = Inr (r, w)" and "transition_ok t"
  shows "command_ok (PreparedHandoffJobTransition w)"
  using assms by (auto simp: prepare_handoff_job_def and_then_eq_Inr Let_def
      dest: successor_job_step successor_ok)

text \<open>A command that is not an admission makes one step of a stored job.\<close>

definition command_moves :: "job_tables \<Rightarrow> BranchHandoffJobRecord \<Rightarrow> bool" where
  "command_moves T j' \<longleftrightarrow> (\<exists>k j. t_jobs T k = Some j \<and> job_step j j' \<and> job_ok j')"

lemma command_movesI:
  assumes "job_inv T" and "t_jobs T k = Some j" and "successor t j = (Inr j' :: 'io job_result)" and "transition_ok t"
  shows "command_moves T j'"
  using assms successor_job_step [OF assms(3)] successor_ok [OF assms(3,4)] job_invD(1) [OF assms(1,2)]
  by (auto simp: command_moves_def)

lemma lifecycle_moved: "moved j s j' \<Longrightarrow> lifecycle j' = state_lifecycle s"
  by (auto simp: moved_def lifecycle_def)

lemma is_live_into_state: "is_live (state_lifecycle (into_state cp))"
  by (cases cp) (simp_all add: is_live_def)

fun is_admission :: "JobCommand \<Rightarrow> bool" where
  "is_admission (AdmitBranchHandoffJob _) = True"
| "is_admission (PreparedHandoffJobAdmission _) = True"
| "is_admission _ = False"

lemma command_prepare_admits:
  assumes "reader_sees rd T" and "command_ok cmd" and "is_admission cmd" and "command_prepare rd cmd = Inr j"
  shows "admissible T j \<and> (\<exists>a. admission_ok a \<and> j = job_initial a)"
  using assms job_ok_request [OF job_initial_ok]
  by (cases cmd) (auto simp: admit_prepare_def prepared_admission_prepare_def and_then_eq_Inr Let_def
      dest!: validate_new_sees split: if_splits)

text \<open>
  The commands of \<^verbatim>\<open>mutation/transition.rs\<close> read the job they name at the revision they
  expect and take the successor of one transition.
\<close>

fun direct_transition :: "JobCommand \<Rightarrow> (JobId \<times> JobRevision \<times> HandoffJobTransition) option" where
  "direct_transition (CompleteResolvingTurn k r) = Some (k, r, T_CompleteResolving)"
| "direct_transition (StartParentHandoff k r p) = Some (k, r, T_StartParent p)"
| "direct_transition (RecordParentCasAcceptance k r cas) = Some (k, r, T_ParentAccepted cas)"
| "direct_transition (RecordRetryableHandoffFailure k r e) = Some (k, r, T_RetryableFailure e)"
| "direct_transition (RetryBranchHandoff k r) = Some (k, r, T_Retry)"
| "direct_transition (RecordTerminalHandoffFailure k r e) = Some (k, r, T_TerminalFailure e)"
| "direct_transition (SucceedBranchHandoff k r) = Some (k, r, T_Succeed)"
| "direct_transition _ = None"

lemma direct_transition_ok: "\<lbrakk>direct_transition cmd = Some (k, r, t); command_ok cmd\<rbrakk> \<Longrightarrow> transition_ok t"
  by (cases cmd) auto

lemmas transition_prepare_defs = complete_resolving_turn_prepare_def start_parent_handoff_prepare_def
  record_parent_cas_acceptance_prepare_def record_retryable_failure_prepare_def
  retry_branch_handoff_prepare_def record_terminal_failure_prepare_def succeed_branch_handoff_prepare_def

lemma direct_transition_prepare:
  fixes rd :: "'io job_reader"
  assumes "direct_transition cmd = Some (k, r, t)"
  shows "command_prepare rd cmd = Inr j' \<longleftrightarrow>
    (\<exists>j. validate_current rd k r = Inr j \<and> successor t j = (Inr j' :: 'io job_result))"
  using assms
  by (cases cmd) (auto simp: and_then_eq_Inr transition_prepare_defs validate_lifecycle_eq_Inr successor_iffs
      lifecycle_def)

lemma direct_transition_contribute:
  assumes "direct_transition cmd = Some (k, r, t)" and "successor t i = (Inr j :: 'io job_result)"
  shows "command_contribute cmd j mb =
    (if is_live (lifecycle j) then put_live_transition j mb else put_terminal_transition j mb)"
  using assms by (cases cmd) (auto simp: successor_iffs is_live_into_state dest!: lifecycle_moved;
      simp add: is_live_def)+

lemma command_kinds:
  obtains "is_admission cmd" | w where "cmd = PreparedHandoffJobTransition w"
  | k r t where "direct_transition cmd = Some (k, r, t)"
  by (cases cmd) auto

lemma prepared_transition_prepare_eq_Inr:
  "prepared_transition_prepare rd w = Inr w' \<longleftrightarrow>
     w' = w \<and> read_authenticated rd (job_id (tw_old w)) = Inr (tw_old w)"
  by (auto simp: prepared_transition_prepare_def and_then_eq_Inr split: if_splits)

lemma command_prepare_moves:
  assumes sees: "reader_sees rd T" and inv: "job_inv T" and ok: "command_ok cmd" "\<not> is_admission cmd"
    and prep: "command_prepare (rd :: 'io job_reader) cmd = Inr j'"
  shows "command_moves T j'"
proof (cases cmd rule: command_kinds)
  case 1
  with ok show ?thesis by simp
next
  case (2 w)
  with prep have w: "read_authenticated rd (job_id (tw_old w)) = Inr (tw_old w)" "j' = tw_new w"
    by (auto simp: prepared_transition_prepare_eq_Inr and_then_eq_Inr)
  note old = read_authenticated_sees [OF sees w(1)]
  show ?thesis using old job_invD(1) [OF inv old] 2 ok w(2) by (auto simp: command_moves_def)
next
  case (3 k r t)
  then obtain j where "validate_current rd k r = Inr j" "successor t j = (Inr j' :: 'io job_result)"
    using direct_transition_prepare prep by blast
  then show ?thesis
    using validate_current_sees [OF sees] direct_transition_ok [OF 3 ok(1)] command_movesI [OF inv] by blast
qed

text \<open>The contribution of a command is the write that fits the lifecycle it moves to.\<close>

lemma command_contribute_fits:
  assumes "\<not> is_admission cmd" and "command_prepare (rd :: 'io job_reader) cmd = Inr j"
  shows "command_contribute cmd j mb =
    (if is_live (lifecycle j) then put_live_transition j mb else put_terminal_transition j mb)"
proof (cases cmd rule: command_kinds)
  case (2 w)
  with assms show ?thesis
    by (auto simp: prepared_transition_prepare_eq_Inr prepared_transition_contribute_def and_then_eq_Inr)
next
  case (3 k r t)
  with assms(2) show ?thesis
    using direct_transition_prepare [OF 3] direct_transition_contribute [OF 3] by blast
qed (use assms(1) in simp)

lemma contribute_refines:
  assumes sees: "reader_sees rd T" and inv: "job_inv T" and ok: "command_ok cmd"
    and prep: "command_prepare (rd :: 'io job_reader) cmd = Inr j"
    and rep: "builder_rep m mb T"
    and contrib: "command_contribute cmd j mb = (Inr mb' :: 'io DurableJobMutationError + _)"
  shows "\<exists>T'. tables_step T T' \<and> builder_rep m mb' T'"
proof (cases "is_admission cmd")
  case True
  from command_prepare_admits [OF sees ok True prep] obtain a where
    a: "admissible T j" "admission_ok a" "j = job_initial a" by blast
  moreover have "admission_write j mb = (Inr mb' :: 'io DurableJobMutationError + _)"
    using contrib True by (cases cmd) auto
  ultimately show ?thesis
    using admission_write_rep [OF rep, of j mb'] job_initial_ok tables_step.admit by blast
next
  case False
  from command_prepare_moves [OF sees inv ok False prep] obtain k i where
    i: "t_jobs T k = Some i" "job_step i j" "job_ok j" by (auto simp: command_moves_def)
  have "builder_rep m mb' (transitioned j T)"
    using contrib put_transition_rep [OF rep i(3)]
    by (auto simp: command_contribute_fits [OF False prep] split: if_splits)
  with i show ?thesis using tables_step.move by blast
qed

lemma run_command_refines:
  assumes sn: "snapshot_of (rd_snapshot rd) m" and fam: "rd_families rd = job_families"
    and rep: "jobs_rep m T" and inv: "job_inv T" and ok: "command_ok cmd"
    and run: "run_command rd cmd = Inr ps"
  shows "\<exists>T'. tables_step T T' \<and> jobs_rep (apply_pending job_families m ps) T'"
proof -
  obtain j mb where prep: "command_prepare (domain_reader rd) cmd = Inr j"
    and contrib: "command_contribute cmd j (builder_new job_families) = (Inr mb :: 'a DurableJobMutationError + _)"
    and ps: "ps = mb_pending mb"
    using run fam by (auto simp: run_command_def and_then_eq_Inr)
  obtain T' where "tables_step T T'" "builder_rep m mb T'"
    using contribute_refines [OF domain_reader_sees [OF sn fam rep] inv ok prep builder_rep_new [OF rep] contrib]
    by blast
  then show ?thesis using ps by (auto simp: builder_rep_def pending_contents_def)
qed

end
