(* ===== verification/Job_Outcome.thy ===== *)
theory Job_Outcome
  imports Job_Refinement
begin

text \<open>
  What the commands and the queries of the durable-job domain return when the storage engine
  answers: commands that are due succeed, the others fail with the error of their branch, and the
  status queries tell whether a prepared command has been applied.
\<close>

section \<open>Reads that succeed\<close>

definition reader_total :: "'io job_reader \<Rightarrow> job_tables \<Rightarrow> bool" where
  "reader_total rd T \<longleftrightarrow>
     (\<forall>k l. job_point_limit \<le> l \<longrightarrow> jr_job rd k l = Inr (t_jobs T k)) \<and>
     (\<forall>k l. job_point_limit \<le> l \<longrightarrow> jr_live rd k l = Inr (t_live T k)) \<and>
     (\<forall>q l. request_ok q \<longrightarrow> request_point_limit \<le> l \<longrightarrow>
        jr_request rd (RequestValue q) l = Inr (t_requests T (RequestValue q))) \<and>
     (\<forall>k l. small_point_limit \<le> l \<longrightarrow> jr_attempt rd k l = Inr (t_attempts T k)) \<and>
     (\<forall>k l. small_point_limit \<le> l \<longrightarrow> jr_latest rd k l = Inr (t_latest T k))"

lemma reader_totalD:
  assumes "reader_total rd T"
  shows "jr_job rd k job_point_limit = Inr (t_jobs T k)"
    and "jr_live rd k job_point_limit = Inr (t_live T k)"
    and "request_ok q \<Longrightarrow> jr_request rd (RequestValue q) request_point_limit = Inr (t_requests T (RequestValue q))"
    and "jr_attempt rd d small_point_limit = Inr (t_attempts T d)"
    and "jr_latest rd t small_point_limit = Inr (t_latest T t)"
  using assms by (simp_all add: reader_total_def)

lemma domain_reader_total:
  assumes sn: "snapshot_reliable (rd_snapshot rd) m" and fam: "rd_families rd = job_families"
    and rep: "jobs_rep m T"
  shows "reader_total (domain_reader rd) T"
proof -
  note tables = jobs_repD [OF rep]
  note served = job_families_serve [folded fam]
  have fits: "4 + length (encode_job_record j) \<le> l" if "job_ok j" "job_point_limit \<le> l" for j l
    using length_encode_job_record [OF that(1)] that(2)
    by (simp add: job_point_limit_def BRANCH_HANDOFF_JOB_RECORD_LIMIT_def)
  show ?thesis
    unfolding reader_total_def domain_reader_def job_reader.simps
  proof (intro conjI allI impI)
    show "read_point rd job_record_codec k l = Inr (t_jobs T k)" if "job_point_limit \<le> l" for k l
      using tf_job.read_point_table_complete [OF sn served(1) tables(1) TrueI] fits that
        table_rep_ok [OF tables(1)] by blast
    show "read_point rd live_job_codec k l = Inr (t_live T k)" if "job_point_limit \<le> l" for k l
      using tf_live.read_point_table_complete [OF sn served(2) tables(2) TrueI] fits that
        table_rep_ok [OF tables(2)] by blast
    show "read_point rd request_codec (RequestValue q) l = Inr (t_requests T (RequestValue q))"
      if "request_ok q" "request_point_limit \<le> l" for q l
      using tf_request.read_point_table_complete [OF sn served(3) tables(3)] that
      by (simp add: request_point_limit_def REQUEST_IDEMPOTENCY_RECORD_LIMIT_def encode_request_admission_def)
    show "read_point rd attempt_codec d l = Inr (t_attempts T d)" if "small_point_limit \<le> l" for d l
      using tf_attempt.read_point_table_complete [OF sn served(4) tables(4) TrueI] that
      by (simp add: small_point_limit_def)
    show "read_point rd latest_codec t l = Inr (t_latest T t)" if "small_point_limit \<le> l" for t l
      using tf_latest.read_point_table_complete [OF sn served(5) tables(5) TrueI] that
      by (simp add: small_point_limit_def encode_latest_def)
  qed
qed

lemma read_identity_total:
  assumes rd: "reader_total rd T" and inv: "job_inv T"
  shows "read_identity rd k = ok_or (JobMissing k) (t_jobs T k)"
proof (cases "t_jobs T k")
  case None
  then show ?thesis by (simp add: read_identity_def reader_totalD [OF rd])
next
  case (Some j)
  note entry = job_invD(1) [OF inv Some]
  then have "request_ok (request j)" by (simp add: job_ok_request)
  with Some entry show ?thesis by (simp add: read_identity_def reader_totalD [OF rd] job_entry_ok_def)
qed

lemma read_authenticated_total:
  assumes rd: "reader_total rd T" and inv: "job_inv T" and j: "t_jobs T k = Some j" "is_live (lifecycle j)"
  shows "read_authenticated rd k = Inr j"
  using j live_is_latest [OF inv j]
  by (simp add: read_authenticated_def read_identity_total [OF rd inv] reader_totalD [OF rd])

section \<open>Admission\<close>

text \<open>The verdict on a new job, over the tables.\<close>

definition prior_verdict :: "BranchHandoffJobRecord \<Rightarrow> 'io DurableJobMutationError + ResolutionAttemptOrdinal" where
  "prior_verdict p =
     (if lifecycle p = Lc_TerminalFailed then map_err MutValue (attempt_ordinal_checked_next (attempt_ordinal p))
      else if lifecycle p = Lc_Succeeded then Inl (SuccessfulAttemptExists (job_id p))
      else Inl (LiveAttemptExists (job_id p)))"

definition admission_verdict ::
    "job_tables \<Rightarrow> BranchHandoffJobRecord \<Rightarrow> 'io DurableJobMutationError + BranchHandoffJobRecord option" where
  "admission_verdict T j =
     (case t_requests T (RequestValue (request j)) of
        Some existing \<Rightarrow> Inl (RequestAlreadyAdmitted existing)
      | None \<Rightarrow>
          if t_jobs T (job_id j) \<noteq> None then Inl (JobAlreadyExists (job_id j))
          else if t_attempts T (attempt_key (discussion_thread_id j) (attempt_ordinal j)) \<noteq> None
          then Inl (AttemptAlreadyExists (discussion_thread_id j) (attempt_ordinal j))
          else and_then (case prior_of T j of None \<Rightarrow> Inr attempt_ordinal_first | Some p \<Rightarrow> prior_verdict p)
            (\<lambda>expected. if attempt_ordinal j \<noteq> expected
               then Inl (AttemptOrdinalConflict expected (attempt_ordinal j)) else Inr (prior_of T j)))"

lemma live_none: "\<lbrakk>job_inv T; t_jobs T k = None\<rbrakk> \<Longrightarrow> t_live T k = None"
  by (cases "t_live T k") (auto dest: job_invD(2))

lemma admission_prior_total:
  assumes rd: "reader_total rd T" and inv: "job_inv T" and l: "t_latest T (discussion_thread_id j) = Some l"
  shows "\<exists>p. prior_of T j = Some p \<and> admission_prior rd j l =
    (if lifecycle p = Lc_TerminalFailed then Inr p
     else if lifecycle p = Lc_Succeeded then Inl (SuccessfulAttemptExists (job_id p))
     else Inl (LiveAttemptExists (job_id p)))"
proof -
  obtain p where p: "t_jobs T (la_job_id l) = Some p" "discussion_thread_id p = discussion_thread_id j"
      "latest_from_job p = l"
    using job_invD(5) [OF inv l] by (auto simp: latest_entry_ok_def)
  then show ?thesis using l
    by (intro exI [of _ p])
      (simp add: prior_of_def admission_prior_def read_identity_total [OF rd inv]
        split: BranchHandoffJobLifecycle.splits)
qed

lemma validate_new_total:
  assumes rd: "reader_total rd T" and inv: "job_inv T" and q: "request_ok (request j)"
  shows "validate_new rd j = admission_verdict T j"
proof (cases "t_latest T (discussion_thread_id j)")
  case None
  then have prior: "prior_of T j = None" by (simp add: prior_of_def)
  show ?thesis
    by (auto simp: validate_new_def admission_verdict_def reader_totalD [OF rd] q None prior live_none [OF inv]
        split: option.splits)
next
  case (Some l)
  obtain p where p: "prior_of T j = Some p" "admission_prior rd j l =
      (if lifecycle p = Lc_TerminalFailed then Inr p
       else if lifecycle p = Lc_Succeeded then Inl (SuccessfulAttemptExists (job_id p))
       else Inl (LiveAttemptExists (job_id p)))"
    using admission_prior_total [OF rd inv Some] by blast
  show ?thesis
    by (auto simp: validate_new_def admission_verdict_def prior_verdict_def reader_totalD [OF rd] q
        live_none [OF inv] p Some split: option.split cong: if_cong)
qed

lemma admission_verdict_admissible:
  assumes inv: "job_inv T"
  shows "admission_verdict T j = (Inr prior :: 'io DurableJobMutationError + _) \<longleftrightarrow>
    admissible T j \<and> prior = prior_of T j"
proof (cases "t_latest T (discussion_thread_id j)")
  case None
  then show ?thesis
    by (auto simp: admission_verdict_def admissible_def prior_of_def live_none [OF inv] split: option.splits if_splits)
next
  case (Some l)
  obtain p where "t_jobs T (la_job_id l) = Some p"
    using job_invD(5) [OF inv Some] by (auto simp: latest_entry_ok_def)
  with Some show ?thesis
    by (auto simp: admission_verdict_def admissible_def prior_of_def prior_verdict_def live_none [OF inv]
        and_then_eq_Inr split: option.splits if_splits)
qed

section \<open>Commands that are due succeed\<close>

lemma job_codec_family:
  "c_family job_record_codec = ''records''" "c_family live_job_codec = ''live-jobs''"
  "c_family request_codec = ''request-idempotency''" "c_family attempt_codec = ''discussion-attempts''"
  "c_family latest_codec = ''latest-attempts''"
  by (simp_all add: job_codec_defs)

lemma job_put_succeeds:
  assumes "mb_families mb = job_families"
  shows "\<lbrakk>job_ok j; (3, arr16_bytes k) \<notin> mb_touched mb\<rbrakk> \<Longrightarrow>
      \<exists>mb'. job_put job_record_codec k j mb = (Inr mb' :: 'io DurableJobMutationError + _) \<and>
        mb_families mb' = job_families \<and> mb_touched mb' = insert (3, arr16_bytes k) (mb_touched mb)"
    and "\<lbrakk>job_ok j; (2, arr16_bytes k) \<notin> mb_touched mb\<rbrakk> \<Longrightarrow>
      \<exists>mb'. job_put live_job_codec k j mb = (Inr mb' :: 'io DurableJobMutationError + _) \<and>
        mb_families mb' = job_families \<and> mb_touched mb' = insert (2, arr16_bytes k) (mb_touched mb)"
    and "(2, arr16_bytes k) \<notin> mb_touched mb \<Longrightarrow>
      \<exists>mb'. job_delete live_job_codec k mb = (Inr mb' :: 'io DurableJobMutationError + _) \<and>
        mb_families mb' = job_families \<and> mb_touched mb' = insert (2, arr16_bytes k) (mb_touched mb)"
    and "\<lbrakk>request_key_ok q; request_admission_ok a; (4, encode_request_key q) \<notin> mb_touched mb\<rbrakk> \<Longrightarrow>
      \<exists>mb'. job_put request_codec q a mb = (Inr mb' :: 'io DurableJobMutationError + _) \<and>
        mb_families mb' = job_families \<and> mb_touched mb' = insert (4, encode_request_key q) (mb_touched mb)"
    and "(0, encode_attempt_key d) \<notin> mb_touched mb \<Longrightarrow>
      \<exists>mb'. job_put attempt_codec d k mb = (Inr mb' :: 'io DurableJobMutationError + _) \<and>
        mb_families mb' = job_families \<and> mb_touched mb' = insert (0, encode_attempt_key d) (mb_touched mb)"
    and "(1, arr16_bytes t) \<notin> mb_touched mb \<Longrightarrow>
      \<exists>mb'. job_put latest_codec t l mb = (Inr mb' :: 'io DurableJobMutationError + _) \<and>
        mb_families mb' = job_families \<and> mb_touched mb' = insert (1, arr16_bytes t) (mb_touched mb)"
  using tf_job.builder_put_succeeds [where mb = mb and ks = ks_jobs and k = k and v = j and 'io = 'io]
    tf_live.builder_put_succeeds [where mb = mb and ks = ks_live and k = k and v = j and 'io = 'io]
    tf_live.builder_delete_succeeds [where mb = mb and ks = ks_live and k = k and 'io = 'io]
    tf_request.builder_put_succeeds [where mb = mb and ks = ks_requests and k = q and v = a and 'io = 'io]
    tf_attempt.builder_put_succeeds [where mb = mb and ks = ks_attempts and k = d and v = k and 'io = 'io]
    tf_latest.builder_put_succeeds [where mb = mb and ks = ks_latest and k = t and v = l and 'io = 'io]
  by (auto simp: assms job_put_eq_Inr job_delete_eq_Inr job_codec_family)

lemma builder_new_fresh [simp]: "mb_touched (builder_new fs) = {}"
  by (simp add: builder_new_def)

lemma put_transition_succeeds:
  assumes "job_ok j"
  shows "\<exists>mb. (if is_live (lifecycle j) then put_live_transition j (builder_new job_families)
     else put_terminal_transition j (builder_new job_families)) = (Inr mb :: 'io DurableJobMutationError + _)"
proof -
  obtain mb1 where mb1: "job_put job_record_codec (job_id j) j (builder_new job_families) =
      (Inr mb1 :: 'io DurableJobMutationError + _)" "mb_families mb1 = job_families"
      "mb_touched mb1 = {(3, arr16_bytes (job_id j))}"
    using job_put_succeeds(1) [of "builder_new job_families" j, where 'io = 'io] assms by auto
  show ?thesis
    using job_put_succeeds(2) [OF mb1(2) assms, where k = "job_id j" and 'io = 'io]
      job_put_succeeds(3) [OF mb1(2), where k = "job_id j" and 'io = 'io] mb1
    by (auto simp: put_live_transition_def put_terminal_transition_def and_then_eq_Inr)
qed

lemma admission_write_succeeds:
  assumes "job_ok j"
  shows "\<exists>mb. admission_write j (builder_new job_families) = (Inr mb :: 'io DurableJobMutationError + _)"
proof -
  let ?a = "arr16_bytes (job_id j)" and ?q = "encode_request_key (RequestValue (request j))"
    and ?d = "encode_attempt_key (attempt_key (discussion_thread_id j) (attempt_ordinal j))"
  obtain mb1 where mb1: "job_put job_record_codec (job_id j) j (builder_new job_families) =
      (Inr mb1 :: 'io DurableJobMutationError + _)" "mb_families mb1 = job_families" "mb_touched mb1 = {(3, ?a)}"
    using job_put_succeeds(1) [of "builder_new job_families" j, where 'io = 'io] assms by auto
  obtain mb2 where mb2: "job_put live_job_codec (job_id j) j mb1 = (Inr mb2 :: 'io DurableJobMutationError + _)"
      "mb_families mb2 = job_families" "mb_touched mb2 = {(2, ?a), (3, ?a)}"
    using job_put_succeeds(2) [OF mb1(2) assms, where k = "job_id j" and 'io = 'io] mb1(3) by auto
  obtain mb3 where mb3: "job_put request_codec (RequestValue (request j)) (request_admission_from_job j) mb2 =
      (Inr mb3 :: 'io DurableJobMutationError + _)" "mb_families mb3 = job_families"
      "mb_touched mb3 = {(4, ?q), (2, ?a), (3, ?a)}"
    using job_put_succeeds(4) [OF mb2(2) _ job_ok_request_admission [OF assms],
        where q = "RequestValue (request j)" and 'io = 'io] job_ok_request [OF assms] mb2(3) by auto
  obtain mb4 where mb4: "job_put attempt_codec (attempt_key (discussion_thread_id j) (attempt_ordinal j))
      (job_id j) mb3 = (Inr mb4 :: 'io DurableJobMutationError + _)" "mb_families mb4 = job_families"
      "mb_touched mb4 = {(0, ?d), (4, ?q), (2, ?a), (3, ?a)}"
    using job_put_succeeds(5) [OF mb3(2), where k = "job_id j" and 'io = 'io
        and d = "attempt_key (discussion_thread_id j) (attempt_ordinal j)"] mb3(3) by auto
  obtain mb5 where "job_put latest_codec (discussion_thread_id j) (latest_from_job j) mb4 =
      (Inr mb5 :: 'io DurableJobMutationError + _)"
    using job_put_succeeds(6) [OF mb4(2), where t = "discussion_thread_id j" and l = "latest_from_job j"
        and 'io = 'io] mb4(3) by auto
  with mb1(1) mb2(1) mb3(1) mb4(1) show ?thesis by (simp add: admission_write_def)
qed

lemma run_transition_succeeds:
  fixes rd :: "'io DomainReader"
  assumes sn: "snapshot_reliable (rd_snapshot rd) m" and fam: "rd_families rd = job_families"
    and rep: "jobs_rep m T" and inv: "job_inv T" and ok: "command_ok cmd"
    and cmd: "direct_transition cmd = Some (k, revision j, t)"
    and j: "t_jobs T k = Some j" and succ: "successor t j = (Inr j' :: 'io job_result)"
  shows "\<exists>ps. run_command rd cmd = Inr ps \<and>
    jobs_rep (apply_pending job_families m ps) (transitioned j' T)"
proof -
  note rd = domain_reader_total [OF sn fam rep]
  have "validate_current (domain_reader rd) k (revision j) = Inr j"
    by (simp add: validate_current_def required_job_def ensure_revision_def reader_totalD [OF rd] j)
  with succ have prep: "command_prepare (domain_reader rd) cmd = Inr j'"
    using direct_transition_prepare [OF cmd] by blast
  have job: "job_ok j'"
    using successor_ok [OF succ direct_transition_ok [OF cmd ok]] job_invD(1) [OF inv j] by simp
  obtain mb where mb: "command_contribute cmd j' (builder_new job_families) =
      (Inr mb :: 'io DurableJobMutationError + _)"
    using put_transition_succeeds [OF job, where 'io = 'io]
    by (auto simp: direct_transition_contribute [OF cmd succ])
  have "builder_rep m mb (transitioned j' T)"
    using mb put_transition_rep [OF builder_rep_new [OF rep] job, where 'io = 'io and mb' = mb]
    by (auto simp: direct_transition_contribute [OF cmd succ] split: if_splits)
  with prep mb fam show ?thesis
    by (auto simp: run_command_def builder_rep_def pending_contents_def)
qed

lemma run_admission_succeeds:
  fixes rd :: "'io DomainReader"
  assumes sn: "snapshot_reliable (rd_snapshot rd) m" and fam: "rd_families rd = job_families"
    and rep: "jobs_rep m T" and inv: "job_inv T" and ok: "admission_ok a"
    and adm: "admissible T (job_initial a)"
  shows "\<exists>ps. run_command rd (AdmitBranchHandoffJob a) = Inr ps \<and>
    jobs_rep (apply_pending job_families m ps) (admitted (job_initial a) T)"
proof -
  note rd = domain_reader_total [OF sn fam rep] and job = job_initial_ok [OF ok]
  have "validate_new (domain_reader rd) (job_initial a) = Inr (prior_of T (job_initial a))"
    using adm admission_verdict_admissible [OF inv, where 'io = 'io]
    by (simp add: validate_new_total [OF rd inv job_ok_request [OF job]])
  then have prep: "command_prepare (domain_reader rd) (AdmitBranchHandoffJob a) = Inr (job_initial a)"
    by (simp add: admit_prepare_def Let_def)
  obtain mb where mb: "admission_write (job_initial a) (builder_new job_families) =
      (Inr mb :: 'io DurableJobMutationError + _)"
    using admission_write_succeeds [OF job, where 'io = 'io] by blast
  have "builder_rep m mb (admitted (job_initial a) T)"
    by (rule admission_write_rep [OF builder_rep_new [OF rep] job mb])
  with prep mb fam show ?thesis
    by (auto simp: run_command_def builder_rep_def pending_contents_def)
qed

section \<open>Status of a prepared command\<close>

lemma job_step_differs: "job_step j j' \<Longrightarrow> j' \<noteq> j"
  by (auto dest: job_step_revision)

lemma transition_outcome_total:
  assumes rd: "reader_total rd T" and inv: "job_inv T" and step: "job_step (tw_old w) (tw_new w)"
  shows "transition_outcome rd w = Inr (
    if t_jobs T (job_id (tw_old w)) = Some (tw_old w) then ExactOld
    else if t_jobs T (job_id (tw_old w)) = Some (tw_new w) then ExactNew else Collision)"
proof -
  let ?k = "job_id (tw_old w)"
  have live: "t_live T ?k = (if is_live (lifecycle j) then Some j else None)" if "t_jobs T ?k = Some j" for j
    using job_invD(1) [OF inv that] by (simp add: job_entry_ok_def)
  show ?thesis
    using live job_step_live [OF step] job_step_differs [OF step]
    by (auto simp: transition_outcome_def Let_def reader_totalD [OF rd])
qed

lemma prior_intact_total:
  assumes rd: "reader_total rd T" and inv: "job_inv T" and ok: "job_ok p" "\<not> is_live (lifecycle p)"
  shows "prior_intact rd p = Inr (t_jobs T (job_id p) = Some p)"
proof (cases "t_jobs T (job_id p) = Some p")
  case True
  with job_invD(1) [OF inv True] job_ok_request [OF ok(1)] ok(2) show ?thesis
    by (simp add: prior_intact_def reader_totalD [OF rd] job_entry_ok_def)
next
  case False
  then show ?thesis by (simp add: prior_intact_def reader_totalD [OF rd])
qed

text \<open>The witness of a prepared admission: what \<^verbatim>\<open>prepare_handoff_job_admission\<close> returns.\<close>

definition admission_witness_ok :: "job_tables \<Rightarrow> AdmissionRecords \<Rightarrow> bool" where
  "admission_witness_ok T w \<longleftrightarrow> (\<exists>a. admission_ok a \<and> aw_job w = job_initial a) \<and>
     admissible T (aw_job w) \<and> aw_prior w = prior_of T (aw_job w)"

lemma prior_of_terminal:
  assumes inv: "job_inv T" and adm: "admissible T j" and p: "prior_of T j = Some p"
  shows "t_jobs T (job_id p) = Some p \<and> job_ok p \<and> \<not> is_live (lifecycle p) \<and>
    t_latest T (discussion_thread_id j) = Some (latest_from_job p)"
proof -
  obtain l where l: "t_latest T (discussion_thread_id j) = Some l" "t_jobs T (la_job_id l) = Some p"
    using p by (auto simp: prior_of_def bind_eq_Some_conv)
  have "latest_from_job p = l" using job_invD(5) [OF inv l(1)] l(2) by (auto simp: latest_entry_ok_def)
  moreover have "lifecycle p = Lc_TerminalFailed" using adm l by (auto simp: admissible_def)
  ultimately show ?thesis
    using l job_invD(1) [OF inv l(2)] by (auto simp: job_entry_ok_def is_live_def)
qed

lemma prior_of_None:
  assumes inv: "job_inv T" and p: "prior_of T j = None"
  shows "t_latest T (discussion_thread_id j) = None"
proof (rule ccontr)
  assume "t_latest T (discussion_thread_id j) \<noteq> None"
  then obtain l where l: "t_latest T (discussion_thread_id j) = Some l" by blast
  then show False using job_invD(5) [OF inv l] p by (auto simp: prior_of_def latest_entry_ok_def)
qed

lemma admission_classify_before:
  assumes rd: "reader_total rd T" and inv: "job_inv T" and w: "admission_witness_ok T w"
  shows "admission_classify rd w = Inr ExactOld"
proof -
  have adm: "admissible T (aw_job w)" and prior: "aw_prior w = prior_of T (aw_job w)"
    and q: "request_ok (request (aw_job w))"
    using w job_ok_request [OF job_initial_ok] by (auto simp: admission_witness_ok_def)
  have fresh: "t_requests T (RequestValue (request (aw_job w))) = None" "t_jobs T (job_id (aw_job w)) = None"
      "t_live T (job_id (aw_job w)) = None"
      "t_attempts T (attempt_key (discussion_thread_id (aw_job w)) (attempt_ordinal (aw_job w))) = None"
    using adm by (simp_all add: admissible_def)
  show ?thesis
  proof (cases "prior_of T (aw_job w)")
    case None
    with prior_of_None [OF inv None] fresh q show ?thesis
      by (simp add: admission_classify_def Let_def prior reader_totalD [OF rd])
  next
    case (Some p)
    with prior_of_terminal [OF inv adm Some] fresh q show ?thesis
      by (simp add: admission_classify_def Let_def prior prior_intact_total [OF rd inv] reader_totalD [OF rd])
  qed
qed

lemma admission_classify_after:
  assumes rd: "reader_total rd (admitted (aw_job w) T)" and inv: "job_inv T" and w: "admission_witness_ok T w"
  shows "admission_classify rd w = Inr ExactNew"
proof -
  have adm: "admissible T (aw_job w)" and prior: "aw_prior w = prior_of T (aw_job w)"
    and q: "request_ok (request (aw_job w))" and inv': "job_inv (admitted (aw_job w) T)"
    using w job_ok_request [OF job_initial_ok] admitted_inv [OF inv _ job_initial_ok]
    by (auto simp: admission_witness_ok_def is_live_def)
  show ?thesis
  proof (cases "prior_of T (aw_job w)")
    case None
    with q show ?thesis
      by (simp add: admission_classify_def Let_def prior reader_totalD [OF rd])
  next
    case (Some p)
    note p = prior_of_terminal [OF inv adm Some]
    then have "job_id p \<noteq> job_id (aw_job w)" using adm by (auto simp: admissible_def)
    with Some p q show ?thesis
      by (simp add: admission_classify_def Let_def prior prior_intact_total [OF rd inv'] reader_totalD [OF rd])
  qed
qed

lemma prepared_admission_witness:
  assumes rd: "reader_sees (acc_reader acc) T" and ok: "admission_ok a"
    and prep: "prepare_handoff_job_admission acc a = Inr (r, w)"
  shows "admission_witness_ok T w"
  using assms validate_new_sees [OF rd job_ok_request [OF job_initial_ok [OF ok]]]
  by (auto simp: prepare_handoff_job_admission_def admission_witness_ok_def and_then_eq_Inr Let_def)

section \<open>Idempotency queries\<close>

lemma admitted_request_total:
  assumes rd: "reader_total (acc_reader acc) T" and inv: "job_inv T" and q: "request_ok req"
    and rev: "acc_revision_before acc = Inr r" "acc_revision_after acc = Inr r"
  shows "admitted_request acc req =
    Inr (Option.bind (t_requests T (RequestValue req)) (\<lambda>a. t_jobs T (ra_job_id a)))"
proof (cases "t_requests T (RequestValue req)")
  case None
  then show ?thesis using q rev
    by (simp add: admitted_request_def access_confirm_def Let_def reader_totalD [OF rd])
next
  case (Some a)
  obtain j where "t_jobs T (ra_job_id a) = Some j" "request j = req" "request_admission_from_job j = a"
    using job_invD(3) [OF inv Some] by (auto simp: request_entry_ok_def)
  then show ?thesis using q rev Some
    by (simp add: admitted_request_def access_confirm_def Let_def reader_totalD [OF rd]
        read_identity_total [OF rd inv])
qed

end
