(* ===== verification/Key_Order.thy ===== *)
theory Key_Order
  imports Job_Codec
begin

text \<open>
  The stored keys of the durable-job families sort like the values they encode, and the bounds
  that the scans use enclose every stored key.
\<close>

section \<open>Byte strings of equal length\<close>

lemma append_less_same_length:
  fixes xs ys :: "'a::linorder list"
  assumes "length xs = length ys"
  shows "xs @ a < ys @ b \<longleftrightarrow> xs < ys \<or> xs = ys \<and> a < b"
  using assms by (induction xs ys rule: list_induct2) auto

lemma snoc_less_same_length:
  fixes xs ys :: "'a::linorder list"
  assumes "length xs = length ys"
  shows "xs @ [a] < ys @ [b] \<longleftrightarrow> xs < ys \<or> xs = ys \<and> a < b"
  by (simp add: append_less_same_length [OF assms])

lemma replicate_least:
  fixes xs :: bytes
  shows "length xs = n \<Longrightarrow> replicate n 0 \<le> xs"
proof (induction n arbitrary: xs)
  case (Suc n)
  then obtain y ys where "xs = y # ys" "length ys = n" by (cases xs) auto
  with Suc.IH [of ys] show ?case by (auto simp: word_neq_0_conv)
qed simp

lemma u8_less_max: "(b :: u8) \<noteq> 255 \<Longrightarrow> b < 255"
proof -
  assume "b \<noteq> 255"
  then have "unat b \<noteq> 255" using unat_arith_simps(3) [of b 255] by simp
  with unat_u8_less [of b] show "b < 255" by (simp add: word_less_nat_alt)
qed

lemma replicate_greatest:
  fixes xs :: bytes
  shows "length xs = n \<Longrightarrow> xs \<le> replicate n 255"
proof (induction n arbitrary: xs)
  case (Suc n)
  then obtain y ys where "xs = y # ys" "length ys = n" by (cases xs) auto
  with Suc.IH [of ys] show ?case by (auto simp: u8_less_max)
qed simp

section \<open>Big-endian integers\<close>

lemma u8_of_nat_less: "(of_nat (v mod 256) :: u8) < of_nat (w mod 256) \<longleftrightarrow> v mod 256 < w mod 256"
  by (simp add: word_less_nat_alt)

lemma div_mod_less: "v div 256 < w div 256 \<or> v div 256 = w div 256 \<and> v mod 256 < w mod 256 \<longleftrightarrow> v < (w :: nat)"
proof -
  have "v = 256 * (v div 256) + v mod 256" "w = 256 * (w div 256) + w mod 256" "v mod 256 < 256" "w mod 256 < 256"
    by simp_all
  then show ?thesis by linarith
qed

lemma nat_to_be_less:
  "\<lbrakk>v < 256 ^ n; w < 256 ^ n\<rbrakk> \<Longrightarrow> nat_to_be n v < nat_to_be n w \<longleftrightarrow> v < w"
proof (induction n arbitrary: v w)
  case (Suc n)
  have div: "v div 256 < 256 ^ n" "w div 256 < 256 ^ n"
    using Suc.prems by (simp_all add: less_mult_imp_div_less mult.commute)
  have eq: "nat_to_be n (v div 256) = nat_to_be n (w div 256) \<longleftrightarrow> v div 256 = w div 256"
    using nat_from_to_be_id [OF div(1)] nat_from_to_be_id [OF div(2)] by metis
  have "nat_to_be (Suc n) v < nat_to_be (Suc n) w \<longleftrightarrow>
      v div 256 < w div 256 \<or> v div 256 = w div 256 \<and> v mod 256 < w mod 256"
    by (simp add: snoc_less_same_length Suc.IH [OF div] eq u8_of_nat_less)
  also have "\<dots> \<longleftrightarrow> v < w"
    by (rule div_mod_less)
  finally show ?case .
qed simp

lemma enc_u64_less: "enc_u64 a < enc_u64 b \<longleftrightarrow> a < b"
  using unat_less_exp [of a] unat_less_exp [of b]
  by (simp add: enc_u64_def to_be_bytes_def nat_to_be_less word_less_nat_alt)

section \<open>Keys\<close>

lemma encode_attempt_key_less:
  "encode_attempt_key d < encode_attempt_key e \<longleftrightarrow>
     dk_discussion_thread_id d < dk_discussion_thread_id e \<or>
     dk_discussion_thread_id d = dk_discussion_thread_id e \<and> dk_attempt_ordinal d < dk_attempt_ordinal e"
  by (simp add: encode_attempt_key_def enc_fixed_def append_less_same_length enc_u64_less
      less_arr16_def less_nonzero_u64_def)

lemma nz_least: "nz_of 1 \<le> n"
  using unat_nz_get_pos [of n] by (simp add: less_eq_nonzero_u64_def word_le_nat_alt)

lemma nz_greatest: "n \<le> nz_of (- 1)"
  by (simp add: less_eq_nonzero_u64_def)

lemma arr16_range: "arr16_bytes (arr16_fill 0) \<le> arr16_bytes k \<and> arr16_bytes k \<le> arr16_bytes (arr16_fill 255)"
  by (simp add: replicate_least replicate_greatest)

end
