(* ===== verification/Job_Validate.thy ===== *)
theory Job_Validate
  imports Job_Outcome Key_Order
begin

text \<open>
  The validator of the durable-job domain (\<^verbatim>\<open>durable_job/validate.rs\<close>), which runs when a home
  opens. It returns on every snapshot, and it accepts exactly the contents whose tables satisfy
  \<open>job_inv\<close>, the invariant that the commands keep.
\<close>

section \<open>The validator\<close>

datatype 'io DurableJobValidationError =
    ValRead "('io, CodecError) ReadError"
  | ValValue DurableJobValueError
  | ValInvariant string

type_synonym 'io validation = "'io DurableJobValidationError + unit"

definition invariant :: "string \<Rightarrow> 'io DurableJobValidationError + 'a" where
  "invariant message = Inl (ValInvariant message)"

definition VALIDATION_PAGE_ITEMS :: usize where "VALIDATION_PAGE_ITEMS = 64"
definition VALIDATION_PAGE_BYTES :: usize where "VALIDATION_PAGE_BYTES = 8 * 1024 * 1024"

definition validation_limits :: CursorReadLimits where
  "validation_limits = \<lparr>max_items = VALIDATION_PAGE_ITEMS, max_bytes = VALIDATION_PAGE_BYTES\<rparr>"

definition validate_small_limit :: usize where "validate_small_limit = 128"

definition job_range :: "JobId option \<Rightarrow> JobId CursorRange" where
  "job_range after = (let upper = arr16_fill 255 in
     case after of Some after \<Rightarrow> range_after after upper | None \<Rightarrow> range_closed (arr16_fill 0) upper)"

definition thread_range :: "SyndicThreadId option \<Rightarrow> SyndicThreadId CursorRange" where
  "thread_range after = (let upper = arr16_fill 255 in
     case after of Some after \<Rightarrow> range_after after upper | None \<Rightarrow> range_closed (arr16_fill 0) upper)"

definition request_range :: "RequestIndexKey option \<Rightarrow> RequestIndexKey CursorRange" where
  "request_range after =
     (case after of Some after \<Rightarrow> range_after after Upper | None \<Rightarrow> range_closed Lower Upper)"

definition attempt_range :: "DiscussionAttemptKey option \<Rightarrow> DiscussionAttemptKey CursorRange" where
  "attempt_range after = (let upper = attempt_key (arr16_fill 255) (nz_of (- 1)) in
     case after of Some after \<Rightarrow> range_after after upper
     | None \<Rightarrow> range_closed (attempt_key (arr16_fill 0) attempt_ordinal_first) upper)"

definition validate_required_job :: "'io DomainReader \<Rightarrow> JobId \<Rightarrow> 'io DurableJobValidationError + BranchHandoffJobRecord" where
  "validate_required_job rd jid =
     and_then (map_err ValRead (jr_job (domain_reader rd) jid job_point_limit))
       (ok_or (ValInvariant ''durable job index references a missing authoritative record''))"

definition ensure_latest :: "'io DomainReader \<Rightarrow> BranchHandoffJobRecord \<Rightarrow> 'io validation" where
  "ensure_latest rd job =
     and_then (map_err ValRead (jr_latest (domain_reader rd) (discussion_thread_id job) validate_small_limit)) (\<lambda>latest.
       if latest \<noteq> Some (latest_from_job job)
       then invariant ''discussion latest-attempt index does not name its final attempt'' else Inr ())"

definition check_record :: "'io DomainReader \<Rightarrow> unit \<Rightarrow> JobId \<times> BranchHandoffJobRecord \<Rightarrow> 'io validation" where
  "check_record rd _ entry = (let r = domain_reader rd; job = snd entry in
     if fst entry \<noteq> job_id job then invariant ''job record key does not match its job identity'' else
     and_then (map_err ValRead (jr_request r (RequestValue (request job)) validate_small_limit)) (\<lambda>req.
     if req \<noteq> Some (request_admission_from_job job)
     then invariant ''job request-idempotency index is missing or mismatched'' else
     and_then (map_err ValRead (jr_attempt r (attempt_key (discussion_thread_id job) (attempt_ordinal job))
         validate_small_limit)) (\<lambda>attempt.
     if attempt \<noteq> Some (job_id job)
     then invariant ''job discussion-attempt index is missing or mismatched'' else
     and_then (map_err ValRead (jr_latest r (discussion_thread_id job) validate_small_limit)) (\<lambda>latest.
     case latest of None \<Rightarrow> invariant ''job discussion has no latest-attempt index'' | Some latest \<Rightarrow>
     if la_attempt_ordinal latest < attempt_ordinal job
     then invariant ''job attempt is later than its discussion latest-attempt index'' else
     if la_attempt_ordinal latest = attempt_ordinal job \<and> la_job_id latest \<noteq> job_id job
     then invariant ''latest attempt ordinal maps to a different job'' else
     and_then (map_err ValRead (jr_live r (job_id job) job_point_limit)) (\<lambda>live.
     if is_live (lifecycle job) then
       if live \<noteq> Some job then invariant ''live job index is missing or differs from its record''
       else if la_job_id latest \<noteq> job_id job then invariant ''a non-latest discussion attempt remains live''
       else Inr ()
     else if live \<noteq> None then invariant ''terminal job remains present in the live-job index''
     else Inr ())))))"

definition validate_records :: "'io DomainReader \<Rightarrow> 'io validation option" where
  "validate_records rd = page_loop
     (\<lambda>after. map_err ValRead (read_cursor rd job_record_codec (job_range after) Forward validation_limits))
     (check_record rd) Inr (ValInvariant ''bounded job cursor reported more without a record'') None ()"

definition check_live :: "'io DomainReader \<Rightarrow> unit \<Rightarrow> JobId \<times> BranchHandoffJobRecord \<Rightarrow> 'io validation" where
  "check_live rd _ entry = (let job = snd entry in
     if fst entry \<noteq> job_id job \<or> \<not> is_live (lifecycle job)
     then invariant ''live-job index contains an invalid job entry'' else
     and_then (map_err ValRead (jr_job (domain_reader rd) (fst entry) job_point_limit)) (\<lambda>authoritative.
     if authoritative \<noteq> Some job
     then invariant ''live-job index differs from its authoritative record'' else Inr ()))"

definition validate_live_index :: "'io DomainReader \<Rightarrow> 'io validation option" where
  "validate_live_index rd = page_loop
     (\<lambda>after. map_err ValRead (read_cursor rd live_job_codec (job_range after) Forward validation_limits))
     (check_live rd) Inr (ValInvariant ''bounded live-job cursor reported more without a record'') None ()"

definition check_request ::
    "'io DomainReader \<Rightarrow> unit \<Rightarrow> RequestIndexKey \<times> ResolutionRequestAdmission \<Rightarrow> 'io validation" where
  "check_request rd _ entry = (case fst entry of
     RequestValue req \<Rightarrow>
       and_then (validate_required_job rd (ra_job_id (snd entry))) (\<lambda>job.
       if request job \<noteq> req \<or> request_admission_from_job job \<noteq> snd entry
       then invariant ''request-idempotency entry differs from its job admission'' else Inr ())
   | _ \<Rightarrow> invariant ''request-idempotency index persisted a sentinel key'')"

definition validate_requests :: "'io DomainReader \<Rightarrow> 'io validation option" where
  "validate_requests rd = page_loop
     (\<lambda>after. map_err ValRead (read_cursor rd request_codec (request_range after) Forward validation_limits))
     (check_request rd) Inr (ValInvariant ''bounded request cursor reported more without a record'') None ()"

text \<open>The state of the attempt scan is the job of the previous entry.\<close>

definition check_attempt ::
    "'io DomainReader \<Rightarrow> BranchHandoffJobRecord option \<Rightarrow> DiscussionAttemptKey \<times> JobId \<Rightarrow>
     'io DurableJobValidationError + BranchHandoffJobRecord option" where
  "check_attempt rd previous entry =
     and_then (validate_required_job rd (snd entry)) (\<lambda>job.
     if discussion_thread_id job \<noteq> dk_discussion_thread_id (fst entry) \<or>
        attempt_ordinal job \<noteq> dk_attempt_ordinal (fst entry)
     then invariant ''discussion-attempt entry differs from its job record''
     else and_then
       (case previous of
          Some prev \<Rightarrow>
            if discussion_thread_id prev = discussion_thread_id job then
              if lifecycle prev \<noteq> Lc_TerminalFailed
              then invariant ''a later discussion attempt follows a non-terminal-failed attempt''
              else and_then (map_err ValValue (attempt_ordinal_checked_next (attempt_ordinal prev))) (\<lambda>expected.
                if attempt_ordinal job \<noteq> expected
                then invariant ''discussion attempt ordinals are not contiguous'' else Inr ())
            else and_then (ensure_latest rd prev) (\<lambda>_.
              if attempt_ordinal job \<noteq> attempt_ordinal_first
              then invariant ''a discussion's first attempt ordinal is not one'' else Inr ())
        | None \<Rightarrow>
            if attempt_ordinal job \<noteq> attempt_ordinal_first
            then invariant ''a discussion's first attempt ordinal is not one'' else Inr ())
       (\<lambda>_. Inr (Some job)))"

definition finish_attempts :: "'io DomainReader \<Rightarrow> BranchHandoffJobRecord option \<Rightarrow> 'io validation" where
  "finish_attempts rd previous = (case previous of Some prev \<Rightarrow> ensure_latest rd prev | None \<Rightarrow> Inr ())"

definition validate_attempt_order :: "'io DomainReader \<Rightarrow> 'io validation option" where
  "validate_attempt_order rd = page_loop
     (\<lambda>after. map_err ValRead (read_cursor rd attempt_codec (attempt_range after) Forward validation_limits))
     (check_attempt rd) (finish_attempts rd)
     (ValInvariant ''bounded attempt cursor reported more without a record'') None None"

definition check_latest ::
    "'io DomainReader \<Rightarrow> unit \<Rightarrow> SyndicThreadId \<times> LatestBranchHandoffAttempt \<Rightarrow> 'io validation" where
  "check_latest rd _ entry = (let latest = snd entry in
     and_then (validate_required_job rd (la_job_id latest)) (\<lambda>job.
     if discussion_thread_id job \<noteq> fst entry \<or> attempt_ordinal job \<noteq> la_attempt_ordinal latest
     then invariant ''latest-attempt entry differs from its job record'' else
     and_then (map_err ValRead (jr_attempt (domain_reader rd) (attempt_key (fst entry) (la_attempt_ordinal latest))
         validate_small_limit)) (\<lambda>indexed.
     if indexed \<noteq> Some (la_job_id latest)
     then invariant ''latest attempt is missing from ordered attempt index'' else Inr ())))"

definition validate_latest_index :: "'io DomainReader \<Rightarrow> 'io validation option" where
  "validate_latest_index rd = page_loop
     (\<lambda>after. map_err ValRead (read_cursor rd latest_codec (thread_range after) Forward validation_limits))
     (check_latest rd) Inr (ValInvariant ''bounded latest-attempt cursor reported more without a record'') None ()"

text \<open>One validator after the other; an error ends the validation.\<close>

definition validate_then :: "'io validation option \<Rightarrow> 'io validation option \<Rightarrow> 'io validation option" where
  "validate_then first next = Option.bind first (\<lambda>r. case r of Inl e \<Rightarrow> Some (Inl e) | Inr _ \<Rightarrow> next)"

definition validate :: "'io DomainReader \<Rightarrow> 'io validation option" where
  "validate rd =
     validate_then (validate_records rd)
     (validate_then (validate_live_index rd)
     (validate_then (validate_requests rd)
     (validate_then (validate_attempt_order rd)
       (validate_latest_index rd))))"

section \<open>Ranges\<close>

lemma job_range_eq: "job_range = key_range (arr16_fill 0) (arr16_fill 255)"
  by (auto simp: job_range_def key_range_def Let_def fun_eq_iff split: option.splits)

lemma thread_range_eq: "thread_range = key_range (arr16_fill 0) (arr16_fill 255)"
  by (auto simp: thread_range_def key_range_def Let_def fun_eq_iff split: option.splits)

lemma request_range_eq: "request_range = key_range Lower Upper"
  by (auto simp: request_range_def key_range_def fun_eq_iff split: option.splits)

abbreviation "least_attempt \<equiv> attempt_key (arr16_fill 0) attempt_ordinal_first"
abbreviation "greatest_attempt \<equiv> attempt_key (arr16_fill 255) (nz_of (- 1))"

lemma attempt_range_eq: "attempt_range = key_range least_attempt greatest_attempt"
  by (auto simp: attempt_range_def key_range_def Let_def fun_eq_iff split: option.splits)

lemma attempt_keys_in_range:
  "encode_attempt_key least_attempt \<le> encode_attempt_key d \<and> encode_attempt_key d \<le> encode_attempt_key greatest_attempt"
proof -
  obtain t n where d: "d = attempt_key t n" by (metis attempt_key_def DiscussionAttemptKey.cases)
  have "\<not> t < arr16_fill 0" "\<not> arr16_fill 255 < t"
    using arr16_range [of t] by (simp_all add: less_arr16_def not_less)
  moreover have "\<not> n < attempt_ordinal_first" "\<not> nz_of (- 1) < n"
    using nz_least [of n] nz_greatest [of n] by (simp_all add: attempt_ordinal_first_def not_less)
  ultimately show ?thesis
    by (auto simp: d not_less [symmetric] encode_attempt_key_less)
qed

lemma request_keys_in_range:
  "request_key_ok q \<Longrightarrow> encode_request_key Lower \<le> encode_request_key q \<and> encode_request_key q \<le> encode_request_key Upper"
  by (cases q) (auto simp: encode_request_key_def enc_u8_def)

section \<open>Sequences of validators\<close>

lemma validate_then_eq_Some:
  "validate_then a b = Some (Inr ()) \<longleftrightarrow> a = Some (Inr ()) \<and> b = Some (Inr ())"
  by (cases a; cases "the a") (auto simp: validate_then_def)

lemma validate_then_returns: "\<lbrakk>\<exists>r. a = Some r; \<exists>r. b = Some r\<rbrakk> \<Longrightarrow> \<exists>r. validate_then a b = Some r"
  by (auto simp: validate_then_def split: sum.splits)

section \<open>What the checks see\<close>

lemma check_record_sees:
  assumes sees: "reader_sees (domain_reader rd) T" and ok: "job_ok j" and check: "check_record rd () (k, j) = Inr ()"
  shows "job_entry_ok T k j"
proof -
  note seen = reader_seesD [OF sees]
  obtain l where "k = job_id j" "t_requests T (RequestValue (request j)) = Some (request_admission_from_job j)"
      "t_attempts T (attempt_key (discussion_thread_id j) (attempt_ordinal j)) = Some (job_id j)"
      "t_latest T (discussion_thread_id j) = Some l" "\<not> la_attempt_ordinal l < attempt_ordinal j"
      "\<not> (la_attempt_ordinal l = attempt_ordinal j \<and> la_job_id l \<noteq> job_id j)"
      "t_live T (job_id j) = (if is_live (lifecycle j) then Some j else None)"
      "is_live (lifecycle j) \<longrightarrow> la_job_id l = job_id j"
    using check job_ok_request [OF ok]
    by (auto simp: check_record_def invariant_def Let_def and_then_eq_Inr dest!: seen
        split: if_splits option.splits)
  then show ?thesis by (auto simp: job_entry_ok_def latest_covers_def)
qed

lemma check_live_sees:
  assumes "reader_sees (domain_reader rd) T" and "check_live rd () (k, j) = Inr ()"
  shows "t_jobs T k = Some j"
  using assms by (auto simp: check_live_def invariant_def Let_def and_then_eq_Inr dest: reader_seesD(1)
      split: if_splits)

lemma validate_required_job_sees:
  "\<lbrakk>reader_sees (domain_reader rd) T; validate_required_job rd k = Inr j\<rbrakk> \<Longrightarrow> t_jobs T k = Some j"
  by (auto simp: validate_required_job_def and_then_eq_Inr dest: reader_seesD(1))

lemma check_request_sees:
  assumes "reader_sees (domain_reader rd) T" and "check_request rd () (q, a) = Inr ()"
  shows "request_entry_ok T q a"
  using assms by (auto simp: check_request_def invariant_def and_then_eq_Inr request_entry_ok_def
      dest!: validate_required_job_sees split: if_splits RequestIndexKey.splits)

lemma check_latest_sees:
  assumes sees: "reader_sees (domain_reader rd) T" and keys: "\<And>k j. t_jobs T k = Some j \<Longrightarrow> job_id j = k"
    and check: "check_latest rd () (t, l) = Inr ()"
  shows "latest_entry_ok T t l"
proof -
  obtain j where j: "validate_required_job rd (la_job_id l) = Inr j" "discussion_thread_id j = t"
      "attempt_ordinal j = la_attempt_ordinal l"
    using check by (auto simp: check_latest_def invariant_def Let_def and_then_eq_Inr split: if_splits)
  note stored = validate_required_job_sees [OF sees j(1)]
  with j keys [OF stored] show ?thesis by (simp add: latest_entry_ok_def latest_from_job_def)
qed

lemma attempt_key_collapse [simp]: "attempt_key (dk_discussion_thread_id d) (dk_attempt_ordinal d) = d"
  by (simp add: attempt_key_def)

lemma check_attempt_sees:
  assumes sees: "reader_sees (domain_reader rd) T" and check: "check_attempt rd prev (d, k) = Inr nxt"
    and prev: "\<And>p. prev = Some p \<Longrightarrow> \<exists>i. t_jobs T i = Some p \<and>
      t_attempts T (attempt_key (discussion_thread_id p) (attempt_ordinal p)) = Some i"
  shows "\<exists>j. nxt = Some j \<and> t_jobs T k = Some j \<and> d = attempt_key (discussion_thread_id j) (attempt_ordinal j) \<and>
    attempt_follows T d"
proof -
  obtain j where j: "validate_required_job rd k = Inr j" "nxt = Some j"
      "discussion_thread_id j = dk_discussion_thread_id d" "attempt_ordinal j = dk_attempt_ordinal d"
    and follows: "attempt_ordinal j = attempt_ordinal_first \<or> (\<exists>p. prev = Some p \<and>
      discussion_thread_id p = discussion_thread_id j \<and> lifecycle p = Lc_TerminalFailed \<and>
      attempt_ordinal_checked_next (attempt_ordinal p) = Inr (attempt_ordinal j))"
    using check by (auto simp: check_attempt_def invariant_def and_then_eq_Inr split: if_splits option.splits)
  have "attempt_follows T d"
    using follows prev j(3,4) by (fastforce simp: attempt_follows_def)
  with j validate_required_job_sees [OF sees j(1)] show ?thesis by simp
qed

lemma attempts_fold_sees:
  assumes sees: "reader_sees (domain_reader rd) T"
    and fold: "try_fold (check_attempt rd) xs prev = Inr final"
    and xs: "\<forall>x\<in>set xs. t_attempts T (fst x) = Some (snd x)"
    and prev: "\<And>p. prev = Some p \<Longrightarrow> \<exists>i. t_jobs T i = Some p \<and>
      t_attempts T (attempt_key (discussion_thread_id p) (attempt_ordinal p)) = Some i"
  shows "\<forall>x\<in>set xs. attempt_entry_ok T (fst x) (snd x)"
  using fold xs prev
proof (induction xs arbitrary: prev)
  case (Cons x xs)
  then obtain nxt where nxt: "check_attempt rd prev (fst x, snd x) = Inr nxt"
      "try_fold (check_attempt rd) xs nxt = Inr final"
    by (auto simp: and_then_eq_Inr)
  note head = check_attempt_sees [OF sees nxt(1) Cons.prems(3)]
  then have "attempt_entry_ok T (fst x) (snd x)" by (auto simp: attempt_entry_ok_def)
  moreover have "\<forall>x\<in>set xs. attempt_entry_ok T (fst x) (snd x)"
    by (rule Cons.IH [OF nxt(2)]) (use head Cons.prems(2) in auto)
  ultimately show ?case by simp
qed simp

section \<open>The validator returns, and what it accepts satisfies the invariant\<close>

lemma validation_limits_sel [simp]: "max_items validation_limits = 64" "max_bytes validation_limits = 8388608"
  by (simp_all add: validation_limits_def VALIDATION_PAGE_ITEMS_def VALIDATION_PAGE_BYTES_def)

lemma request_table_range:
  assumes "jobs_rep m T"
  shows "\<forall>q\<in>dom (t_requests T). encode_request_key Lower \<le> encode_request_key q \<and>
    encode_request_key q \<le> encode_request_key Upper"
proof
  fix q assume "q \<in> dom (t_requests T)"
  then obtain a where "t_requests T q = Some a" by blast
  then have "request_key_ok q" using table_rep_ok [OF jobs_repD(3) [OF assms]] by blast
  then show "encode_request_key Lower \<le> encode_request_key q \<and> encode_request_key q \<le> encode_request_key Upper"
    by (rule request_keys_in_range)
qed

lemma validate_scans:
  fixes rd :: "'io DomainReader"
  assumes sn: "snapshot_of (rd_snapshot rd) m" and fam: "rd_families rd = job_families" and rep: "jobs_rep m T"
  shows "\<exists>r. validate_records rd = Some r \<and>
      (r = Inr () \<longrightarrow> (\<forall>k j. t_jobs T k = Some j \<longrightarrow> check_record rd () (k, j) = Inr ()))"
    and "\<exists>r. validate_live_index rd = Some r \<and>
      (r = Inr () \<longrightarrow> (\<forall>k j. t_live T k = Some j \<longrightarrow> check_live rd () (k, j) = Inr ()))"
    and "\<exists>r. validate_requests rd = Some r \<and>
      (r = Inr () \<longrightarrow> (\<forall>q a. t_requests T q = Some a \<longrightarrow> check_request rd () (q, a) = Inr ()))"
    and "\<exists>r. validate_latest_index rd = Some r \<and>
      (r = Inr () \<longrightarrow> (\<forall>t l. t_latest T t = Some l \<longrightarrow> check_latest rd () (t, l) = Inr ()))"
proof -
  note served = job_families_serve [folded fam] and tables = jobs_repD [OF rep]
  show "\<exists>r. validate_records rd = Some r \<and>
      (r = Inr () \<longrightarrow> (\<forall>k j. t_jobs T k = Some j \<longrightarrow> check_record rd () (k, j) = Inr ()))"
    unfolding validate_records_def job_range_eq
    by (rule tf_job.unit_scan [OF sn served(1) tables(1) _ _ refl]) (use arr16_range in simp_all)
  show "\<exists>r. validate_live_index rd = Some r \<and>
      (r = Inr () \<longrightarrow> (\<forall>k j. t_live T k = Some j \<longrightarrow> check_live rd () (k, j) = Inr ()))"
    unfolding validate_live_index_def job_range_eq
    by (rule tf_live.unit_scan [OF sn served(2) tables(2) _ _ refl]) (use arr16_range in simp_all)
  show "\<exists>r. validate_requests rd = Some r \<and>
      (r = Inr () \<longrightarrow> (\<forall>q a. t_requests T q = Some a \<longrightarrow> check_request rd () (q, a) = Inr ()))"
    unfolding validate_requests_def request_range_eq
    by (rule tf_request.unit_scan [OF sn served(3) tables(3) _ request_table_range [OF rep] refl]) simp
  show "\<exists>r. validate_latest_index rd = Some r \<and>
      (r = Inr () \<longrightarrow> (\<forall>t l. t_latest T t = Some l \<longrightarrow> check_latest rd () (t, l) = Inr ()))"
    unfolding validate_latest_index_def thread_range_eq
    by (rule tf_latest.unit_scan [OF sn served(5) tables(5) _ _ refl]) (use arr16_range in simp_all)
qed

lemma attempt_entries:
  fixes rd :: "'io DomainReader"
  assumes sn: "snapshot_of (rd_snapshot rd) m" and rep: "jobs_rep m T"
  obtains xs where "entries_in encode_attempt_key (t_attempts T) (\<lambda>_. True) xs"
  using tf_attempt.all_entries [OF sn jobs_repD(4) [OF rep], of least_attempt greatest_attempt]
    attempt_keys_in_range by blast

lemma validate_attempt_order_scans:
  fixes rd :: "'io DomainReader"
  assumes sn: "snapshot_of (rd_snapshot rd) m" and fam: "rd_families rd = job_families" and rep: "jobs_rep m T"
  shows "\<exists>r. validate_attempt_order rd = Some r \<and>
    (r = Inr () \<longrightarrow> (\<forall>d k. t_attempts T d = Some k \<longrightarrow> attempt_entry_ok T d k))"
proof -
  obtain xs where xs: "entries_in encode_attempt_key (t_attempts T) (\<lambda>_. True) xs"
    by (rule attempt_entries [OF sn rep])
  have "\<exists>res. validate_attempt_order rd = Some res \<and>
      (\<forall>r. res = Inr r \<longrightarrow> and_then (try_fold (check_attempt rd) xs None) (finish_attempts rd) = Inr r)"
    unfolding validate_attempt_order_def attempt_range_eq
    using tf_attempt.page_loop_scans [OF sn job_families_serve(4) [folded fam] jobs_repD(4) [OF rep] _ _ refl,
        where limits = validation_limits and lo = least_attempt and up = greatest_attempt and seen = "[]"
        and rest = xs and lift = ValRead and body = "check_attempt rd" and finish = "finish_attempts rd"
        and st = None] xs attempt_keys_in_range
    by (simp add: last_key_def)
  moreover have "attempt_entry_ok T d k"
    if "try_fold (check_attempt rd) xs None = Inr p" "t_attempts T d = Some k" for p d k
  proof -
    have "(d, k) \<in> set xs" using xs that(2) by (simp add: entries_in_def)
    then show ?thesis
      using attempts_fold_sees [OF domain_reader_sees [OF sn fam rep] that(1)] entries_in_mem [OF xs] by fastforce
  qed
  ultimately show ?thesis by (auto simp: and_then_eq_Inr)
qed

text \<open>Every scan returns, whatever the keyspaces hold.\<close>

lemma validate_returns:
  fixes rd :: "'io DomainReader"
  assumes sn: "snapshot_of (rd_snapshot rd) m" and fam: "rd_families rd = job_families"
  shows "\<exists>r. validate rd = Some r"
proof -
  note served = job_families_serve [folded fam]
  have "\<exists>r. validate_records rd = Some r" unfolding validate_records_def job_range_eq
    by (rule tf_job.page_loop_returns [OF sn served(1) refl])
  moreover have "\<exists>r. validate_live_index rd = Some r" unfolding validate_live_index_def job_range_eq
    by (rule tf_live.page_loop_returns [OF sn served(2) refl])
  moreover have "\<exists>r. validate_requests rd = Some r" unfolding validate_requests_def request_range_eq
    by (rule tf_request.page_loop_returns [OF sn served(3) refl])
  moreover have "\<exists>r. validate_attempt_order rd = Some r" unfolding validate_attempt_order_def attempt_range_eq
    by (rule tf_attempt.page_loop_returns [OF sn served(4) refl])
  moreover have "\<exists>r. validate_latest_index rd = Some r" unfolding validate_latest_index_def thread_range_eq
    by (rule tf_latest.page_loop_returns [OF sn served(5) refl])
  ultimately show ?thesis unfolding validate_def by (intro validate_then_returns)
qed

lemma validate_sound:
  assumes sn: "snapshot_of (rd_snapshot rd) m" and fam: "rd_families rd = job_families" and rep: "jobs_rep m T"
    and ok: "validate rd = Some (Inr ())"
  shows "job_inv T"
proof -
  note sees = domain_reader_sees [OF sn fam rep] and scans = validate_scans [OF sn fam rep]
  have accepted: "validate_records rd = Some (Inr ())" "validate_live_index rd = Some (Inr ())"
      "validate_requests rd = Some (Inr ())" "validate_attempt_order rd = Some (Inr ())"
      "validate_latest_index rd = Some (Inr ())"
    using ok by (simp_all add: validate_def validate_then_eq_Some)
  have jobs: "job_ok j \<and> job_entry_ok T k j" if "t_jobs T k = Some j" for k j
    using that scans(1) accepted(1) table_rep_ok [OF jobs_repD(1) [OF rep]] check_record_sees [OF sees] by auto
  then have keys: "job_id j = k" if "t_jobs T k = Some j" for k j
    using that by (auto simp: job_entry_ok_def)
  show ?thesis
    unfolding job_inv_def
    using jobs scans(2-4) accepted check_live_sees [OF sees] check_request_sees [OF sees]
      check_latest_sees [OF sees keys] validate_attempt_order_scans [OF sn fam rep]
    by auto
qed

text \<open>On bytes of any kind, acceptance means that what the scans reach is a store of jobs.\<close>

definition job_keys_within :: "contents \<Rightarrow> bool" where
  "job_keys_within m \<longleftrightarrow>
     (\<forall>ks\<in>{ks_jobs, ks_live, ks_latest}. keys_within m ks (arr16_bytes (arr16_fill 0)) (arr16_bytes (arr16_fill 255))) \<and>
     keys_within m ks_requests (encode_request_key Lower) (encode_request_key Upper) \<and>
     keys_within m ks_attempts (encode_attempt_key least_attempt) (encode_attempt_key greatest_attempt)"

lemma validate_decodes:
  fixes rd :: "'io DomainReader"
  assumes sn: "snapshot_of (rd_snapshot rd) m" and fam: "rd_families rd = job_families"
    and ok: "validate rd = Some (Inr ())" and keys: "job_keys_within m"
  shows "\<exists>T. jobs_rep m T"
proof -
  note served = job_families_serve [folded fam]
  have accepted: "validate_records rd = Some (Inr ())" "validate_live_index rd = Some (Inr ())"
      "validate_requests rd = Some (Inr ())" "validate_attempt_order rd = Some (Inr ())"
      "validate_latest_index rd = Some (Inr ())"
    using ok by (simp_all add: validate_def validate_then_eq_Some)
  obtain jobs where "table_rep job_record_codec arr16_bytes encode_job_record (\<lambda>_. True) job_ok m ks_jobs jobs"
    using tf_job.scan_table [OF sn served(1) refl accepted(1) [unfolded validate_records_def job_range_eq]] keys
    by (auto simp: job_keys_within_def)
  moreover obtain live where "table_rep live_job_codec arr16_bytes encode_job_record (\<lambda>_. True) job_ok m ks_live live"
    using tf_live.scan_table [OF sn served(2) refl accepted(2) [unfolded validate_live_index_def job_range_eq]] keys
    by (auto simp: job_keys_within_def)
  moreover obtain requests where "table_rep request_codec encode_request_key encode_request_admission request_key_ok
      request_admission_ok m ks_requests requests"
    using tf_request.scan_table [OF sn served(3) refl accepted(3) [unfolded validate_requests_def request_range_eq]] keys
    by (auto simp: job_keys_within_def)
  moreover obtain attempts where "table_rep attempt_codec encode_attempt_key arr16_bytes (\<lambda>_. True) (\<lambda>_. True) m ks_attempts attempts"
    using tf_attempt.scan_table [OF sn served(4) refl accepted(4) [unfolded validate_attempt_order_def attempt_range_eq]] keys
    by (auto simp: job_keys_within_def)
  moreover obtain latest where "table_rep latest_codec arr16_bytes encode_latest (\<lambda>_. True) (\<lambda>_. True) m ks_latest latest"
    using tf_latest.scan_table [OF sn served(5) refl accepted(5) [unfolded validate_latest_index_def thread_range_eq]] keys
    by (auto simp: job_keys_within_def)
  ultimately show ?thesis
    by (intro exI [of _ "\<lparr>t_jobs = jobs, t_live = live, t_requests = requests, t_attempts = attempts, t_latest = latest\<rparr>"])
      (simp add: jobs_rep_def)
qed

section \<open>The validator accepts what satisfies the invariant\<close>

lemma reader_total_validate:
  assumes "reader_total rd T"
  shows "request_ok q \<Longrightarrow> jr_request rd (RequestValue q) validate_small_limit = Inr (t_requests T (RequestValue q))"
    and "jr_attempt rd d validate_small_limit = Inr (t_attempts T d)"
    and "jr_latest rd t validate_small_limit = Inr (t_latest T t)"
  using assms by (simp_all add: reader_total_def validate_small_limit_def request_point_limit_def
      REQUEST_IDEMPOTENCY_RECORD_LIMIT_def small_point_limit_def)

lemmas validator_reads = reader_totalD(1,2) reader_total_validate

lemma validate_required_job_total:
  "\<lbrakk>reader_total (domain_reader rd) T; t_jobs T k = Some j\<rbrakk> \<Longrightarrow> validate_required_job rd k = Inr j"
  by (simp add: validate_required_job_def reader_totalD)

lemma check_record_total:
  assumes rd: "reader_total (domain_reader rd) T" and inv: "job_inv T" and j: "t_jobs T k = Some j"
  shows "check_record rd () (k, j) = Inr ()"
proof -
  note entry = job_invD(1) [OF inv j]
  then obtain l where "t_latest T (discussion_thread_id j) = Some l" "attempt_ordinal j \<le> la_attempt_ordinal l"
      "attempt_ordinal j = la_attempt_ordinal l \<longrightarrow> la_job_id l = job_id j"
      "is_live (lifecycle j) \<longrightarrow> la_job_id l = job_id j"
    by (auto simp: job_entry_ok_def latest_covers_def)
  with entry job_ok_request [of j] show ?thesis
    by (auto simp: check_record_def Let_def validator_reads [OF rd] job_entry_ok_def)
qed

lemma check_live_total:
  assumes rd: "reader_total (domain_reader rd) T" and inv: "job_inv T" and j: "t_live T k = Some j"
  shows "check_live rd () (k, j) = Inr ()"
proof -
  note stored = job_invD(2) [OF inv j]
  with job_invD(1) [OF inv stored] j show ?thesis
    by (auto simp: check_live_def Let_def validator_reads [OF rd] job_entry_ok_def split: if_splits)
qed

lemma check_request_total:
  assumes rd: "reader_total (domain_reader rd) T" and inv: "job_inv T" and a: "t_requests T q = Some a"
  shows "check_request rd () (q, a) = Inr ()"
  using job_invD(3) [OF inv a] validate_required_job_total [OF rd]
  by (auto simp: check_request_def request_entry_ok_def)

lemma check_latest_total:
  assumes rd: "reader_total (domain_reader rd) T" and inv: "job_inv T" and l: "t_latest T t = Some l"
  shows "check_latest rd () (t, l) = Inr ()"
proof -
  obtain j where j: "t_jobs T (la_job_id l) = Some j" "discussion_thread_id j = t" "latest_from_job j = l"
    using job_invD(5) [OF inv l] by (auto simp: latest_entry_ok_def)
  then have "la_attempt_ordinal l = attempt_ordinal j" by (auto simp: latest_from_job_def)
  with job_invD(1) [OF inv j(1)] j show ?thesis
    by (simp add: check_latest_def Let_def validate_required_job_total [OF rd] validator_reads [OF rd]
        job_entry_ok_def)
qed

text \<open>The last attempt of a discussion is the one its latest-attempt entry names.\<close>

lemma ensure_latest_total:
  assumes rd: "reader_total (domain_reader rd) T" and inv: "job_inv T" and p: "t_jobs T k = Some p"
    and last: "\<And>n i. t_attempts T (attempt_key (discussion_thread_id p) n) = Some i \<Longrightarrow> n \<le> attempt_ordinal p"
  shows "ensure_latest rd p = Inr ()"
proof -
  note entry = job_invD(1) [OF inv p]
  then obtain l where l: "t_latest T (discussion_thread_id p) = Some l" "attempt_ordinal p \<le> la_attempt_ordinal l"
      "attempt_ordinal p = la_attempt_ordinal l \<longrightarrow> la_job_id l = job_id p"
    by (auto simp: job_entry_ok_def latest_covers_def)
  obtain j where j: "t_jobs T (la_job_id l) = Some j" "discussion_thread_id j = discussion_thread_id p"
      "latest_from_job j = l"
    using job_invD(5) [OF inv l(1)] by (auto simp: latest_entry_ok_def)
  have "attempt_ordinal j \<le> attempt_ordinal p"
    using job_invD(1) [OF inv j(1)] j(2) last by (auto simp: job_entry_ok_def)
  then have "attempt_ordinal p = la_attempt_ordinal l" using j(3) l(2) by (auto simp: latest_from_job_def)
  then have "l = latest_from_job p" using l(3) j(3) by (auto simp: latest_from_job_def)
  with l(1) show ?thesis by (simp add: ensure_latest_def validator_reads [OF rd])
qed

text \<open>The entries of the attempt index around a position of the scan.\<close>

lemma attempts_before:
  assumes xs: "entries_in encode_attempt_key A (\<lambda>_. True) (seen @ (d, k) # rest)"
    and e: "A e = Some i" "encode_attempt_key e < encode_attempt_key d"
  shows "seen \<noteq> [] \<and> encode_attempt_key e \<le> encode_attempt_key (fst (last seen))"
proof -
  have sorted: "sorted_wrt (\<lambda>a b. encode_attempt_key (fst a) < encode_attempt_key (fst b)) (seen @ (d, k) # rest)"
    using xs by (simp add: entries_in_def)
  have "(e, i) \<in> set (seen @ (d, k) # rest)" using xs e(1) by (simp add: entries_in_def)
  then have mem: "(e, i) \<in> set seen" using sorted e(2) by (auto simp: sorted_wrt_append)
  then obtain init where init: "seen = init @ [last seen]" by (metis append_butlast_last_id empty_iff empty_set)
  have "(e, i) \<in> set init \<or> e = fst (last seen)"
    using mem init by (metis Un_iff empty_iff fst_conv insert_iff list.set set_append)
  moreover have "sorted_wrt (\<lambda>a b. encode_attempt_key (fst a) < encode_attempt_key (fst b)) (init @ [last seen])"
    using sorted init by (metis sorted_wrt_append)
  ultimately show ?thesis using mem by (auto simp: sorted_wrt_append)
qed

lemma attempt_last_seen:
  assumes inv: "job_inv T" and xs: "entries_in encode_attempt_key (t_attempts T) (\<lambda>_. True) (seen @ rest)"
    and seen: "seen \<noteq> []"
  obtains p where "t_jobs T (snd (last seen)) = Some p"
    and "fst (last seen) = attempt_key (discussion_thread_id p) (attempt_ordinal p)"
    and "t_attempts T (fst (last seen)) = Some (snd (last seen))"
proof -
  have "last seen \<in> set (seen @ rest)" using seen by simp
  then have "t_attempts T (fst (last seen)) = Some (snd (last seen))" using entries_in_mem [OF xs] by blast
  with job_invD(4) [OF inv this] that show thesis by (auto simp: attempt_entry_ok_def)
qed

lemma final_attempt_latest:
  assumes rd: "reader_total (domain_reader rd) T" and inv: "job_inv T"
    and p: "t_jobs T k = Some p"
    and above: "\<And>n i. \<lbrakk>t_attempts T (attempt_key (discussion_thread_id p) n) = Some i; attempt_ordinal p < n\<rbrakk> \<Longrightarrow> False"
  shows "ensure_latest rd p = Inr ()"
  by (rule ensure_latest_total [OF rd inv p]) (use above in \<open>force simp: not_less [symmetric]\<close>)

lemma attempt_follows_first:
  "\<lbrakk>attempt_follows T (attempt_key t n); \<And>m i. \<lbrakk>m < n; t_attempts T (attempt_key t m) = Some i\<rbrakk> \<Longrightarrow> False\<rbrakk> \<Longrightarrow>
     n = attempt_ordinal_first"
  by (auto simp: attempt_follows_def dest: attempt_ordinal_next_less)

lemma ordinal_between:
  "\<lbrakk>attempt_ordinal_checked_next n = Inr m; n \<le> p; p < m\<rbrakk> \<Longrightarrow> p = n"
  by (simp add: result_simps less_nonzero_u64_def less_eq_nonzero_u64_def word_less_nat_alt word_le_nat_alt
      flip: nz_get_eq_iff) (simp add: word_unat_eq_iff)

lemma check_attempt_total:
  assumes rd: "reader_total (domain_reader rd) T" and inv: "job_inv T"
    and xs: "entries_in encode_attempt_key (t_attempts T) (\<lambda>_. True) (seen @ (d, k) # rest)"
  shows "check_attempt rd (if seen = [] then None else t_jobs T (snd (last seen))) (d, k) = Inr (t_jobs T k)"
proof -
  have "t_attempts T d = Some k" using entries_in_mem [OF xs, of "(d, k)"] by simp
  then obtain j where j: "t_jobs T k = Some j" "d = attempt_key (discussion_thread_id j) (attempt_ordinal j)"
    and follows: "attempt_follows T d"
    using job_invD(4) [OF inv] by (auto simp: attempt_entry_ok_def)
  note before = attempts_before [OF xs]
  show ?thesis
  proof (cases "seen = []")
    case True
    have "attempt_ordinal j = attempt_ordinal_first"
      using attempt_follows_first [OF follows [unfolded j(2)]] before True j(2)
      by (fastforce simp: encode_attempt_key_less)
    with True j show ?thesis by (simp add: check_attempt_def validate_required_job_total [OF rd])
  next
    case False
    then obtain p where p: "t_jobs T (snd (last seen)) = Some p"
        "fst (last seen) = attempt_key (discussion_thread_id p) (attempt_ordinal p)"
        "t_attempts T (fst (last seen)) = Some (snd (last seen))"
      using attempt_last_seen [OF inv xs] by blast
    have order: "encode_attempt_key (fst (last seen)) < encode_attempt_key d"
      using xs False by (simp add: entries_in_def sorted_wrt_append)
    show ?thesis
    proof (cases "discussion_thread_id p = discussion_thread_id j")
      case True
      have less: "attempt_ordinal p < attempt_ordinal j"
        using order p(2) j(2) True by (simp add: encode_attempt_key_less)
      then have "attempt_ordinal j \<noteq> attempt_ordinal_first"
        using nz_least [of "attempt_ordinal p"] by (auto simp: attempt_ordinal_first_def)
      then obtain n i q where n: "attempt_ordinal_checked_next n = Inr (attempt_ordinal j)"
          "t_attempts T (attempt_key (discussion_thread_id j) n) = Some i" "t_jobs T i = Some q"
          "lifecycle q = Lc_TerminalFailed"
        using follows j(2) by (auto simp: attempt_follows_def)
      have "n \<le> attempt_ordinal p"
        using before [OF n(2)] attempt_ordinal_next_less [OF n(1)] p(2) j(2) True
        by (auto simp: encode_attempt_key_less not_less [symmetric])
      then have "attempt_ordinal p = n" by (rule ordinal_between [OF n(1) _ less])
      then have "p = q" using p n True by simp
      with n True False p(1) j \<open>attempt_ordinal p = n\<close> show ?thesis
        by (simp add: check_attempt_def validate_required_job_total [OF rd])
    next
      case differ: False
      then have less: "discussion_thread_id p < discussion_thread_id j"
        using order p(2) j(2) by (simp add: encode_attempt_key_less)
      have "ensure_latest rd p = Inr ()"
        by (rule final_attempt_latest [OF rd inv p(1)])
          (use before p(2) j(2) less in \<open>fastforce simp: encode_attempt_key_less not_less [symmetric]\<close>)
      moreover have "attempt_ordinal j = attempt_ordinal_first"
        by (rule attempt_follows_first [OF follows [unfolded j(2)]])
          (use before p(2) j(2) less in \<open>fastforce simp: encode_attempt_key_less not_less [symmetric]\<close>)
      ultimately show ?thesis using differ False p(1) j
        by (simp add: check_attempt_def validate_required_job_total [OF rd])
    qed
  qed
qed

lemma attempts_fold_total:
  assumes rd: "reader_total (domain_reader rd) T" and inv: "job_inv T"
    and xs: "entries_in encode_attempt_key (t_attempts T) (\<lambda>_. True) (seen @ rest)"
  shows "try_fold (check_attempt rd) rest (if seen = [] then None else t_jobs T (snd (last seen))) =
    Inr (if seen @ rest = [] then None else t_jobs T (snd (last (seen @ rest))))"
  using xs
proof (induction rest arbitrary: seen)
  case (Cons x rest)
  have "check_attempt rd (if seen = [] then None else t_jobs T (snd (last seen))) x = Inr (t_jobs T (snd x))"
    using check_attempt_total [OF rd inv, of seen "fst x" "snd x" rest] Cons.prems by simp
  with Cons.IH [of "seen @ [x]"] Cons.prems show ?case by simp
qed simp

lemma finish_attempts_total:
  assumes rd: "reader_total (domain_reader rd) T" and inv: "job_inv T"
    and xs: "entries_in encode_attempt_key (t_attempts T) (\<lambda>_. True) xs"
  shows "finish_attempts rd (if xs = [] then None else t_jobs T (snd (last xs))) = Inr ()"
proof (cases xs rule: rev_cases)
  case (snoc init x)
  obtain p where p: "t_jobs T (snd x) = Some p" "fst x = attempt_key (discussion_thread_id p) (attempt_ordinal p)"
    using attempt_last_seen [OF inv, of xs "[]"] xs snoc by auto
  have sorted: "encode_attempt_key (fst y) < encode_attempt_key (fst x)" if "y \<in> set init" for y
    using xs that by (simp add: snoc entries_in_def sorted_wrt_append)
  have "ensure_latest rd p = Inr ()"
  proof (rule final_attempt_latest [OF rd inv p(1)])
    fix n i assume n: "t_attempts T (attempt_key (discussion_thread_id p) n) = Some i" "attempt_ordinal p < n"
    have "(attempt_key (discussion_thread_id p) n, i) \<in> set xs" using xs n(1) by (simp add: entries_in_def)
    then have "(attempt_key (discussion_thread_id p) n, i) \<in> set init"
      using n(2) p(2) by (cases x) (auto simp: snoc)
    from sorted [OF this] p(2) n(2) show False by (simp add: encode_attempt_key_less)
  qed
  with p(1) snoc show ?thesis by (simp add: finish_attempts_def)
qed (simp add: finish_attempts_def)

lemma validate_scans_complete:
  fixes rd :: "'io DomainReader"
  assumes sn: "snapshot_reliable (rd_snapshot rd) m" and fam: "rd_families rd = job_families"
    and rep: "jobs_rep m T" and inv: "job_inv T"
  shows "validate_records rd = Some (Inr ())" and "validate_live_index rd = Some (Inr ())"
    and "validate_requests rd = Some (Inr ())" and "validate_latest_index rd = Some (Inr ())"
proof -
  note served = job_families_serve [folded fam] and tables = jobs_repD [OF rep]
    and rd = domain_reader_total [OF sn fam rep]
  have usize: "2 * max_bytes validation_limits \<le> usize_max" by (simp add: usize_max_def)
  show "validate_records rd = Some (Inr ())"
    unfolding validate_records_def job_range_eq
    by (rule tf_job.unit_scan_complete [OF sn served(1) tables(1) _ _ _ _ _ _ _ _ usize refl])
      (use arr16_range replicate_least [of "replicate 16 255" 16] check_record_total [OF rd inv] in
        \<open>simp_all add: job_record_codec_def BRANCH_HANDOFF_JOB_RECORD_LIMIT_def\<close>)
  show "validate_live_index rd = Some (Inr ())"
    unfolding validate_live_index_def job_range_eq
    by (rule tf_live.unit_scan_complete [OF sn served(2) tables(2) _ _ _ _ _ _ _ _ usize refl])
      (use arr16_range replicate_least [of "replicate 16 255" 16] check_live_total [OF rd inv] in
        \<open>simp_all add: live_job_codec_def BRANCH_HANDOFF_JOB_RECORD_LIMIT_def\<close>)
  show "validate_requests rd = Some (Inr ())"
    unfolding validate_requests_def request_range_eq
    by (rule tf_request.unit_scan_complete [OF sn served(3) tables(3) _ request_table_range [OF rep]
          _ _ _ _ _ _ usize refl])
      (use check_request_total [OF rd inv] in \<open>simp_all add: request_codec_def encode_request_key_def enc_u8_def
          REQUEST_IDEMPOTENCY_RECORD_LIMIT_def\<close>)
  show "validate_latest_index rd = Some (Inr ())"
    unfolding validate_latest_index_def thread_range_eq
    by (rule tf_latest.unit_scan_complete [OF sn served(5) tables(5) _ _ _ _ _ _ _ _ usize refl])
      (use arr16_range replicate_least [of "replicate 16 255" 16] check_latest_total [OF rd inv] in \<open>simp_all add: latest_codec_def\<close>)
qed

lemma validate_attempt_order_complete:
  fixes rd :: "'io DomainReader"
  assumes sn: "snapshot_reliable (rd_snapshot rd) m" and fam: "rd_families rd = job_families"
    and rep: "jobs_rep m T" and inv: "job_inv T"
  shows "validate_attempt_order rd = Some (Inr ())"
proof -
  obtain xs where xs: "entries_in encode_attempt_key (t_attempts T) (\<lambda>_. True) xs"
    by (rule attempt_entries [OF snapshot_reliable_of [OF sn] rep])
  note rd = domain_reader_total [OF sn fam rep]
  have "validate_attempt_order rd = Some (and_then (try_fold (check_attempt rd) xs None) (finish_attempts rd))"
    unfolding validate_attempt_order_def attempt_range_eq
    using tf_attempt.page_loop_complete [OF sn job_families_serve(4) [folded fam] jobs_repD(4) [OF rep]
        _ _ _ _ _ _ _ _ _ refl, where limits = validation_limits and lo = least_attempt and up = greatest_attempt
        and seen = "[]" and rest = xs and lift = ValRead and body = "check_attempt rd"
        and finish = "finish_attempts rd" and st = None] xs attempt_keys_in_range
    by (simp add: last_key_def attempt_codec_def usize_max_def)
  then show ?thesis
    using attempts_fold_total [OF rd inv, of "[]" xs] finish_attempts_total [OF rd inv xs] xs by (cases xs) simp_all
qed

lemma validate_complete:
  assumes "snapshot_reliable (rd_snapshot rd) m" and "rd_families rd = job_families" and "jobs_rep m T" and "job_inv T"
  shows "validate rd = Some (Inr ())"
  using validate_scans_complete [OF assms] validate_attempt_order_complete [OF assms]
  by (simp add: validate_def validate_then_eq_Some)

end
