(* ===== verification/Job_Reads.thy ===== *)
theory Job_Reads
  imports Job_Validate
begin

text \<open>
  Typed reads of the durable-job domain: the listing of live jobs (\<^verbatim>\<open>durable_job/read.rs\<close>) and
  the guard that lets a discussion thread be reused (\<^verbatim>\<open>durable_job/acquisition.rs\<close>).
\<close>

section \<open>Live jobs\<close>

datatype 'io DurableJobReadError =
    JobRead "('io, CodecError) ReadError"
  | InvalidLiveEntry JobId

definition live_range :: "JobId option \<Rightarrow> JobId CursorRange" where
  "live_range after =
     (let start = (case after of Some k \<Rightarrow> k | None \<Rightarrow> arr16_fill 0); end = arr16_fill 255
      in if after \<noteq> None then range_after start end else range_closed start end)"

fun live_records :: "(JobId \<times> BranchHandoffJobRecord) list \<Rightarrow> 'io DurableJobReadError + BranchHandoffJobRecord list" where
  "live_records [] = Inr []"
| "live_records ((key, job) # entries) =
     and_then (if key \<noteq> job_id job \<or> \<not> is_live (lifecycle job) then Inl (InvalidLiveEntry key) else Inr job) (\<lambda>job.
     and_then (live_records entries) (\<lambda>jobs. Inr (job # jobs)))"

definition live_page ::
    "(JobId, BranchHandoffJobRecord) CursorPage \<Rightarrow> 'io DurableJobReadError + BranchHandoffJobRecord StatePage" where
  "live_page page =
     and_then (live_records (records page)) (\<lambda>jobs.
       Inr \<lparr>page_records = jobs, page_stored_bytes = stored_bytes page,
            page_decoded_bytes = decoded_bytes page, page_has_more = has_more page\<rparr>)"

definition list_live ::
    "'io DomainReader \<Rightarrow> JobId option \<Rightarrow> CursorReadLimits \<Rightarrow>
     'io DurableJobReadError + BranchHandoffJobRecord StatePage" where
  "list_live rd after limits =
     and_then (map_err JobRead (read_cursor rd live_job_codec (live_range after) Forward limits)) live_page"

section \<open>Reuse of a discussion thread\<close>

record ThreadReuseJobGuard =
  guard_thread_id :: SyndicThreadId
  guard_latest :: "LatestBranchHandoffAttempt option"
  guard_job :: "BranchHandoffJobRecord option"

datatype 'io ThreadReuseJobGuardError =
    GuardRead "('io, CodecError) ReadError"
  | LatestJobMissing SyndicThreadId
  | LatestJobMismatch SyndicThreadId
  | LiveJob SyndicThreadId
  | TerminalJobStillLive SyndicThreadId
  | SourceChanged SyndicThreadId

definition guard_small_limit :: usize where "guard_small_limit = 128"

definition validate_latest ::
    "SyndicThreadId \<Rightarrow> LatestBranchHandoffAttempt \<Rightarrow> BranchHandoffJobRecord \<Rightarrow>
     'io ThreadReuseJobGuardError + unit" where
  "validate_latest thread latest job =
     (if discussion_thread_id job \<noteq> thread \<or> job_id job \<noteq> la_job_id latest \<or>
         attempt_ordinal job \<noteq> la_attempt_ordinal latest
      then Inl (LatestJobMismatch thread) else Inr ())"

text \<open>Each read of the store opens a snapshot of its own: there is one reader for each of the three reads.\<close>

definition thread_reuse_guard ::
    "'io job_reader \<Rightarrow> 'io job_reader \<Rightarrow> 'io job_reader \<Rightarrow> SyndicThreadId \<Rightarrow>
     'io ThreadReuseJobGuardError + ThreadReuseJobGuard option" where
  "thread_reuse_guard r1 r2 r3 thread =
     and_then (map_err GuardRead (jr_latest r1 thread guard_small_limit)) (\<lambda>found.
     case found of
       None \<Rightarrow> Inr (Some \<lparr>guard_thread_id = thread, guard_latest = None, guard_job = None\<rparr>)
     | Some latest \<Rightarrow>
         and_then (map_err GuardRead (jr_job r2 (la_job_id latest) job_point_limit)) (\<lambda>stored.
         and_then (ok_or (LatestJobMissing thread) stored) (\<lambda>job.
         and_then (validate_latest thread latest job) (\<lambda>_.
         if is_live (lifecycle job) then Inr None else
         and_then (map_err GuardRead (jr_live r3 (job_id job) job_point_limit)) (\<lambda>live.
         if live \<noteq> None then Inl (TerminalJobStillLive thread)
         else Inr (Some \<lparr>guard_thread_id = thread, guard_latest = Some latest, guard_job = Some job\<rparr>))))))"

definition guard_validate :: "'io job_reader \<Rightarrow> ThreadReuseJobGuard \<Rightarrow> 'io ThreadReuseJobGuardError + unit" where
  "guard_validate rd guard = (let thread = guard_thread_id guard in
     and_then (map_err GuardRead (jr_latest rd thread guard_small_limit)) (\<lambda>latest.
     if latest \<noteq> guard_latest guard then Inl (SourceChanged thread) else
     case guard_job guard of None \<Rightarrow> Inr () | Some expected \<Rightarrow>
     and_then (map_err GuardRead (jr_job rd (job_id expected) job_point_limit)) (\<lambda>job.
     if job \<noteq> Some expected then Inl (SourceChanged thread) else
     and_then (ok_or (LatestJobMissing thread) (guard_latest guard)) (\<lambda>latest.
     and_then (validate_latest thread latest expected) (\<lambda>_.
     if is_live (lifecycle expected) then Inl (LiveJob thread) else
     and_then (map_err GuardRead (jr_live rd (job_id expected) job_point_limit)) (\<lambda>live.
     if live \<noteq> None then Inl (TerminalJobStillLive thread) else Inr ()))))))"

section \<open>What the reads return\<close>

lemma live_range_eq: "live_range = key_range (arr16_fill 0) (arr16_fill 255)"
  by (auto simp: live_range_def key_range_def Let_def fun_eq_iff split: option.splits)

lemma live_records_total:
  assumes "job_inv T" and "\<forall>x\<in>set xs. t_live T (fst x) = Some (snd x)"
  shows "live_records xs = Inr (map snd xs)"
  using assms(2)
proof (induction xs)
  case (Cons x xs)
  then have "t_live T (fst x) = Some (snd x)" by simp
  note stored = job_invD(2) [OF assms(1) this] and live = this
  have "job_id (snd x) = fst x" "is_live (lifecycle (snd x))"
    using job_invD(1) [OF assms(1) stored] live by (auto simp: job_entry_ok_def split: if_splits)
  with Cons show ?case by (cases x) simp
qed simp

text \<open>The discussion has a live job.\<close>

definition thread_live :: "job_tables \<Rightarrow> SyndicThreadId \<Rightarrow> bool" where
  "thread_live T thread \<longleftrightarrow> (\<exists>k j. t_jobs T k = Some j \<and> discussion_thread_id j = thread \<and> is_live (lifecycle j))"

lemma thread_live_latest:
  assumes inv: "job_inv T"
  shows "thread_live T thread \<longleftrightarrow>
    (\<exists>l j. t_latest T thread = Some l \<and> t_jobs T (la_job_id l) = Some j \<and> is_live (lifecycle j))"
proof
  assume "thread_live T thread"
  then obtain k j where j: "t_jobs T k = Some j" "discussion_thread_id j = thread" "is_live (lifecycle j)"
    by (auto simp: thread_live_def)
  have "job_id j = k" using job_invD(1) [OF inv j(1)] by (simp add: job_entry_ok_def)
  with j live_is_latest [OF inv j(1,3)] show "\<exists>l j. t_latest T thread = Some l \<and> t_jobs T (la_job_id l) = Some j \<and>
      is_live (lifecycle j)" by (auto simp: latest_from_job_def)
next
  assume "\<exists>l j. t_latest T thread = Some l \<and> t_jobs T (la_job_id l) = Some j \<and> is_live (lifecycle j)"
  then show "thread_live T thread"
    using job_invD(5) [OF inv] by (fastforce simp: thread_live_def latest_entry_ok_def)
qed

lemma guard_reads:
  assumes "reader_total rd T"
  shows "jr_latest rd t guard_small_limit = Inr (t_latest T t)"
  using assms by (simp add: reader_total_def guard_small_limit_def small_point_limit_def)

lemma guard_validate_current:
  assumes rd: "reader_total rd T" and inv: "job_inv T"
    and guard: "g = \<lparr>guard_thread_id = thread, guard_latest = t_latest T0 thread,
      guard_job = Option.bind (t_latest T0 thread) (\<lambda>l. t_jobs T0 (la_job_id l))\<rparr>"
    and inv0: "job_inv T0" and free: "\<not> thread_live T0 thread"
  shows "guard_validate rd g = Inr () \<longleftrightarrow> t_latest T thread = t_latest T0 thread \<and>
    (\<forall>l. t_latest T0 thread = Some l \<longrightarrow> t_jobs T (la_job_id l) = t_jobs T0 (la_job_id l))"
proof (cases "t_latest T0 thread")
  case None
  then show ?thesis by (simp add: guard_validate_def guard Let_def guard_reads [OF rd])
next
  case (Some l)
  obtain j where j: "t_jobs T0 (la_job_id l) = Some j" "discussion_thread_id j = thread" "latest_from_job j = l"
    using job_invD(5) [OF inv0 Some] by (auto simp: latest_entry_ok_def)
  have dead: "\<not> is_live (lifecycle j)" using free Some j(1) thread_live_latest [OF inv0] by blast
  have ids: "job_id j = la_job_id l" "attempt_ordinal j = la_attempt_ordinal l"
    using j(3) by (auto simp: latest_from_job_def)
  have "t_live T (la_job_id l) = None" if "t_jobs T (la_job_id l) = Some j"
    using job_invD(1) [OF inv that] dead by (simp add: job_entry_ok_def)
  with Some j ids dead show ?thesis
    by (auto simp: guard_validate_def guard Let_def guard_reads [OF rd] reader_totalD [OF rd] validate_latest_def)
qed

text \<open>A page of live jobs is the next run of the live table after the given identity.\<close>

lemma list_live_sees:
  fixes rd :: "'io DomainReader"
  assumes sn: "snapshot_of (rd_snapshot rd) m" and fam: "rd_families rd = job_families" and rep: "jobs_rep m T"
    and inv: "job_inv T" and items: "0 < max_items limits" and page: "list_live rd after limits = Inr page"
  shows "\<exists>xs zs. entries_in arr16_bytes (t_live T)
      (\<lambda>b. case after of None \<Rightarrow> True | Some k \<Rightarrow> arr16_bytes k < b) (xs @ zs) \<and>
    page_records page = map snd xs \<and> (page_has_more page \<longleftrightarrow> zs \<noteq> []) \<and> (zs \<noteq> [] \<longrightarrow> xs \<noteq> [])"
proof -
  obtain raw where raw: "read_cursor rd live_job_codec (live_range after) Forward limits = Inr raw"
    and live: "live_page raw = (Inr page :: 'io DurableJobReadError + _)"
    using page by (auto simp: list_live_def and_then_eq_Inr)
  obtain xs ys zs where xs: "entries_in arr16_bytes (t_live T)
      (\<lambda>b. above (map_bound arr16_bytes (range_start (live_range after))) b \<and>
        below (map_bound arr16_bytes (range_end (live_range after))) b) xs"
    and split: "xs = ys @ zs" "records raw = ys" "has_more raw \<longleftrightarrow> zs \<noteq> []" "zs \<noteq> [] \<Longrightarrow> ys \<noteq> []"
    by (rule tf_live.read_cursor_table [OF sn job_families_serve(2) [folded fam] jobs_repD(2) [OF rep] items raw]) blast
  have "entries_in arr16_bytes (t_live T) (\<lambda>b. case after of None \<Rightarrow> True | Some k \<Rightarrow> arr16_bytes k < b) xs"
    using xs arr16_range
    by (subst entries_in_cong [where q = "\<lambda>b. above (map_bound arr16_bytes (range_start (live_range after))) b \<and>
        below (map_bound arr16_bytes (range_end (live_range after))) b"])
      (auto simp: live_range_eq key_range_def range_closed_def range_after_def split: option.splits)
  moreover have "\<forall>x\<in>set ys. t_live T (fst x) = Some (snd x)"
    using entries_in_mem [OF xs] split(1) by auto
  then have "live_records ys = (Inr (map snd ys) :: 'io DurableJobReadError + _)" by (rule live_records_total [OF inv])
  ultimately show ?thesis using live split
    by (intro exI [of _ ys] exI [of _ zs]) (auto simp: live_page_def)
qed

lemma admitted_request_answers:
  assumes rd: "reader_total (acc_reader acc) T" and inv: "job_inv T" and q: "request_ok req"
    and rev: "acc_revision_before acc = Inr r" "acc_revision_after acc = Inr r"
  shows "(admitted_request acc req = Inr (Some j) \<longleftrightarrow> (\<exists>k. t_jobs T k = Some j \<and> request j = req)) \<and>
    (admitted_request acc req = Inr None \<longleftrightarrow> (\<forall>k j. t_jobs T k = Some j \<longrightarrow> request j \<noteq> req))"
proof -
  have index: "t_requests T (RequestValue (request j)) = Some (request_admission_from_job j) \<and> ra_job_id (request_admission_from_job j) = k"
    if "t_jobs T k = Some j" for k j
    using job_invD(1) [OF inv that] by (simp add: job_entry_ok_def request_admission_from_job_def)
  note total = admitted_request_total [OF rd inv q rev]
  show ?thesis
  proof (cases "t_requests T (RequestValue req)")
    case None
    have "request j \<noteq> req" if "t_jobs T k = Some j" for k j
    proof
      assume "request j = req"
      with index [OF that] None show False by simp
    qed
    moreover have "admitted_request acc req = Inr None" by (simp add: total None)
    ultimately show ?thesis by (metis option.distinct(1) sum.inject(2))
  next
    case (Some a)
    then obtain i where i: "t_jobs T (ra_job_id a) = Some i" "request i = req"
      using job_invD(3) [OF inv Some] by (auto simp: request_entry_ok_def)
    have only: "j = i" if "t_jobs T k = Some j" "request j = req" for k j
    proof -
      have "ra_job_id a = k" using index [OF that(1)] that(2) Some by simp
      with that(1) i(1) show ?thesis by simp
    qed
    have "admitted_request acc req = Inr (Some i)" by (simp add: total Some i)
    then show ?thesis using i only by (metis option.discI option.inject sum.inject(2))
  qed
qed

end
