(* ===== verification/Job_Runs.thy ===== *)
theory Job_Runs
  imports Job_Reads
begin

text \<open>
  Runs of the durable-job domain: sequences of committed commands on the contents of the
  keyspaces. Every run is a run of the steps of the tables, so what the steps keep holds of every
  store that the commands can produce.
\<close>

section \<open>Committed commands\<close>

inductive store_step :: "'io itself \<Rightarrow> contents \<Rightarrow> contents \<Rightarrow> bool" for io :: "'io itself" where
  commit: "\<lbrakk>snapshot_of (rd_snapshot (rd :: 'io DomainReader)) m; rd_families rd = job_families; command_ok cmd;
     run_command rd cmd = Inr ps\<rbrakk> \<Longrightarrow> store_step io m (apply_pending job_families m ps)"

lemma jobs_rep_empty: "jobs_rep empty_contents empty_tables"
  by (simp add: jobs_rep_def empty_tables_def table_rep_empty)

lemma store_step_refines:
  assumes "store_step io m m'" and "jobs_rep m T" and "job_inv T"
  shows "\<exists>T'. tables_step T T' \<and> jobs_rep m' T'"
  using assms(1)
proof cases
  case (commit rd cmd ps)
  then show ?thesis using run_command_refines [OF commit(2,3) assms(2,3) commit(4,5)] by simp
qed

lemma store_run_refines:
  assumes "(store_step io)\<^sup>*\<^sup>* m m'" and "jobs_rep m T" and "job_inv T"
  shows "\<exists>T'. tables_step\<^sup>*\<^sup>* T T' \<and> jobs_rep m' T'"
  using assms(1)
proof (induction rule: rtranclp_induct)
  case base
  then show ?case using assms(2) by blast
next
  case (step m1 m2)
  then obtain T1 where T1: "tables_step\<^sup>*\<^sup>* T T1" "jobs_rep m1 T1" by blast
  then obtain T2 where "tables_step T1 T2" "jobs_rep m2 T2"
    using store_step_refines [OF step(2) T1(2) tables_run_inv [OF T1(1) assms(3)]] by blast
  with T1(1) show ?case by (meson rtranclp.rtrancl_into_rtrancl)
qed

section \<open>Reads of a discussion while commands commit\<close>

text \<open>
  A step leaves a stored job as it is, or moves it: then the job is live and the latest attempts stay.
\<close>

lemma tables_step_job:
  assumes "tables_step T T'" and inv: "job_inv T" and j: "t_jobs T k = Some j"
  shows "t_jobs T' k = Some j \<or> is_live (lifecycle j) \<and> t_latest T' = t_latest T \<and>
    (\<exists>j'. t_jobs T' k = Some j' \<and> latest_from_job j' = latest_from_job j \<and>
      discussion_thread_id j' = discussion_thread_id j)"
  using assms(1)
proof cases
  case (admit a i)
  with j show ?thesis by (auto simp: admissible_def admitted_def)
next
  case (move k' i i')
  have i: "job_id i = k'" "job_id i' = job_id i" "discussion_thread_id i' = discussion_thread_id i"
    "attempt_ordinal i' = attempt_ordinal i"
    using job_invD(1) [OF inv move(2)] job_step_same [OF move(3)] by (simp_all add: job_entry_ok_def same_identity_def)
  show ?thesis
    using j move job_step_live [OF move(3)] i by (auto simp: transitioned_def latest_from_job_def)
qed

lemma tables_run_final:
  assumes "tables_step\<^sup>*\<^sup>* T T'" and "job_inv T" and "t_jobs T k = Some j" and "\<not> is_live (lifecycle j)"
  shows "t_jobs T' k = Some j"
  using assms(1)
proof (induction rule: rtranclp_induct)
  case (step U V)
  from tables_step_job [OF step(2) tables_run_inv [OF step(1) assms(2)] step(3)] assms(4) show ?case by blast
qed (rule assms)

text \<open>
  Whatever commands commit between the read of the latest attempt and the read of its job, there is a
  moment between the reads at which the attempt is still the latest one and its job is the one read.
\<close>

lemma store_run_moment:
  assumes run: "(store_step io)\<^sup>*\<^sup>* m m2" and T: "jobs_rep m T" "job_inv T" and l: "t_latest T thread = Some l"
  shows "\<exists>m' T' T2 j. (store_step io)\<^sup>*\<^sup>* m m' \<and> (store_step io)\<^sup>*\<^sup>* m' m2 \<and> jobs_rep m' T' \<and> job_inv T' \<and>
    jobs_rep m2 T2 \<and> job_inv T2 \<and> t_latest T' thread = Some l \<and> t_jobs T' (la_job_id l) = Some j \<and>
    t_jobs T2 (la_job_id l) = Some j \<and> discussion_thread_id j = thread \<and> latest_from_job j = l"
  using run
proof (induction rule: rtranclp_induct)
  case base
  with T l job_invD(5) [OF T(2) l] show ?case by (auto simp: latest_entry_ok_def)
next
  case (step m2 m3)
  from step(3) obtain m' T' T2 j where IH: "(store_step io)\<^sup>*\<^sup>* m m'" "(store_step io)\<^sup>*\<^sup>* m' m2" "jobs_rep m' T'" "job_inv T'"
    "jobs_rep m2 T2" "job_inv T2" "t_latest T' thread = Some l" "t_jobs T' (la_job_id l) = Some j"
    "t_jobs T2 (la_job_id l) = Some j" "discussion_thread_id j = thread" "latest_from_job j = l" by blast
  obtain T3 where T3: "tables_step T2 T3" "jobs_rep m3 T3" using store_step_refines [OF step(2) IH(5,6)] by blast
  have inv3: "job_inv T3" by (rule tables_step_inv [OF T3(1) IH(6)])
  from tables_step_job [OF T3(1) IH(6,9)] show ?case
  proof (elim disjE conjE exE)
    assume "t_jobs T3 (la_job_id l) = Some j"
    moreover have "(store_step io)\<^sup>*\<^sup>* m' m3" using IH(2) step(2) by simp
    ultimately show ?thesis using IH T3 inv3 by blast
  next
    fix j'
    assume live: "is_live (lifecycle j)" and j': "t_latest T3 = t_latest T2" "t_jobs T3 (la_job_id l) = Some j'"
      "latest_from_job j' = latest_from_job j" "discussion_thread_id j' = discussion_thread_id j"
    have "t_latest T3 thread = Some l" using live_is_latest [OF IH(6,9) live] IH(10,11) j'(1) by simp
    moreover have "(store_step io)\<^sup>*\<^sup>* m m3" using step(1,2) by simp
    ultimately show ?thesis using T3 inv3 j' IH(10,11) by blast
  qed
qed

lemma thread_reuse_guard_moment:
  assumes r: "reader_total r1 T1" "reader_total r2 T2" "reader_total r3 T3"
    and T: "jobs_rep m1 T1" "job_inv T1" "jobs_rep m2 T2" "jobs_rep m3 T3"
    and run: "(store_step io)\<^sup>*\<^sup>* m1 m2" "(store_step io)\<^sup>*\<^sup>* m2 m3"
  shows "\<exists>m T. (store_step io)\<^sup>*\<^sup>* m1 m \<and> (store_step io)\<^sup>*\<^sup>* m m2 \<and> jobs_rep m T \<and> job_inv T \<and>
    thread_reuse_guard r1 r2 r3 thread = Inr (
      if thread_live T thread then None
      else Some \<lparr>guard_thread_id = thread, guard_latest = t_latest T thread,
        guard_job = Option.bind (t_latest T thread) (\<lambda>l. t_jobs T (la_job_id l))\<rparr>)"
proof (cases "t_latest T1 thread")
  case None
  then have "thread_reuse_guard r1 r2 r3 thread = Inr (if thread_live T1 thread then None
      else Some \<lparr>guard_thread_id = thread, guard_latest = t_latest T1 thread,
        guard_job = Option.bind (t_latest T1 thread) (\<lambda>l. t_jobs T1 (la_job_id l))\<rparr>)"
    by (simp add: thread_reuse_guard_def guard_reads [OF r(1)] thread_live_latest [OF T(2)])
  with T(1,2) run(1) show ?thesis by blast
next
  case (Some l)
  obtain m T U j where mo: "(store_step io)\<^sup>*\<^sup>* m1 m" "(store_step io)\<^sup>*\<^sup>* m m2" "jobs_rep m T" "job_inv T"
      "jobs_rep m2 U" "job_inv U" "t_latest T thread = Some l" "t_jobs T (la_job_id l) = Some j"
      "t_jobs U (la_job_id l) = Some j" "discussion_thread_id j = thread" "latest_from_job j = l"
    using store_run_moment [OF run(1) T(1,2) Some] by blast
  have U: "U = T2" by (rule jobs_rep_unique [OF mo(5) T(3)])
  have ids: "job_id j = la_job_id l" "attempt_ordinal j = la_attempt_ordinal l" using mo(11) by (auto simp: latest_from_job_def)
  have gone: "t_live T3 (la_job_id l) = None" if "\<not> is_live (lifecycle j)"
  proof -
    obtain V where V: "tables_step\<^sup>*\<^sup>* U V" "jobs_rep m3 V" using store_run_refines [OF run(2) mo(5,6)] by blast
    have "V = T3" by (rule jobs_rep_unique [OF V(2) T(4)])
    with tables_run_final [OF V(1) mo(6,9) that] job_invD(1) [OF tables_run_inv [OF V(1) mo(6)]] that
    show ?thesis by (fastforce simp: job_entry_ok_def)
  qed
  have "thread_reuse_guard r1 r2 r3 thread = Inr (if thread_live T thread then None
      else Some \<lparr>guard_thread_id = thread, guard_latest = t_latest T thread,
        guard_job = Option.bind (t_latest T thread) (\<lambda>l. t_jobs T (la_job_id l))\<rparr>)"
    using Some mo(7-11) ids gone
    by (simp add: thread_reuse_guard_def guard_reads [OF r(1)] reader_totalD [OF r(2)] reader_totalD [OF r(3)] validate_latest_def
        thread_live_latest [OF mo(4)] U)
  with mo(1-4) show ?thesis by blast
qed

section \<open>Where the stored jobs come from\<close>

definition originates :: "job_tables \<Rightarrow> bool" where
  "originates T \<longleftrightarrow> (\<forall>k j. t_jobs T k = Some j \<longrightarrow> (\<exists>a. admission_ok a \<and> job_step\<^sup>*\<^sup>* (job_initial a) j))"

lemma tables_step_originates: "\<lbrakk>tables_step T T'; originates T\<rbrakk> \<Longrightarrow> originates T'"
proof (induction rule: tables_step.induct)
  case (admit a j T)
  then show ?case by (auto simp: originates_def)
next
  case (move T k j j')
  then obtain a where "admission_ok a" "job_step\<^sup>*\<^sup>* (job_initial a) j'"
    unfolding originates_def by (meson rtranclp.rtrancl_into_rtrancl)
  with move(4) show ?case by (auto simp: originates_def)
qed

lemma tables_run_originates: "\<lbrakk>tables_step\<^sup>*\<^sup>* T T'; originates T\<rbrakk> \<Longrightarrow> originates T'"
  by (induction rule: rtranclp_induct) (auto intro: tables_step_originates)

lemma originates_empty: "originates empty_tables"
  by (simp add: originates_def empty_tables_def)

text \<open>
  A stored job stays: whatever commands commit, every later store holds it under its identity, moved
  by steps of the life cycle only. It keeps the identity it was admitted with, its parent and the CAS
  identity of its parent once they are set, and its revision never decreases.
\<close>

lemma tables_step_moves:
  assumes "tables_step T T'" and inv: "job_inv T" and j: "t_jobs T k = Some j"
  shows "\<exists>j'. t_jobs T' k = Some j' \<and> job_step\<^sup>*\<^sup>* j j'"
  using assms(1)
proof cases
  case (admit a i)
  with j show ?thesis by (auto simp: admissible_def admitted_def)
next
  case (move k' i i')
  have "job_id i = k'" "job_id i' = job_id i"
    using job_invD(1) [OF inv move(2)] job_step_same [OF move(3)] by (simp_all add: job_entry_ok_def same_identity_def)
  with j move show ?thesis by (auto simp: transitioned_def)
qed

theorem stored_jobs_persist:
  assumes run: "(store_step io)\<^sup>*\<^sup>* m m'" and T: "jobs_rep m T" "job_inv T" and j: "t_jobs T k = Some j"
  shows "\<exists>T' j'. jobs_rep m' T' \<and> job_inv T' \<and> t_jobs T' k = Some j' \<and> job_step\<^sup>*\<^sup>* j j' \<and> same_identity j j' \<and>
    unat (nz_get (revision j)) \<le> unat (nz_get (revision j')) \<and>
    (\<forall>p. state_parent (state j) = Some p \<longrightarrow> state_parent (state j') = Some p) \<and>
    (\<forall>c. state_parent_cas (state j) = Some c \<longrightarrow> state_parent_cas (state j') = Some c)"
proof -
  obtain T' where T': "tables_step\<^sup>*\<^sup>* T T'" "jobs_rep m' T'" using store_run_refines [OF run T] by blast
  have "\<exists>j'. t_jobs T' k = Some j' \<and> job_step\<^sup>*\<^sup>* j j'"
    using T'(1)
  proof (induction rule: rtranclp_induct)
    case (step U V)
    then show ?case using tables_step_moves [OF step(2) tables_run_inv [OF step(1) T(2)]] by (meson rtranclp_trans)
  qed (use j in blast)
  then obtain j' where j': "t_jobs T' k = Some j'" "job_step\<^sup>*\<^sup>* j j'" by blast
  from T'(2) tables_run_inv [OF T'(1) T(2)] j' job_run_same [OF j'(2)] job_run_revision [OF j'(2)] job_run_parent [OF j'(2)]
  show ?thesis by blast
qed

text \<open>At most one live job in a discussion.\<close>

lemma one_live_job:
  assumes inv: "job_inv T" and j: "t_jobs T k = Some j" "is_live (lifecycle j)"
    and j': "t_jobs T k' = Some j'" "is_live (lifecycle j')"
    and same: "discussion_thread_id j = discussion_thread_id j'"
  shows "k = k'"
proof -
  have "latest_from_job j = latest_from_job j'"
    using live_is_latest [OF inv j] live_is_latest [OF inv j'] same by simp
  then have "job_id j = job_id j'" by (simp add: latest_from_job_def)
  with job_invD(1) [OF inv j(1)] job_invD(1) [OF inv j'(1)] show ?thesis by (simp add: job_entry_ok_def)
qed

text \<open>A sample run: the admission of the sample job into an empty store, over the engine in memory.\<close>

definition memory_reader :: "contents \<Rightarrow> unit DomainReader" where
  "memory_reader m = \<lparr>rd_snapshot = memory_snapshot m, rd_families = job_families\<rparr>"

lemma sample_admissible: "admissible empty_tables sample_job"
  by (simp add: admissible_def empty_tables_def sample_job_sel)

lemma sample_admission_runs:
  "\<exists>ps. run_command (memory_reader empty_contents) (AdmitBranchHandoffJob sample_admission) = Inr ps \<and>
     jobs_rep (apply_pending job_families empty_contents ps) (admitted sample_job empty_tables)"
  using run_admission_succeeds [of "memory_reader empty_contents" empty_contents empty_tables sample_admission]
    memory_snapshot_reliable [OF storable_empty] jobs_rep_empty empty_tables_inv sample_admission_ok sample_admissible
  by (simp add: memory_reader_def sample_job_def)

lemma sample_commit:
  assumes "run_command (memory_reader empty_contents) (AdmitBranchHandoffJob sample_admission) = Inr ps"
  shows "store_step TYPE(unit) empty_contents (apply_pending job_families empty_contents ps)"
  using assms snapshot_reliable_of [OF memory_snapshot_reliable [OF storable_empty]] sample_admission_ok
  by (intro store_step.commit [of "memory_reader empty_contents" _ "AdmitBranchHandoffJob sample_admission"])
    (simp_all add: memory_reader_def)

lemma sample_store_step: "\<exists>m. store_step TYPE(unit) empty_contents m"
  using sample_admission_runs sample_commit by blast

text \<open>The store after the sample admission, over the engine in memory.\<close>

lemma sample_tables_inv: "job_inv (admitted sample_job empty_tables)"
  by (rule admitted_inv [OF empty_tables_inv sample_admissible sample_job_ok])
    (simp add: sample_job_sel lifecycle_def is_live_def)

lemma storable_upd:
  assumes "storable m" and "length v < 2 ^ 32"
  shows "storable (m(ks := (m ks)(k \<mapsto> v)))"
proof -
  have "ran ((m ks)(k \<mapsto> v)) \<subseteq> insert v (ran (m ks))" by (auto simp: ran_def)
  with assms show ?thesis unfolding storable_def by (simp add: subset_iff) blast
qed

lemma sample_store: "\<exists>m. storable m \<and> jobs_rep m (admitted sample_job empty_tables)"
proof -
  let ?k = "arr16_bytes (job_id sample_job)" and ?j = sample_job
  define m1 where "m1 = empty_contents(ks_jobs := (empty_contents ks_jobs)(?k \<mapsto> stored_as job_record_codec encode_job_record ?j))"
  define m2 where "m2 = m1(ks_live := (m1 ks_live)(?k \<mapsto> stored_as live_job_codec encode_job_record ?j))"
  define m3 where "m3 = m2(ks_requests := (m2 ks_requests)(encode_request_key (RequestValue (request ?j)) \<mapsto>
    stored_as request_codec encode_request_admission (request_admission_from_job ?j)))"
  define m4 where "m4 = m3(ks_attempts := (m3 ks_attempts)(encode_attempt_key
    (attempt_key (discussion_thread_id ?j) (attempt_ordinal ?j)) \<mapsto> stored_as attempt_codec arr16_bytes (job_id ?j)))"
  define m5 where "m5 = m4(ks_latest := (m4 ks_latest)(arr16_bytes (discussion_thread_id ?j) \<mapsto>
    stored_as latest_codec encode_latest (latest_from_job ?j)))"
  note ok = sample_job_ok job_ok_request [OF sample_job_ok] job_ok_request_admission [OF sample_job_ok]
  have "storable m1" unfolding m1_def
    by (rule storable_upd) (use length_encode_job_record [OF ok(1)] in simp_all)
  then have "storable m2" unfolding m2_def
    by (rule storable_upd) (use length_encode_job_record [OF ok(1)] in simp)
  then have "storable m3" unfolding m3_def by (rule storable_upd) simp
  then have "storable m4" unfolding m4_def by (rule storable_upd) simp
  then have store: "storable m5" unfolding m5_def by (rule storable_upd) simp
  have r1: "jobs_rep m1 (empty_tables\<lparr>t_jobs := (t_jobs empty_tables)(job_id ?j \<mapsto> ?j)\<rparr>)" (is "jobs_rep _ ?T1")
    unfolding m1_def by (rule jobs_rep_update(1) [OF jobs_rep_empty tf_job.table_rep_put [OF jobs_repD(1) [OF jobs_rep_empty] TrueI ok(1)]])
  have r2: "jobs_rep m2 (?T1\<lparr>t_live := (t_live ?T1)(job_id ?j \<mapsto> ?j)\<rparr>)" (is "jobs_rep _ ?T2")
    unfolding m2_def by (rule jobs_rep_update(2) [OF r1 tf_live.table_rep_put [OF jobs_repD(2) [OF r1] TrueI ok(1)]])
  have r3: "jobs_rep m3 (?T2\<lparr>t_requests := (t_requests ?T2)(RequestValue (request ?j) \<mapsto> request_admission_from_job ?j)\<rparr>)"
      (is "jobs_rep _ ?T3")
    unfolding m3_def by (rule jobs_rep_update(3) [OF r2 tf_request.table_rep_put [OF jobs_repD(3) [OF r2]]]) (simp_all add: ok)
  have r4: "jobs_rep m4 (?T3\<lparr>t_attempts := (t_attempts ?T3)(attempt_key (discussion_thread_id ?j) (attempt_ordinal ?j) \<mapsto> job_id ?j)\<rparr>)"
      (is "jobs_rep _ ?T4")
    unfolding m4_def by (rule jobs_rep_update(4) [OF r3 tf_attempt.table_rep_put [OF jobs_repD(4) [OF r3] TrueI TrueI]])
  have "jobs_rep m5 (?T4\<lparr>t_latest := (t_latest ?T4)(discussion_thread_id ?j \<mapsto> latest_from_job ?j)\<rparr>)"
    unfolding m5_def by (rule jobs_rep_update(5) [OF r4 tf_latest.table_rep_put [OF jobs_repD(5) [OF r4] TrueI TrueI]])
  then have "jobs_rep m5 (admitted ?j empty_tables)" by (simp add: admitted_def empty_tables_def)
  with store show ?thesis by blast
qed

lemma sample_list_live:
  "\<exists>page. list_live (memory_reader empty_contents) None \<lparr>max_items = 8, max_bytes = 1000000\<rparr> = Inr page"
proof -
  have sn: "snapshot_reliable (rd_snapshot (memory_reader empty_contents)) empty_contents"
    and fam: "rd_families (memory_reader empty_contents) = job_families"
    using memory_snapshot_reliable [OF storable_empty] by (simp_all add: memory_reader_def)
  obtain raw where raw: "read_cursor (memory_reader empty_contents) live_job_codec (live_range None) Forward
      \<lparr>max_items = 8, max_bytes = 1000000\<rparr> = Inr raw"
    using tf_live.page_reads [OF sn job_families_serve(2) [folded fam] jobs_repD(2) [OF jobs_rep_empty],
        of "[]" "[]" "arr16_fill 0" "arr16_fill 255" "\<lparr>max_items = 8, max_bytes = 1000000\<rparr>"]
      replicate_least [of "replicate 16 255" 16]
    by (auto simp: live_range_eq last_key_def entries_in_def empty_tables_def live_job_codec_def
        BRANCH_HANDOFF_JOB_RECORD_LIMIT_def usize_max_def)
  obtain zs where "[] = records raw @ zs"
    using tf_live.page_step [OF snapshot_reliable_of [OF sn] job_families_serve(2) [folded fam]
        jobs_repD(2) [OF jobs_rep_empty], of "\<lparr>max_items = 8, max_bytes = 1000000\<rparr>" "[]" "[]" "arr16_fill 0"
        "arr16_fill 255" raw] raw
    by (auto simp: live_range_eq last_key_def entries_in_def empty_tables_def)
  with raw show ?thesis by (auto simp: list_live_def live_page_def)
qed

end
