(* ===== verification/Job_Batch.thy ===== *)
theory Job_Batch
  imports Job_Runs
begin

text \<open>
  The batch of a job command: it touches every record once, its records stay within what the
  command reserves for reconciliation, and a command that is out of date contributes nothing.
\<close>

section \<open>The batch touches every record once\<close>

lemma job_put_inv:
  "\<lbrakk>job_put c k v mb = (Inr mb' :: 'io DurableJobMutationError + _); builder_inv mb\<rbrakk> \<Longrightarrow>
     builder_inv mb' \<and> mb_families mb' = mb_families mb"
  using builder_put_inv by (fastforce simp: job_put_eq_Inr)

lemma job_delete_inv:
  "\<lbrakk>job_delete c k mb = (Inr mb' :: 'io DurableJobMutationError + _); builder_inv mb\<rbrakk> \<Longrightarrow>
     builder_inv mb' \<and> mb_families mb' = mb_families mb"
  using builder_delete_inv by (fastforce simp: job_delete_eq_Inr)

lemma command_contribute_inv:
  assumes "command_contribute cmd j mb = (Inr mb' :: 'io DurableJobMutationError + _)" and "builder_inv mb"
  shows "builder_inv mb' \<and> mb_families mb' = mb_families mb"
  using assms
  by (cases cmd) (auto simp: admission_write_def put_live_transition_def put_terminal_transition_def
      prepared_transition_contribute_def and_then_eq_Inr dest!: job_put_inv job_delete_inv split: if_splits)

lemma job_keyspaces_distinct: "distinct (map fam_keyspace job_families)"
  by (simp add: job_families_eq)

lemma run_command_built:
  assumes run: "run_command rd cmd = (Inr ps :: 'io DurableJobMutationError + _)" and fam: "rd_families rd = job_families"
  shows "\<exists>mb. builder_inv mb \<and> mb_families mb = job_families \<and> ps = mb_pending mb"
proof -
  obtain j mb where "command_contribute cmd j (builder_new job_families) = (Inr mb :: 'io DurableJobMutationError + _)"
    and ps: "ps = mb_pending mb"
    using run fam by (auto simp: run_command_def and_then_eq_Inr)
  from command_contribute_inv [OF this(1) builder_new_inv] ps show ?thesis by auto
qed

lemma run_command_slots:
  assumes "run_command rd cmd = (Inr ps :: 'io DurableJobMutationError + _)" and "rd_families rd = job_families"
  shows "list_all (\<lambda>p. pm_family_slot p < length job_families) ps"
  using run_command_built [OF assms] by (auto simp: builder_inv_def list_all_iff)

lemma run_command_order_free:
  assumes run: "run_command rd cmd = (Inr ps :: 'io DurableJobMutationError + _)"
    and fam: "rd_families rd = job_families" and qs: "mset qs = mset ps"
  shows "apply_pending job_families m qs = apply_pending job_families m ps"
  using run_command_built [OF run fam] qs
  by (intro apply_pending_order [OF job_keyspaces_distinct]) (auto simp: builder_inv_def)

section \<open>Commands that are out of date\<close>

lemma validate_current_total:
  assumes "reader_total rd T"
  shows "validate_current rd k r = (case t_jobs T k of None \<Rightarrow> Inl (JobMissing k)
     | Some j \<Rightarrow> if r = revision j then Inr j else Inl (JobRevisionConflict r (revision j)))"
  by (simp add: validate_current_def required_job_def ensure_revision_def reader_totalD [OF assms]
      split: option.split)

lemma direct_transition_stale:
  fixes rd :: "'io job_reader"
  assumes "direct_transition cmd = Some (k, r, t)" and "validate_current rd k r = Inl e"
  shows "command_prepare rd cmd = Inl e"
  using assms by (cases cmd) (auto simp: transition_prepare_defs validate_lifecycle_def)

section \<open>Reservations\<close>

definition reserved :: "ReconciliationReservation \<Rightarrow> string \<Rightarrow> usize" where
  "reserved r family = sum_list (map quota_count (filter (\<lambda>q. quota_family q = family) (res_quotas r)))"

definition contributed :: "PendingMutation list \<Rightarrow> string \<Rightarrow> usize" where
  "contributed ps family =
     length (filter (\<lambda>p. family_slot job_families family = Some (pm_family_slot p)) ps)"

lemma job_reserve_eq_Inr:
  "job_reserve c r = (Inr r' :: 'io DurableJobMutationError + _) \<longleftrightarrow>
     reserve_records c 1 r = (Inr r' :: ('io, CodecError) MutationBuildError + _)"
  by (simp add: job_reserve_def)

lemmas reserve_simps = reserve_records_def reservation_new_def usize_checked_add_def usize_checked_mul_def
  usize_saturating_add_def usize_max_def RECONCILIATION_DESCRIPTOR_FIXED_BYTES_def
  RECONCILIATION_DOMAIN_FIXED_BYTES_def RECONCILIATION_RECORD_FIXED_BYTES_def RECORD_VERSION_BYTES_def
  BRANCH_HANDOFF_JOB_RECORD_LIMIT_def REQUEST_IDEMPOTENCY_RECORD_LIMIT_def

lemma transition_reserve_eq:
  "transition_reserve reservation_new = (Inr
     \<lparr>res_quotas = [\<lparr>quota_family = ''records'', quota_codec_type = ''JobRecordCodec'', quota_count = 1\<rparr>,
        \<lparr>quota_family = ''live-jobs'', quota_codec_type = ''LiveJobIndexCodec'', quota_count = 1\<rparr>],
      res_families = {''live-jobs'', ''records''}, res_descriptor_bytes = 1311536\<rparr> :: 'io DurableJobMutationError + _)"
  by (simp add: transition_reserve_def job_reserve_def reserve_simps job_record_codec_def live_job_codec_def Let_def)

lemma admission_reserve_eq:
  "admission_reserve reservation_new = (Inr
     \<lparr>res_quotas = [\<lparr>quota_family = ''records'', quota_codec_type = ''JobRecordCodec'', quota_count = 1\<rparr>,
        \<lparr>quota_family = ''live-jobs'', quota_codec_type = ''LiveJobIndexCodec'', quota_count = 1\<rparr>,
        \<lparr>quota_family = ''request-idempotency'', quota_codec_type = ''RequestIdempotencyIndexCodec'', quota_count = 1\<rparr>,
        \<lparr>quota_family = ''discussion-attempts'', quota_codec_type = ''DiscussionAttemptIndexCodec'', quota_count = 1\<rparr>,
        \<lparr>quota_family = ''latest-attempts'', quota_codec_type = ''LatestAttemptIndexCodec'', quota_count = 1\<rparr>],
      res_families = {''latest-attempts'', ''discussion-attempts'', ''request-idempotency'', ''live-jobs'', ''records''},
      res_descriptor_bytes = 1313600\<rparr> :: 'io DurableJobMutationError + _)"
  by (simp add: admission_reserve_def job_reserve_def reserve_simps job_codec_defs Let_def)

definition pending_slots :: "MutationBuilder \<Rightarrow> usize list" where
  "pending_slots mb = map pm_family_slot (mb_pending mb)"

lemma job_put_slots:
  assumes "job_put c k v mb = (Inr mb' :: 'io DurableJobMutationError + _)" and "mb_families mb = job_families"
    and "family_slot job_families (c_family c) = Some s"
  shows "pending_slots mb' = pending_slots mb @ [s] \<and> mb_families mb' = job_families"
  using assms by (auto simp: job_put_def builder_put_def builder_family_slot_def and_then_eq_Inr
      builder_push_eq_Inr pending_slots_def split: if_splits)

lemma job_delete_slots:
  assumes "job_delete c k mb = (Inr mb' :: 'io DurableJobMutationError + _)" and "mb_families mb = job_families"
    and "family_slot job_families (c_family c) = Some s"
  shows "pending_slots mb' = pending_slots mb @ [s] \<and> mb_families mb' = job_families"
  using assms by (auto simp: job_delete_def builder_delete_def builder_family_slot_def and_then_eq_Inr
      builder_push_eq_Inr pending_slots_def split: if_splits)

lemma pending_slots_new [simp]: "pending_slots (builder_new fs) = []"
  by (simp add: pending_slots_def builder_new_def)

lemmas write_slots =
  job_put_slots [where c = job_record_codec and s = 3, simplified job_codec_family job_family_slots simp_thms]
  job_put_slots [where c = live_job_codec and s = 2, simplified job_codec_family job_family_slots simp_thms]
  job_put_slots [where c = request_codec and s = 4, simplified job_codec_family job_family_slots simp_thms]
  job_put_slots [where c = attempt_codec and s = 0, simplified job_codec_family job_family_slots simp_thms]
  job_put_slots [where c = latest_codec and s = 1, simplified job_codec_family job_family_slots simp_thms]
  job_delete_slots [where c = live_job_codec and s = 2, simplified job_codec_family job_family_slots simp_thms]

lemma transition_slots:
  assumes "put_live_transition j (builder_new job_families) = (Inr mb :: 'io DurableJobMutationError + _) \<or>
    put_terminal_transition j (builder_new job_families) = (Inr mb :: 'io DurableJobMutationError + _)"
  shows "pending_slots mb = [3, 2]"
  using assms
  by (auto simp: put_live_transition_def put_terminal_transition_def and_then_eq_Inr dest!: write_slots)

lemma admission_slots:
  assumes "admission_write j (builder_new job_families) = (Inr mb :: 'io DurableJobMutationError + _)"
  shows "pending_slots mb = [3, 2, 4, 0, 1]"
  using assms by (auto simp: admission_write_def and_then_eq_Inr dest!: write_slots)

lemma contributed_slots:
  "contributed ps family = (case family_slot job_families family of None \<Rightarrow> 0
     | Some s \<Rightarrow> length (filter (\<lambda>i. s = i) (map pm_family_slot ps)))"
  by (simp add: contributed_def filter_map comp_def split: option.split)

lemma family_slot_cases:
  assumes "family_slot job_families family = Some s"
  obtains "s = 0" "family = ''discussion-attempts''" | "s = 1" "family = ''latest-attempts''"
  | "s = 2" "family = ''live-jobs''" | "s = 3" "family = ''records''" | "s = 4" "family = ''request-idempotency''"
  using assms by (simp add: job_families_eq family_slot_def split: if_splits)

lemma contributed_le:
  assumes "\<And>s. family_slot job_families family = Some s \<Longrightarrow>
    length (filter (\<lambda>i. s = i) (map pm_family_slot ps)) \<le> n"
  shows "contributed ps family \<le> n"
  using assms by (cases "family_slot job_families family") (simp_all add: contributed_slots)

lemma admission_covered:
  assumes "map pm_family_slot ps = [3, 2, 4, 0, 1]"
    and "map quota_family (res_quotas r) =
      [''records'', ''live-jobs'', ''request-idempotency'', ''discussion-attempts'', ''latest-attempts'']"
    and "map quota_count (res_quotas r) = [1, 1, 1, 1, 1]"
  shows "contributed ps family \<le> reserved r family"
proof (rule contributed_le)
  fix s assume "family_slot job_families family = Some s"
  then show "length (filter (\<lambda>i. s = i) (map pm_family_slot ps)) \<le> reserved r family"
    by (rule family_slot_cases) (use assms in \<open>auto simp: reserved_def\<close>)
qed

lemma transition_covered:
  assumes "map pm_family_slot ps = [3, 2]" and "map quota_family (res_quotas r) = [''records'', ''live-jobs'']"
    and "map quota_count (res_quotas r) = [1, 1]"
  shows "contributed ps family \<le> reserved r family"
proof (rule contributed_le)
  fix s assume "family_slot job_families family = Some s"
  then show "length (filter (\<lambda>i. s = i) (map pm_family_slot ps)) \<le> reserved r family"
    by (rule family_slot_cases) (use assms in \<open>auto simp: reserved_def\<close>)
qed

lemma run_command_reserved:
  assumes run: "run_command rd cmd = (Inr ps :: 'io DurableJobMutationError + _)" and fam: "rd_families rd = job_families"
  shows "\<exists>r. command_reserve cmd reservation_new = (Inr r :: 'io DurableJobMutationError + _) \<and>
    (\<forall>family. contributed ps family \<le> reserved r family)"
proof -
  obtain j mb where contrib: "command_contribute cmd j (builder_new job_families) =
      (Inr mb :: 'io DurableJobMutationError + _)" and ps: "ps = mb_pending mb"
    using run fam by (auto simp: run_command_def and_then_eq_Inr)
  show ?thesis
  proof (cases "is_admission cmd")
    case True
    then have "pending_slots mb = [3, 2, 4, 0, 1]"
      using contrib admission_slots by (cases cmd) auto
    moreover have "command_reserve cmd reservation_new = (admission_reserve reservation_new :: 'io DurableJobMutationError + _)"
      using True by (cases cmd) auto
    ultimately show ?thesis
      using admission_covered by (simp add: admission_reserve_eq ps pending_slots_def)
  next
    case False
    then have "pending_slots mb = [3, 2]"
      using contrib transition_slots by (cases cmd) (auto simp: prepared_transition_contribute_def split: if_splits)
    moreover have "command_reserve cmd reservation_new = (transition_reserve reservation_new :: 'io DurableJobMutationError + _)"
      using False by (cases cmd) auto
    ultimately show ?thesis
      using transition_covered by (simp add: transition_reserve_eq ps pending_slots_def)
  qed
qed

end
