(* ===== verification/Settings_Codec.thy ===== *)
theory Settings_Codec
  imports Home_Paging
begin

text \<open>
  The scalar settings of \<^verbatim>\<open>crates/beryl-state/src/settings\<close>: the keys and values of \<^verbatim>\<open>value.rs\<close>, the
  records of \<^verbatim>\<open>settings.rs\<close> and the record codec of \<^verbatim>\<open>codec.rs\<close>, which has an encoder and a decoder
  of its own.
\<close>

section \<open>Keys and values\<close>

definition MAX_ACTIVE_THEME_ID_BYTES :: usize where "MAX_ACTIVE_THEME_ID_BYTES = 256"
definition MAX_DEVELOPER_INSTRUCTIONS_BYTES :: usize where
  "MAX_DEVELOPER_INSTRUCTIONS_BYTES = 60 * 1024"

type_synonym SettingSchemaVersion = u32

definition setting_schema_v1 :: SettingSchemaVersion where "setting_schema_v1 = 1"

datatype SettingKey =
    KeyActiveThemeId | KeyContextCompactionTimeout | KeyDraftAutosaveInterval
  | KeyDeveloperInstructions | KeyEndTurnSound

definition setting_key_first :: SettingKey where "setting_key_first = KeyActiveThemeId"
definition setting_key_last :: SettingKey where "setting_key_last = KeyEndTurnSound"

definition key_schema_version :: "SettingKey \<Rightarrow> SettingSchemaVersion" where
  "key_schema_version key = setting_schema_v1"

datatype SettingValueKind =
    ActiveThemeId str
  | ContextCompactionTimeoutMillis u64
  | DraftAutosaveIntervalSeconds u64
  | DeveloperInstructions str
  | EndTurnSound "AdmittedHostPath option"

record SettingValue =
  sv_kind :: SettingValueKind

datatype SettingValueError = SettingTooLong SettingKey usize usize

definition setting_bounded_text :: "SettingKey \<Rightarrow> str \<Rightarrow> usize \<Rightarrow> SettingValueError + str" where
  "setting_bounded_text key value maximum =
     (if maximum < str_len value then Inl (SettingTooLong key maximum (str_len value)) else Inr value)"

definition setting_active_theme_id :: "str \<Rightarrow> SettingValueError + SettingValue" where
  "setting_active_theme_id value =
     and_then (setting_bounded_text KeyActiveThemeId value MAX_ACTIVE_THEME_ID_BYTES)
       (\<lambda>value. Inr \<lparr>sv_kind = ActiveThemeId value\<rparr>)"

definition setting_context_compaction_timeout :: "u64 \<Rightarrow> SettingValue" where
  "setting_context_compaction_timeout value = \<lparr>sv_kind = ContextCompactionTimeoutMillis value\<rparr>"

definition setting_draft_autosave_interval :: "u64 \<Rightarrow> SettingValue" where
  "setting_draft_autosave_interval value = \<lparr>sv_kind = DraftAutosaveIntervalSeconds value\<rparr>"

definition setting_developer_instructions :: "str \<Rightarrow> SettingValueError + SettingValue" where
  "setting_developer_instructions value =
     and_then (setting_bounded_text KeyDeveloperInstructions value MAX_DEVELOPER_INSTRUCTIONS_BYTES)
       (\<lambda>value. Inr \<lparr>sv_kind = DeveloperInstructions value\<rparr>)"

definition setting_end_turn_sound :: "AdmittedHostPath option \<Rightarrow> SettingValue" where
  "setting_end_turn_sound path = \<lparr>sv_kind = EndTurnSound path\<rparr>"

definition value_key :: "SettingValue \<Rightarrow> SettingKey" where
  "value_key v = (case sv_kind v of
     ActiveThemeId _ \<Rightarrow> KeyActiveThemeId
   | ContextCompactionTimeoutMillis _ \<Rightarrow> KeyContextCompactionTimeout
   | DraftAutosaveIntervalSeconds _ \<Rightarrow> KeyDraftAutosaveInterval
   | DeveloperInstructions _ \<Rightarrow> KeyDeveloperInstructions
   | EndTurnSound _ \<Rightarrow> KeyEndTurnSound)"

record SettingRecord =
  set_key :: SettingKey
  set_schema_version :: SettingSchemaVersion
  set_value :: SettingValue
  set_revision :: RecordRevision

section \<open>Encoder and decoder\<close>

datatype SettingsSource = SourceValue SettingValueError | SourcePath ValueError | SourceRevision StateValueError

datatype SettingsCodecError =
    SetTruncated
  | SetTrailingBytes
  | SetInvalidLength string
  | SetInvalidTag string u8
  | SetInvalidUtf8 string
  | UnsupportedSettingSchema SettingKey SettingSchemaVersion u32
  | CodecKeyValueMismatch SettingKey SettingKey
  | SetInvalidValue string SettingsSource

definition encode_key_tag :: "SettingKey \<Rightarrow> u8" where
  "encode_key_tag key = (case key of
     KeyActiveThemeId \<Rightarrow> 0 | KeyContextCompactionTimeout \<Rightarrow> 1 | KeyDraftAutosaveInterval \<Rightarrow> 2
   | KeyDeveloperInstructions \<Rightarrow> 3 | KeyEndTurnSound \<Rightarrow> 255)"

definition decode_key_tag :: "u8 \<Rightarrow> SettingsCodecError + SettingKey" where
  "decode_key_tag tag =
     (if tag = 0 then Inr KeyActiveThemeId
      else if tag = 1 then Inr KeyContextCompactionTimeout
      else if tag = 2 then Inr KeyDraftAutosaveInterval
      else if tag = 3 then Inr KeyDeveloperInstructions
      else if tag = 255 then Inr KeyEndTurnSound
      else Inl (SetInvalidTag ''setting key'' tag))"

text \<open>What a method of the encoder appends. As in \<open>enc_text\<close>, the texts are shorter than \<open>2 ^ 32\<close> bytes.\<close>

definition put_u8 :: "u8 \<Rightarrow> bytes" where "put_u8 v = [v]"
definition put_u32 :: "u32 \<Rightarrow> bytes" where "put_u32 v = to_be_bytes v"
definition put_u64 :: "u64 \<Rightarrow> bytes" where "put_u64 v = to_be_bytes v"
definition put_setting_text :: "str \<Rightarrow> bytes" where
  "put_setting_text v = put_u32 (of_nat (str_len v)) @ str_bytes v"
definition put_path_flavor :: "PathFlavor \<Rightarrow> bytes" where
  "put_path_flavor v = put_u8 (case v of Windows \<Rightarrow> 0 | Posix \<Rightarrow> 1)"

type_synonym 'a setting_parser = "(SettingsCodecError, 'a) parser"

definition get_finish :: "unit setting_parser" where
  "get_finish bs = (if bs = [] then Inr ((), []) else Inl SetTrailingBytes)"

definition get_take :: "usize \<Rightarrow> bytes setting_parser" where
  "get_take n bs = (if length bs < n then Inl SetTruncated else Inr (take n bs, drop n bs))"

definition get_u8 :: "u8 setting_parser" where
  "get_u8 = dec_then (get_take 1) (\<lambda>bs. dec_return (bs ! 0))"

definition get_u32 :: "u32 setting_parser" where
  "get_u32 = dec_then (get_take 4) (\<lambda>bs. dec_return (from_be_bytes bs))"

definition get_u64 :: "u64 setting_parser" where
  "get_u64 = dec_then (get_take 8) (\<lambda>bs. dec_return (from_be_bytes bs))"

definition get_text :: "string \<Rightarrow> str setting_parser" where
  "get_text kind = dec_then get_u32 (\<lambda>len. dec_then (get_take (unat len)) (\<lambda>bs.
     dec_lift (ok_or (SetInvalidUtf8 kind) (from_utf8 bs))))"

definition get_path_flavor :: "PathFlavor setting_parser" where
  "get_path_flavor = dec_then get_u8 (\<lambda>tag.
     if tag = 0 then dec_return Windows
     else if tag = 1 then dec_return Posix
     else dec_lift (Inl (SetInvalidTag ''path flavor'' tag)))"

section \<open>Record codec\<close>

definition encode_setting_value :: "SettingValue \<Rightarrow> bytes" where
  "encode_setting_value v = put_u8 (encode_key_tag (value_key v)) @ (case sv_kind v of
     ActiveThemeId t \<Rightarrow> put_setting_text t
   | ContextCompactionTimeoutMillis n \<Rightarrow> put_u64 n
   | DraftAutosaveIntervalSeconds n \<Rightarrow> put_u64 n
   | DeveloperInstructions t \<Rightarrow> put_setting_text t
   | EndTurnSound (Some path) \<Rightarrow> put_u8 1 @ put_path_flavor (host_flavor path) @ put_setting_text (host_value path)
   | EndTurnSound None \<Rightarrow> put_u8 0)"

definition get_sound :: "AdmittedHostPath option setting_parser" where
  "get_sound = dec_then get_u8 (\<lambda>tag.
     if tag = 0 then dec_return None
     else if tag = 1 then dec_then get_path_flavor (\<lambda>flavor. dec_then (get_text ''end-turn sound path'') (\<lambda>v.
       dec_lift (and_then (map_err (\<lambda>e. SetInvalidValue ''sound path'' (SourcePath e))
         (host_path_from_admitted flavor v)) (\<lambda>path. Inr (Some path)))))
     else dec_lift (Inl (SetInvalidTag ''end-turn sound option'' tag)))"

definition decode_setting_value :: "SettingValue setting_parser" where
  "decode_setting_value = dec_then get_u8 (\<lambda>tag. dec_then (dec_lift (decode_key_tag tag)) (\<lambda>key.
     dec_then (case key of
       KeyActiveThemeId \<Rightarrow> dec_then (get_text ''active theme id'') (\<lambda>t.
         dec_lift (and_then (map_err (\<lambda>e. SetInvalidValue ''active theme id'' (SourceValue e))
           (setting_active_theme_id t)) (\<lambda>v. Inr (sv_kind v))))
     | KeyContextCompactionTimeout \<Rightarrow> dec_then get_u64 (\<lambda>n. dec_return (ContextCompactionTimeoutMillis n))
     | KeyDraftAutosaveInterval \<Rightarrow> dec_then get_u64 (\<lambda>n. dec_return (DraftAutosaveIntervalSeconds n))
     | KeyDeveloperInstructions \<Rightarrow> dec_then (get_text ''developer instructions'') (\<lambda>t.
         dec_lift (and_then (map_err (\<lambda>e. SetInvalidValue ''developer instructions'' (SourceValue e))
           (setting_developer_instructions t)) (\<lambda>v. Inr (sv_kind v))))
     | KeyEndTurnSound \<Rightarrow> dec_then get_sound (\<lambda>path. dec_return (EndTurnSound path)))
     (\<lambda>kind. dec_return \<lparr>sv_kind = kind\<rparr>)))"

definition encode_setting_key :: "SettingKey \<Rightarrow> SettingsCodecError + bytes" where
  "encode_setting_key key = Inr [encode_key_tag key]"

definition decode_setting_key :: "bytes \<Rightarrow> SettingsCodecError + SettingKey" where
  "decode_setting_key encoded = (case encoded of
     [tag] \<Rightarrow> decode_key_tag tag
   | _ \<Rightarrow> Inl (SetInvalidLength ''setting key''))"

definition encode_setting :: "SettingRecord \<Rightarrow> SettingsCodecError + bytes" where
  "encode_setting r =
     (if set_schema_version r \<noteq> key_schema_version (set_key r)
      then Inl (UnsupportedSettingSchema (set_key r) (key_schema_version (set_key r)) (set_schema_version r))
      else if set_key r \<noteq> value_key (set_value r)
      then Inl (CodecKeyValueMismatch (set_key r) (value_key (set_value r)))
      else Inr (put_u8 (encode_key_tag (set_key r)) @ put_u32 (set_schema_version r) @
        encode_setting_value (set_value r) @ put_u64 (nz_get (set_revision r))))"

definition decode_setting_body :: "SettingRecord setting_parser" where
  "decode_setting_body = dec_then get_u8 (\<lambda>tag. dec_then (dec_lift (decode_key_tag tag)) (\<lambda>key.
     dec_then get_u32 (\<lambda>schema.
     if schema \<noteq> key_schema_version key
     then dec_lift (Inl (UnsupportedSettingSchema key (key_schema_version key) schema))
     else dec_then decode_setting_value (\<lambda>v.
       if key \<noteq> value_key v then dec_lift (Inl (CodecKeyValueMismatch key (value_key v)))
       else dec_then get_u64 (\<lambda>n. dec_then (dec_lift (map_err (\<lambda>e. SetInvalidValue ''record revision'' (SourceRevision e))
           (record_revision_new n))) (\<lambda>rev.
         dec_then get_finish (\<lambda>_. dec_return \<lparr>set_key = key, set_schema_version = key_schema_version key,
           set_value = v, set_revision = rev\<rparr>)))))))"

definition decode_setting :: "bytes \<Rightarrow> SettingsCodecError + SettingRecord" where
  "decode_setting encoded = and_then (decode_setting_body encoded) (\<lambda>(r, _). Inr r)"

definition SETTINGS_RECORD_LIMIT :: usize where "SETTINGS_RECORD_LIMIT = 64 * 1024"
definition SETTINGS_DOMAIN :: string where "SETTINGS_DOMAIN = ''beryl-settings''"

definition setting_codec :: "(SettingKey, SettingRecord, SettingsCodecError) record_codec" where
  "setting_codec =
     \<lparr>c_domain = SETTINGS_DOMAIN, c_family = ''records'', c_type = ''SettingRecordCodec'',
      c_version = 1, c_max_key_bytes = 1, c_max_value_bytes = SETTINGS_RECORD_LIMIT,
      c_encode_key = encode_setting_key, c_decode_key = decode_setting_key,
      c_validate_stored_key = (\<lambda>_. Inr ()),
      c_encode_value = encode_setting, c_decode_value = decode_setting,
      c_decoded_key_bytes = (\<lambda>encoded _. length encoded),
      c_decoded_value_bytes = (\<lambda>encoded _. length encoded)\<rparr>"

definition SETTINGS_FAMILIES :: "RecordFamily list" where
  "SETTINGS_FAMILIES = [record_family_new setting_codec 1]"

section \<open>Fields\<close>

lemma get_take_eq_Inr: "get_take n bs = Inr (v, r) \<longleftrightarrow> length v = n \<and> bs = v @ r"
  by (auto simp: get_take_def split: if_splits)

lemma get_finish_eq_Inr: "get_finish bs = Inr (u, r) \<longleftrightarrow> bs = [] \<and> r = []"
  by (auto simp: get_finish_def split: if_splits)

lemmas get_inv = parse_inv get_take_eq_Inr get_finish_eq_Inr

interpretation s_u8: wire put_u8 get_u8 "\<lambda>_. True"
  by (rule wireI) (auto simp: get_u8_def put_u8_def get_inv length_Suc_conv)

interpretation s_u32: wire put_u32 get_u32 "\<lambda>_. True"
  by (rule wireI) (use word_take_u32 in \<open>auto simp: get_u32_def put_u32_def get_inv\<close>)

interpretation s_u64: wire put_u64 get_u64 "\<lambda>_. True"
  by (rule wireI) (use word_take_u64 in \<open>auto simp: get_u64_def put_u64_def get_inv\<close>)

lemma get_text_iff: "get_text kind bs = Inr (v, r) \<longleftrightarrow> text_fits v \<and> bs = put_setting_text v @ r"
proof
  assume "get_text kind bs = Inr (v, r)"
  then obtain len :: u32 where "str_len v = unat len" "bs = put_u32 len @ str_bytes v @ r"
    by (auto simp: get_text_def get_inv s_u32.run_iff from_utf8_eq_Some result_simps str_len_def)
  moreover from this(1) have "of_nat (str_len v) = len" "str_len v < 2 ^ 32"
    using unat_less_exp [of len] by simp_all
  ultimately show "text_fits v \<and> bs = put_setting_text v @ r"
    by (simp add: put_setting_text_def text_fits_def)
next
  assume "text_fits v \<and> bs = put_setting_text v @ r"
  then show "get_text kind bs = Inr (v, r)"
    by (auto simp: get_text_def put_setting_text_def text_fits_def get_inv s_u32.run_iff from_utf8_eq_Some
        result_simps unat_len_u32 str_len_def intro!: exI [of _ "of_nat (length (str_bytes v)) :: u32"])
qed

interpretation s_text: wire put_setting_text "get_text kind" text_fits for kind
  by (rule wireI) (rule get_text_iff)

interpretation s_flavor: wire put_path_flavor get_path_flavor "\<lambda>_. True"
  by (rule wireI, case_tac v) (auto simp: get_path_flavor_def put_path_flavor_def put_u8_def get_inv
      s_u8.run_iff split: if_splits intro!: exI [of _ "0 :: u8"])

lemma decode_key_tag_eq_Inr: "decode_key_tag tag = Inr key \<longleftrightarrow> tag = encode_key_tag key"
  by (cases key) (auto simp: decode_key_tag_def encode_key_tag_def split: if_splits)

lemma decode_encode_key_tag [simp]: "decode_key_tag (encode_key_tag key) = Inr key"
  by (simp add: decode_key_tag_eq_Inr)

lemma dec_then_lift [simp]: "dec_then (dec_lift (Inr x)) f bs = f x bs"
  by (simp add: dec_then_run)

lemma encode_key_tag_inj: "encode_key_tag a = encode_key_tag b \<longleftrightarrow> a = b"
  by (cases a; cases b) (simp_all add: encode_key_tag_def)

section \<open>Values the constructors admit\<close>

fun kind_ok :: "SettingValueKind \<Rightarrow> bool" where
  "kind_ok (ActiveThemeId t) \<longleftrightarrow> str_len t \<le> MAX_ACTIVE_THEME_ID_BYTES"
| "kind_ok (DeveloperInstructions t) \<longleftrightarrow> str_len t \<le> MAX_DEVELOPER_INSTRUCTIONS_BYTES"
| "kind_ok (EndTurnSound path) \<longleftrightarrow> pred_option host_path_ok path"
| "kind_ok _ \<longleftrightarrow> True"

definition setting_ok :: "SettingRecord \<Rightarrow> bool" where
  "setting_ok r \<longleftrightarrow> set_schema_version r = setting_schema_v1 \<and> set_key r = value_key (set_value r) \<and>
     kind_ok (sv_kind (set_value r))"

lemma host_path_fits: "host_path_ok p \<Longrightarrow> text_fits (host_value p) \<and> str_len (host_value p) \<le> MAX_PATH_BYTES"
  by (auto simp: host_path_ok_def host_path_from_admitted_def result_simps validate_absolute_path_def
      Let_def text_fits_def MAX_PATH_BYTES_def split: if_splits)

lemma host_path_admitted:
  "host_path_from_admitted f v = Inr p \<Longrightarrow> host_flavor p = f \<and> host_value p = v \<and> host_path_ok p"
  using absolute_path_fits [of "''host path''" f v]
  by (auto simp: host_path_from_admitted_def result_simps host_path_ok_def)

lemma get_sound_iff:
  "get_sound bs = Inr (v, r) \<longleftrightarrow> pred_option host_path_ok v \<and> bs = (case v of
     None \<Rightarrow> put_u8 0 | Some p \<Rightarrow> put_u8 1 @ put_path_flavor (host_flavor p) @ put_setting_text (host_value p)) @ r"
proof
  assume "get_sound bs = Inr (v, r)"
  then show "pred_option host_path_ok v \<and> bs = (case v of
     None \<Rightarrow> put_u8 0 | Some p \<Rightarrow> put_u8 1 @ put_path_flavor (host_flavor p) @ put_setting_text (host_value p)) @ r"
    by (auto simp: get_sound_def get_inv s_u8.run_iff s_flavor.run_iff s_text.run_iff result_simps
        split: if_splits dest!: host_path_admitted)
next
  assume v: "pred_option host_path_ok v \<and> bs = (case v of
     None \<Rightarrow> put_u8 0 | Some p \<Rightarrow> put_u8 1 @ put_path_flavor (host_flavor p) @ put_setting_text (host_value p)) @ r"
  show "get_sound bs = Inr (v, r)"
  proof (cases v)
    case None
    with v show ?thesis by (simp add: get_sound_def s_u8.run_step)
  next
    case (Some p)
    with v have "host_path_from_admitted (host_flavor p) (host_value p) = Inr p" "text_fits (host_value p)"
      using host_path_fits [of p] by (auto simp: host_path_ok_def)
    with Some v show ?thesis
      by (simp add: get_sound_def s_u8.run_step s_flavor.run_step s_text.run_step)
  qed
qed

lemma kind_text_fits:
  "kind_ok (ActiveThemeId t) \<Longrightarrow> text_fits t" "kind_ok (DeveloperInstructions t) \<Longrightarrow> text_fits t"
  by (simp_all add: text_fits_def MAX_ACTIVE_THEME_ID_BYTES_def MAX_DEVELOPER_INSTRUCTIONS_BYTES_def)

lemma decode_setting_value_iff:
  "decode_setting_value bs = Inr (v, r) \<longleftrightarrow> kind_ok (sv_kind v) \<and> bs = encode_setting_value v @ r"
proof
  assume "decode_setting_value bs = Inr (v, r)"
  then obtain key kind m where "bs = put_u8 (encode_key_tag key) @ m" "v = \<lparr>sv_kind = kind\<rparr>"
    and "(case key of
       KeyActiveThemeId \<Rightarrow> dec_then (get_text ''active theme id'') (\<lambda>t.
         dec_lift (and_then (map_err (\<lambda>e. SetInvalidValue ''active theme id'' (SourceValue e))
           (setting_active_theme_id t)) (\<lambda>v. Inr (sv_kind v))))
     | KeyContextCompactionTimeout \<Rightarrow> dec_then get_u64 (\<lambda>n. dec_return (ContextCompactionTimeoutMillis n))
     | KeyDraftAutosaveInterval \<Rightarrow> dec_then get_u64 (\<lambda>n. dec_return (DraftAutosaveIntervalSeconds n))
     | KeyDeveloperInstructions \<Rightarrow> dec_then (get_text ''developer instructions'') (\<lambda>t.
         dec_lift (and_then (map_err (\<lambda>e. SetInvalidValue ''developer instructions'' (SourceValue e))
           (setting_developer_instructions t)) (\<lambda>v. Inr (sv_kind v))))
     | KeyEndTurnSound \<Rightarrow> dec_then get_sound (\<lambda>path. dec_return (EndTurnSound path))) m = Inr (kind, r)"
    by (auto simp: decode_setting_value_def get_inv s_u8.run_iff decode_key_tag_eq_Inr)
  then show "kind_ok (sv_kind v) \<and> bs = encode_setting_value v @ r"
    by (cases key) (auto simp: get_inv s_text.run_iff s_u64.run_iff get_sound_iff result_simps
        setting_active_theme_id_def setting_developer_instructions_def setting_bounded_text_def
        encode_setting_value_def value_key_def split: if_splits option.splits)
next
  assume v: "kind_ok (sv_kind v) \<and> bs = encode_setting_value v @ r"
  show "decode_setting_value bs = Inr (v, r)"
  proof (cases "sv_kind v")
    case (EndTurnSound p)
    with v have "get_sound ((case p of None \<Rightarrow> put_u8 0
        | Some p \<Rightarrow> put_u8 1 @ put_path_flavor (host_flavor p) @ put_setting_text (host_value p)) @ r) = Inr (p, r)"
      by (simp add: get_sound_iff)
    with EndTurnSound v show ?thesis
      by (cases v, cases p) (simp_all add: decode_setting_value_def encode_setting_value_def s_u8.run_step
          value_key_def decode_key_tag_def encode_key_tag_def dec_then_run)
  qed (use v kind_text_fits in \<open>cases v, simp add: decode_setting_value_def encode_setting_value_def s_u8.run_step
      s_text.run_step s_u64.run_step value_key_def decode_key_tag_def encode_key_tag_def dec_then_run
      setting_active_theme_id_def setting_developer_instructions_def setting_bounded_text_def\<close>)+
qed

interpretation s_value: wire encode_setting_value decode_setting_value "\<lambda>v. kind_ok (sv_kind v)"
  by (rule wireI) (rule decode_setting_value_iff)

section \<open>The codec satisfies the contract\<close>

definition setting_bytes :: "SettingRecord \<Rightarrow> bytes" where
  "setting_bytes r = put_u8 (encode_key_tag (set_key r)) @ put_u32 (set_schema_version r) @
     encode_setting_value (set_value r) @ put_u64 (nz_get (set_revision r))"

lemma decode_setting_eq_Inr: "decode_setting bs = Inr r \<longleftrightarrow> setting_ok r \<and> bs = setting_bytes r"
proof
  assume "decode_setting bs = Inr r"
  then show "setting_ok r \<and> bs = setting_bytes r"
    by (auto simp: decode_setting_def decode_setting_body_def result_simps get_inv s_u8.run_iff s_u32.run_iff
        s_u64.run_iff s_value.run_iff decode_key_tag_eq_Inr setting_ok_def setting_bytes_def key_schema_version_def
        split: if_splits)
next
  assume r: "setting_ok r \<and> bs = setting_bytes r"
  then have "decode_setting_body bs = Inr (r, [])"
    by (cases r) (simp add: decode_setting_body_def setting_bytes_def setting_ok_def s_u8.run_step s_u32.run_step
        s_value.run_step s_u64.run_step [where r = "[]", simplified] key_schema_version_def
        record_revision_new_def get_finish_def dec_then_run)
  then show "decode_setting bs = Inr r" by (simp add: decode_setting_def)
qed

lemma encode_setting_eq_Inr:
  "kind_ok (sv_kind (set_value r)) \<Longrightarrow> encode_setting r = Inr bs \<longleftrightarrow> setting_ok r \<and> bs = setting_bytes r"
  by (auto simp: encode_setting_def setting_ok_def setting_bytes_def key_schema_version_def)

lemma setting_bytes_bound:
  assumes "setting_ok r"
  shows "length (setting_bytes r) \<le> SETTINGS_RECORD_LIMIT"
proof (cases "sv_kind (set_value r)")
  case (EndTurnSound p)
  with assms have "pred_option host_path_ok p" by (simp add: setting_ok_def)
  then show ?thesis
    using EndTurnSound host_path_fits by (cases p) (force simp: setting_bytes_def encode_setting_value_def
        put_u8_def put_u32_def put_u64_def put_setting_text_def put_path_flavor_def str_len_def
        SETTINGS_RECORD_LIMIT_def MAX_PATH_BYTES_def)+
qed (use assms in \<open>auto simp: setting_ok_def setting_bytes_def encode_setting_value_def put_u8_def put_u32_def
    put_u64_def put_setting_text_def str_len_def SETTINGS_RECORD_LIMIT_def MAX_ACTIVE_THEME_ID_BYTES_def
    MAX_DEVELOPER_INSTRUCTIONS_BYTES_def\<close>)

interpretation settings: typed_family setting_codec "\<lambda>key. [encode_key_tag key]" setting_bytes "\<lambda>_. True" setting_ok
proof
  show "c_decode_key setting_codec bs = Inr k \<and> c_validate_stored_key setting_codec k = Inr () \<longleftrightarrow>
      True \<and> bs = [encode_key_tag k]" for bs k
    by (auto simp: setting_codec_def decode_setting_key_def decode_key_tag_eq_Inr split: list.splits)
qed (use setting_bytes_bound in \<open>auto simp: setting_codec_def encode_setting_key_def decode_setting_eq_Inr
    SETTINGS_RECORD_LIMIT_def encode_setting_def setting_ok_def setting_bytes_def key_schema_version_def\<close>)

section \<open>The family of the domain\<close>

definition settings_families :: "RegisteredFamily list" where
  "settings_families = (case blueprint_for_domain SETTINGS_DOMAIN SETTINGS_FAMILIES of Inr fs \<Rightarrow> fs | Inl _ \<Rightarrow> [])"

definition ks_settings :: keyspace where "ks_settings = ''d.beryl-settings.records''"

lemma settings_families_eq:
  "settings_families = [\<lparr>fam_logical_name = ''records'', fam_codec_type = ''SettingRecordCodec'',
     fam_max_key_bytes = 1, fam_max_stored_value_bytes = 65540, fam_keyspace = ks_settings,
     fam_schema = 1\<rparr>]"
  by (simp add: settings_families_def blueprint_for_domain_def SETTINGS_FAMILIES_def record_family_new_def
      SETTINGS_DOMAIN_def setting_codec_def SETTINGS_RECORD_LIMIT_def RECORD_VERSION_BYTES_def
      usize_saturating_add_def usize_max_def validate_component_def MAX_COMPONENT_BYTES_def component_char_def
      physical_name_def ks_settings_def Let_def)

lemma settings_serve [simp]: "serves settings_families setting_codec ks_settings"
  by (simp add: settings_families_eq serves_def family_of_def family_slot_def setting_codec_def)

text \<open>
  C31. The codec of settings is canonical and typed: a stored byte string decodes to a record if and
  only if the record encodes to it and its scalar is one the constructors admit; the scalar then
  belongs to the key of the record.
\<close>

theorem setting_codec_canonical:
  "decode_setting bs = Inr r \<longleftrightarrow>
     encode_setting r = Inr bs \<and> kind_ok (sv_kind (set_value r)) \<and> value_key (set_value r) = set_key r"
  by (auto simp: decode_setting_eq_Inr encode_setting_def setting_ok_def setting_bytes_def key_schema_version_def
      split: if_splits)

end
