(* ===== verification/Settings_Domain.thy ===== *)
theory Settings_Domain
  imports Settings_Codec Memory_Store
begin

text \<open>
  The settings domain: the Apply command of \<^verbatim>\<open>settings/mutation.rs\<close>, the validator of
  \<^verbatim>\<open>settings/validate.rs\<close> and the list of \<^verbatim>\<open>settings.rs\<close>, over the table of settings that the
  keyspace holds.
\<close>

section \<open>The Apply command\<close>

datatype ExpectedSettingRevision = ExpectAbsent | ExpectExact RecordRevision

record SettingUpdate =
  upd_key :: SettingKey
  upd_expected :: ExpectedSettingRevision
  upd_value :: SettingValue

record ApplySettings =
  apply_updates :: "SettingUpdate list"

datatype ApplySettingsError =
    ApplyEmpty
  | ApplyDuplicate SettingKey
  | ApplyKeyValueMismatch SettingKey SettingKey

fun check_updates :: "SettingKey set \<Rightarrow> SettingUpdate list \<Rightarrow> ApplySettingsError + unit" where
  "check_updates keys [] = Inr ()"
| "check_updates keys (u # us) =
     (if upd_key u \<noteq> value_key (upd_value u)
      then Inl (ApplyKeyValueMismatch (upd_key u) (value_key (upd_value u)))
      else if upd_key u \<in> keys then Inl (ApplyDuplicate (upd_key u))
      else check_updates (insert (upd_key u) keys) us)"

definition apply_settings_new :: "SettingUpdate list \<Rightarrow> ApplySettingsError + ApplySettings" where
  "apply_settings_new updates =
     (if updates = [] then Inl ApplyEmpty
      else and_then (check_updates {} updates) (\<lambda>_. Inr \<lparr>apply_updates = updates\<rparr>))"

datatype 'io SettingsMutationError =
    SetRead "('io, SettingsCodecError) ReadError"
  | SetBuild "('io, SettingsCodecError) MutationBuildError"
  | SetValue StateValueError
  | SettingExists SettingKey
  | SettingMissing SettingKey
  | SettingRevisionConflict SettingKey RecordRevision RecordRevision

definition record_revision_initial :: RecordRevision where
  "record_revision_initial = nz_of 1"

definition setting_initial :: "SettingKey \<Rightarrow> SettingValue \<Rightarrow> SettingRecord" where
  "setting_initial key v =
     \<lparr>set_key = key, set_schema_version = key_schema_version key, set_value = v,
      set_revision = record_revision_initial\<rparr>"

definition setting_point_limit :: usize where
  "setting_point_limit = SETTINGS_RECORD_LIMIT + 4"

definition setting_read :: "'io DomainReader \<Rightarrow> SettingKey \<Rightarrow> 'io SettingsMutationError + SettingRecord option" where
  "setting_read rd key = map_err SetRead (read_point rd setting_codec key setting_point_limit)"

definition prepare_update :: "'io DomainReader \<Rightarrow> SettingUpdate \<Rightarrow> 'io SettingsMutationError + SettingRecord" where
  "prepare_update rd u =
     and_then (setting_read rd (upd_key u)) (\<lambda>current.
     case (upd_expected u, current) of
       (ExpectAbsent, None) \<Rightarrow> Inr (setting_initial (upd_key u) (upd_value u))
     | (ExpectAbsent, Some _) \<Rightarrow> Inl (SettingExists (upd_key u))
     | (ExpectExact _, None) \<Rightarrow> Inl (SettingMissing (upd_key u))
     | (ExpectExact expected, Some r) \<Rightarrow>
         if expected \<noteq> set_revision r
         then Inl (SettingRevisionConflict (upd_key u) expected (set_revision r))
         else and_then (map_err SetValue (record_revision_checked_next (set_revision r))) (\<lambda>rev.
           Inr (r\<lparr>set_value := upd_value u, set_revision := rev\<rparr>)))"

text \<open>The updates are prepared in order; the first error ends the preparation.\<close>

fun apply_prepare :: "'io DomainReader \<Rightarrow> SettingUpdate list \<Rightarrow> 'io SettingsMutationError + SettingRecord list" where
  "apply_prepare rd [] = Inr []"
| "apply_prepare rd (u # us) =
     and_then (prepare_update rd u) (\<lambda>r. and_then (apply_prepare rd us) (\<lambda>rs. Inr (r # rs)))"

definition apply_reserve ::
    "ApplySettings \<Rightarrow> ReconciliationReservation \<Rightarrow> 'io SettingsMutationError + ReconciliationReservation" where
  "apply_reserve cmd r = map_err SetBuild (reserve_records setting_codec (length (apply_updates cmd)) r)"

fun apply_contribute :: "SettingRecord list \<Rightarrow> MutationBuilder \<Rightarrow> 'io SettingsMutationError + MutationBuilder" where
  "apply_contribute [] mb = Inr mb"
| "apply_contribute (r # rs) mb =
     and_then (map_err SetBuild (builder_put setting_codec (set_key r) r mb)) (apply_contribute rs)"

definition run_apply :: "'io DomainReader \<Rightarrow> ApplySettings \<Rightarrow> 'io SettingsMutationError + PendingMutation list" where
  "run_apply rd cmd =
     and_then (apply_prepare rd (apply_updates cmd)) (\<lambda>rs.
     and_then (apply_contribute rs (builder_new (rd_families rd))) (\<lambda>mb. Inr (mb_pending mb)))"

section \<open>Validation and list\<close>

datatype 'io SettingsValidationError =
    SetValRead "('io, SettingsCodecError) ReadError"
  | SetInvariant string

definition SETTING_VALIDATION_PAGE_ITEMS :: usize where "SETTING_VALIDATION_PAGE_ITEMS = 128"
definition SETTING_VALIDATION_PAGE_BYTES :: usize where "SETTING_VALIDATION_PAGE_BYTES = 8 * 1024 * 1024"

definition setting_validation_limits :: CursorReadLimits where
  "setting_validation_limits =
     \<lparr>max_items = SETTING_VALIDATION_PAGE_ITEMS, max_bytes = SETTING_VALIDATION_PAGE_BYTES\<rparr>"

definition setting_range :: "SettingKey option \<Rightarrow> SettingKey CursorRange" where
  "setting_range after = (case after of
     Some key \<Rightarrow> range_after key setting_key_last
   | None \<Rightarrow> range_closed setting_key_first setting_key_last)"

definition check_setting :: "unit \<Rightarrow> SettingKey \<times> SettingRecord \<Rightarrow> 'io SettingsValidationError + unit" where
  "check_setting st entry = (case entry of (key, r) \<Rightarrow>
     if key \<noteq> set_key r then Inl (SetInvariant ''setting key does not match its record identity'')
     else if set_schema_version r \<noteq> key_schema_version (set_key r)
     then Inl (SetInvariant ''setting record carries an unsupported setting schema'')
     else if set_key r \<noteq> value_key (set_value r)
     then Inl (SetInvariant ''setting record key does not match its scalar type'')
     else Inr ())"

definition settings_validate :: "'io DomainReader \<Rightarrow> ('io SettingsValidationError + unit) option" where
  "settings_validate rd = page_loop
     (\<lambda>after. map_err SetValRead (read_cursor rd setting_codec (setting_range after) Forward setting_validation_limits))
     check_setting Inr (SetInvariant ''bounded settings cursor reported more without a record'') None ()"

definition settings_list ::
    "'io DomainReader \<Rightarrow> SettingKey option \<Rightarrow> CursorReadLimits \<Rightarrow>
     ('io, SettingsCodecError) ReadError + SettingRecord StatePage" where
  "settings_list rd after limits =
     and_then (read_cursor rd setting_codec (setting_range after) Forward limits) (\<lambda>page.
       Inr \<lparr>page_records = map snd (records page), page_stored_bytes = stored_bytes page,
            page_decoded_bytes = decoded_bytes page, page_has_more = has_more page\<rparr>)"

section \<open>The table of settings\<close>

type_synonym settings_table = "SettingKey \<rightharpoonup> SettingRecord"

definition settings_rep :: "contents \<Rightarrow> settings_table \<Rightarrow> bool" where
  "settings_rep m S \<longleftrightarrow>
     table_rep setting_codec (\<lambda>key. [encode_key_tag key]) setting_bytes (\<lambda>_. True) setting_ok m ks_settings S"

definition settings_inv :: "settings_table \<Rightarrow> bool" where
  "settings_inv S \<longleftrightarrow> (\<forall>key r. S key = Some r \<longrightarrow> set_key r = key)"

text \<open>An update is due if the table is what the update expects and the revision can be advanced.\<close>

definition update_due :: "settings_table \<Rightarrow> SettingUpdate \<Rightarrow> bool" where
  "update_due S u = (case (upd_expected u, S (upd_key u)) of
     (ExpectAbsent, None) \<Rightarrow> True
   | (ExpectExact expected, Some r) \<Rightarrow> expected = set_revision r \<and> unat (nz_get expected) < 2 ^ 64 - 1
   | _ \<Rightarrow> False)"

definition updated_setting :: "settings_table \<Rightarrow> SettingUpdate \<Rightarrow> SettingRecord" where
  "updated_setting S u =
     \<lparr>set_key = upd_key u, set_schema_version = setting_schema_v1, set_value = upd_value u,
      set_revision = (case S (upd_key u) of None \<Rightarrow> nz_of 1 | Some r \<Rightarrow> nz_of (nz_get (set_revision r) + 1))\<rparr>"

definition settings_after :: "settings_table \<Rightarrow> SettingUpdate list \<Rightarrow> settings_table" where
  "settings_after S us = foldl (\<lambda>T u. T(upd_key u \<mapsto> updated_setting S u)) S us"

text \<open>The error of an update that is not due.\<close>

definition update_refusal :: "settings_table \<Rightarrow> SettingUpdate \<Rightarrow> 'io SettingsMutationError" where
  "update_refusal S u = (case (upd_expected u, S (upd_key u)) of
     (ExpectAbsent, _) \<Rightarrow> SettingExists (upd_key u)
   | (ExpectExact _, None) \<Rightarrow> SettingMissing (upd_key u)
   | (ExpectExact expected, Some r) \<Rightarrow>
       if expected \<noteq> set_revision r then SettingRevisionConflict (upd_key u) expected (set_revision r)
       else SetValue StateRevisionExhausted)"

lemma settings_rep_ok: "settings_rep m S \<Longrightarrow> S key = Some r \<Longrightarrow> setting_ok r"
  unfolding settings_rep_def by (drule (1) table_rep_ok) simp

lemma setting_read_table:
  assumes "snapshot_reliable (rd_snapshot rd) m" and "rd_families rd = settings_families" and "settings_rep m S"
  shows "setting_read rd key = Inr (S key)"
proof -
  have serve: "serves (rd_families rd) setting_codec ks_settings" using assms(2) by simp
  have "4 + length (setting_bytes v) \<le> setting_point_limit" if "S key = Some v" for v
    using setting_bytes_bound settings_rep_ok [OF assms(3) that] by (simp add: setting_point_limit_def)
  from settings.read_point_table_complete [OF assms(1) serve assms(3) [unfolded settings_rep_def] TrueI this]
  have "read_point rd setting_codec key setting_point_limit = Inr (S key)" .
  then show ?thesis by (simp add: setting_read_def)
qed

lemma revision_next_due:
  assumes "unat (nz_get r) < 2 ^ 64 - 1"
  shows "record_revision_checked_next r = Inr (nz_of (nz_get r + 1))"
proof -
  have u: "unat (nz_get r + 1) = unat (nz_get r) + 1"
    using assms unat_plus_no_overflow [of "nz_get r" 1] by simp
  then have "nz_get r + 1 \<noteq> 0" by (metis add_is_0 one_neq_zero unsigned_0)
  with u have "nonzero_u64_next r = Some (nz_of (nz_get r + 1))" by (simp add: nonzero_u64_next_eq_Some)
  then show ?thesis by (simp add: record_revision_checked_next_def)
qed

lemma revision_next_exhausted:
  assumes "\<not> unat (nz_get r) < 2 ^ 64 - 1"
  shows "record_revision_checked_next r = Inl StateRevisionExhausted"
proof -
  have "unat (nz_get r) = 2 ^ 64 - 1" using assms unat_less_exp [of "nz_get r"] by simp
  then show ?thesis by (simp add: record_revision_checked_next_def nonzero_u64_next_eq_None [THEN iffD2])
qed

lemma prepare_update_decided:
  assumes read: "setting_read rd (upd_key u) = Inr (S (upd_key u))" and "settings_inv S" and "settings_rep m S"
  shows "prepare_update rd u = (if update_due S u then Inr (updated_setting S u) else Inl (update_refusal S u))"
proof (cases "S (upd_key u)")
  case None
  then show ?thesis
    by (cases "upd_expected u") (simp_all add: prepare_update_def read update_due_def update_refusal_def
        updated_setting_def setting_initial_def key_schema_version_def record_revision_initial_def)
next
  case (Some r)
  then have "set_key r = upd_key u" "set_schema_version r = setting_schema_v1"
    using assms(2) settings_rep_ok [OF assms(3) Some] by (auto simp: settings_inv_def setting_ok_def)
  with Some show ?thesis
    by (cases "upd_expected u"; cases r) (auto simp: prepare_update_def read update_due_def update_refusal_def
        updated_setting_def revision_next_due revision_next_exhausted)
qed

lemma apply_prepare_decided:
  assumes "\<And>key. setting_read rd key = Inr (S key)" and "settings_inv S" and "settings_rep m S"
  shows "apply_prepare rd us = (case find (\<lambda>u. \<not> update_due S u) us of
      None \<Rightarrow> Inr (map (updated_setting S) us) | Some u \<Rightarrow> Inl (update_refusal S u))"
  using prepare_update_decided [OF assms(1) assms(2,3)] by (induction us) (auto split: option.split)

lemma check_updates_eq_Inr:
  "check_updates keys us = Inr () \<longleftrightarrow>
     list_all (\<lambda>u. upd_key u = value_key (upd_value u)) us \<and> distinct (map upd_key us) \<and> keys \<inter> upd_key ` set us = {}"
  by (induction us arbitrary: keys) auto

definition write_all :: "settings_table \<Rightarrow> SettingRecord list \<Rightarrow> settings_table" where
  "write_all = foldl (\<lambda>T r. T(set_key r \<mapsto> r))"

lemma apply_contribute_ok:
  "mb_families mb = settings_families \<Longrightarrow> distinct (map set_key rs) \<Longrightarrow> list_all setting_ok rs \<Longrightarrow>
     (\<And>r. r \<in> set rs \<Longrightarrow> (0, [encode_key_tag (set_key r)]) \<notin> mb_touched mb) \<Longrightarrow>
     settings_rep (pending_contents m mb) S \<Longrightarrow>
     \<exists>mb'. apply_contribute rs mb = (Inr mb' :: 'io SettingsMutationError + _) \<and> mb_families mb' = settings_families \<and>
       settings_rep (pending_contents m mb') (write_all S rs)"
proof (induction rs arbitrary: mb S)
  case Nil
  then show ?case by (simp add: write_all_def)
next
  case (Cons r rs)
  have slot: "family_slot settings_families (c_family setting_codec) = Some 0"
    by (simp add: settings_families_eq family_slot_def setting_codec_def)
  have serve: "serves (mb_families mb) setting_codec ks_settings" using Cons.prems(1) by simp
  obtain mb' where put: "builder_put setting_codec (set_key r) r mb = (Inr mb' :: ('io, _) MutationBuildError + _)"
    and fam: "mb_families mb' = settings_families"
    and touched: "mb_touched mb' = insert (0, [encode_key_tag (set_key r)]) (mb_touched mb)"
    using settings.builder_put_succeeds [OF serve, where k = "set_key r" and v = r and 'io = 'io] Cons.prems slot by auto
  have rep: "settings_rep (pending_contents m mb') (S(set_key r \<mapsto> r))"
    using settings.builder_put_effect [OF serve _ _ put, of m] settings.table_rep_put Cons.prems(3,5)
    by (simp add: settings_rep_def)
  have fresh: "(0, [encode_key_tag (set_key q)]) \<notin> mb_touched mb'" if "q \<in> set rs" for q
    using imageI [OF that, of set_key] that Cons.prems(2) Cons.prems(4) [of q]
    by (auto simp: touched encode_key_tag_inj simp del: image_eqI)
  have "distinct (map set_key rs)" "list_all setting_ok rs" using Cons.prems(2,3) by simp_all
  from Cons.IH [OF fam this fresh rep] put show ?case by (auto simp: write_all_def simp del: fun_upd_apply)
qed

lemma write_all_updates:
  "write_all T (map (updated_setting S) us) = foldl (\<lambda>T u. T(upd_key u \<mapsto> updated_setting S u)) T us"
  by (induction us arbitrary: T) (simp_all add: write_all_def updated_setting_def)

lemma settings_after_other: "key \<notin> upd_key ` set us \<Longrightarrow> settings_after S us key = S key"
proof -
  have "key \<notin> upd_key ` set us \<Longrightarrow> foldl (\<lambda>T u. T(upd_key u \<mapsto> updated_setting S u)) T us key = T key" for T
    by (induction us arbitrary: T) auto
  then show "key \<notin> upd_key ` set us \<Longrightarrow> settings_after S us key = S key" by (simp add: settings_after_def)
qed

lemma settings_inv_write: "settings_inv T \<Longrightarrow> set_key r = key \<Longrightarrow> settings_inv (T(key \<mapsto> r))"
  by (simp add: settings_inv_def)

lemma settings_after_inv: "settings_inv S \<Longrightarrow> settings_inv (settings_after S us)"
proof -
  have "settings_inv T \<Longrightarrow> settings_inv (foldl (\<lambda>T u. T(upd_key u \<mapsto> updated_setting S u)) T us)" for T
    by (induction us arbitrary: T) (simp_all add: settings_inv_write updated_setting_def del: fun_upd_apply)
  then show "settings_inv S \<Longrightarrow> settings_inv (settings_after S us)" by (simp add: settings_after_def)
qed

lemma mb_touched_new [simp]: "mb_touched (builder_new fs) = {}"
  by (simp add: builder_new_def)

section \<open>Properties of the domain\<close>

definition settings_reader :: "'io snapshot \<Rightarrow> 'io DomainReader" where
  "settings_reader sn = \<lparr>rd_snapshot = sn, rd_families = settings_families\<rparr>"

lemma settings_reader_simps [simp]:
  "rd_snapshot (settings_reader sn) = sn" "rd_families (settings_reader sn) = settings_families"
  by (simp_all add: settings_reader_def)

text \<open>
  C30. Apply is atomic and decided by the stored settings: on a snapshot whose calls do not fail,
  an Apply whose updates are all due succeeds, and its batch replaces exactly the named settings by
  their new scalars at the next revision; otherwise nothing is written and the error is that of the
  first update that is not due.
\<close>

theorem apply_settings_atomic:
  fixes sn :: "'io snapshot"
  assumes "apply_settings_new us = Inr cmd" and "list_all (\<lambda>u. kind_ok (sv_kind (upd_value u))) us"
    and "snapshot_reliable sn m" and "settings_rep m S" and "settings_inv S"
  shows "case find (\<lambda>u. \<not> update_due S u) us of
      Some u \<Rightarrow> run_apply (settings_reader sn) cmd = Inl (update_refusal S u)
    | None \<Rightarrow> \<exists>ps. run_apply (settings_reader sn) cmd = Inr ps \<and>
        settings_rep (apply_pending settings_families m ps) (settings_after S us) \<and>
        settings_inv (settings_after S us)"
proof -
  have cmd: "apply_updates cmd = us" and us: "list_all (\<lambda>u. upd_key u = value_key (upd_value u)) us"
    "distinct (map upd_key us)"
    using assms(1) by (auto simp: apply_settings_new_def result_simps check_updates_eq_Inr split: if_splits)
  have prepared: "apply_prepare (settings_reader sn) us = (case find (\<lambda>u. \<not> update_due S u) us of
      None \<Rightarrow> Inr (map (updated_setting S) us) | Some u \<Rightarrow> Inl (update_refusal S u))"
    by (rule apply_prepare_decided) (use setting_read_table [of "settings_reader sn" m S] assms in simp_all)
  show ?thesis
  proof (cases "find (\<lambda>u. \<not> update_due S u) us")
    case (Some u)
    then show ?thesis by (simp add: run_apply_def cmd prepared)
  next
    case None
    let ?rs = "map (updated_setting S) us"
    have "list_all setting_ok ?rs"
      using us(1) assms(2) by (auto simp: list_all_iff setting_ok_def updated_setting_def)
    moreover have "distinct (map set_key ?rs)" using us(2) by (simp add: updated_setting_def comp_def)
    ultimately obtain mb where "apply_contribute ?rs (builder_new settings_families) = (Inr mb :: 'io SettingsMutationError + _)"
      "mb_families mb = settings_families" "settings_rep (pending_contents m mb) (write_all S ?rs)"
      using apply_contribute_ok [of "builder_new settings_families" ?rs m S] assms(4) by auto
    with None settings_after_inv [OF assms(5), of us] show ?thesis
      by (simp add: run_apply_def cmd prepared pending_contents_def write_all_updates settings_after_def)
  qed
qed

lemma settings_rep_empty: "settings_rep empty_contents Map.empty"
  unfolding settings_rep_def by (rule table_rep_empty)

theorem apply_settings_atomic_witness:
  "\<exists>ps. run_apply (settings_reader (memory_snapshot empty_contents))
      \<lparr>apply_updates = [\<lparr>upd_key = KeyDraftAutosaveInterval, upd_expected = ExpectAbsent,
         upd_value = setting_draft_autosave_interval 30\<rparr>]\<rparr> = Inr ps"
proof -
  let ?us = "[\<lparr>upd_key = KeyDraftAutosaveInterval, upd_expected = ExpectAbsent,
    upd_value = setting_draft_autosave_interval 30\<rparr>]"
  have "apply_settings_new ?us = Inr \<lparr>apply_updates = ?us\<rparr>"
    by (simp add: apply_settings_new_def setting_draft_autosave_interval_def value_key_def)
  moreover have "list_all (\<lambda>u. kind_ok (sv_kind (upd_value u))) ?us"
    by (simp add: setting_draft_autosave_interval_def)
  ultimately show ?thesis
    using apply_settings_atomic [OF _ _ memory_snapshot_reliable [OF storable_empty] settings_rep_empty, of ?us]
    by (simp add: settings_inv_def update_due_def) blast
qed

lemma setting_range_key: "setting_range = key_range setting_key_first setting_key_last"
  by (auto simp: setting_range_def key_range_def fun_eq_iff split: option.split)

lemma setting_keys_within:
  "\<forall>k\<in>dom S. [encode_key_tag setting_key_first] \<le> [encode_key_tag k] \<and> [encode_key_tag k] \<le> [encode_key_tag setting_key_last]"
proof
  fix k
  show "[encode_key_tag setting_key_first] \<le> [encode_key_tag k] \<and> [encode_key_tag k] \<le> [encode_key_tag setting_key_last]"
    by (cases k) (simp_all add: encode_key_tag_def setting_key_first_def setting_key_last_def)
qed

lemma check_setting_ok: "setting_ok r \<Longrightarrow> check_setting () (key, r) = Inr () \<longleftrightarrow> set_key r = key"
  by (auto simp: check_setting_def setting_ok_def key_schema_version_def)

lemma settings_validate_sees:
  fixes sn :: "'io snapshot"
  assumes "snapshot_of sn m" and "settings_rep m S" and "settings_validate (settings_reader sn) = Some (Inr ())"
  shows "settings_inv S"
proof -
  have serve: "serves (rd_families (settings_reader sn)) setting_codec ks_settings" by simp
  have items: "0 < max_items setting_validation_limits"
    by (simp add: setting_validation_limits_def SETTING_VALIDATION_PAGE_ITEMS_def)
  have sn: "snapshot_of (rd_snapshot (settings_reader sn)) m" using assms(1) by simp
  have "\<forall>k r. S k = Some r \<longrightarrow> check_setting () (k, r) = (Inr () :: 'io SettingsValidationError + unit)"
    using settings.unit_scan [OF sn serve assms(2) [unfolded settings_rep_def] items setting_keys_within refl, where lift = SetValRead
        and check = check_setting and stuck = "SetInvariant ''bounded settings cursor reported more without a record''"] assms(3)
    unfolding settings_validate_def setting_range_key by auto
  then show ?thesis using settings_rep_ok [OF assms(2)] check_setting_ok unfolding settings_inv_def by blast
qed

lemma settings_validate_accepts:
  fixes sn :: "'io snapshot"
  assumes "snapshot_reliable sn m" and "settings_rep m S" and "settings_inv S"
  shows "settings_validate (settings_reader sn) = Some (Inr ())"
proof -
  have serve: "serves (rd_families (settings_reader sn)) setting_codec ks_settings" by simp
  have items: "0 < max_items setting_validation_limits"
    by (simp add: setting_validation_limits_def SETTING_VALIDATION_PAGE_ITEMS_def)
  have sn: "snapshot_reliable (rd_snapshot (settings_reader sn)) m" using assms(1) by simp
  have "check_setting () (k, r) = (Inr () :: 'io SettingsValidationError + unit)" if "S k = Some r" for k r
    using that settings_rep_ok [OF assms(2)] check_setting_ok assms(3) unfolding settings_inv_def by blast
  then show ?thesis
    unfolding settings_validate_def setting_range_key
    by (intro settings.unit_scan_complete [OF sn serve assms(2) [unfolded settings_rep_def] items setting_keys_within, where lift = SetValRead])
      (simp_all add: encode_key_tag_def setting_key_first_def setting_key_last_def setting_codec_def
        setting_validation_limits_def SETTING_VALIDATION_PAGE_BYTES_def SETTINGS_RECORD_LIMIT_def usize_max_def)
qed

text \<open>On bytes of any kind the scan returns, and it accepts only what decodes.\<close>

definition settings_keys_within :: "contents \<Rightarrow> bool" where
  "settings_keys_within m \<longleftrightarrow> keys_within m ks_settings [encode_key_tag setting_key_first] [encode_key_tag setting_key_last]"

lemma settings_validate_returns:
  assumes "snapshot_of sn m"
  shows "\<exists>res. settings_validate (settings_reader sn) = Some res"
  unfolding settings_validate_def setting_range_key
  by (rule settings.page_loop_returns [where lift = SetValRead and rd = "settings_reader sn" and ks = ks_settings]) (use assms in simp_all)

lemma settings_validate_decodes:
  assumes "snapshot_of sn m" and "settings_validate (settings_reader sn) = Some (Inr ())" and "settings_keys_within m"
  shows "\<exists>S. settings_rep m S"
  unfolding settings_rep_def
  by (rule settings.scan_table [where lift = SetValRead and rd = "settings_reader sn",
        OF _ _ refl assms(2) [unfolded settings_validate_def setting_range_key]])
    (use assms(1,3) in \<open>simp_all add: settings_keys_within_def\<close>)

text \<open>
  C32. The validator of the settings returns on every snapshot, whatever bytes it holds and also if calls
  fail. If it accepts and no key lies outside the range it scans, the bytes are the representation of
  a table of settings filed under their own keys. On a snapshot that represents a table and whose calls
  do not fail it accepts exactly if every record is filed under its own key.
\<close>

theorem settings_validate_decides:
  fixes sn :: "'io snapshot"
  assumes "snapshot_of sn m"
  shows "\<exists>res. settings_validate (settings_reader sn) = Some res \<and>
    (res = Inr () \<longrightarrow> settings_keys_within m \<longrightarrow> (\<exists>S. settings_rep m S \<and> settings_inv S)) \<and>
    (\<forall>S. settings_rep m S \<longrightarrow> (res = Inr () \<longrightarrow> settings_inv S) \<and> (snapshot_reliable sn m \<longrightarrow> settings_inv S \<longrightarrow> res = Inr ()))"
proof -
  obtain res where "settings_validate (settings_reader sn) = Some res" using settings_validate_returns [OF assms] by blast
  with settings_validate_decodes [OF assms] settings_validate_sees [OF assms] settings_validate_accepts [of sn m] show ?thesis by auto
qed

text \<open>A store whose only setting is cut off.\<close>

definition torn_settings :: contents where
  "torn_settings = empty_contents(ks_settings := [[encode_key_tag setting_key_first] \<mapsto> [0, 0]])"

lemma torn_settings_facts:
  "snapshot_of (memory_snapshot torn_settings) torn_settings" "settings_keys_within torn_settings" "\<not> settings_rep torn_settings S"
proof -
  have "storable torn_settings" using storable_empty by (auto simp: torn_settings_def storable_def ran_def empty_contents_def)
  then show "snapshot_of (memory_snapshot torn_settings) torn_settings"
    by (intro snapshot_reliable_of memory_snapshot_reliable)
  show "settings_keys_within torn_settings"
    by (auto simp: settings_keys_within_def keys_within_def torn_settings_def encode_key_tag_def setting_key_first_def setting_key_last_def split: if_splits)
  show "\<not> settings_rep torn_settings S"
  proof
    assume "settings_rep torn_settings S"
    from table_rep_lookup [OF this [unfolded settings_rep_def], of setting_key_first]
    obtain r where "[0, 0] = stored_as setting_codec setting_bytes r" by (cases "S setting_key_first") (auto simp: torn_settings_def)
    then show False by (auto dest: arg_cong [where f = length])
  qed
qed

theorem settings_validate_decides_witness:
  "(\<exists>e. settings_validate (settings_reader (memory_snapshot torn_settings)) = Some (Inl e)) \<and>
   settings_validate (settings_reader (memory_snapshot empty_contents)) = Some (Inr ())"
proof
  show "\<exists>e. settings_validate (settings_reader (memory_snapshot torn_settings)) = Some (Inl e)"
    using settings_validate_decides [OF torn_settings_facts(1)] torn_settings_facts(2,3) by (metis obj_sumE old.unit.exhaust)
  have reliable: "snapshot_reliable (memory_snapshot empty_contents) empty_contents" by (rule memory_snapshot_reliable [OF storable_empty])
  show "settings_validate (settings_reader (memory_snapshot empty_contents)) = Some (Inr ())"
    using settings_validate_decides [OF snapshot_reliable_of [OF reliable]] settings_rep_empty reliable
    by (auto simp: settings_inv_def)
qed

end
