(* ===== verification/Home_Metadata.thy ===== *)
theory Home_Metadata
  imports Home_Command
begin

text \<open>
  The control records of a home: the header of \<^verbatim>\<open>crates/beryl-home-store/src/header.rs\<close>, the home
  revision and the domain registrations of \<^verbatim>\<open>metadata.rs\<close>, and the reads of both by \<^verbatim>\<open>read.rs\<close>.
  An \<^verbatim>\<open>io::Error\<close> of kind \<^verbatim>\<open>InvalidData\<close> is its message.
\<close>

section \<open>Constants and data\<close>

definition HEADER_KEYSPACE :: keyspace where "HEADER_KEYSPACE = ''_beryl_home''"
definition HOME_REVISION_KEY :: bytes where "HOME_REVISION_KEY = ascii_bytes ''revision''"
definition DOMAINS_KEYSPACE :: keyspace where "DOMAINS_KEYSPACE = ''_beryl_domains''"

definition REVISION_MAGIC :: bytes where "REVISION_MAGIC = ascii_bytes ''BRYLREVN''"
definition DOMAIN_MAGIC :: bytes where "DOMAIN_MAGIC = ascii_bytes ''BRYLDOMN''"
definition METADATA_ENCODING :: u32 where "METADATA_ENCODING = 1"
definition HOME_REVISION_BYTES :: usize where "HOME_REVISION_BYTES = 20"
definition MAX_DOMAIN_METADATA_BYTES :: usize where "MAX_DOMAIN_METADATA_BYTES = 8 * 1024"
definition DOMAIN_METADATA_ENVELOPE_BYTES :: usize where "DOMAIN_METADATA_ENVELOPE_BYTES = 26"

definition MAX_FAMILIES :: usize where
  "MAX_FAMILIES =
     (let from_bytes = (MAX_DOMAIN_METADATA_BYTES - DOMAIN_METADATA_ENVELOPE_BYTES) div 12
      in if from_bytes < 65535 then from_bytes else 65535)"

record PersistedFamily =
  pf_logical_name :: str
  pf_physical_name :: str
  pf_schema :: u32

record DomainMetadata =
  md_schema :: u32
  md_revision :: DomainRevision
  md_families :: "PersistedFamily list"

section \<open>Encoding\<close>

definition encode_home_revision :: "HomeRevision \<Rightarrow> bytes" where
  "encode_home_revision revision =
     REVISION_MAGIC @ to_be_bytes METADATA_ENCODING @ to_be_bytes (nz_get revision)"

definition write_string :: "str \<Rightarrow> string + bytes" where
  "write_string v =
     (if str_bytes v = [] then Inl ''metadata string is empty''
      else if 255 < length (str_bytes v) then Inl ''metadata string exceeds 255 bytes''
      else Inr ((of_nat (length (str_bytes v)) :: u8) # str_bytes v))"

fun write_families :: "PersistedFamily list \<Rightarrow> string + bytes" where
  "write_families [] = Inr []"
| "write_families (family # families) =
     and_then (write_string (pf_logical_name family)) (\<lambda>logical.
     and_then (write_string (pf_physical_name family)) (\<lambda>physical.
     and_then (write_families families) (\<lambda>rest.
       Inr (logical @ physical @ to_be_bytes (pf_schema family) @ rest))))"

definition metadata_encode :: "DomainMetadata \<Rightarrow> string + bytes" where
  "metadata_encode md =
     (if MAX_FAMILIES < length (md_families md)
      then Inl ''domain metadata contains too many keyspace families''
      else if 65535 < length (md_families md) then Inl ''domain family count does not fit''
      else and_then (write_families (md_families md)) (\<lambda>families.
        let encoded = DOMAIN_MAGIC @ to_be_bytes METADATA_ENCODING @ to_be_bytes (md_schema md) @
          to_be_bytes (nz_get (md_revision md)) @ to_be_bytes (of_nat (length (md_families md)) :: u16) @ families
        in if MAX_DOMAIN_METADATA_BYTES < length encoded
           then Inl ''domain metadata exceeds its stored byte bound''
           else Inr encoded))"

section \<open>Decoding\<close>

text \<open>\<^verbatim>\<open>slice.get(lo..hi)\<close>\<close>

definition slice_get :: "bytes \<Rightarrow> usize \<Rightarrow> usize \<Rightarrow> bytes option" where
  "slice_get bs lo hi = (if lo \<le> hi \<and> hi \<le> length bs then Some (take (hi - lo) (drop lo bs)) else None)"

definition read_u16 :: "bytes \<Rightarrow> usize \<Rightarrow> string + u16" where
  "read_u16 encoded offset =
     and_then (ok_or ''metadata integer is truncated'' (slice_get encoded offset (offset + 2)))
       (\<lambda>bs. Inr (from_be_bytes bs))"

definition read_u32 :: "bytes \<Rightarrow> usize \<Rightarrow> string + u32" where
  "read_u32 encoded offset =
     and_then (ok_or ''metadata integer is truncated'' (slice_get encoded offset (offset + 4)))
       (\<lambda>bs. Inr (from_be_bytes bs))"

definition read_u64 :: "bytes \<Rightarrow> usize \<Rightarrow> string + u64" where
  "read_u64 encoded offset =
     and_then (ok_or ''metadata integer is truncated'' (slice_get encoded offset (offset + 8)))
       (\<lambda>bs. Inr (from_be_bytes bs))"

definition read_nonzero_u32 :: "bytes \<Rightarrow> usize \<Rightarrow> string \<Rightarrow> string + u32" where
  "read_nonzero_u32 encoded offset name =
     and_then (read_u32 encoded offset) (\<lambda>v. if v = 0 then Inl (name @ '' is zero'') else Inr v)"

definition read_nonzero_u32_at :: "bytes \<Rightarrow> usize \<Rightarrow> string \<Rightarrow> string + (u32 \<times> usize)" where
  "read_nonzero_u32_at encoded offset name =
     and_then (read_nonzero_u32 encoded offset name) (\<lambda>v. Inr (v, offset + 4))"

definition read_string :: "bytes \<Rightarrow> usize \<Rightarrow> string + (str \<times> usize)" where
  "read_string encoded offset =
     and_then (ok_or ''metadata string length is missing''
         (if offset < length encoded then Some (encoded ! offset) else None)) (\<lambda>len.
     if unat len = 0 then Inl ''metadata string is empty''
     else and_then (ok_or ''metadata string length overflows'' (usize_checked_add (offset + 1) (unat len))) (\<lambda>stop.
       and_then (ok_or ''metadata string is truncated'' (slice_get encoded (offset + 1) stop)) (\<lambda>bs.
       and_then (ok_or ''metadata string is not UTF-8'' (from_utf8 bs)) (\<lambda>s. Inr (s, stop)))))"

fun read_families :: "bytes \<Rightarrow> nat \<Rightarrow> usize \<Rightarrow> string + (PersistedFamily list \<times> usize)" where
  "read_families encoded 0 offset = Inr ([], offset)"
| "read_families encoded (Suc n) offset =
     and_then (read_string encoded offset) (\<lambda>(logical, offset).
     and_then (read_string encoded offset) (\<lambda>(physical, offset).
     and_then (read_nonzero_u32_at encoded offset ''keyspace schema'') (\<lambda>(schema, offset).
     and_then (read_families encoded n offset) (\<lambda>(families, offset).
       Inr (\<lparr>pf_logical_name = logical, pf_physical_name = physical, pf_schema = schema\<rparr> # families, offset)))))"

definition decode_home_revision :: "bytes \<Rightarrow> string + HomeRevision" where
  "decode_home_revision encoded =
     (if length encoded \<noteq> HOME_REVISION_BYTES \<or> take 8 encoded \<noteq> REVISION_MAGIC
      then Inl ''home revision record has an invalid envelope''
      else and_then (read_u32 encoded 8) (\<lambda>encoding.
        if encoding \<noteq> METADATA_ENCODING then Inl ''home revision record uses an unsupported encoding''
        else and_then (read_u64 encoded 12) (\<lambda>raw.
          map_err (\<lambda>_. ''home revision is zero'') (revision_new raw))))"

definition metadata_decode :: "bytes \<Rightarrow> string + DomainMetadata" where
  "metadata_decode encoded =
     (if MAX_DOMAIN_METADATA_BYTES < length encoded \<or> length encoded < DOMAIN_METADATA_ENVELOPE_BYTES
      then Inl ''domain metadata has an invalid size''
      else if take 8 encoded \<noteq> DOMAIN_MAGIC then Inl ''domain metadata has an invalid envelope''
      else and_then (read_u32 encoded 8) (\<lambda>encoding.
        if encoding \<noteq> METADATA_ENCODING then Inl ''domain metadata uses an unsupported encoding''
        else and_then (read_nonzero_u32 encoded 12 ''domain schema'') (\<lambda>schema.
          and_then (read_u64 encoded 16) (\<lambda>raw.
          and_then (ok_or ''domain revision is zero'' (nonzero_u64_new raw)) (\<lambda>revision.
          and_then (read_u16 encoded 24) (\<lambda>count.
            if MAX_FAMILIES < unat count then Inl ''domain metadata contains too many keyspace families''
            else and_then (read_families encoded (unat count) DOMAIN_METADATA_ENVELOPE_BYTES) (\<lambda>(families, offset).
              if offset \<noteq> length encoded then Inl ''domain metadata has trailing bytes''
              else Inr \<lparr>md_schema = schema, md_revision = revision, md_families = families\<rparr>)))))))"

section \<open>The header of a home\<close>

definition HEADER_MAGIC :: bytes where "HEADER_MAGIC = ascii_bytes ''BRYLHOME''"
definition HEADER_ENCODING_VERSION :: u16 where "HEADER_ENCODING_VERSION = 1"
definition HEADER_LENGTH :: usize where "HEADER_LENGTH = length HEADER_MAGIC + 2 + 4 + 16"

type_synonym BerylHomeId = arr16

record HomeHeader =
  hh_schema :: u32
  hh_home_id :: BerylHomeId

datatype HeaderDecodeError = WrongLength usize | WrongMagic | UnsupportedEncoding u16 | ZeroSchema

definition home_schema_version_new :: "u32 \<Rightarrow> u32 option" where
  "home_schema_version_new v = (if v = 0 then None else Some v)"

definition header_encode :: "HomeHeader \<Rightarrow> bytes" where
  "header_encode h =
     HEADER_MAGIC @ to_be_bytes HEADER_ENCODING_VERSION @ to_be_bytes (hh_schema h) @ arr16_bytes (hh_home_id h)"

definition header_decode :: "bytes \<Rightarrow> HeaderDecodeError + HomeHeader" where
  "header_decode encoded =
     (if length encoded \<noteq> HEADER_LENGTH then Inl (WrongLength (length encoded))
      else if take 8 encoded \<noteq> HEADER_MAGIC then Inl WrongMagic
      else let encoding = from_be_bytes [encoded ! 8, encoded ! 9] in
        if encoding \<noteq> HEADER_ENCODING_VERSION then Inl (UnsupportedEncoding encoding)
        else let schema = from_be_bytes [encoded ! 10, encoded ! 11, encoded ! 12, encoded ! 13] in
          and_then (ok_or ZeroSchema (home_schema_version_new schema)) (\<lambda>schema.
            Inr \<lparr>hh_schema = schema, hh_home_id = arr16_of (drop 14 encoded)\<rparr>))"

section \<open>Reads of the control records\<close>

definition read_home_revision :: "'io snapshot \<Rightarrow> ('io, 'e) ReadError + HomeRevision" where
  "read_home_revision sn =
     and_then (map_err (Storage StageHomeRevision) (snap_point sn HEADER_KEYSPACE HOME_REVISION_KEY)) (\<lambda>point.
     and_then (ok_or (InvalidRevisionMetadata ''home'' ''home revision record is missing'') point) (\<lambda>(len, acquire).
     if unat len \<noteq> HOME_REVISION_BYTES
     then Inl (InvalidRevisionMetadata ''home'' ''home revision record has an invalid stored length'')
     else and_then (map_err (Storage StageHomeRevision) acquire) (\<lambda>stored.
       map_err (InvalidRevisionMetadata ''home'') (decode_home_revision stored))))"

definition read_domain_metadata :: "'io snapshot \<Rightarrow> string \<Rightarrow> ('io, 'e) ReadError + DomainMetadata" where
  "read_domain_metadata sn domain =
     and_then (map_err (Storage StageDomainRevision) (snap_point sn DOMAINS_KEYSPACE (ascii_bytes domain))) (\<lambda>point.
     and_then (ok_or (InvalidRevisionMetadata ''domain'' ''domain registration record is missing'') point)
       (\<lambda>(len, acquire).
     if MAX_DOMAIN_METADATA_BYTES < unat len
     then Inl (InvalidRevisionMetadata ''domain'' ''domain registration record exceeds its stored byte bound'')
     else and_then (map_err (Storage StageDomainRevision) acquire) (\<lambda>stored.
       map_err (InvalidRevisionMetadata ''domain'') (metadata_decode stored))))"

section \<open>Fields at an offset\<close>

definition lies_at :: "bytes \<Rightarrow> nat \<Rightarrow> bytes \<Rightarrow> bool" where
  "lies_at bs off xs \<longleftrightarrow> off + length xs \<le> length bs \<and> take (length xs) (drop off bs) = xs"

lemma lies_at_Nil [simp]: "lies_at bs off [] \<longleftrightarrow> off \<le> length bs"
  by (simp add: lies_at_def)

lemma lies_at_append: "lies_at bs off (xs @ ys) \<longleftrightarrow> lies_at bs off xs \<and> lies_at bs (off + length xs) ys"
  by (auto simp: lies_at_def take_add append_eq_append_conv add.commute add.left_commute)

lemma lies_at_whole: "lies_at bs 0 xs \<and> length bs = length xs \<longleftrightarrow> bs = xs"
  by (auto simp: lies_at_def)

lemma slice_get_eq_Some:
  "slice_get bs lo hi = Some xs \<longleftrightarrow> lo \<le> hi \<and> length xs = hi - lo \<and> lies_at bs lo xs"
  by (auto simp: slice_get_def lies_at_def)

text \<open>A reader that advances an offset, inverse to an encoder.\<close>

locale offset_wire =
  fixes enc :: "'a \<Rightarrow> bytes" and rd :: "bytes \<Rightarrow> nat \<Rightarrow> string + ('a \<times> nat)" and ok :: "'a \<Rightarrow> bool"
    and bound :: nat
  assumes at_iff: "length bs < bound \<Longrightarrow>
    rd bs off = Inr (v, off') \<longleftrightarrow> ok v \<and> off' = off + length (enc v) \<and> lies_at bs off (enc v)"
begin

lemma read_end: "length bs < bound \<Longrightarrow> rd bs off = Inr (v, off') \<Longrightarrow> off' \<le> length bs"
  using at_iff lies_at_def by auto

end

lemma slice_word:
  assumes "8 dvd LENGTH('a::len)" and "n = LENGTH('a) div 8"
  shows "and_then (ok_or e (slice_get bs off (off + n))) (\<lambda>xs. Inr (from_be_bytes xs :: 'a word)) = Inr v \<longleftrightarrow>
    lies_at bs off (to_be_bytes v)"
proof
  assume "and_then (ok_or e (slice_get bs off (off + n))) (\<lambda>xs. Inr (from_be_bytes xs :: 'a word)) = Inr v"
  then obtain xs where "slice_get bs off (off + n) = Some xs" and v: "from_be_bytes xs = v"
    by (auto simp: and_then_eq_Inr)
  then have xs: "length xs = n" "lies_at bs off xs" by (simp_all add: slice_get_eq_Some)
  with v assms have "to_be_bytes v = xs" using to_from_be_bytes by blast
  with xs show "lies_at bs off (to_be_bytes v)" by simp
next
  assume "lies_at bs off (to_be_bytes v)"
  then have "slice_get bs off (off + n) = Some (to_be_bytes v)" using assms by (simp add: slice_get_eq_Some)
  then show "and_then (ok_or e (slice_get bs off (off + n))) (\<lambda>xs. Inr (from_be_bytes xs :: 'a word)) = Inr v"
    using assms by (simp add: from_to_be_bytes)
qed

lemma read_u16_eq: "read_u16 bs off = Inr v \<longleftrightarrow> lies_at bs off (to_be_bytes v)"
  and read_u32_eq: "read_u32 bs off = Inr w \<longleftrightarrow> lies_at bs off (to_be_bytes w)"
  and read_u64_eq: "read_u64 bs off = Inr x \<longleftrightarrow> lies_at bs off (to_be_bytes x)"
  unfolding read_u16_def read_u32_def read_u64_def by (rule slice_word; simp)+

lemmas read_word_eq = read_u16_eq read_u32_eq read_u64_eq

lemma read_nonzero_u32_eq: "read_nonzero_u32 bs off name = Inr v \<longleftrightarrow> v \<noteq> 0 \<and> lies_at bs off (to_be_bytes v)"
  by (auto simp: read_nonzero_u32_def result_simps read_word_eq split: if_splits)

interpretation o_schema: offset_wire "to_be_bytes :: u32 \<Rightarrow> bytes" "\<lambda>bs off. read_nonzero_u32_at bs off name" "\<lambda>v. v \<noteq> 0" n
  for name n
  by unfold_locales (auto simp: read_nonzero_u32_at_def result_simps read_nonzero_u32_eq)

definition string_ok :: "str \<Rightarrow> bool" where
  "string_ok v \<longleftrightarrow> str_bytes v \<noteq> [] \<and> length (str_bytes v) \<le> 255"

definition string_bytes :: "str \<Rightarrow> bytes" where
  "string_bytes v = (of_nat (length (str_bytes v)) :: u8) # str_bytes v"

lemma write_string_eq_Inr: "write_string v = Inr bs \<longleftrightarrow> string_ok v \<and> bs = string_bytes v"
  by (auto simp: write_string_def string_ok_def string_bytes_def)

lemma unat_len_u8: "n \<le> 255 \<Longrightarrow> unat (of_nat n :: u8) = n"
  by (simp add: unat_of_nat)

lemma lies_at_Cons: "lies_at bs off (x # xs) \<longleftrightarrow> off < length bs \<and> bs ! off = x \<and> lies_at bs (off + 1) xs"
proof -
  have "lies_at bs off [x] \<longleftrightarrow> off < length bs \<and> bs ! off = x"
    by (auto simp: lies_at_def Cons_nth_drop_Suc [symmetric] Suc_le_eq)
  then show ?thesis using lies_at_append [of bs off "[x]" xs] by simp
qed

interpretation o_string: offset_wire string_bytes read_string string_ok "2 ^ 32"
proof
  fix bs :: bytes and off v off'
  assume len: "length bs < 2 ^ 32"
  show "read_string bs off = Inr (v, off') \<longleftrightarrow>
      string_ok v \<and> off' = off + length (string_bytes v) \<and> lies_at bs off (string_bytes v)"
  proof
    assume "read_string bs off = Inr (v, off')"
    then show "string_ok v \<and> off' = off + length (string_bytes v) \<and> lies_at bs off (string_bytes v)"
      using unat_u8_less [of "bs ! off"]
      by (auto simp: read_string_def result_simps usize_checked_add_eq_Some slice_get_eq_Some from_utf8_eq_Some
          string_ok_def string_bytes_def lies_at_Cons split: if_splits)
  next
    assume v: "string_ok v \<and> off' = off + length (string_bytes v) \<and> lies_at bs off (string_bytes v)"
    then have "off < length bs" "bs ! off = of_nat (length (str_bytes v))" "lies_at bs (off + 1) (str_bytes v)"
      by (simp_all add: string_bytes_def lies_at_Cons)
    moreover from this(3) have "slice_get bs (off + 1) (off + 1 + length (str_bytes v)) = Some (str_bytes v)"
      by (simp add: slice_get_eq_Some)
    moreover have "length (str_bytes v) \<le> 255" "str_bytes v \<noteq> []" using v by (simp_all add: string_ok_def)
    ultimately show "read_string bs off = Inr (v, off')"
      using v len lies_at_def [of bs "off + 1" "str_bytes v"]
      by (simp add: read_string_def unat_len_u8 usize_checked_add_def usize_max_def string_bytes_def)
  qed
qed

section \<open>The codecs are canonical\<close>

definition family_ok :: "PersistedFamily \<Rightarrow> bool" where
  "family_ok f \<longleftrightarrow> string_ok (pf_logical_name f) \<and> string_ok (pf_physical_name f) \<and> pf_schema f \<noteq> 0"

definition family_bytes :: "PersistedFamily \<Rightarrow> bytes" where
  "family_bytes f = string_bytes (pf_logical_name f) @ string_bytes (pf_physical_name f) @ to_be_bytes (pf_schema f)"

lemma write_families_eq_Inr:
  "write_families fs = Inr bs \<longleftrightarrow>
     list_all (\<lambda>f. string_ok (pf_logical_name f) \<and> string_ok (pf_physical_name f)) fs \<and> bs = concat (map family_bytes fs)"
  by (induction fs arbitrary: bs) (auto simp: result_simps write_string_eq_Inr family_bytes_def)

lemma read_families_eq:
  assumes "length bs < 2 ^ 32"
  shows "off \<le> length bs \<Longrightarrow> read_families bs n off = Inr (fs, off') \<longleftrightarrow>
    length fs = n \<and> list_all family_ok fs \<and> off' = off + length (concat (map family_bytes fs)) \<and>
    lies_at bs off (concat (map family_bytes fs))"
proof (induction n arbitrary: off fs off')
  case 0
  then show ?case by auto
next
  case (Suc n)
  note at = o_string.at_iff [OF assms] o_schema.at_iff [OF assms]
  show ?case
  proof
    assume "read_families bs (Suc n) off = Inr (fs, off')"
    then obtain l p s o1 o2 o3 gs where r: "read_string bs off = Inr (l, o1)" "read_string bs o1 = Inr (p, o2)"
      "read_nonzero_u32_at bs o2 ''keyspace schema'' = Inr (s, o3)" "read_families bs n o3 = Inr (gs, off')"
      and fs: "fs = \<lparr>pf_logical_name = l, pf_physical_name = p, pf_schema = s\<rparr> # gs"
      by (auto simp: result_simps)
    have "o3 \<le> length bs" using o_schema.read_end [OF assms r(3)] .
    from Suc.IH [OF this, of gs off'] r(4)
    have "length gs = n \<and> list_all family_ok gs \<and> off' = o3 + length (concat (map family_bytes gs)) \<and>
        lies_at bs o3 (concat (map family_bytes gs))" by simp
    with r(1-3) fs show "length fs = Suc n \<and> list_all family_ok fs \<and>
        off' = off + length (concat (map family_bytes fs)) \<and> lies_at bs off (concat (map family_bytes fs))"
      by (simp add: at family_ok_def family_bytes_def lies_at_append add.assoc)
  next
    assume "length fs = Suc n \<and> list_all family_ok fs \<and>
        off' = off + length (concat (map family_bytes fs)) \<and> lies_at bs off (concat (map family_bytes fs))"
    then obtain f gs where fs: "fs = f # gs" and ok: "length gs = n" "list_all family_ok gs" "family_ok f"
      and off: "off' = off + length (family_bytes f) + length (concat (map family_bytes gs))"
      and at': "lies_at bs off (family_bytes f)"
        "lies_at bs (off + length (family_bytes f)) (concat (map family_bytes gs))"
      by (cases fs) (auto simp: lies_at_append)
    have "off + length (family_bytes f) \<le> length bs" using at'(1) by (simp add: lies_at_def)
    from Suc.IH [OF this, of gs off'] ok off at'(2)
    have "read_families bs n (off + length (family_bytes f)) = Inr (gs, off')" by simp
    moreover have
      "read_string bs off = Inr (pf_logical_name f, off + length (string_bytes (pf_logical_name f)))"
      "read_string bs (off + length (string_bytes (pf_logical_name f))) = Inr (pf_physical_name f,
         off + length (string_bytes (pf_logical_name f)) + length (string_bytes (pf_physical_name f)))"
      "read_nonzero_u32_at bs (off + length (string_bytes (pf_logical_name f)) +
         length (string_bytes (pf_physical_name f))) ''keyspace schema'' = Inr (pf_schema f, off + length (family_bytes f))"
      using at'(1) ok(3) by (auto simp: at family_ok_def family_bytes_def lies_at_append add.assoc)
    ultimately show "read_families bs (Suc n) off = Inr (fs, off')" by (simp add: fs)
  qed
qed

definition metadata_ok :: "DomainMetadata \<Rightarrow> bool" where
  "metadata_ok md \<longleftrightarrow> md_schema md \<noteq> 0 \<and> list_all (\<lambda>f. pf_schema f \<noteq> 0) (md_families md)"

definition metadata_bytes :: "DomainMetadata \<Rightarrow> bytes" where
  "metadata_bytes md = DOMAIN_MAGIC @ to_be_bytes METADATA_ENCODING @ to_be_bytes (md_schema md) @
     to_be_bytes (nz_get (md_revision md)) @ to_be_bytes (of_nat (length (md_families md)) :: u16) @
     concat (map family_bytes (md_families md))"

lemma length_magic [simp]:
  "length DOMAIN_MAGIC = 8" "length REVISION_MAGIC = 8" "length HEADER_MAGIC = 8"
  by (simp_all add: DOMAIN_MAGIC_def REVISION_MAGIC_def HEADER_MAGIC_def)

lemma MAX_FAMILIES_val: "MAX_FAMILIES = 680"
  by (simp add: MAX_FAMILIES_def MAX_DOMAIN_METADATA_BYTES_def DOMAIN_METADATA_ENVELOPE_BYTES_def Let_def)

lemma metadata_encode_eq_Inr:
  "metadata_encode md = Inr bs \<longleftrightarrow> length (md_families md) \<le> MAX_FAMILIES \<and>
     list_all (\<lambda>f. string_ok (pf_logical_name f) \<and> string_ok (pf_physical_name f)) (md_families md) \<and>
     bs = metadata_bytes md \<and> length bs \<le> MAX_DOMAIN_METADATA_BYTES"
  by (auto simp: metadata_encode_def result_simps write_families_eq_Inr metadata_bytes_def MAX_FAMILIES_val Let_def
      split: if_splits)

lemma lies_at_take: "take (length xs) bs = xs \<longleftrightarrow> lies_at bs 0 xs"
  by (metis add_0 drop0 length_take lies_at_def min.cobounded1 nle_le)

lemma lies_at_metadata:
  "lies_at bs 0 (metadata_bytes md) \<longleftrightarrow> lies_at bs 0 DOMAIN_MAGIC \<and> lies_at bs 8 (to_be_bytes METADATA_ENCODING) \<and>
     lies_at bs 12 (to_be_bytes (md_schema md)) \<and> lies_at bs 16 (to_be_bytes (nz_get (md_revision md))) \<and>
     lies_at bs 24 (to_be_bytes (of_nat (length (md_families md)) :: u16)) \<and>
     lies_at bs 26 (concat (map family_bytes (md_families md)))"
  by (simp add: metadata_bytes_def lies_at_append)

lemma length_metadata_bytes: "length (metadata_bytes md) = 26 + length (concat (map family_bytes (md_families md)))"
  by (simp add: metadata_bytes_def)

lemma metadata_decode_eq_Inr:
  "metadata_decode bs = Inr md \<longleftrightarrow> metadata_ok md \<and> metadata_encode md = Inr bs"
proof
  assume dec: "metadata_decode bs = Inr md"
  then have len: "length bs \<le> 8192" "26 \<le> length bs" and magic: "lies_at bs 0 DOMAIN_MAGIC"
    using lies_at_take [of DOMAIN_MAGIC bs] by (auto simp: metadata_decode_def MAX_DOMAIN_METADATA_BYTES_def
        DOMAIN_METADATA_ENVELOPE_BYTES_def split: if_splits)
  obtain count where f: "lies_at bs 8 (to_be_bytes METADATA_ENCODING)" "md_schema md \<noteq> 0"
      "lies_at bs 12 (to_be_bytes (md_schema md))" "lies_at bs 16 (to_be_bytes (nz_get (md_revision md)))"
      "lies_at bs 24 (to_be_bytes (count :: u16))" "unat count \<le> MAX_FAMILIES"
      "read_families bs (unat count) 26 = Inr (md_families md, length bs)"
    using dec by (auto simp: metadata_decode_def result_simps read_word_eq read_nonzero_u32_eq
        nonzero_u64_new_eq_Some DOMAIN_METADATA_ENVELOPE_BYTES_def split: if_splits)
  have fams: "length (md_families md) = unat count" "list_all family_ok (md_families md)"
      "length bs = 26 + length (concat (map family_bytes (md_families md)))"
      "lies_at bs 26 (concat (map family_bytes (md_families md)))"
    using f(7) read_families_eq [of bs 26 "unat count" "md_families md" "length bs"] len by auto
  have "lies_at bs 0 (metadata_bytes md)"
    using magic f(1,3,4,5) fams(1,4) by (simp add: lies_at_metadata)
  then have "bs = metadata_bytes md" using fams(3) lies_at_whole [of bs "metadata_bytes md"] length_metadata_bytes [of md] by simp
  moreover have "list_all (\<lambda>f. string_ok (pf_logical_name f) \<and> string_ok (pf_physical_name f)) (md_families md)"
      "metadata_ok md"
    using fams(2) f(2) by (auto simp: metadata_ok_def list_all_iff family_ok_def)
  ultimately show "metadata_ok md \<and> metadata_encode md = Inr bs"
    using len f(6) fams(1) by (simp add: metadata_encode_eq_Inr MAX_DOMAIN_METADATA_BYTES_def)
next
  assume md: "metadata_ok md \<and> metadata_encode md = Inr bs"
  then have bs: "bs = metadata_bytes md" "length bs \<le> 8192" "length (md_families md) \<le> MAX_FAMILIES"
      "list_all family_ok (md_families md)" "md_schema md \<noteq> 0"
    by (auto simp: metadata_encode_eq_Inr MAX_DOMAIN_METADATA_BYTES_def metadata_ok_def list_all_iff family_ok_def)
  then have at: "lies_at bs 0 (metadata_bytes md)" and len: "26 \<le> length bs"
      "length bs = 26 + length (concat (map family_bytes (md_families md)))"
    using lies_at_whole length_metadata_bytes by auto
  have count: "unat (of_nat (length (md_families md)) :: u16) = length (md_families md)"
    using bs(3) by (simp add: MAX_FAMILIES_val unat_of_nat)
  have "read_families bs (length (md_families md)) 26 = Inr (md_families md, length bs)"
    using at bs len read_families_eq [of bs 26] by (simp add: lies_at_metadata)
  moreover have "take 8 bs = DOMAIN_MAGIC" "read_u32 bs 8 = Inr METADATA_ENCODING"
      "read_nonzero_u32 bs 12 ''domain schema'' = Inr (md_schema md)" "read_u64 bs 16 = Inr (nz_get (md_revision md))"
      "read_u16 bs 24 = Inr (of_nat (length (md_families md)))"
    using at bs(5) lies_at_take [of DOMAIN_MAGIC bs]
    by (simp_all add: lies_at_metadata read_word_eq read_nonzero_u32_eq)
  ultimately show "metadata_decode bs = Inr md"
    using bs(2,3) len(1) count
    by (simp add: metadata_decode_def MAX_DOMAIN_METADATA_BYTES_def DOMAIN_METADATA_ENVELOPE_BYTES_def)
qed

lemma decode_home_revision_eq_Inr: "decode_home_revision bs = Inr r \<longleftrightarrow> bs = encode_home_revision r"
proof -
  have enc: "lies_at bs 0 (encode_home_revision r) \<longleftrightarrow> lies_at bs 0 REVISION_MAGIC \<and>
      lies_at bs 8 (to_be_bytes METADATA_ENCODING) \<and> lies_at bs 12 (to_be_bytes (nz_get r))"
    "length (encode_home_revision r) = 20"
    by (simp_all add: encode_home_revision_def lies_at_append)
  have "decode_home_revision bs = Inr r \<longleftrightarrow> lies_at bs 0 (encode_home_revision r) \<and> length bs = 20"
    using lies_at_take [of REVISION_MAGIC bs]
    by (auto simp: decode_home_revision_def result_simps read_word_eq revision_new_eq_Inr enc HOME_REVISION_BYTES_def)
  then show ?thesis using lies_at_whole [of bs "encode_home_revision r"] enc(2) by simp
qed

lemma length_encode_home_revision [simp]: "length (encode_home_revision r) = HOME_REVISION_BYTES"
  by (simp add: encode_home_revision_def HOME_REVISION_BYTES_def)

lemma header_decode_eq_Inr: "header_decode bs = Inr h \<longleftrightarrow> hh_schema h \<noteq> 0 \<and> bs = header_encode h"
proof -
  have nth: "[bs ! 8, bs ! 9] = take 2 (drop 8 bs)" "[bs ! 10, bs ! 11, bs ! 12, bs ! 13] = take 4 (drop 10 bs)"
    if "length bs = 30"
    using that by (simp_all add: Cons_nth_drop_Suc [symmetric] numeral_eq_Suc)
  have split: "bs = take 8 bs @ take 2 (drop 8 bs) @ take 4 (drop 10 bs) @ drop 14 bs"
    using append_take_drop_id [of 2 "drop 8 bs"] append_take_drop_id [of 4 "drop 10 bs"] by simp
  show ?thesis
  proof
    assume dec: "header_decode bs = Inr h"
    then have len: "length bs = 30" and magic: "take 8 bs = HEADER_MAGIC"
      and enc: "from_be_bytes [bs ! 8, bs ! 9] = HEADER_ENCODING_VERSION"
      and schema: "from_be_bytes [bs ! 10, bs ! 11, bs ! 12, bs ! 13] = hh_schema h" "hh_schema h \<noteq> 0"
      and id: "hh_home_id h = arr16_of (drop 14 bs)"
      by (auto simp: header_decode_def result_simps HEADER_LENGTH_def home_schema_version_new_def Let_def split: if_splits)
    have "to_be_bytes HEADER_ENCODING_VERSION = [bs ! 8, bs ! 9]"
      "to_be_bytes (hh_schema h) = [bs ! 10, bs ! 11, bs ! 12, bs ! 13]"
      unfolding enc [symmetric] schema(1) [symmetric] by (simp_all add: to_from_be_bytes)
    then show "hh_schema h \<noteq> 0 \<and> bs = header_encode h"
      using split nth [OF len] magic id schema(2) len by (simp add: header_encode_def)
  next
    assume h: "hh_schema h \<noteq> 0 \<and> bs = header_encode h"
    then have len: "length bs = 30" by (simp add: header_encode_def)
    have bs: "take 8 bs = HEADER_MAGIC" "take 2 (drop 8 bs) = to_be_bytes HEADER_ENCODING_VERSION"
      "take 4 (drop 10 bs) = to_be_bytes (hh_schema h)" "drop 14 bs = arr16_bytes (hh_home_id h)"
      using h by (simp_all add: header_encode_def)
    have "from_be_bytes [bs ! 8, bs ! 9] = HEADER_ENCODING_VERSION"
      "from_be_bytes [bs ! 10, bs ! 11, bs ! 12, bs ! 13] = hh_schema h"
      unfolding nth [OF len] bs by simp_all
    then show "header_decode bs = Inr h"
      using h len bs(1,4) by (simp add: header_decode_def HEADER_LENGTH_def home_schema_version_new_def Let_def)
  qed
qed

text \<open>
  C23. The control records of a home are canonical: the decoders of the home revision, of a domain
  registration and of the header accept exactly the encodings of values with nonzero schemas.
\<close>

theorem control_records_canonical:
  "(decode_home_revision bs = Inr r \<longleftrightarrow> bs = encode_home_revision r) \<and>
   (metadata_decode bs = Inr md \<longleftrightarrow> metadata_encode md = Inr bs \<and> metadata_ok md) \<and>
   (header_decode bs = Inr h \<longleftrightarrow> bs = header_encode h \<and> hh_schema h \<noteq> 0)"
  by (auto simp: decode_home_revision_eq_Inr metadata_decode_eq_Inr header_decode_eq_Inr)

section \<open>What the reads return\<close>

lemma read_home_revision_sound:
  assumes "snapshot_of sn m" and "read_home_revision sn = Inr r"
  shows "m HEADER_KEYSPACE HOME_REVISION_KEY = Some (encode_home_revision r)"
  using assms(2) snapshot_of_point [OF assms(1), of HEADER_KEYSPACE HOME_REVISION_KEY]
  by (auto simp: read_home_revision_def result_simps decode_home_revision_eq_Inr point_agrees_def
      split: if_splits option.splits)

lemma reliable_point_Some:
  assumes "snapshot_reliable sn m" and "m ks k = Some bs"
  obtains len where "snap_point sn ks k = Inr (Some (len, Inr bs))" and "unat len = length bs"
proof (rule snapshot_reliable_point [OF assms(1), of ks k])
  fix r
  assume r: "snap_point sn ks k = Inr r" "point_agrees r (m ks k)" "\<And>len a. r = Some (len, a) \<Longrightarrow> \<exists>w. a = Inr w"
  then have "point_agrees r (Some bs)" using assms(2) by simp
  with r obtain len a where "r = Some (len, a)" by (cases r) (auto simp: point_agrees_def)
  moreover from this r(3) obtain w where "a = Inr w" by blast
  ultimately show ?thesis using that r(1) \<open>point_agrees r (Some bs)\<close> by (simp add: point_agrees_def)
qed

lemma read_home_revision_complete:
  assumes "snapshot_reliable sn m" and "m HEADER_KEYSPACE HOME_REVISION_KEY = Some (encode_home_revision r)"
  shows "read_home_revision sn = Inr r"
  by (rule reliable_point_Some [OF assms])
    (simp add: read_home_revision_def decode_home_revision_eq_Inr [THEN iffD2])

lemma read_domain_metadata_sound:
  assumes "snapshot_of sn m" and "read_domain_metadata sn domain = Inr md"
  shows "metadata_ok md \<and> (\<exists>bs. metadata_encode md = Inr bs \<and> m DOMAINS_KEYSPACE (ascii_bytes domain) = Some bs)"
  using assms(2) snapshot_of_point [OF assms(1), of DOMAINS_KEYSPACE "ascii_bytes domain"]
  by (auto simp: read_domain_metadata_def result_simps metadata_decode_eq_Inr point_agrees_def
      split: if_splits option.splits)

lemma read_domain_metadata_complete:
  assumes "snapshot_reliable sn m" and "metadata_ok md" and "metadata_encode md = Inr bs"
    and "m DOMAINS_KEYSPACE (ascii_bytes domain) = Some bs"
  shows "read_domain_metadata sn domain = Inr md"
proof -
  have "length bs \<le> MAX_DOMAIN_METADATA_BYTES" using assms(3) by (auto simp: metadata_encode_eq_Inr)
  moreover have "metadata_decode bs = Inr md" using assms(2,3) by (simp add: metadata_decode_eq_Inr)
  ultimately show ?thesis
    by (auto simp: read_domain_metadata_def intro: reliable_point_Some [OF assms(1,4)])
qed

end
