(* ===== verification/Home_Health.thy ===== *)
theory Home_Health
  imports Beryl_Std
begin

text \<open>
  The availability gate of an opened home, \<^verbatim>\<open>crates/beryl-home-store/src/health.rs\<close>: admission of the
  operations that depend on the state of the home, and the maintenance that replaces a failed home.
  A call of the code is a function of what the mutex guards and of the thread-local markers of its
  thread. A wait for the condition variable ends the first part of a call; what follows it is a
  definition of its own. The classification of errors of the storage engine is not modelled.
\<close>

section \<open>States and errors\<close>

datatype HomeHealthState = HomeOpening | HomeHealthy | HomeFailed | HomeReopening

type_synonym HomeGeneration = nat

definition home_generation_initial :: HomeGeneration where
  "home_generation_initial = 1"

definition home_generation_checked_next :: "HomeGeneration \<Rightarrow> HomeGeneration option" where
  "home_generation_checked_next g = (if g + 1 < 2 ^ 64 then Some (g + 1) else None)"

record HomeHealthSnapshot =
  hsn_state :: HomeHealthState
  hsn_generation :: "HomeGeneration option"

record HealthGateError =
  hge_state :: HomeHealthState
  hge_generation :: HomeGeneration

datatype FailureSeverity = Structural

datatype Maintenance = Recovery

datatype HealthMaintenanceError = InProgress HomeHealthState | InvalidState HomeHealthState

record HealthInner =
  hi_state :: HomeHealthState
  hi_generation :: HomeGeneration
  hi_active :: usize
  hi_maintenance :: "Maintenance option"

record HealthAdmission =
  ha_generation :: HomeGeneration
  ha_state :: HomeHealthState
  ha_counted :: bool

definition MAX_CONCURRENT_STORAGE_ADMISSIONS :: usize where
  "MAX_CONCURRENT_STORAGE_ADMISSIONS = 64"

section \<open>Delays between attempts to recover\<close>

definition DELAYS :: "nat list" where
  "DELAYS = [1, 2, 5, 10, 30]"

text \<open>The delay in seconds and the schedule after it, which counts the attempts.\<close>

definition next_delay :: "usize \<Rightarrow> nat \<times> usize" where
  "next_delay attempts = (DELAYS ! min attempts (length DELAYS - 1), usize_saturating_add attempts 1)"

section \<open>Markers of a thread\<close>

text \<open>A gate is known to a thread by its address.\<close>

definition thread_holds_gate :: "nat \<Rightarrow> nat list \<Rightarrow> bool" where
  "thread_holds_gate gate gates = (gate \<in> set gates)"

definition mark_thread_admitted :: "nat \<Rightarrow> nat list \<Rightarrow> nat list" where
  "mark_thread_admitted gate gates = gates @ [gate]"

fun rposition :: "('a \<Rightarrow> bool) \<Rightarrow> 'a list \<Rightarrow> nat option" where
  "rposition P [] = None"
| "rposition P (x # xs) = (case rposition P xs of Some i \<Rightarrow> Some (Suc i) | None \<Rightarrow> if P x then Some 0 else None)"

definition swap_remove :: "nat \<Rightarrow> 'a list \<Rightarrow> 'a list" where
  "swap_remove i xs = butlast (xs[i := last xs])"

text \<open>\<open>None\<close> is the panic of a missing marker.\<close>

definition clear_thread_admitted :: "nat \<Rightarrow> nat list \<Rightarrow> nat list option" where
  "clear_thread_admitted gate gates = map_option (\<lambda>slot. swap_remove slot gates) (rposition (\<lambda>candidate. candidate = gate) gates)"

section \<open>Admission\<close>

definition health_opening :: HealthInner where
  "health_opening = \<lparr>hi_state = HomeOpening, hi_generation = home_generation_initial, hi_active = 0, hi_maintenance = None\<rparr>"

definition health_snapshot :: "HealthInner \<Rightarrow> HomeHealthSnapshot" where
  "health_snapshot inner = \<lparr>hsn_state = hi_state inner, hsn_generation = Some (hi_generation inner)\<rparr>"

definition gate_error :: "HealthInner \<Rightarrow> HealthGateError" where
  "gate_error inner = \<lparr>hge_state = hi_state inner, hge_generation = hi_generation inner\<rparr>"

text \<open>What a call does when it has the mutex: it waits for \<^verbatim>\<open>drained\<close>, panics or returns.\<close>

datatype 'a gate_pass = GateWaits | GatePanics | GateReturns 'a

definition admit_state ::
    "nat \<Rightarrow> HomeHealthState \<Rightarrow> nat list \<Rightarrow> HealthInner \<Rightarrow>
     ((HealthGateError + HealthAdmission) \<times> nat list \<times> HealthInner) gate_pass" where
  "admit_state gate expected_state gates inner =
     (let nested = thread_holds_gate gate gates in
      if hi_state inner \<noteq> expected_state then GateReturns (Inl (gate_error inner), gates, inner)
      else if \<not> (nested \<or> hi_active inner < MAX_CONCURRENT_STORAGE_ADMISSIONS) then GateWaits
      else case (if nested then Some (hi_active inner) else usize_checked_add (hi_active inner) 1) of
        None \<Rightarrow> GatePanics
      | Some active \<Rightarrow>
          GateReturns (Inr \<lparr>ha_generation = hi_generation inner, ha_state = expected_state, ha_counted = (\<not> nested)\<rparr>,
            mark_thread_admitted gate gates, inner\<lparr>hi_active := active\<rparr>))"

text \<open>The end of an admission; \<open>None\<close> is a panic.\<close>

definition admission_drop :: "nat \<Rightarrow> HealthAdmission \<Rightarrow> nat list \<Rightarrow> HealthInner \<Rightarrow> (nat list \<times> HealthInner) option" where
  "admission_drop gate admission gates inner =
     (case clear_thread_admitted gate gates of
        None \<Rightarrow> None
      | Some gates \<Rightarrow>
          if \<not> ha_counted admission then Some (gates, inner)
          else if hi_active inner = 0 then None
          else Some (gates, inner\<lparr>hi_active := hi_active inner - 1\<rparr>))"

text \<open>
  An admission of another generation than the given one is not handed out. The mutex is taken again for
  the error and once more for the end of the admission: \<open>others\<close> and \<open>others'\<close> are what other threads
  do to the gate before that.
\<close>

definition admit_candidate ::
    "nat \<Rightarrow> HomeHealthState \<Rightarrow> HomeGeneration \<Rightarrow> (HealthInner \<Rightarrow> HealthInner) \<Rightarrow> (HealthInner \<Rightarrow> HealthInner) \<Rightarrow> nat list \<Rightarrow>
     HealthInner \<Rightarrow> ((HealthGateError + HealthAdmission) \<times> nat list \<times> HealthInner) gate_pass" where
  "admit_candidate gate state generation others others' gates inner = (case admit_state gate state gates inner of
     GateReturns (Inr admission, gates, inner) \<Rightarrow>
       if ha_generation admission \<noteq> generation
       then (let inner = others inner in case admission_drop gate admission gates (others' inner) of
           None \<Rightarrow> GatePanics
         | Some (gates, inner') \<Rightarrow> GateReturns (Inl (gate_error inner), gates, inner'))
       else GateReturns (Inr admission, gates, inner)
   | pass \<Rightarrow> pass)"

definition admit_generation ::
    "nat \<Rightarrow> HomeGeneration \<Rightarrow> (HealthInner \<Rightarrow> HealthInner) \<Rightarrow> (HealthInner \<Rightarrow> HealthInner) \<Rightarrow> nat list \<Rightarrow>
     HealthInner \<Rightarrow> ((HealthGateError + HealthAdmission) \<times> nat list \<times> HealthInner) gate_pass" where
  "admit_generation gate generation = admit_candidate gate HomeHealthy generation"

definition admission_confirm :: "HealthAdmission \<Rightarrow> HealthInner \<Rightarrow> HealthGateError + unit" where
  "admission_confirm admission inner =
     (if hi_state inner = ha_state admission \<and> hi_generation inner = ha_generation admission then Inr ()
      else Inl (gate_error inner))"

section \<open>Failure, opening and maintenance\<close>

definition signal_failure :: "FailureSeverity \<Rightarrow> HealthInner \<Rightarrow> HealthInner" where
  "signal_failure severity inner = (case (hi_state inner, severity) of
     (HomeHealthy, Structural) \<Rightarrow> inner\<lparr>hi_state := HomeFailed\<rparr>
   | (HomeOpening, Structural) \<Rightarrow> inner\<lparr>hi_state := HomeFailed\<rparr>
   | (HomeReopening, Structural) \<Rightarrow> inner\<lparr>hi_state := HomeFailed\<rparr>
   | _ \<Rightarrow> inner)"

text \<open>After this the call waits until no admission is active, if the generation was the current one.\<close>

definition retire_generation :: "HomeGeneration \<Rightarrow> HealthInner \<Rightarrow> HealthInner" where
  "retire_generation generation inner =
     (if hi_generation inner \<noteq> generation then inner else inner\<lparr>hi_state := HomeFailed\<rparr>)"

definition publish_opening :: "HomeGeneration \<Rightarrow> HealthInner \<Rightarrow> HealthGateError + HealthInner" where
  "publish_opening expected_generation inner =
     (if hi_state inner \<noteq> HomeOpening \<or> hi_generation inner \<noteq> expected_generation \<or> hi_active inner \<noteq> 0 \<or> hi_maintenance inner \<noteq> None
      then Inl (gate_error inner) else Inr (inner\<lparr>hi_state := HomeHealthy\<rparr>))"

text \<open>After this the call waits until no admission is active, and then returns the maintenance.\<close>

definition begin_maintenance :: "Maintenance \<Rightarrow> HealthInner \<Rightarrow> HealthMaintenanceError + HealthInner" where
  "begin_maintenance maintenance inner =
     (if hi_maintenance inner \<noteq> None then Inl (InProgress (hi_state inner))
      else if hi_state inner \<noteq> HomeFailed then Inl (InvalidState (hi_state inner))
      else Inr (inner\<lparr>hi_state := (case maintenance of Recovery \<Rightarrow> HomeReopening), hi_maintenance := Some maintenance\<rparr>))"

definition prepare_candidate :: "Maintenance \<Rightarrow> HomeGeneration \<Rightarrow> HealthInner \<Rightarrow> HealthGateError + HealthInner" where
  "prepare_candidate maintenance generation inner =
     (if hi_state inner \<noteq> HomeReopening \<or> hi_maintenance inner \<noteq> Some maintenance \<or> hi_active inner \<noteq> 0
      then Inl (gate_error inner) else Inr (inner\<lparr>hi_generation := generation\<rparr>))"

definition publish_candidate :: "Maintenance \<Rightarrow> HomeGeneration \<Rightarrow> HealthInner \<Rightarrow> HealthGateError + HealthInner" where
  "publish_candidate maintenance generation inner =
     (if hi_state inner \<noteq> HomeReopening \<or> hi_generation inner \<noteq> generation \<or> hi_maintenance inner \<noteq> Some maintenance \<or> hi_active inner \<noteq> 0
      then Inl (gate_error inner)
      else Inr (inner\<lparr>hi_state := HomeHealthy, hi_generation := generation, hi_maintenance := None\<rparr>))"

definition finish_failed :: "HealthInner \<Rightarrow> HealthInner" where
  "finish_failed inner = inner\<lparr>hi_state := HomeFailed, hi_maintenance := None\<rparr>"

text \<open>The drop of a maintenance that was not finished.\<close>

definition maintenance_drop :: "Maintenance \<Rightarrow> HealthInner \<Rightarrow> HealthInner" where
  "maintenance_drop maintenance inner =
     (if hi_maintenance inner = Some maintenance then inner\<lparr>hi_state := HomeFailed, hi_maintenance := None\<rparr> else inner)"

end
