(* ===== verification/Home_Writer.thy ===== *)
theory Home_Writer
  imports Home_Metadata Home_Health
begin

text \<open>
  The admitted writer of \<^verbatim>\<open>crates/beryl-home-store/src/writer.rs\<close>: revision fences, preparation of the
  participants, intended receipt, materialised reconciliation descriptor, assembly of the batch
  (\<^verbatim>\<open>writer/batch.rs\<close>) and its commit, for the commands of \<^verbatim>\<open>command.rs\<close> and the files below
  \<^verbatim>\<open>command/\<close>. The writer mutex serialises the calls, so a call is a function of the contents of the
  home. The calls of the storage engine are the fields of \<open>engine\<close>.
\<close>

section \<open>Domains, receipts and errors\<close>

record RegisteredDomain =
  dom_name :: string
  dom_schema :: u32
  dom_owner :: string
  dom_families :: "RegisteredFamily list"

definition domain_metadata :: "RegisteredDomain \<Rightarrow> DomainRevision \<Rightarrow> DomainMetadata" where
  "domain_metadata d revision =
     \<lparr>md_schema = dom_schema d, md_revision = revision,
      md_families = map (\<lambda>f. \<lparr>pf_logical_name = ascii (fam_logical_name f),
        pf_physical_name = ascii (fam_keyspace f), pf_schema = fam_schema f\<rparr>) (dom_families d)\<rparr>"

type_synonym StoreInstanceId = nat

record StoreGeneration =
  gen_instance_id :: StoreInstanceId
  gen_registry :: "RegisteredDomain list"

definition registry_get :: "StoreGeneration \<Rightarrow> usize \<Rightarrow> RegisteredDomain option" where
  "registry_get gen slot = (if slot < length (gen_registry gen) then Some (gen_registry gen ! slot) else None)"

datatype RevisionConflict =
    HomeConflict HomeRevision HomeRevision
  | DomainConflict string DomainRevision DomainRevision

fun conflict_name :: "RevisionConflict \<Rightarrow> string" where
  "conflict_name (HomeConflict expected current) = ''''"
| "conflict_name (DomainConflict domain expected current) = domain"

record CommitReceipt =
  rc_store :: StoreInstanceId
  rc_generation :: HomeGeneration
  rc_home_revision :: HomeRevision
  rc_domains :: "(usize \<times> DomainRevision) list"

definition receipt_revision :: "CommitReceipt \<Rightarrow> usize \<Rightarrow> DomainRevision option" where
  "receipt_revision receipt slot = map_of (rc_domains receipt) slot"

datatype ContributorCallbackStage = StageReservation | StageValidation | StageContribution

text \<open>
  The source of a commit error is an error of the engine, or the overflow of the batch accounting.
  \<open>Panicked\<close> stands for an \<^verbatim>\<open>expect\<close> that fails.
\<close>

datatype 'io CommitSource = EngineError 'io | BatchAccountingOverflow

datatype ('a, 'e) ErasedCallbackError = CallbackAccess 'a | CallbackRejected 'e

datatype ('io, 'a, 'e) CommandError =
    HealthGate HealthGateError
  | CancelledBeforeAdmission
  | LocalAdmissionRejected
  | InvalidCommandPair
  | ReentrantWriter
  | WriterPoisoned
  | GenerationPoisoned
  | ForeignSidecar
  | EmptyCommand
  | ValidationOnlyCommand
  | ForeignDomain string
  | DomainRegistrationInvariant string
  | Conflict usize "RevisionConflict list"
  | ContributorValidation string 'e
  | ContributorReservation string 'e
  | ContributorAccess string ContributorCallbackStage 'a
  | ContributorAssembly string 'e
  | EmptyContribution string
  | ReconciliationCapacity
  | ReconciliationDescriptorTooLarge usize usize
  | ReconciliationReservationMismatch string string usize usize
  | CommandRevisionExhausted string RevisionError
  | RevisionRead "('io, unit) ReadError"
  | MetadataFailure string
  | CommitFailure "'io CommitSource"
  | PersistenceFailure 'io
  | PersistenceAfterCommitFailure "('io, 'a, 'e) CommandError" "('io, 'a, 'e) CommandError"
  | Panicked string

definition callback_command_error ::
    "string \<Rightarrow> ContributorCallbackStage \<Rightarrow> ('a, 'e) ErasedCallbackError \<Rightarrow> ('io, 'a, 'e) CommandError" where
  "callback_command_error domain stage source = (case source of
     CallbackAccess a \<Rightarrow> ContributorAccess domain stage a
   | CallbackRejected e \<Rightarrow> (case stage of
       StageReservation \<Rightarrow> ContributorReservation domain e
     | StageValidation \<Rightarrow> ContributorValidation domain e
     | StageContribution \<Rightarrow> ContributorAssembly domain e))"

section \<open>Participants of a command\<close>

datatype CommandParticipantKind = KindMutation | KindValidation

record CommandPairRequirement =
  cp_protocol :: u64
  cp_operation :: u64
  cp_peer_domain :: string
  cp_peer_kind :: CommandParticipantKind
  cp_correlation :: arr32

definition pair_valid :: "CommandPairRequirement \<Rightarrow> bool" where
  "pair_valid r \<longleftrightarrow> cp_protocol r \<noteq> 0 \<and> cp_operation r \<noteq> 0 \<and> cp_peer_domain r \<noteq> [] \<and>
     length (cp_peer_domain r) \<le> 255 \<and> list_all component_char (cp_peer_domain r)"

definition validate_command_pair ::
    "(string \<times> CommandParticipantKind \<times> CommandPairRequirement option) list \<Rightarrow> ('io, 'a, 'e) CommandError + unit" where
  "validate_command_pair ps =
     (if list_all (\<lambda>(_, _, r). r = None) ps then Inr ()
      else case ps of
        [(left_domain, left_kind, Some left), (right_domain, right_kind, Some right)] \<Rightarrow>
          if left_domain = right_domain \<or> \<not> pair_valid left \<or> \<not> pair_valid right \<or>
             cp_peer_domain left \<noteq> right_domain \<or> cp_peer_domain right \<noteq> left_domain \<or>
             cp_peer_kind left \<noteq> right_kind \<or> cp_peer_kind right \<noteq> left_kind \<or>
             cp_protocol left \<noteq> cp_protocol right \<or> cp_operation left \<noteq> cp_operation right \<or>
             cp_correlation left \<noteq> cp_correlation right
          then Inl InvalidCommandPair else Inr ()
      | _ \<Rightarrow> Inl InvalidCommandPair)"

text \<open>
  The trait objects of a participant are the functions they wrap: a prepared mutation is the
  function that assembles its pending mutations.
\<close>

type_synonym ('a, 'e) prepared_mutation =
  "RegisteredDomain \<Rightarrow> ('a, 'e) ErasedCallbackError + PendingMutation list"

datatype ('io, 'a, 'e) participant_work =
    Mutation "'io snapshot \<Rightarrow> RegisteredDomain \<Rightarrow> ('a, 'e) ErasedCallbackError + ('a, 'e) prepared_mutation"
  | Validation "'io snapshot \<Rightarrow> RegisteredDomain \<Rightarrow> ('a, 'e) ErasedCallbackError + unit"

record ('io, 'a, 'e) DomainParticipant =
  pt_store :: StoreInstanceId
  pt_slot :: usize
  pt_owner :: string
  pt_domain :: string
  pt_command_pair :: "CommandPairRequirement option"
  pt_expected_revision :: DomainRevision
  pt_work :: "('io, 'a, 'e) participant_work"

definition erased_from_typed :: "('f \<Rightarrow> 'a + 'e) \<Rightarrow> 'f \<Rightarrow> ('a, 'e) ErasedCallbackError" where
  "erased_from_typed into_callback_source source = (case into_callback_source source of
     Inl a \<Rightarrow> CallbackAccess a | Inr e \<Rightarrow> CallbackRejected e)"

definition typed_mutation ::
    "('f \<Rightarrow> 'a + 'e) \<Rightarrow> ('io DomainReader \<Rightarrow> 'f + 'p) \<Rightarrow> ('p \<Rightarrow> MutationBuilder \<Rightarrow> 'f + MutationBuilder) \<Rightarrow>
     ('io, 'a, 'e) participant_work" where
  "typed_mutation into_callback_source prepare contribute = Mutation (\<lambda>sn d.
     and_then (map_err (erased_from_typed into_callback_source)
         (prepare \<lparr>rd_snapshot = sn, rd_families = dom_families d\<rparr>)) (\<lambda>prepared.
       Inr (\<lambda>d. and_then (map_err (erased_from_typed into_callback_source)
           (contribute prepared (builder_new (dom_families d)))) (\<lambda>mb. Inr (mb_pending mb)))))"

fun is_mutation :: "('io, 'a, 'e) participant_work \<Rightarrow> bool" where
  "is_mutation (Mutation _) = True"
| "is_mutation (Validation _) = False"

definition pair_participant ::
    "('io, 'a, 'e) DomainParticipant \<Rightarrow> string \<times> CommandParticipantKind \<times> CommandPairRequirement option" where
  "pair_participant p =
     (pt_domain p, if is_mutation (pt_work p) then KindMutation else KindValidation, pt_command_pair p)"

definition participant_prepare ::
    "('io, 'a, 'e) DomainParticipant \<Rightarrow> 'io snapshot \<Rightarrow> RegisteredDomain \<Rightarrow>
     ('a, 'e) ErasedCallbackError + ('a, 'e) prepared_mutation option" where
  "participant_prepare p sn d = (case pt_work p of
     Mutation prepare \<Rightarrow> and_then (prepare sn d) (\<lambda>prepared. Inr (Some prepared))
   | Validation validate \<Rightarrow> and_then (validate sn d) (\<lambda>_. Inr None))"

text \<open>
  \<open>hc_local_admission\<close> is the answer of the local admission predicate, \<open>hc_sidecars\<close> the store and the
  generation of every retained sidecar.
\<close>

record ('io, 'a, 'e) HomeCommand =
  hc_local_admission :: "bool option"
  hc_expected_home_revision :: HomeRevision
  hc_participants :: "('io, 'a, 'e) DomainParticipant list"
  hc_sidecars :: "(StoreInstanceId \<times> HomeGeneration) list"

definition home_command_add ::
    "('io, 'a, 'e) DomainParticipant \<Rightarrow> ('io, 'a, 'e) HomeCommand \<Rightarrow> string + ('io, 'a, 'e) HomeCommand" where
  "home_command_add p cmd =
     (if list_ex (\<lambda>q. pt_store q = pt_store p \<and> pt_slot q = pt_slot p) (hc_participants cmd)
      then Inl (pt_domain p)
      else Inr (cmd\<lparr>hc_participants := hc_participants cmd @ [p]\<rparr>))"

section \<open>Fences and preparation\<close>

text \<open>One participant is fenced by its registration and its current revision.\<close>

definition fence_participant ::
    "StoreGeneration \<Rightarrow> 'io snapshot \<Rightarrow> ('io, 'a, 'e) DomainParticipant \<Rightarrow>
     ('io, 'a, 'e) CommandError + (RegisteredDomain \<times> DomainRevision)" where
  "fence_participant gen sn p =
     (if pt_store p \<noteq> gen_instance_id gen then Inl (ForeignDomain (pt_domain p))
      else and_then (ok_or (ForeignDomain (pt_domain p)) (case registry_get gen (pt_slot p) of
          Some d \<Rightarrow> if dom_name d = pt_domain p \<and> dom_owner d = pt_owner p then Some d else None
        | None \<Rightarrow> None)) (\<lambda>d.
        and_then (map_err RevisionRead (read_domain_metadata sn (pt_domain p))) (\<lambda>metadata.
        if metadata \<noteq> domain_metadata d (md_revision metadata)
        then Inl (DomainRegistrationInvariant (pt_domain p))
        else Inr (d, md_revision metadata))))"

fun fence_participants ::
    "StoreGeneration \<Rightarrow> 'io snapshot \<Rightarrow> ('io, 'a, 'e) DomainParticipant list \<Rightarrow> RevisionConflict list \<Rightarrow>
     ('io, 'a, 'e) CommandError + ((RegisteredDomain \<times> DomainRevision) list \<times> RevisionConflict list)" where
  "fence_participants gen sn [] conflicts = Inr ([], conflicts)"
| "fence_participants gen sn (p # ps) conflicts =
     and_then (fence_participant gen sn p) (\<lambda>(d, current).
     and_then (fence_participants gen sn ps
         (if current \<noteq> pt_expected_revision p
          then conflicts @ [DomainConflict (pt_domain p) (pt_expected_revision p) current] else conflicts))
       (\<lambda>(fenced, conflicts). Inr ((d, current) # fenced, conflicts)))"

record ('a, 'e) PreparedContribution =
  pc_slot :: usize
  pc_assemble :: "('a, 'e) prepared_mutation"
  pc_domain :: RegisteredDomain
  pc_current_revision :: DomainRevision

fun prepare_participants ::
    "'io snapshot \<Rightarrow> (('io, 'a, 'e) DomainParticipant \<times> RegisteredDomain \<times> DomainRevision) list \<Rightarrow>
     ('io, 'a, 'e) CommandError + ('a, 'e) PreparedContribution list" where
  "prepare_participants sn [] = Inr []"
| "prepare_participants sn ((p, d, current) # ps) =
     and_then (map_err (callback_command_error (pt_domain p) StageValidation) (participant_prepare p sn d)) (\<lambda>prepared.
     and_then (prepare_participants sn ps) (\<lambda>rest.
       case prepared of
         None \<Rightarrow> Inr rest
       | Some assemble \<Rightarrow> Inr (\<lparr>pc_slot = pt_slot p, pc_assemble = assemble, pc_domain = d,
           pc_current_revision = current\<rparr> # rest)))"

section \<open>Intended receipt\<close>

fun intended_domains ::
    "('a, 'e) PreparedContribution list \<Rightarrow> ('io, 'a, 'e) CommandError + (usize \<times> DomainRevision) list" where
  "intended_domains [] = Inr []"
| "intended_domains (p # ps) =
     and_then (map_err (CommandRevisionExhausted (''domain `'' @ dom_name (pc_domain p) @ ''`''))
         (revision_checked_next (pc_current_revision p))) (\<lambda>revision.
     and_then (intended_domains ps) (\<lambda>rest. Inr ((pc_slot p, revision) # rest)))"

definition intended_receipt ::
    "StoreGeneration \<Rightarrow> HomeGeneration \<Rightarrow> HomeRevision \<Rightarrow> ('a, 'e) PreparedContribution list \<Rightarrow>
     ('io, 'a, 'e) CommandError + CommitReceipt" where
  "intended_receipt gen health current_home prepared =
     and_then (map_err (CommandRevisionExhausted ''home'') (revision_checked_next current_home)) (\<lambda>home.
     and_then (intended_domains prepared) (\<lambda>domains.
       Inr \<lparr>rc_store = gen_instance_id gen, rc_generation = health, rc_home_revision = home, rc_domains = domains\<rparr>))"

record PreparedMutation =
  pu_slot :: usize
  pu_domain :: RegisteredDomain
  pu_pending :: "PendingMutation list"

fun assemble_contributions ::
    "('a, 'e) PreparedContribution list \<Rightarrow> ('io, 'a, 'e) CommandError + PreparedMutation list" where
  "assemble_contributions [] = Inr []"
| "assemble_contributions (p # ps) =
     and_then (map_err (callback_command_error (dom_name (pc_domain p)) StageContribution)
         (pc_assemble p (pc_domain p))) (\<lambda>pending.
     if pending = [] then Inl (EmptyContribution (dom_name (pc_domain p)))
     else and_then (assemble_contributions ps) (\<lambda>rest.
       Inr (\<lparr>pu_slot = pc_slot p, pu_domain = pc_domain p, pu_pending = pending\<rparr> # rest)))"

section \<open>The reconciliation descriptor\<close>

record ReconciliationReservationOutput =
  ro_domain :: string
  ro_quotas :: "ReservedRecordQuota list"
  ro_descriptor_bytes :: usize

record MaterializedRecordDescriptor =
  mr_family_slot :: usize
  mr_key :: bytes
  mr_old :: "bytes option"
  mr_new :: "bytes option"

record MaterializedDomainDescriptor =
  mm_domain_slot :: usize
  mm_intended_revision :: DomainRevision
  mm_records :: "MaterializedRecordDescriptor list"

text \<open>
  A reservation holds the declarations made before admission and, once it is materialised, the
  descriptors and the receipt. The descriptor of a first-acceptance promotion, which it may carry
  in addition, is left out.
\<close>

record CommandReservation =
  rs_declarations :: "ReconciliationReservationOutput list"
  rs_materialized :: "(MaterializedDomainDescriptor list \<times> CommitReceipt) option"

fun position :: "('a \<Rightarrow> bool) \<Rightarrow> 'a list \<Rightarrow> usize option" where
  "position p [] = None"
| "position p (x # xs) = (if p x then Some 0 else map_option Suc (position p xs))"

definition materialize_old ::
    "'io snapshot \<Rightarrow> string \<Rightarrow> RegisteredFamily \<Rightarrow> bytes \<Rightarrow> ('io, 'a, 'e) CommandError + bytes option" where
  "materialize_old sn domain family key =
     and_then (map_err (\<lambda>e. RevisionRead (Storage PointSize e)) (snap_point sn (fam_keyspace family) key)) (\<lambda>point.
     case point of
       None \<Rightarrow> Inr None
     | Some (len, acquire) \<Rightarrow>
         if fam_max_stored_value_bytes family < unat len
         then Inl (RevisionRead (InvalidStoredValueSize domain (fam_logical_name family)
           (fam_max_stored_value_bytes family) (unat len)))
         else and_then (map_err (\<lambda>e. RevisionRead (Storage PointValue e)) acquire) (\<lambda>v. Inr (Some v)))"

fun materialize_records ::
    "'io snapshot \<Rightarrow> RegisteredDomain \<Rightarrow> ReservedRecordQuota list \<Rightarrow> usize list \<Rightarrow> PendingMutation list \<Rightarrow>
     ('io, 'a, 'e) CommandError + MaterializedRecordDescriptor list" where
  "materialize_records sn d quotas actual [] = Inr []"
| "materialize_records sn d quotas actual (pending # rest) =
     (if length (dom_families d) \<le> pm_family_slot pending
      then Inl (Panicked ''typed mutation family slot was resolved during contribution'')
      else let family = dom_families d ! pm_family_slot pending in
      case position (\<lambda>q. quota_family q = fam_logical_name family \<and> quota_codec_type q = fam_codec_type family) quotas of
        None \<Rightarrow> Inl (ReconciliationReservationMismatch (dom_name d) (fam_logical_name family) 0 1)
      | Some i \<Rightarrow>
          let actual = actual[i := usize_saturating_add (actual ! i) 1] in
          if quota_count (quotas ! i) < actual ! i
          then Inl (ReconciliationReservationMismatch (dom_name d) (fam_logical_name family)
            (quota_count (quotas ! i)) (actual ! i))
          else and_then (materialize_old sn (dom_name d) family (pm_key pending)) (\<lambda>old.
            and_then (materialize_records sn d quotas actual rest) (\<lambda>records.
              Inr (\<lparr>mr_family_slot = pm_family_slot pending, mr_key = pm_key pending, mr_old = old,
                mr_new = (case pm_action pending of Put v \<Rightarrow> Some v | Delete \<Rightarrow> None)\<rparr> # records))))"

fun materialize_domains ::
    "'io snapshot \<Rightarrow> CommitReceipt \<Rightarrow> (PreparedMutation \<times> ReconciliationReservationOutput) list \<Rightarrow>
     ('io, 'a, 'e) CommandError + MaterializedDomainDescriptor list" where
  "materialize_domains sn receipt [] = Inr []"
| "materialize_domains sn receipt ((p, declaration) # rest) =
     (if ro_domain declaration \<noteq> dom_name (pu_domain p)
      then Inl (ReconciliationReservationMismatch (dom_name (pu_domain p)) ''unknown'' 0 (length (pu_pending p)))
      else and_then (ok_or (Panicked ''intended receipt contains every materialized domain'')
          (receipt_revision receipt (pu_slot p))) (\<lambda>revision.
        and_then (materialize_records sn (pu_domain p) (ro_quotas declaration)
            (replicate (length (ro_quotas declaration)) 0) (pu_pending p)) (\<lambda>records.
        and_then (materialize_domains sn receipt rest) (\<lambda>domains.
          Inr (\<lparr>mm_domain_slot = pu_slot p, mm_intended_revision = revision, mm_records = records\<rparr> # domains)))))"

definition materialize_reservation ::
    "'io snapshot \<Rightarrow> PreparedMutation list \<Rightarrow> CommandReservation \<Rightarrow> CommitReceipt \<Rightarrow>
     ('io, 'a, 'e) CommandError + CommandReservation" where
  "materialize_reservation sn prepared res receipt =
     (if length prepared \<noteq> length (rs_declarations res)
      then Inl (ReconciliationReservationMismatch
        (case prepared of p # _ \<Rightarrow> dom_name (pu_domain p) | [] \<Rightarrow> ''unknown'') ''unknown''
        (length (rs_declarations res)) (length prepared))
      else and_then (materialize_domains sn receipt (zip prepared (rs_declarations res))) (\<lambda>domains.
        Inr (res\<lparr>rs_materialized := Some (domains, receipt)\<rparr>)))"

section \<open>The storage engine\<close>

datatype batch_op = BatchInsert keyspace bytes bytes | BatchRemove keyspace bytes

datatype CommitState = StateNotCommitted | StateCommitted | StateIndeterminate

datatype FaultPoint = BeforeCommit | AfterCommitBeforePersist | AfterPersist

text \<open>
  The calls of the engine and of the fault points that the writer makes: a snapshot of the
  contents; the admission of a batch of given totals (\<^verbatim>\<open>batch_capacity\<close> and \<^verbatim>\<open>batch\<close>); the insertion of
  one operation into a batch; the commit, with the contents it leaves and its error; the barrier
  \<^verbatim>\<open>persist(SyncAll)\<close>; the check of a fault point.
\<close>

record 'io engine =
  eng_snapshot :: "contents \<Rightarrow> 'io + 'io snapshot"
  eng_batch :: "u64 \<Rightarrow> u64 \<Rightarrow> u64 \<Rightarrow> 'io + unit"
  eng_push :: "batch_op list \<Rightarrow> batch_op \<Rightarrow> 'io + unit"
  eng_commit :: "contents \<Rightarrow> batch_op list \<Rightarrow> contents \<times> ('io \<times> CommitState option) option"
  eng_persist :: "contents \<Rightarrow> 'io + unit"
  eng_fault :: "FaultPoint \<Rightarrow> 'io + unit"

section \<open>Assembly of the batch\<close>

record BatchTotals =
  bt_records :: u64
  bt_key_bytes :: u64
  bt_value_bytes :: u64

definition totals_include :: "usize \<Rightarrow> usize \<Rightarrow> BatchTotals \<Rightarrow> ('io, 'a, 'e) CommandError + BatchTotals" where
  "totals_include key_bytes value_bytes t =
     and_then (ensure (CommitFailure BatchAccountingOverflow) (key_bytes < 2 ^ 64)) (\<lambda>_.
     and_then (ensure (CommitFailure BatchAccountingOverflow) (value_bytes < 2 ^ 64)) (\<lambda>_.
     and_then (ok_or (CommitFailure BatchAccountingOverflow) (checked_add (bt_records t) 1)) (\<lambda>records.
     and_then (ok_or (CommitFailure BatchAccountingOverflow) (checked_add (bt_key_bytes t) (of_nat key_bytes))) (\<lambda>keys.
     and_then (ok_or (CommitFailure BatchAccountingOverflow) (checked_add (bt_value_bytes t) (of_nat value_bytes))) (\<lambda>values.
       Inr \<lparr>bt_records = records, bt_key_bytes = keys, bt_value_bytes = values\<rparr>)))))"

text \<open>Every stage passes over all participants before the next one starts.\<close>

fun encode_participants ::
    "CommitReceipt \<Rightarrow> PreparedMutation list \<Rightarrow> ('io, 'a, 'e) CommandError + (PreparedMutation \<times> bytes) list" where
  "encode_participants receipt [] = Inr []"
| "encode_participants receipt (p # ps) =
     and_then (ok_or (Panicked ''intended receipt contains every prepared mutation domain'')
         (receipt_revision receipt (pu_slot p))) (\<lambda>revision.
     and_then (map_err MetadataFailure (metadata_encode (domain_metadata (pu_domain p) revision))) (\<lambda>metadata.
     and_then (encode_participants receipt ps) (\<lambda>rest. Inr ((p, metadata) # rest))))"

fun totals_pending :: "PendingMutation list \<Rightarrow> BatchTotals \<Rightarrow> ('io, 'a, 'e) CommandError + BatchTotals" where
  "totals_pending [] t = Inr t"
| "totals_pending (pending # rest) t =
     and_then (totals_include (length (pm_key pending))
       (case pm_action pending of Put v \<Rightarrow> length v | Delete \<Rightarrow> 0) t) (totals_pending rest)"

fun totals_participants ::
    "(PreparedMutation \<times> bytes) list \<Rightarrow> BatchTotals \<Rightarrow> ('io, 'a, 'e) CommandError + BatchTotals" where
  "totals_participants [] t = Inr t"
| "totals_participants ((p, metadata) # rest) t =
     and_then (totals_pending (pu_pending p) t) (\<lambda>t.
     and_then (totals_include (length (dom_name (pu_domain p))) (length metadata) t) (totals_participants rest))"

definition batch_push :: "'io engine \<Rightarrow> batch_op list \<Rightarrow> batch_op \<Rightarrow> ('io, 'a, 'e) CommandError + batch_op list" where
  "batch_push eng batch op =
     and_then (map_err (\<lambda>e. CommitFailure (EngineError e)) (eng_push eng batch op)) (\<lambda>_. Inr (batch @ [op]))"

fun push_pending ::
    "'io engine \<Rightarrow> RegisteredDomain \<Rightarrow> PendingMutation list \<Rightarrow> batch_op list \<Rightarrow> ('io, 'a, 'e) CommandError + batch_op list" where
  "push_pending eng d [] batch = Inr batch"
| "push_pending eng d (pending # rest) batch =
     (if length (dom_families d) \<le> pm_family_slot pending
      then Inl (Panicked ''typed mutation family slot was resolved before assembly'')
      else let ks = fam_keyspace (dom_families d ! pm_family_slot pending) in
        and_then (batch_push eng batch (case pm_action pending of
            Put v \<Rightarrow> BatchInsert ks (pm_key pending) v
          | Delete \<Rightarrow> BatchRemove ks (pm_key pending))) (push_pending eng d rest))"

fun push_participants ::
    "'io engine \<Rightarrow> (PreparedMutation \<times> bytes) list \<Rightarrow> batch_op list \<Rightarrow> ('io, 'a, 'e) CommandError + batch_op list" where
  "push_participants eng [] batch = Inr batch"
| "push_participants eng ((p, metadata) # rest) batch =
     and_then (push_pending eng (pu_domain p) (pu_pending p) batch) (\<lambda>batch.
     and_then (batch_push eng batch (BatchInsert DOMAINS_KEYSPACE (ascii_bytes (dom_name (pu_domain p))) metadata))
       (push_participants eng rest))"

definition assemble ::
    "'io engine \<Rightarrow> CommitReceipt \<Rightarrow> PreparedMutation list \<Rightarrow> ('io, 'a, 'e) CommandError + batch_op list" where
  "assemble eng receipt prepared =
     and_then (encode_participants receipt prepared) (\<lambda>participants.
     let home = encode_home_revision (rc_home_revision receipt) in
     and_then (totals_participants participants \<lparr>bt_records = 0, bt_key_bytes = 0, bt_value_bytes = 0\<rparr>) (\<lambda>t.
     and_then (totals_include (length HOME_REVISION_KEY) (length home) t) (\<lambda>t.
     and_then (map_err (\<lambda>e. CommitFailure (EngineError e)) (eng_batch eng (bt_records t) (bt_key_bytes t) (bt_value_bytes t))) (\<lambda>_.
     and_then (push_participants eng participants []) (\<lambda>batch.
       batch_push eng batch (BatchInsert HEADER_KEYSPACE HOME_REVISION_KEY home))))))"

section \<open>Commit\<close>

datatype ('io, 'a, 'e) ExecutionOutcome =
    NotCommitted "('io, 'a, 'e) CommandError"
  | Committed CommitReceipt "('io, 'a, 'e) CommandError option"
  | Indeterminate "('io, 'a, 'e) CommandError"

definition with_committed_failure ::
    "('io, 'a, 'e) CommandError option \<Rightarrow> ('io, 'a, 'e) CommandError \<Rightarrow> ('io, 'a, 'e) CommandError" where
  "with_committed_failure committed persistence = (case committed of
     Some commit \<Rightarrow> PersistenceAfterCommitFailure commit persistence
   | None \<Rightarrow> persistence)"

text \<open>What follows a batch that is committed, possibly with a failure after the commit.\<close>

definition after_commit ::
    "'io engine \<Rightarrow> contents \<Rightarrow> CommitReceipt \<Rightarrow> ('io, 'a, 'e) CommandError option \<Rightarrow> ('io, 'a, 'e) ExecutionOutcome" where
  "after_commit eng m receipt committed_failure = (case eng_fault eng AfterCommitBeforePersist of
     Inl e \<Rightarrow> Indeterminate (with_committed_failure committed_failure (PersistenceFailure e))
   | Inr _ \<Rightarrow> (case eng_persist eng m of
       Inl e \<Rightarrow> Indeterminate (with_committed_failure committed_failure (PersistenceFailure e))
     | Inr _ \<Rightarrow> (case eng_fault eng AfterPersist of
         Inl e \<Rightarrow> Committed receipt (Some (with_committed_failure committed_failure (PersistenceFailure e)))
       | Inr _ \<Rightarrow> Committed receipt committed_failure)))"

definition commit_prepared ::
    "'io engine \<Rightarrow> contents \<Rightarrow> CommitReceipt \<Rightarrow> PreparedMutation list \<Rightarrow> contents \<times> ('io, 'a, 'e) ExecutionOutcome" where
  "commit_prepared eng m receipt prepared = (case assemble eng receipt prepared of
     Inl e \<Rightarrow> (m, NotCommitted e)
   | Inr batch \<Rightarrow> (case eng_fault eng BeforeCommit of
       Inl e \<Rightarrow> (m, NotCommitted (CommitFailure (EngineError e)))
     | Inr _ \<Rightarrow> (case eng_commit eng m batch of
         (m', None) \<Rightarrow> (m', after_commit eng m' receipt None)
       | (m', Some (e, state)) \<Rightarrow> (case state of
           Some StateNotCommitted \<Rightarrow> (m', NotCommitted (CommitFailure (EngineError e)))
         | Some StateCommitted \<Rightarrow> (m', after_commit eng m' receipt (Some (CommitFailure (EngineError e))))
         | _ \<Rightarrow> (m', Indeterminate (CommitFailure (EngineError e)))))))"

section \<open>Execution of an admitted command\<close>

definition prepare_admitted ::
    "'io engine \<Rightarrow> StoreGeneration \<Rightarrow> HomeGeneration \<Rightarrow> ('io, 'a, 'e) HomeCommand \<Rightarrow> contents \<Rightarrow>
     ('io, 'a, 'e) CommandError + ('io snapshot \<times> HomeRevision \<times> ('a, 'e) PreparedContribution list)" where
  "prepare_admitted eng gen health cmd m =
     (if hc_participants cmd = [] then Inl EmptyCommand
      else if \<not> list_ex (\<lambda>p. is_mutation (pt_work p)) (hc_participants cmd) then Inl ValidationOnlyCommand
      else if list_ex (\<lambda>(store, generation). store \<noteq> gen_instance_id gen \<or> generation \<noteq> health) (hc_sidecars cmd)
      then Inl ForeignSidecar
      else and_then (map_err (\<lambda>e. RevisionRead (Storage StageHomeRevision e)) (eng_snapshot eng m)) (\<lambda>sn.
        and_then (map_err RevisionRead (read_home_revision sn)) (\<lambda>current_home.
        and_then (fence_participants gen sn (hc_participants cmd)
            (if current_home \<noteq> hc_expected_home_revision cmd
             then [HomeConflict (hc_expected_home_revision cmd) current_home] else [])) (\<lambda>(fenced, conflicts).
        if conflicts \<noteq> []
        then Inl (Conflict (length conflicts) (sort_key (\<lambda>c. ascii_bytes (conflict_name c)) conflicts))
        else and_then (validate_command_pair (map pair_participant (hc_participants cmd))) (\<lambda>_.
          and_then (prepare_participants sn (zip (hc_participants cmd) fenced)) (\<lambda>prepared.
            Inr (sn, current_home, prepared)))))))"

definition execute_admitted ::
    "'io engine \<Rightarrow> StoreGeneration \<Rightarrow> HomeGeneration \<Rightarrow> ('io, 'a, 'e) HomeCommand \<Rightarrow> CommandReservation \<Rightarrow> contents \<Rightarrow>
     contents \<times> CommandReservation \<times> ('io, 'a, 'e) ExecutionOutcome" where
  "execute_admitted eng gen health cmd res m =
     (case and_then (prepare_admitted eng gen health cmd m) (\<lambda>(sn, current_home, prepared).
         and_then (ensure LocalAdmissionRejected (hc_local_admission cmd \<noteq> Some False)) (\<lambda>_.
         and_then (intended_receipt gen health current_home prepared) (\<lambda>receipt.
         and_then (assemble_contributions prepared) (\<lambda>mutations.
         and_then (materialize_reservation sn mutations res receipt) (\<lambda>res.
           Inr (receipt, mutations, res)))))) of
       Inl e \<Rightarrow> (m, res, NotCommitted e)
     | Inr (receipt, mutations, res) \<Rightarrow>
         (case commit_prepared eng m receipt mutations of (m, outcome) \<Rightarrow> (m, res, outcome)))"

text \<open>
  A single-domain command whose revisions are captured under the admission of the writer: the
  expected revision of the participant is replaced by the current one.
\<close>

definition current_command ::
    "'io engine \<Rightarrow> StoreGeneration \<Rightarrow> ('io, 'a, 'e) DomainParticipant \<Rightarrow> contents \<Rightarrow>
     ('io, 'a, 'e) CommandError + ('io, 'a, 'e) HomeCommand" where
  "current_command eng gen p m =
     (if pt_store p \<noteq> gen_instance_id gen then Inl (ForeignDomain (pt_domain p))
      else and_then (ok_or (ForeignDomain (pt_domain p)) (case registry_get gen (pt_slot p) of
          Some d \<Rightarrow> if dom_name d = pt_domain p \<and> dom_owner d = pt_owner p then Some d else None
        | None \<Rightarrow> None)) (\<lambda>d.
        and_then (map_err (\<lambda>e. RevisionRead (Storage StageHomeRevision e)) (eng_snapshot eng m)) (\<lambda>sn.
        and_then (map_err RevisionRead (read_home_revision sn)) (\<lambda>current_home.
        and_then (map_err RevisionRead (read_domain_metadata sn (pt_domain p))) (\<lambda>metadata.
        if metadata \<noteq> domain_metadata d (md_revision metadata)
        then Inl (DomainRegistrationInvariant (pt_domain p))
        else Inr \<lparr>hc_local_admission = None, hc_expected_home_revision = current_home,
          hc_participants = [p\<lparr>pt_expected_revision := md_revision metadata\<rparr>], hc_sidecars = []\<rparr>)))))"

definition execute_current_admitted ::
    "'io engine \<Rightarrow> StoreGeneration \<Rightarrow> HomeGeneration \<Rightarrow> ('io, 'a, 'e) DomainParticipant \<Rightarrow> CommandReservation \<Rightarrow> contents \<Rightarrow>
     contents \<times> CommandReservation \<times> ('io, 'a, 'e) ExecutionOutcome" where
  "execute_current_admitted eng gen health p res m = (case current_command eng gen p m of
     Inl e \<Rightarrow> (m, res, NotCommitted e)
   | Inr cmd \<Rightarrow> execute_admitted eng gen health cmd res m)"

end
