(* ===== verification/Home_Registry.thy ===== *)
theory Home_Registry
  imports Home_Writer
begin

text \<open>
  The registry of uncertain commits, \<^verbatim>\<open>reconciliation.rs\<close> and \<^verbatim>\<open>reconciliation/registry.rs\<close>: scopes
  that are reserved before a command is admitted, hold its descriptor when the outcome of its commit
  is uncertain, and are resolved by at most four workers at a time. A flight, the shared cell that
  joins all triggers of one scope, is an index into the list of flights. A descriptor carries no
  successor promotion, and the health gate and poisoned locks are left out.
\<close>

section \<open>State\<close>

definition RECONCILIATION_SCOPE_CAPACITY :: usize where "RECONCILIATION_SCOPE_CAPACITY = 1024"
definition RECONCILIATION_WORKER_CAPACITY :: usize where "RECONCILIATION_WORKER_CAPACITY = 4"
definition COLLISION_DOMAIN_BYTES :: usize where "COLLISION_DOMAIN_BYTES = 32"
definition COLLISION_RECORD_BYTES :: usize where "COLLISION_RECORD_BYTES = 160"

datatype ReconciliationReservationError =
    DescriptorTooLarge usize usize
  | ReservationCapacity
  | ReservationPanicked string

datatype DomainReconciliation = SideOld | SideNew | SideUnchanged | SideCollision

datatype ReconciliationResolution =
    ResolvedOld
  | ResolvedNew CommitReceipt
  | ResolvedSuccessor CommitReceipt
  | ResolvedCollision

datatype ('io, 'a, 'e) ReconciliationFailure =
    ForeignScope
  | StaleScope
  | SnapshotFailed 'io
  | HookAccess string 'a
  | HookRejected string 'e

type_synonym ('io, 'a, 'e) shared_result = "('io, 'a, 'e) ReconciliationFailure + ReconciliationResolution"

datatype ('io, 'a, 'e) FlightState = FlightIdle | FlightRunning | FlightComplete "('io, 'a, 'e) shared_result"

record RetainedReconciliationDescriptor =
  rt_domains :: "MaterializedDomainDescriptor list"
  rt_receipt :: CommitReceipt

record SealedRecord =
  sr_family_slot :: usize
  sr_key :: bytes
  sr_old_digest :: "bytes option"
  sr_new_digest :: "bytes option"

record SealedDomain =
  sd_domain_slot :: usize
  sd_intended_revision :: DomainRevision
  sd_side :: DomainReconciliation
  sd_records :: "SealedRecord list"

record SealedCollision =
  sc_domains :: "SealedDomain list"
  sc_receipt_revision :: u64
  sc_charged_bytes :: usize

datatype ScopeState =
    Vacant
  | Reserved u64
  | Verifying u64 RetainedReconciliationDescriptor usize nat
  | Closed u64 SealedCollision nat

record ('io, 'a, 'e) RegistryState =
  reg_accepting :: bool
  reg_scopes :: "ScopeState list"
  reg_reserved_bytes :: usize
  reg_active_workers :: usize
  reg_next_token :: u64
  reg_retained_core :: bool
  reg_flights :: "('io, 'a, 'e) FlightState list"
  reg_failed :: bool

record RegistryLimits =
  lim_descriptor_bytes :: usize
  lim_reserved_bytes :: usize

record ReconciliationSlot =
  sl_index :: usize
  sl_token :: u64
  sl_charged_bytes :: usize

record ReconciliationHandle =
  hd_index :: usize
  hd_token :: u64
  hd_flight :: nat

datatype RetryHandle = RetryCurrent ReconciliationHandle | RetryTerminal

section \<open>Scopes\<close>

definition registry_new :: "('io, 'a, 'e) RegistryState" where
  "registry_new =
     \<lparr>reg_accepting = True, reg_scopes = replicate RECONCILIATION_SCOPE_CAPACITY Vacant, reg_reserved_bytes = 0,
      reg_active_workers = 0, reg_next_token = 1, reg_retained_core = False, reg_flights = [], reg_failed = False\<rparr>"

definition is_vacant :: "ScopeState \<Rightarrow> bool" where
  "is_vacant s = (case s of Vacant \<Rightarrow> True | _ \<Rightarrow> False)"

definition is_pending :: "ScopeState \<Rightarrow> bool" where
  "is_pending s = (case s of Reserved _ \<Rightarrow> True | Verifying _ _ _ _ \<Rightarrow> True | _ \<Rightarrow> False)"

definition is_installed :: "ScopeState \<Rightarrow> bool" where
  "is_installed s = (case s of Verifying _ _ _ _ \<Rightarrow> True | Closed _ _ _ \<Rightarrow> True | _ \<Rightarrow> False)"

definition reserve ::
    "RegistryLimits \<Rightarrow> usize \<Rightarrow> ('io, 'a, 'e) RegistryState \<Rightarrow>
     ReconciliationReservationError + ReconciliationSlot \<times> ('io, 'a, 'e) RegistryState" where
  "reserve lim descriptor_bytes st =
     (if lim_descriptor_bytes lim < descriptor_bytes
      then Inl (DescriptorTooLarge descriptor_bytes (lim_descriptor_bytes lim))
      else if \<not> reg_accepting st then Inl ReservationCapacity
      else and_then (ok_or ReservationCapacity (usize_checked_add (reg_reserved_bytes st) descriptor_bytes)) (\<lambda>next_bytes.
        if lim_reserved_bytes lim < next_bytes then Inl ReservationCapacity
        else and_then (ok_or ReservationCapacity (position is_vacant (reg_scopes st))) (\<lambda>index.
          let token = reg_next_token st in
          and_then (ok_or (ReservationPanicked ''reconciliation scope token exhausted'') (checked_add token 1)) (\<lambda>next_token.
            Inr (\<lparr>sl_index = index, sl_token = token, sl_charged_bytes = descriptor_bytes\<rparr>,
              st\<lparr>reg_next_token := next_token, reg_scopes := (reg_scopes st)[index := Reserved token],
                 reg_reserved_bytes := next_bytes\<rparr>)))))"

definition slot_install ::
    "RetainedReconciliationDescriptor \<Rightarrow> ReconciliationSlot \<Rightarrow> ('io, 'a, 'e) RegistryState \<Rightarrow>
     ReconciliationHandle \<times> ('io, 'a, 'e) RegistryState" where
  "slot_install descriptor slot st =
     (let flight = length (reg_flights st) in
      (\<lparr>hd_index = sl_index slot, hd_token = sl_token slot, hd_flight = flight\<rparr>,
       st\<lparr>reg_flights := reg_flights st @ [FlightIdle],
          reg_scopes := (reg_scopes st)[sl_index slot := Verifying (sl_token slot) descriptor (sl_charged_bytes slot) flight],
          reg_retained_core := True\<rparr>))"

definition slot_drop :: "ReconciliationSlot \<Rightarrow> ('io, 'a, 'e) RegistryState \<Rightarrow> ('io, 'a, 'e) RegistryState" where
  "slot_drop slot st =
     (if reg_scopes st ! sl_index slot \<noteq> Reserved (sl_token slot) then st\<lparr>reg_failed := True\<rparr>
      else let st = st\<lparr>reg_scopes := (reg_scopes st)[sl_index slot := Vacant]\<rparr> in
        if sl_charged_bytes slot \<le> reg_reserved_bytes st
        then st\<lparr>reg_reserved_bytes := reg_reserved_bytes st - sl_charged_bytes slot\<rparr>
        else st\<lparr>reg_failed := True\<rparr>)"

definition pending_scope_count :: "('io, 'a, 'e) RegistryState \<Rightarrow> usize" where
  "pending_scope_count st = length (filter is_pending (reg_scopes st))"

text \<open>Disposal panics (\<^verbatim>\<open>expect\<close>) if the charges of closed scopes are not reserved.\<close>

fun closed_charges :: "ScopeState list \<Rightarrow> usize \<Rightarrow> usize option" where
  "closed_charges [] released = Some released"
| "closed_charges (Closed _ facts _ # rest) released =
     Option.bind (usize_checked_add released (sc_charged_bytes facts)) (closed_charges rest)"
| "closed_charges (_ # rest) released = closed_charges rest released"

definition dispose_closed_scopes :: "('io, 'a, 'e) RegistryState \<Rightarrow> ('io, 'a, 'e) RegistryState option" where
  "dispose_closed_scopes st = Option.bind (closed_charges (reg_scopes st) 0) (\<lambda>released.
     if reg_reserved_bytes st < released then None
     else Some (st\<lparr>reg_scopes := map (\<lambda>s. case s of Closed _ _ _ \<Rightarrow> Vacant | _ \<Rightarrow> s) (reg_scopes st),
       reg_reserved_bytes := reg_reserved_bytes st - released\<rparr>))"

definition begin_close :: "('io, 'a, 'e) RegistryState \<Rightarrow> (usize \<times> ('io, 'a, 'e) RegistryState) option" where
  "begin_close st =
     (let st = st\<lparr>reg_accepting := False\<rparr>; pending = pending_scope_count st in
      if pending = 0
      then Option.bind (dispose_closed_scopes st) (\<lambda>st. Some (pending, st\<lparr>reg_retained_core := False\<rparr>))
      else Some (pending, st))"

definition begin_drop :: "('io, 'a, 'e) RegistryState \<Rightarrow> usize \<times> ('io, 'a, 'e) RegistryState" where
  "begin_drop st =
     (let retained = length (filter (\<lambda>s. \<not> is_vacant s) (reg_scopes st)) in
      (retained, st\<lparr>reg_accepting := False, reg_retained_core := (if retained \<noteq> 0 then True else reg_retained_core st)\<rparr>))"

definition release_retained_core_if_idle :: "('io, 'a, 'e) RegistryState \<Rightarrow> ('io, 'a, 'e) RegistryState" where
  "release_retained_core_if_idle st =
     (if list_ex is_installed (reg_scopes st) then st else st\<lparr>reg_retained_core := False\<rparr>)"

fun handles_from :: "usize \<Rightarrow> ScopeState list \<Rightarrow> ReconciliationHandle list" where
  "handles_from index [] = []"
| "handles_from index (scope # rest) = (case scope of
     Verifying token _ _ flight \<Rightarrow> [\<lparr>hd_index = index, hd_token = token, hd_flight = flight\<rparr>]
   | Closed token _ flight \<Rightarrow> [\<lparr>hd_index = index, hd_token = token, hd_flight = flight\<rparr>]
   | _ \<Rightarrow> []) @ handles_from (index + 1) rest"

definition registry_handles :: "('io, 'a, 'e) RegistryState \<Rightarrow> ReconciliationHandle list" where
  "registry_handles st = handles_from 0 (reg_scopes st)"

section \<open>Flights\<close>

definition reset_failed_flight :: "nat \<Rightarrow> ('io, 'a, 'e) RegistryState \<Rightarrow> ('io, 'a, 'e) RegistryState" where
  "reset_failed_flight flight st = (case reg_flights st ! flight of
     FlightComplete (Inl _) \<Rightarrow> st\<lparr>reg_flights := (reg_flights st)[flight := FlightIdle]\<rparr>
   | _ \<Rightarrow> st)"

definition terminal_authority :: "nat \<Rightarrow> ('io, 'a, 'e) RegistryState \<Rightarrow> RetryHandle option" where
  "terminal_authority flight st = (case reg_flights st ! flight of
     FlightRunning \<Rightarrow> Some RetryTerminal
   | FlightComplete (Inr _) \<Rightarrow> Some RetryTerminal
   | _ \<Rightarrow> None)"

definition retry_handle ::
    "ReconciliationHandle \<Rightarrow> ('io, 'a, 'e) RegistryState \<Rightarrow> RetryHandle option \<times> ('io, 'a, 'e) RegistryState" where
  "retry_handle h st =
     (if length (reg_scopes st) \<le> hd_index h then (None, st)
      else case reg_scopes st ! hd_index h of
        Verifying token _ _ flight \<Rightarrow>
          if token = hd_token h \<and> flight = hd_flight h
          then (Some (RetryCurrent h), reset_failed_flight flight st)
          else (terminal_authority (hd_flight h) st, st)
      | Closed token _ flight \<Rightarrow>
          if token = hd_token h \<and> flight = hd_flight h then (Some RetryTerminal, st)
          else (terminal_authority (hd_flight h) st, st)
      | _ \<Rightarrow> (terminal_authority (hd_flight h) st, st))"

text \<open>
  One look at the flight of a handle: \<open>None\<close> is to wait for it to complete, a result on the left is
  its result, and on the right it has been started.
\<close>

definition flight_pass ::
    "ReconciliationHandle \<Rightarrow> ('io, 'a, 'e) RegistryState \<Rightarrow>
     (('io, 'a, 'e) shared_result + ('io, 'a, 'e) RegistryState) option" where
  "flight_pass h st = (case reg_flights st ! hd_flight h of
     FlightComplete result \<Rightarrow> Some (Inl result)
   | FlightRunning \<Rightarrow> None
   | FlightIdle \<Rightarrow> Some (Inr (st\<lparr>reg_flights := (reg_flights st)[hd_flight h := FlightRunning]\<rparr>)))"

definition flight_complete ::
    "ReconciliationHandle \<Rightarrow> ('io, 'a, 'e) shared_result \<Rightarrow> ('io, 'a, 'e) RegistryState \<Rightarrow> ('io, 'a, 'e) RegistryState" where
  "flight_complete h result st = st\<lparr>reg_flights := (reg_flights st)[hd_flight h := FlightComplete result]\<rparr>"

section \<open>Workers\<close>

definition verifies :: "ReconciliationHandle \<Rightarrow> ('io, 'a, 'e) RegistryState \<Rightarrow> bool" where
  "verifies h st \<longleftrightarrow> hd_index h < length (reg_scopes st) \<and> (case reg_scopes st ! hd_index h of
     Verifying token _ _ _ \<Rightarrow> token = hd_token h | _ \<Rightarrow> False)"

text \<open>One pass of the loop in \<^verbatim>\<open>acquire_worker\<close>: \<open>None\<close> is to wait for a worker to be released.\<close>

definition acquire_worker ::
    "ReconciliationHandle \<Rightarrow> ('io, 'a, 'e) RegistryState \<Rightarrow>
     (('io, 'a, 'e) ReconciliationFailure + ('io, 'a, 'e) RegistryState) option" where
  "acquire_worker h st =
     (if \<not> verifies h st then Some (Inl StaleScope)
      else if reg_active_workers st < RECONCILIATION_WORKER_CAPACITY
      then Some (Inr (st\<lparr>reg_active_workers := reg_active_workers st + 1\<rparr>))
      else None)"

definition release_charge :: "usize \<Rightarrow> ('io, 'a, 'e) RegistryState \<Rightarrow> ('io, 'a, 'e) RegistryState" where
  "release_charge charged_bytes st =
     (if charged_bytes \<le> reg_reserved_bytes st
      then st\<lparr>reg_reserved_bytes := reg_reserved_bytes st - charged_bytes\<rparr>
      else st\<lparr>reg_failed := True\<rparr>)"

definition release_worker_with_stale ::
    "('io, 'a, 'e) RegistryState \<Rightarrow> ('io, 'a, 'e) shared_result \<times> ('io, 'a, 'e) RegistryState" where
  "release_worker_with_stale st = (Inl StaleScope, st\<lparr>reg_active_workers := reg_active_workers st - 1\<rparr>)"

fun exact_side_loop :: "DomainReconciliation option \<Rightarrow> DomainReconciliation list \<Rightarrow> DomainReconciliation option" where
  "exact_side_loop selected [] = selected"
| "exact_side_loop selected (side # rest) = (case side of
     SideUnchanged \<Rightarrow> exact_side_loop selected rest
   | SideCollision \<Rightarrow> None
   | _ \<Rightarrow> if selected \<noteq> None \<and> selected \<noteq> Some side then None else exact_side_loop (Some side) rest)"

definition ordinary_exact_side :: "DomainReconciliation list \<Rightarrow> DomainReconciliation option" where
  "ordinary_exact_side sides = exact_side_loop None sides"

definition seal_record :: "(bytes \<Rightarrow> bytes) \<Rightarrow> MaterializedRecordDescriptor \<Rightarrow> SealedRecord" where
  "seal_record digest r = \<lparr>sr_family_slot = mr_family_slot r, sr_key = mr_key r,
     sr_old_digest = map_option digest (mr_old r), sr_new_digest = map_option digest (mr_new r)\<rparr>"

fun seal_records ::
    "(bytes \<Rightarrow> bytes) \<Rightarrow> MaterializedRecordDescriptor list \<Rightarrow> usize \<Rightarrow> (SealedRecord list \<times> usize) option" where
  "seal_records digest [] charged = Some ([], charged)"
| "seal_records digest (r # rs) charged =
     Option.bind (usize_checked_add charged COLLISION_RECORD_BYTES) (\<lambda>charged.
     Option.bind (usize_checked_add charged (length (mr_key r))) (\<lambda>charged.
     Option.bind (seal_records digest rs charged) (\<lambda>(records, charged).
       Some (seal_record digest r # records, charged))))"

fun seal_domains ::
    "(bytes \<Rightarrow> bytes) \<Rightarrow> (MaterializedDomainDescriptor \<times> DomainReconciliation) list \<Rightarrow> usize \<Rightarrow>
     (SealedDomain list \<times> usize) option" where
  "seal_domains digest [] charged = Some ([], charged)"
| "seal_domains digest ((d, side) # rest) charged =
     Option.bind (usize_checked_add charged COLLISION_DOMAIN_BYTES) (\<lambda>charged.
     Option.bind (seal_records digest (mm_records d) charged) (\<lambda>(records, charged).
     Option.bind (seal_domains digest rest charged) (\<lambda>(domains, charged).
       Some (\<lparr>sd_domain_slot = mm_domain_slot d, sd_intended_revision = mm_intended_revision d, sd_side = side,
         sd_records = records\<rparr> # domains, charged))))"

text \<open>The facts of a collision; the digest of the source is SHA-256. \<open>None\<close> is an overflow of the charge.\<close>

definition seal_collision ::
    "(bytes \<Rightarrow> bytes) \<Rightarrow> RetainedReconciliationDescriptor \<Rightarrow> DomainReconciliation list \<Rightarrow> SealedCollision option" where
  "seal_collision digest descriptor sides =
     Option.bind (seal_domains digest (zip (rt_domains descriptor) sides) 32) (\<lambda>(domains, charged).
       Some \<lparr>sc_domains = domains, sc_receipt_revision = nz_get (rc_home_revision (rt_receipt descriptor)),
         sc_charged_bytes = charged\<rparr>)"

definition worker_done ::
    "('io, 'a, 'e) shared_result \<Rightarrow> ('io, 'a, 'e) RegistryState \<Rightarrow>
     (('io, 'a, 'e) shared_result \<times> ('io, 'a, 'e) RegistryState) option" where
  "worker_done outcome st =
     (if reg_active_workers st = 0 then None
      else Some (outcome, st\<lparr>reg_active_workers := reg_active_workers st - 1\<rparr>))"

text \<open>The result of an execution is the sides of the domains and the intended receipt; \<open>None\<close> is a panic.\<close>

definition finish_worker ::
    "(bytes \<Rightarrow> bytes) \<Rightarrow> ReconciliationHandle \<Rightarrow>
     ('io, 'a, 'e) ReconciliationFailure + DomainReconciliation list \<times> CommitReceipt \<Rightarrow>
     ('io, 'a, 'e) RegistryState \<Rightarrow> (('io, 'a, 'e) shared_result \<times> ('io, 'a, 'e) RegistryState) option" where
  "finish_worker digest h execution st = (case execution of
     Inl e \<Rightarrow> worker_done (Inl e) st
   | Inr (sides, receipt) \<Rightarrow>
     if length (reg_scopes st) \<le> hd_index h then None
     else case reg_scopes st ! hd_index h of
       Verifying token descriptor charged_bytes flight \<Rightarrow>
         if token \<noteq> hd_token h then Some (release_worker_with_stale st)
         else (case ordinary_exact_side sides of
           Some side \<Rightarrow>
             let st = st\<lparr>reg_scopes := (reg_scopes st)[hd_index h := Vacant]\<rparr>;
                 st = release_retained_core_if_idle (release_charge charged_bytes st) in
             worker_done (Inr (if side = SideOld then ResolvedOld else ResolvedNew receipt)) st
         | None \<Rightarrow> Option.bind (seal_collision digest descriptor sides) (\<lambda>facts.
             if reg_reserved_bytes st < charged_bytes then None
             else Option.bind (usize_checked_add (reg_reserved_bytes st - charged_bytes) (sc_charged_bytes facts)) (\<lambda>bytes.
               let st = st\<lparr>reg_reserved_bytes := bytes, reg_scopes := (reg_scopes st)[hd_index h := Closed token facts flight]\<rparr> in
               worker_done (Inr ResolvedCollision) (release_retained_core_if_idle st))))
     | _ \<Rightarrow> Some (release_worker_with_stale st))"

end
