(* ===== verification/Home_Custody.thy ===== *)
theory Home_Custody
  imports Home_Registry
begin

text \<open>
  A command around its admission, \<^verbatim>\<open>writer.rs\<close>: the checks and the reservation of a scope of the
  registry before it, and the custody of the scope after it, \<^verbatim>\<open>command/result.rs\<close>. The reservation
  callback of a participant is the argument \<open>reserves\<close>. The declaration of a successor command is left
  out.
\<close>

section \<open>Reservation\<close>

text \<open>The limits of the one storage profile, \<^verbatim>\<open>store/profile.rs\<close>.\<close>

definition production_limits :: RegistryLimits where
  "production_limits = \<lparr>lim_descriptor_bytes = 64 * 1024 * 1024, lim_reserved_bytes = 256 * 1024 * 1024\<rparr>"

definition into_output :: "string \<Rightarrow> ReconciliationReservation \<Rightarrow> ReconciliationReservationOutput" where
  "into_output domain r = \<lparr>ro_domain = domain, ro_quotas = res_quotas r, ro_descriptor_bytes = res_descriptor_bytes r\<rparr>"

definition typed_reservation ::
    "string \<Rightarrow> ('f \<Rightarrow> 'a + 'e) \<Rightarrow> (ReconciliationReservation \<Rightarrow> 'f + ReconciliationReservation) \<Rightarrow>
     ('a, 'e) ErasedCallbackError + ReconciliationReservationOutput" where
  "typed_reservation domain into_callback_source callback =
     and_then (map_err (erased_from_typed into_callback_source) (callback reservation_new)) (\<lambda>r. Inr (into_output domain r))"

type_synonym ('io, 'a, 'e) reservation_callback =
  "('io, 'a, 'e) DomainParticipant \<Rightarrow> ('a, 'e) ErasedCallbackError + ReconciliationReservationOutput"

text \<open>Only participants that mutate their domain declare a reservation.\<close>

fun reserve_participants ::
    "('io, 'a, 'e) reservation_callback \<Rightarrow> ('io, 'a, 'e) DomainParticipant list \<Rightarrow>
     ('io, 'a, 'e) CommandError + ReconciliationReservationOutput list" where
  "reserve_participants reserves [] = Inr []"
| "reserve_participants reserves (p # ps) =
     (if \<not> is_mutation (pt_work p) then reserve_participants reserves ps
      else and_then (map_err (callback_command_error (pt_domain p) StageReservation) (reserves p)) (\<lambda>declaration.
        and_then (reserve_participants reserves ps) (\<lambda>declarations. Inr (declaration # declarations))))"

definition reservation_command_error :: "ReconciliationReservationError \<Rightarrow> ('io, 'a, 'e) CommandError" where
  "reservation_command_error e = (case e of
     DescriptorTooLarge requested limit \<Rightarrow> ReconciliationDescriptorTooLarge requested limit
   | ReservationCapacity \<Rightarrow> ReconciliationCapacity
   | ReservationPanicked message \<Rightarrow> Panicked message)"

definition descriptor_total :: "ReconciliationReservationOutput list \<Rightarrow> usize" where
  "descriptor_total declarations = foldl (\<lambda>total declaration. usize_saturating_add total (ro_descriptor_bytes declaration)) 0 declarations"

definition reserve_reconciliation ::
    "RegistryLimits \<Rightarrow> ReconciliationReservationOutput list \<Rightarrow> ('io, 'a, 'e) RegistryState \<Rightarrow>
     ('io, 'a, 'e) CommandError + (ReconciliationSlot \<times> CommandReservation) \<times> ('io, 'a, 'e) RegistryState" where
  "reserve_reconciliation lim declarations st =
     and_then (map_err reservation_command_error (reserve lim (descriptor_total declarations) st)) (\<lambda>(slot, st).
       Inr ((slot, \<lparr>rs_declarations = declarations, rs_materialized = None\<rparr>), st))"

definition reserve_home_command ::
    "RegistryLimits \<Rightarrow> ('io, 'a, 'e) reservation_callback \<Rightarrow> ('io, 'a, 'e) HomeCommand \<Rightarrow> ('io, 'a, 'e) RegistryState \<Rightarrow>
     ('io, 'a, 'e) CommandError + (ReconciliationSlot \<times> CommandReservation) \<times> ('io, 'a, 'e) RegistryState" where
  "reserve_home_command lim reserves cmd st =
     and_then (reserve_participants reserves (hc_participants cmd)) (\<lambda>declarations. reserve_reconciliation lim declarations st)"

section \<open>Custody\<close>

record ReconciliationCustody =
  cu_slot :: ReconciliationSlot
  cu_domains :: "MaterializedDomainDescriptor list"
  cu_receipt :: CommitReceipt

datatype ('io, 'a, 'e) CommandOutcome =
    OutcomeNotCommitted "('io, 'a, 'e) CommandError"
  | OutcomeCommitted CommitReceipt "('io, 'a, 'e) CommandError option"
  | OutcomeIndeterminate "('io, 'a, 'e) CommandError" ReconciliationCustody

text \<open>\<open>None\<close> is the panic of an indeterminate commit that was not described.\<close>

definition finalize_outcome ::
    "('io, 'a, 'e) ExecutionOutcome \<Rightarrow> ReconciliationSlot \<Rightarrow> CommandReservation \<Rightarrow> ('io, 'a, 'e) RegistryState \<Rightarrow>
     (('io, 'a, 'e) CommandOutcome \<times> ('io, 'a, 'e) RegistryState) option" where
  "finalize_outcome outcome slot res st = (case outcome of
     NotCommitted e \<Rightarrow> Some (OutcomeNotCommitted e, slot_drop slot st)
   | Committed receipt later_failure \<Rightarrow> Some (OutcomeCommitted receipt later_failure, slot_drop slot st)
   | Indeterminate failure \<Rightarrow> (case rs_materialized res of
       None \<Rightarrow> None
     | Some (domains, receipt) \<Rightarrow>
         Some (OutcomeIndeterminate failure \<lparr>cu_slot = slot, cu_domains = domains, cu_receipt = receipt\<rparr>, st)))"

text \<open>Custody is installed by its owner, at the latest when it is dropped.\<close>

definition custody_install ::
    "ReconciliationCustody \<Rightarrow> ('io, 'a, 'e) RegistryState \<Rightarrow> ReconciliationHandle \<times> ('io, 'a, 'e) RegistryState" where
  "custody_install custody st =
     slot_install \<lparr>rt_domains = cu_domains custody, rt_receipt = cu_receipt custody\<rparr> (cu_slot custody) st"

section \<open>Execution\<close>

text \<open>
  What the threads around a command contribute: whether it is found cancelled at each of the three
  looks, whether its thread is already inside the writer, whether a lock is poisoned, what the
  health gate answers at admission, and what the database and the gate answer when a commit is to be
  confirmed. What a structural failure does to the gate, and the finalization it leaves to the
  caller of a committed command, are not part of the outcome here.
\<close>

record 'io admission_facts =
  ad_cancelled :: bool
  ad_reentrant :: bool
  ad_cancelled_reserved :: bool
  ad_writer_poisoned :: bool
  ad_cancelled_admitted :: bool
  ad_admission :: "HealthGateError + HomeGeneration"
  ad_generation :: "StoreGeneration option"
  ad_database :: "'io + unit"
  ad_confirmation :: "HealthGateError + unit"

definition confirm_database :: "'io admission_facts \<Rightarrow> ('io, 'a, 'e) CommandError + unit" where
  "confirm_database facts =
     and_then (map_err PersistenceFailure (ad_database facts)) (\<lambda>_. map_err HealthGate (ad_confirmation facts))"

definition confirm_outcome :: "'io admission_facts \<Rightarrow> ('io, 'a, 'e) ExecutionOutcome \<Rightarrow> ('io, 'a, 'e) ExecutionOutcome" where
  "confirm_outcome facts outcome = (case outcome of
     Committed receipt None \<Rightarrow> (case confirm_database facts of
       Inl e \<Rightarrow> Committed receipt (Some e)
     | Inr _ \<Rightarrow> Committed receipt None)
   | _ \<Rightarrow> outcome)"

type_synonym ('io, 'a, 'e) operation =
  "StoreGeneration \<Rightarrow> HomeGeneration \<Rightarrow> CommandReservation \<Rightarrow> contents \<Rightarrow>
   contents \<times> CommandReservation \<times> ('io, 'a, 'e) ExecutionOutcome"

definition execute_serialized ::
    "'io admission_facts \<Rightarrow> ReconciliationSlot \<Rightarrow> CommandReservation \<Rightarrow> ('io, 'a, 'e) operation \<Rightarrow> contents \<Rightarrow>
     ('io, 'a, 'e) RegistryState \<Rightarrow> contents \<times> (('io, 'a, 'e) CommandOutcome \<times> ('io, 'a, 'e) RegistryState) option" where
  "execute_serialized facts slot res operation m st =
     (let refused = (\<lambda>e. (m, Some (OutcomeNotCommitted e, slot_drop slot st))) in
      if ad_cancelled_reserved facts then refused CancelledBeforeAdmission
      else if ad_reentrant facts then refused ReentrantWriter
      else if ad_writer_poisoned facts then refused WriterPoisoned
      else if ad_cancelled_admitted facts then refused CancelledBeforeAdmission
      else case ad_admission facts of
        Inl e \<Rightarrow> refused (HealthGate e)
      | Inr health \<Rightarrow> (case ad_generation facts of
          None \<Rightarrow> refused GenerationPoisoned
        | Some gen \<Rightarrow> (case operation gen health res m of (m, res, outcome) \<Rightarrow>
            (m, finalize_outcome (confirm_outcome facts outcome) slot res st))))"

text \<open>
  The registry here is the one the command leaves at its reservation. What the command does on a
  registry that other users have changed since is \<open>execute_serialized\<close> on that registry.
\<close>

definition execute ::
    "'io engine \<Rightarrow> RegistryLimits \<Rightarrow> ('io, 'a, 'e) reservation_callback \<Rightarrow> 'io admission_facts \<Rightarrow>
     ('io, 'a, 'e) HomeCommand \<Rightarrow> contents \<Rightarrow> ('io, 'a, 'e) RegistryState \<Rightarrow>
     contents \<times> (('io, 'a, 'e) CommandOutcome \<times> ('io, 'a, 'e) RegistryState) option" where
  "execute eng lim reserves facts cmd m st =
     (let refused = (\<lambda>e. (m, Some (OutcomeNotCommitted e, st))) in
      if ad_cancelled facts then refused CancelledBeforeAdmission
      else if ad_reentrant facts then refused ReentrantWriter
      else if hc_participants cmd = [] then refused EmptyCommand
      else case validate_command_pair (map pair_participant (hc_participants cmd)) of
        Inl e \<Rightarrow> refused e
      | Inr _ \<Rightarrow>
        if \<not> list_ex (\<lambda>p. is_mutation (pt_work p)) (hc_participants cmd) then refused ValidationOnlyCommand
        else case reserve_home_command lim reserves cmd st of
          Inl e \<Rightarrow> refused e
        | Inr ((slot, res), st) \<Rightarrow>
            execute_serialized facts slot res (\<lambda>gen health res m. execute_admitted eng gen health cmd res m) m st)"

definition reserve_current_command ::
    "RegistryLimits \<Rightarrow> ('io, 'a, 'e) reservation_callback \<Rightarrow> ('io, 'a, 'e) DomainParticipant \<Rightarrow> ('io, 'a, 'e) RegistryState \<Rightarrow>
     ('io, 'a, 'e) CommandError + (ReconciliationSlot \<times> CommandReservation) \<times> ('io, 'a, 'e) RegistryState" where
  "reserve_current_command lim reserves p st =
     and_then (map_err (callback_command_error (pt_domain p) StageReservation) (reserves p)) (\<lambda>declaration.
       reserve_reconciliation lim [declaration] st)"

definition execute_current ::
    "'io engine \<Rightarrow> RegistryLimits \<Rightarrow> ('io, 'a, 'e) reservation_callback \<Rightarrow> 'io admission_facts \<Rightarrow>
     ('io, 'a, 'e) DomainParticipant \<Rightarrow> contents \<Rightarrow> ('io, 'a, 'e) RegistryState \<Rightarrow>
     contents \<times> (('io, 'a, 'e) CommandOutcome \<times> ('io, 'a, 'e) RegistryState) option" where
  "execute_current eng lim reserves facts p m st =
     (let refused = (\<lambda>e. (m, Some (OutcomeNotCommitted e, st))) in
      if ad_cancelled facts then refused CancelledBeforeAdmission
      else if ad_reentrant facts then refused ReentrantWriter
      else case validate_command_pair [pair_participant p] of
        Inl e \<Rightarrow> refused e
      | Inr _ \<Rightarrow> (case reserve_current_command lim reserves p st of
          Inl e \<Rightarrow> refused e
        | Inr ((slot, res), st) \<Rightarrow>
            execute_serialized facts slot res (\<lambda>gen health res m. execute_current_admitted eng gen health p res m) m st))"

end
