(* ===== verification/Registry_Laws.thy ===== *)
theory Registry_Laws
  imports Home_Registry
begin

text \<open>
  The registry of uncertain commits under every interleaving of its users: reservations, drops,
  installations, triggers, workers and the close of the home.
\<close>

section \<open>Charges\<close>

definition scope_charge :: "ScopeState \<Rightarrow> usize" where
  "scope_charge s = (case s of Verifying _ _ charged _ \<Rightarrow> charged | Closed _ facts _ \<Rightarrow> sc_charged_bytes facts | _ \<Rightarrow> 0)"

lemma scope_charge_simps [simp]:
  "scope_charge Vacant = 0" "scope_charge (Reserved t) = 0" "scope_charge (Verifying t d c f) = c"
  "scope_charge (Closed t facts f) = sc_charged_bytes facts"
  by (simp_all add: scope_charge_def)

definition charges :: "ScopeState list \<Rightarrow> usize" where
  "charges scopes = sum_list (map scope_charge scopes)"

lemma charges_update:
  "i < length scopes \<Longrightarrow> charges (scopes[i := s]) + scope_charge (scopes ! i) = charges scopes + scope_charge s"
  unfolding charges_def by (induction scopes arbitrary: i) (auto split: nat.splits)

lemma closed_charges_settled:
  "\<lbrakk>filter is_pending scopes = []; released + charges scopes \<le> usize_max\<rbrakk> \<Longrightarrow>
     closed_charges scopes released = Some (released + charges scopes)"
  by (induction scopes released rule: closed_charges.induct) (auto simp: charges_def is_pending_def usize_checked_add_def split: if_splits)

text \<open>What a collision of a descriptor would charge.\<close>

definition sealed_size :: "MaterializedDomainDescriptor list \<Rightarrow> usize" where
  "sealed_size ds = sum_list (map (\<lambda>d. COLLISION_DOMAIN_BYTES +
     sum_list (map (\<lambda>r. COLLISION_RECORD_BYTES + length (mr_key r)) (mm_records d))) ds)"

lemma seal_records_charge:
  "charged + sum_list (map (\<lambda>r. COLLISION_RECORD_BYTES + length (mr_key r)) rs) \<le> usize_max \<Longrightarrow>
     \<exists>records. seal_records digest rs charged =
       Some (records, charged + sum_list (map (\<lambda>r. COLLISION_RECORD_BYTES + length (mr_key r)) rs))"
proof (induction rs arbitrary: charged)
  case (Cons r rs)
  from Cons.IH [of "charged + COLLISION_RECORD_BYTES + length (mr_key r)"] Cons.prems show ?case
    by (auto simp: usize_checked_add_def ac_simps)
qed simp

lemma seal_domains_charge:
  "charged + sealed_size ds \<le> usize_max \<Longrightarrow>
     \<exists>domains n. seal_domains digest (zip ds sides) charged = Some (domains, n) \<and> n \<le> charged + sealed_size ds"
proof (induction ds arbitrary: charged sides)
  case (Cons d ds)
  show ?case
  proof (cases sides)
    case (Cons side rest)
    let ?n = "sum_list (map (\<lambda>r. COLLISION_RECORD_BYTES + length (mr_key r)) (mm_records d))"
    have bound: "charged + COLLISION_DOMAIN_BYTES + ?n + sealed_size ds \<le> usize_max"
      using Cons.prems by (simp add: sealed_size_def)
    then obtain records where "seal_records digest (mm_records d) (charged + COLLISION_DOMAIN_BYTES) =
        Some (records, charged + COLLISION_DOMAIN_BYTES + ?n)"
      using seal_records_charge [of "charged + COLLISION_DOMAIN_BYTES" "mm_records d" digest] by auto
    moreover obtain domains n where "seal_domains digest (zip ds rest) (charged + COLLISION_DOMAIN_BYTES + ?n) = Some (domains, n)"
        "n \<le> charged + COLLISION_DOMAIN_BYTES + ?n + sealed_size ds"
      using Cons.IH [OF bound] by blast
    ultimately show ?thesis
      using bound Cons by (auto simp: usize_checked_add_def sealed_size_def)
  qed (simp add: sealed_size_def)
qed (simp add: sealed_size_def)

lemma seal_collision_charge:
  assumes "32 + sealed_size (rt_domains descriptor) \<le> charged" "charged \<le> usize_max"
  shows "\<exists>facts. seal_collision digest descriptor sides = Some facts \<and> sc_charged_bytes facts \<le> charged"
  using seal_domains_charge [of 32 "rt_domains descriptor" digest sides] assms
  by (auto simp: seal_collision_def)

section \<open>The registry and its users\<close>

text \<open>
  Besides the registry the system has the slots that commands hold, the handles that were given
  out, the triggers that wait for a worker or work, and those that have yet to publish a result.
\<close>

record ('io, 'a, 'e) registry_system =
  sys_registry :: "('io, 'a, 'e) RegistryState"
  sys_slots :: "ReconciliationSlot list"
  sys_handles :: "ReconciliationHandle set"
  sys_waiting :: "ReconciliationHandle list"
  sys_working :: "ReconciliationHandle list"
  sys_finishing :: "(ReconciliationHandle \<times> ('io, 'a, 'e) shared_result) list"

definition system_new :: "('io, 'a, 'e) registry_system" where
  "system_new = \<lparr>sys_registry = registry_new, sys_slots = [], sys_handles = {}, sys_waiting = [], sys_working = [],
     sys_finishing = []\<rparr>"

inductive registry_step ::
    "RegistryLimits \<Rightarrow> (bytes \<Rightarrow> bytes) \<Rightarrow> ('io, 'a, 'e) registry_system \<Rightarrow> ('io, 'a, 'e) registry_system \<Rightarrow> bool"
  for lim :: RegistryLimits and digest :: "bytes \<Rightarrow> bytes" where
  reserve: "reserve lim n (sys_registry s) = Inr (slot, r) \<Longrightarrow>
    registry_step lim digest s (s\<lparr>sys_registry := r, sys_slots := slot # sys_slots s\<rparr>)"
| install: "\<lbrakk>slot \<in> set (sys_slots s); 32 + sealed_size (rt_domains descriptor) \<le> sl_charged_bytes slot;
      slot_install descriptor slot (sys_registry s) = (h, r)\<rbrakk> \<Longrightarrow>
    registry_step lim digest s
      (s\<lparr>sys_registry := r, sys_slots := remove1 slot (sys_slots s), sys_handles := insert h (sys_handles s)\<rparr>)"
| drop: "slot \<in> set (sys_slots s) \<Longrightarrow>
    registry_step lim digest s
      (s\<lparr>sys_registry := slot_drop slot (sys_registry s), sys_slots := remove1 slot (sys_slots s)\<rparr>)"
| trigger: "\<lbrakk>h \<in> sys_handles s; flight_pass h (sys_registry s) = Some (Inr r)\<rbrakk> \<Longrightarrow>
    registry_step lim digest s (s\<lparr>sys_registry := r, sys_waiting := h # sys_waiting s\<rparr>)"
| grant: "\<lbrakk>h \<in> set (sys_waiting s); acquire_worker h (sys_registry s) = Some (Inr r)\<rbrakk> \<Longrightarrow>
    registry_step lim digest s
      (s\<lparr>sys_registry := r, sys_waiting := remove1 h (sys_waiting s), sys_working := h # sys_working s\<rparr>)"
| refuse: "\<lbrakk>h \<in> set (sys_waiting s); acquire_worker h (sys_registry s) = Some (Inl e)\<rbrakk> \<Longrightarrow>
    registry_step lim digest s
      (s\<lparr>sys_waiting := remove1 h (sys_waiting s), sys_finishing := (h, Inl e) # sys_finishing s\<rparr>)"
| finish: "\<lbrakk>h \<in> set (sys_working s); finish_worker digest h execution (sys_registry s) = Some (result, r)\<rbrakk> \<Longrightarrow>
    registry_step lim digest s
      (s\<lparr>sys_registry := r, sys_working := remove1 h (sys_working s), sys_finishing := (h, result) # sys_finishing s\<rparr>)"
| publish: "(h, result) \<in> set (sys_finishing s) \<Longrightarrow>
    registry_step lim digest s
      (s\<lparr>sys_registry := flight_complete h result (sys_registry s), sys_finishing := remove1 (h, result) (sys_finishing s)\<rparr>)"
| retry: "\<lbrakk>h \<in> sys_handles s; retry_handle h (sys_registry s) = (answer, r)\<rbrakk> \<Longrightarrow>
    registry_step lim digest s (s\<lparr>sys_registry := r\<rparr>)"
| close: "begin_close (sys_registry s) = Some (n, r) \<Longrightarrow> registry_step lim digest s (s\<lparr>sys_registry := r\<rparr>)"
| shutdown: "begin_drop (sys_registry s) = (n, r) \<Longrightarrow> registry_step lim digest s (s\<lparr>sys_registry := r\<rparr>)"

section \<open>The invariant\<close>

text \<open>Every charge is accounted for, within the limit of the registry.\<close>

definition accounts :: "RegistryLimits \<Rightarrow> ('io, 'a, 'e) registry_system \<Rightarrow> bool" where
  "accounts lim s \<longleftrightarrow>
     reg_reserved_bytes (sys_registry s) = charges (reg_scopes (sys_registry s)) + sum_list (map sl_charged_bytes (sys_slots s)) \<and>
     reg_reserved_bytes (sys_registry s) \<le> lim_reserved_bytes lim \<and> \<not> reg_failed (sys_registry s)"

text \<open>Every slot holds a scope of its own, and every scope can be sealed within its charge.\<close>

definition sealable :: "ScopeState \<Rightarrow> bool" where
  "sealable scope = (case scope of Verifying _ d c _ \<Rightarrow> 32 + sealed_size (rt_domains d) \<le> c | _ \<Rightarrow> True)"

lemma sealable_simps [simp]:
  "sealable Vacant" "sealable (Reserved t)" "sealable (Closed t facts f)"
  "sealable (Verifying t d c f) \<longleftrightarrow> 32 + sealed_size (rt_domains d) \<le> c"
  by (simp_all add: sealable_def)

lemma sealable_update: "\<lbrakk>\<forall>scope\<in>set scopes. sealable scope; sealable x\<rbrakk> \<Longrightarrow> \<forall>scope\<in>set (scopes[i := x]). sealable scope"
  by (auto dest: set_update_subset_insert [THEN subsetD])

definition slots_hold :: "('io, 'a, 'e) registry_system \<Rightarrow> bool" where
  "slots_hold s \<longleftrightarrow> length (reg_scopes (sys_registry s)) = RECONCILIATION_SCOPE_CAPACITY \<and>
     distinct (map sl_index (sys_slots s)) \<and>
     (\<forall>slot\<in>set (sys_slots s). sl_index slot < length (reg_scopes (sys_registry s)) \<and>
        reg_scopes (sys_registry s) ! sl_index slot = Reserved (sl_token slot)) \<and>
     (\<forall>scope\<in>set (reg_scopes (sys_registry s)). sealable scope)"

fun scope_token :: "ScopeState \<Rightarrow> u64 option" where
  "scope_token Vacant = None"
| "scope_token (Reserved t) = Some t"
| "scope_token (Verifying t _ _ _) = Some t"
| "scope_token (Closed t _ _) = Some t"

text \<open>Tokens are given out once.\<close>

definition scope_tokens :: "ScopeState list \<Rightarrow> u64 \<Rightarrow> bool" where
  "scope_tokens scopes next_token \<longleftrightarrow> (\<forall>i < length scopes. \<forall>t. scope_token (scopes ! i) = Some t \<longrightarrow>
     t < next_token \<and> (\<forall>j < length scopes. scope_token (scopes ! j) = Some t \<longrightarrow> j = i))"

definition tokens_unique :: "('io, 'a, 'e) registry_system \<Rightarrow> bool" where
  "tokens_unique s \<longleftrightarrow> scope_tokens (reg_scopes (sys_registry s)) (reg_next_token (sys_registry s)) \<and>
     (\<forall>h\<in>sys_handles s. hd_token h < reg_next_token (sys_registry s) \<and> hd_flight h < length (reg_flights (sys_registry s)) \<and>
        hd_index h < length (reg_scopes (sys_registry s))) \<and>
     (\<forall>h\<in>sys_handles s. \<forall>h'\<in>sys_handles s. hd_token h = hd_token h' \<or> hd_flight h = hd_flight h' \<longrightarrow> h = h') \<and>
     (\<forall>h\<in>sys_handles s. \<forall>slot\<in>set (sys_slots s). hd_token h \<noteq> sl_token slot)"

lemma scope_tokensD:
  assumes "scope_tokens scopes n" "i < length scopes" "scope_token (scopes ! i) = Some t"
  shows "t < n" "\<lbrakk>j < length scopes; scope_token (scopes ! j) = Some t\<rbrakk> \<Longrightarrow> j = i"
  using assms unfolding scope_tokens_def by blast+

lemma scope_tokens_update:
  assumes ok: "scope_tokens scopes n" and i: "i < length scopes" and "n \<le> n'"
    and x: "\<And>t. scope_token x = Some t \<Longrightarrow> t < n' \<and> (n \<le> t \<or> scope_token (scopes ! i) = Some t)"
  shows "scope_tokens (scopes[i := x]) n'"
  unfolding scope_tokens_def
proof (intro allI impI conjI)
  have only: "l = i" if "scope_token x = Some t" "l < length scopes" "scope_token (scopes[i := x] ! l) = Some t" for l t
  proof (rule ccontr)
    assume "l \<noteq> i"
    with that(3) have l: "scope_token (scopes ! l) = Some t" by simp
    from scope_tokensD(1) [OF ok that(2) l] x [OF that(1)] have "scope_token (scopes ! i) = Some t" by auto
    from scope_tokensD(2) [OF ok i this that(2) l] \<open>l \<noteq> i\<close> show False by simp
  qed
  fix j t
  assume j: "j < length (scopes[i := x])" and t: "scope_token (scopes[i := x] ! j) = Some t"
  show "t < n'"
  proof (cases "j = i")
    case True
    with t i x show ?thesis by simp
  next
    case False
    with scope_tokensD(1) [OF ok, of j t] j t assms(3) show ?thesis by simp
  qed
  fix k
  assume k: "k < length (scopes[i := x])" and tk: "scope_token (scopes[i := x] ! k) = Some t"
  show "k = j"
  proof (cases "j = i \<or> k = i")
    case True
    then have "scope_token x = Some t" using t tk i by auto
    with only [of t j] only [of t k] j k t tk show ?thesis by simp
  next
    case False
    with scope_tokensD(2) [OF ok, of j t k] j k t tk show ?thesis by simp
  qed
qed

text \<open>The scope of a handle is still to be resolved.\<close>

definition live :: "('io, 'a, 'e) registry_system \<Rightarrow> ReconciliationHandle \<Rightarrow> bool" where
  "live s h \<longleftrightarrow> hd_index h < length (reg_scopes (sys_registry s)) \<and>
     (\<exists>d c. reg_scopes (sys_registry s) ! hd_index h = Verifying (hd_token h) d c (hd_flight h))"

definition busy :: "('io, 'a, 'e) registry_system \<Rightarrow> ReconciliationHandle list" where
  "busy s = sys_waiting s @ sys_working s @ map fst (sys_finishing s)"

text \<open>A handle is unresolved until its flight has, or is about to have, a result that is no failure.\<close>

definition unresolved :: "('io, 'a, 'e) registry_system \<Rightarrow> ReconciliationHandle \<Rightarrow> bool" where
  "unresolved s h = (case reg_flights (sys_registry s) ! hd_flight h of
     FlightIdle \<Rightarrow> True
   | FlightRunning \<Rightarrow> \<forall>result. (h, result) \<in> set (sys_finishing s) \<longrightarrow> isl result
   | FlightComplete result \<Rightarrow> isl result)"

text \<open>One flight carries one trigger, and the scope of an unresolved handle is live.\<close>

definition flights_single :: "('io, 'a, 'e) registry_system \<Rightarrow> bool" where
  "flights_single s \<longleftrightarrow> distinct (busy s) \<and> set (busy s) \<subseteq> sys_handles s \<and>
     (\<forall>h\<in>sys_handles s. reg_flights (sys_registry s) ! hd_flight h = FlightRunning \<longleftrightarrow> h \<in> set (busy s)) \<and>
     (\<forall>h\<in>sys_handles s. unresolved s h \<longrightarrow> live s h)"

definition workers_bounded :: "('io, 'a, 'e) registry_system \<Rightarrow> bool" where
  "workers_bounded s \<longleftrightarrow> reg_active_workers (sys_registry s) = length (sys_working s) \<and>
     length (sys_working s) \<le> RECONCILIATION_WORKER_CAPACITY"

definition registry_inv :: "RegistryLimits \<Rightarrow> ('io, 'a, 'e) registry_system \<Rightarrow> bool" where
  "registry_inv lim s \<longleftrightarrow> accounts lim s \<and> slots_hold s \<and> tokens_unique s \<and> flights_single s \<and> workers_bounded s"

lemma registry_inv_new: "registry_inv lim system_new"
  by (auto simp: registry_inv_def accounts_def slots_hold_def tokens_unique_def scope_tokens_def flights_single_def workers_bounded_def busy_def
      system_new_def registry_new_def charges_def RECONCILIATION_SCOPE_CAPACITY_def)

section \<open>Every step keeps the invariant\<close>

lemma position_Some: "position P xs = Some i \<Longrightarrow> i < length xs \<and> P (xs ! i)"
  by (induction xs arbitrary: i) (auto split: if_splits)

lemma is_vacant_iff [simp]: "is_vacant s \<longleftrightarrow> s = Vacant"
  by (simp add: is_vacant_def split: ScopeState.split)

lemma flights_single_mono:
  assumes "flights_single s" and "sys_handles s' = sys_handles s" "busy s' = busy s" "sys_finishing s' = sys_finishing s"
    "reg_flights (sys_registry s') = reg_flights (sys_registry s)"
    and "\<And>h. \<lbrakk>h \<in> sys_handles s; live s h\<rbrakk> \<Longrightarrow> live s' h"
  shows "flights_single s'"
proof -
  have "unresolved s' h = unresolved s h" for h by (simp add: unresolved_def assms cong: FlightState.case_cong)
  with assms show ?thesis by (auto simp: flights_single_def)
qed

lemma live_update:
  assumes "live s h" and "reg_scopes (sys_registry s') = (reg_scopes (sys_registry s))[i := x]" and "hd_index h \<noteq> i"
  shows "live s' h"
  using assms by (auto simp: live_def)

lemma accounts_update:
  assumes "accounts lim s" and "i < length (reg_scopes (sys_registry s))"
    and "reg_scopes (sys_registry s') = (reg_scopes (sys_registry s))[i := x]"
    and "reg_reserved_bytes (sys_registry s') + scope_charge (reg_scopes (sys_registry s) ! i) + sum_list (map sl_charged_bytes (sys_slots s)) =
      reg_reserved_bytes (sys_registry s) + scope_charge x + sum_list (map sl_charged_bytes (sys_slots s'))"
    and "reg_reserved_bytes (sys_registry s') \<le> lim_reserved_bytes lim" "reg_failed (sys_registry s') = reg_failed (sys_registry s)"
  shows "accounts lim s'"
  using assms charges_update [OF assms(2), of x] by (simp add: accounts_def)

lemma reserve_inv:
  assumes inv: "registry_inv lim s" and res: "reserve lim n (sys_registry s) = Inr (slot, r)"
  shows "registry_inv lim (s\<lparr>sys_registry := r, sys_slots := slot # sys_slots s\<rparr>)" (is "registry_inv lim ?s'")
proof -
  let ?R = "sys_registry s" and ?sc = "reg_scopes (sys_registry s)"
  obtain i next_token where i: "i < length ?sc" "?sc ! i = Vacant"
    and tok: "checked_add (reg_next_token ?R) 1 = Some next_token"
    and lim: "reg_reserved_bytes ?R + n \<le> lim_reserved_bytes lim"
    and slot: "slot = \<lparr>sl_index = i, sl_token = reg_next_token ?R, sl_charged_bytes = n\<rparr>"
    and r: "r = ?R\<lparr>reg_next_token := next_token, reg_scopes := ?sc[i := Reserved (reg_next_token ?R)],
      reg_reserved_bytes := reg_reserved_bytes ?R + n\<rparr>"
    using res by (auto simp: reserve_def result_simps Let_def usize_checked_add_def dest!: position_Some split: if_splits)
  have fresh: "t < next_token" if "t \<le> reg_next_token ?R" for t
    using that checked_add_SomeD [OF tok] by (simp add: word_le_nat_alt word_less_nat_alt)
  have accounts: "accounts lim s" and slots: "slots_hold s" and tokens: "tokens_unique s" and flights: "flights_single s"
      and workers: "workers_bounded s"
    using inv by (simp_all add: registry_inv_def)
  have "accounts lim ?s'"
    by (rule accounts_update [OF accounts i(1), where x = "Reserved (reg_next_token ?R)"]) (use lim i in \<open>simp_all add: r slot\<close>)
  moreover have "slots_hold ?s'"
    using slots i sealable_update [of ?sc "Reserved (reg_next_token ?R)" i] by (auto simp: slots_hold_def r slot nth_list_update)
  moreover have "tokens_unique ?s'"
  proof -
    have "scope_tokens (?sc[i := Reserved (reg_next_token ?R)]) next_token"
      by (rule scope_tokens_update [OF _ i(1)]) (use tokens fresh in \<open>auto simp: tokens_unique_def less_imp_le\<close>)
    moreover have "hd_token h < next_token" "hd_token h \<noteq> reg_next_token ?R" if "h \<in> sys_handles s" for h
      using tokens fresh that by (auto simp: tokens_unique_def less_imp_le)
    ultimately show ?thesis using tokens by (simp add: tokens_unique_def r slot)
  qed
  moreover have "flights_single ?s'"
    by (rule flights_single_mono [OF flights]) (use i in \<open>auto simp: r live_def busy_def nth_list_update\<close>)
  moreover have "workers_bounded ?s'" using workers by (simp add: workers_bounded_def r)
  ultimately show ?thesis by (simp add: registry_inv_def)
qed

lemma sum_list_remove1:
  fixes f :: "'b \<Rightarrow> nat"
  shows "x \<in> set xs \<Longrightarrow> sum_list (map f xs) = f x + sum_list (map f (remove1 x xs))"
  by (induction xs) auto

lemma distinct_map_remove1: "distinct (map f xs) \<Longrightarrow> distinct (map f (remove1 x xs))"
  by (induction xs) (auto dest: set_remove1_subset [THEN subsetD])

lemma remove1_map_neq: "\<lbrakk>distinct (map f xs); x \<in> set xs; y \<in> set (remove1 x xs)\<rbrakk> \<Longrightarrow> f y \<noteq> f x"
  by (induction xs) (auto simp: image_iff dest: set_remove1_subset [THEN subsetD] split: if_splits)

lemma registry_invD:
  assumes "registry_inv lim s"
  shows "accounts lim s" "slots_hold s" "tokens_unique s" "flights_single s" "workers_bounded s"
  using assms by (simp_all add: registry_inv_def)

lemma slot_of:
  assumes "registry_inv lim s" "slot \<in> set (sys_slots s)"
  shows "sl_index slot < length (reg_scopes (sys_registry s))" "reg_scopes (sys_registry s) ! sl_index slot = Reserved (sl_token slot)"
  using assms by (auto simp: registry_inv_def slots_hold_def)

lemma slots_hold_remove1:
  assumes "slots_hold s" "slot \<in> set (sys_slots s)"
    and "reg_scopes (sys_registry s') = (reg_scopes (sys_registry s))[sl_index slot := x]"
    and "sys_slots s' = remove1 slot (sys_slots s)"
    and "sealable x"
  shows "slots_hold s'"
proof -
  have d: "distinct (map sl_index (sys_slots s))" using assms(1) by (simp add: slots_hold_def)
  have "slot' \<in> set (sys_slots s) \<and> sl_index slot' \<noteq> sl_index slot" if "slot' \<in> set (sys_slots s')" for slot'
    using remove1_map_neq [OF d assms(2), of slot'] that assms(4) by (auto dest: set_remove1_subset [THEN subsetD])
  then have other: "\<forall>slot'\<in>set (sys_slots s'). slot' \<in> set (sys_slots s) \<and> sl_index slot' \<noteq> sl_index slot" by blast
  have "distinct (map sl_index (sys_slots s'))" using distinct_map_remove1 [OF d] assms(4) by simp
  moreover have "\<forall>slot'\<in>set (sys_slots s'). sl_index slot' < length (reg_scopes (sys_registry s')) \<and>
      reg_scopes (sys_registry s') ! sl_index slot' = Reserved (sl_token slot')"
  proof
    fix slot' assume "slot' \<in> set (sys_slots s')"
    with other have "slot' \<in> set (sys_slots s)" "sl_index slot \<noteq> sl_index slot'" by metis+
    with assms(1) show "sl_index slot' < length (reg_scopes (sys_registry s')) \<and>
        reg_scopes (sys_registry s') ! sl_index slot' = Reserved (sl_token slot')"
      unfolding slots_hold_def assms(3) by auto
  qed
  moreover have "\<forall>scope\<in>set (reg_scopes (sys_registry s')). sealable scope"
    using assms(1,5) unfolding assms(3) by (intro sealable_update) (simp_all add: slots_hold_def)
  ultimately show ?thesis
    using assms(1) by (simp add: slots_hold_def assms(3))
qed

lemma drop_inv:
  assumes inv: "registry_inv lim s" and slot: "slot \<in> set (sys_slots s)"
  shows "registry_inv lim (s\<lparr>sys_registry := slot_drop slot (sys_registry s), sys_slots := remove1 slot (sys_slots s)\<rparr>)"
    (is "registry_inv lim ?s'")
proof -
  let ?R = "sys_registry s" and ?sc = "reg_scopes (sys_registry s)"
  note D = registry_invD [OF inv] and i = slot_of [OF inv slot]
  have sum: "sum_list (map sl_charged_bytes (sys_slots s)) = sl_charged_bytes slot + sum_list (map sl_charged_bytes (remove1 slot (sys_slots s)))"
    by (rule sum_list_remove1 [OF slot])
  with D(1) have le: "sl_charged_bytes slot \<le> reg_reserved_bytes ?R" by (simp add: accounts_def)
  with i have r: "slot_drop slot ?R = ?R\<lparr>reg_scopes := ?sc[sl_index slot := Vacant],
      reg_reserved_bytes := reg_reserved_bytes ?R - sl_charged_bytes slot\<rparr>"
    by (simp add: slot_drop_def)
  have "accounts lim ?s'"
    by (rule accounts_update [OF D(1) i(1), where x = Vacant]) (use i sum D(1) le in \<open>simp_all add: r accounts_def\<close>)
  moreover have "slots_hold ?s'"
    by (rule slots_hold_remove1 [OF D(2) slot, where x = Vacant]) (simp_all add: r)
  moreover have "tokens_unique ?s'"
  proof -
    have "scope_tokens (?sc[sl_index slot := Vacant]) (reg_next_token ?R)"
      by (rule scope_tokens_update [OF _ i(1)]) (use D(3) in \<open>auto simp: tokens_unique_def\<close>)
    then show ?thesis using D(3) by (auto simp: tokens_unique_def r dest: set_remove1_subset [THEN subsetD])
  qed
  moreover have "flights_single ?s'"
    by (rule flights_single_mono [OF D(4)]) (use i in \<open>auto simp: r live_def busy_def nth_list_update\<close>)
  moreover have "workers_bounded ?s'" using D(5) by (simp add: workers_bounded_def r)
  ultimately show ?thesis by (simp add: registry_inv_def)
qed

lemma install_tokens:
  assumes inv: "registry_inv lim s" and slot: "slot \<in> set (sys_slots s)" and step: "slot_install descriptor slot (sys_registry s) = (h, r)"
  shows "tokens_unique (s\<lparr>sys_registry := r, sys_slots := remove1 slot (sys_slots s), sys_handles := insert h (sys_handles s)\<rparr>)"
proof -
  let ?R = "sys_registry s" and ?sc = "reg_scopes (sys_registry s)"
  note D = registry_invD [OF inv] and i = slot_of [OF inv slot]
  have tokens: "scope_tokens ?sc (reg_next_token ?R)" using D(3) by (simp add: tokens_unique_def)
  have t: "sl_token slot < reg_next_token ?R" using scope_tokensD(1) [OF tokens i(1)] i(2) by simp
  have other: "slot' \<in> set (sys_slots s) \<and> sl_token slot' \<noteq> sl_token slot" if "slot' \<in> set (remove1 slot (sys_slots s))" for slot'
  proof -
    from that have s': "slot' \<in> set (sys_slots s)" by (auto dest: set_remove1_subset [THEN subsetD])
    have "sl_index slot' \<noteq> sl_index slot"
      using remove1_map_neq [OF _ slot that, of sl_index] D(2) by (simp add: slots_hold_def)
    with scope_tokensD(2) [OF tokens i(1), of "sl_token slot" "sl_index slot'"] slot_of [OF inv s'] i(2) s' show ?thesis by auto
  qed
  have "scope_tokens (?sc[sl_index slot := Verifying (sl_token slot) descriptor (sl_charged_bytes slot) (length (reg_flights ?R))])
      (reg_next_token ?R)"
    by (rule scope_tokens_update [OF tokens i(1)]) (use t i in auto)
  moreover have "\<forall>h'\<in>sys_handles s. hd_token h' \<noteq> sl_token slot \<and> hd_flight h' \<noteq> length (reg_flights ?R)"
    using D(3) slot by (auto simp: tokens_unique_def)
  ultimately show ?thesis
    using D(3) t i(1) step by (auto simp: tokens_unique_def slot_install_def Let_def less_Suc_eq dest!: other)
qed

lemma install_flights:
  assumes inv: "registry_inv lim s" and slot: "slot \<in> set (sys_slots s)" and step: "slot_install descriptor slot (sys_registry s) = (h, r)"
  shows "flights_single (s\<lparr>sys_registry := r, sys_slots := slots, sys_handles := insert h (sys_handles s)\<rparr>)" (is "flights_single ?s'")
proof -
  note D = registry_invD [OF inv] and i = slot_of [OF inv slot]
  have h: "hd_flight h = length (reg_flights (sys_registry s))" and r: "reg_flights r = reg_flights (sys_registry s) @ [FlightIdle]"
      and sc: "reg_scopes r = (reg_scopes (sys_registry s))[hd_index h := Verifying (hd_token h) descriptor (sl_charged_bytes slot) (hd_flight h)]"
      and hi: "hd_index h = sl_index slot"
    using step by (auto simp: slot_install_def Let_def)
  have old: "hd_flight h' < length (reg_flights (sys_registry s))" "h' \<noteq> h" if "h' \<in> sys_handles s" for h'
    using D(3) that h by (auto simp: tokens_unique_def)
  have "live ?s' h" using i hi sc by (auto simp: live_def)
  moreover have "live ?s' h'" if "live s h'" for h'
    using that i hi sc by (auto simp: live_def nth_list_update)
  moreover have "unresolved ?s' h' = unresolved s h'" if "h' \<in> sys_handles s" for h'
    using old [OF that] by (simp add: unresolved_def r nth_append cong: FlightState.case_cong)
  moreover have "busy ?s' = busy s" by (simp add: busy_def)
  moreover have "h \<notin> set (busy s)" using D(4) old by (auto simp: flights_single_def)
  ultimately show ?thesis
    using D(4) old h by (auto simp: flights_single_def r nth_append)
qed

lemma install_inv:
  assumes inv: "registry_inv lim s" and slot: "slot \<in> set (sys_slots s)"
    and fits: "32 + sealed_size (rt_domains descriptor) \<le> sl_charged_bytes slot"
    and step: "slot_install descriptor slot (sys_registry s) = (h, r)"
  shows "registry_inv lim (s\<lparr>sys_registry := r, sys_slots := remove1 slot (sys_slots s), sys_handles := insert h (sys_handles s)\<rparr>)"
    (is "registry_inv lim ?s'")
proof -
  note D = registry_invD [OF inv] and i = slot_of [OF inv slot]
  have sum: "sum_list (map sl_charged_bytes (sys_slots s)) = sl_charged_bytes slot + sum_list (map sl_charged_bytes (remove1 slot (sys_slots s)))"
    by (rule sum_list_remove1 [OF slot])
  let ?x = "Verifying (sl_token slot) descriptor (sl_charged_bytes slot) (length (reg_flights (sys_registry s)))"
  have "accounts lim ?s'"
    by (rule accounts_update [OF D(1) i(1), where x = ?x])
      (use i sum D(1) step in \<open>auto simp: slot_install_def Let_def accounts_def\<close>)
  moreover have "slots_hold ?s'"
    by (rule slots_hold_remove1 [OF D(2) slot, where x = ?x]) (use step fits in \<open>auto simp: slot_install_def Let_def\<close>)
  moreover have "tokens_unique ?s'" by (rule install_tokens [OF inv slot step])
  moreover have "flights_single ?s'" by (rule install_flights [OF inv slot step])
  moreover have "workers_bounded ?s'" using D(5) step by (auto simp: workers_bounded_def slot_install_def Let_def)
  ultimately show ?thesis by (simp add: registry_inv_def)
qed

section \<open>Triggers and workers\<close>

lemma frame:
  assumes "reg_scopes (sys_registry s') = reg_scopes (sys_registry s)" "sys_slots s' = sys_slots s"
  shows "\<lbrakk>accounts lim s; reg_reserved_bytes (sys_registry s') = reg_reserved_bytes (sys_registry s);
      reg_failed (sys_registry s') = reg_failed (sys_registry s)\<rbrakk> \<Longrightarrow> accounts lim s'"
    "slots_hold s \<Longrightarrow> slots_hold s'"
    "\<lbrakk>tokens_unique s; reg_next_token (sys_registry s') = reg_next_token (sys_registry s); sys_handles s' = sys_handles s;
      length (reg_flights (sys_registry s')) = length (reg_flights (sys_registry s))\<rbrakk> \<Longrightarrow> tokens_unique s'"
  unfolding accounts_def slots_hold_def tokens_unique_def assms by (simp, blast, simp)

lemma flight_handles:
  assumes "registry_inv lim s" "h \<in> sys_handles s"
  shows "hd_flight h < length (reg_flights (sys_registry s))"
    "\<lbrakk>h' \<in> sys_handles s; hd_flight h' = hd_flight h\<rbrakk> \<Longrightarrow> h' = h"
    "\<lbrakk>h' \<in> sys_handles s; hd_token h' = hd_token h\<rbrakk> \<Longrightarrow> h' = h"
  using assms by (auto simp: registry_inv_def tokens_unique_def)

lemma live_index:
  assumes "registry_inv lim s" "h \<in> sys_handles s" "live s h" "h' \<in> sys_handles s" "live s h'" "hd_index h' = hd_index h"
  shows "h' = h"
  using assms(3,5,6) flight_handles(3) [OF assms(1,2,4)] by (auto simp: live_def)

lemma busy_handles:
  assumes "registry_inv lim s" "h \<in> set (busy s)"
  shows "h \<in> sys_handles s" "reg_flights (sys_registry s) ! hd_flight h = FlightRunning"
  using assms by (auto simp: registry_inv_def flights_single_def)

lemma busy_live:
  assumes "registry_inv lim s" and h: "h \<in> set (sys_waiting s) \<or> h \<in> set (sys_working s)"
  shows "live s h"
proof -
  have b: "h \<in> set (busy s)" using h by (auto simp: busy_def)
  have "distinct (busy s)" using assms(1) by (simp add: registry_inv_def flights_single_def)
  with h have "h \<notin> fst ` set (sys_finishing s)" by (auto simp: busy_def)
  then have "unresolved s h" using busy_handles(2) [OF assms(1) b] by (force simp: unresolved_def)
  with busy_handles(1) [OF assms(1) b] assms(1) show ?thesis by (simp add: registry_inv_def flights_single_def)
qed

lemma trigger_inv:
  assumes inv: "registry_inv lim s" and h: "h \<in> sys_handles s" and step: "flight_pass h (sys_registry s) = Some (Inr r)"
  shows "registry_inv lim (s\<lparr>sys_registry := r, sys_waiting := h # sys_waiting s\<rparr>)" (is "registry_inv lim ?s'")
proof -
  note D = registry_invD [OF inv] and F = flight_handles [OF inv h]
  have idle: "reg_flights (sys_registry s) ! hd_flight h = FlightIdle"
    and r: "r = (sys_registry s)\<lparr>reg_flights := (reg_flights (sys_registry s))[hd_flight h := FlightRunning]\<rparr>"
    using step by (auto simp: flight_pass_def split: FlightState.splits)
  have fl: "reg_flights r ! hd_flight h' = (if h' = h then FlightRunning else reg_flights (sys_registry s) ! hd_flight h')"
    if "h' \<in> sys_handles s" for h'
    using F(1) F(2) [OF that] by (auto simp: r nth_list_update)
  have new: "h \<notin> set (busy s)" using D(4) h idle by (auto simp: flights_single_def)
  have live: "live ?s' h' = live s h'" for h' by (simp add: live_def r)
  have "unresolved ?s' h' = unresolved s h'" if "h' \<noteq> h" "h' \<in> sys_handles s" for h'
    using fl [OF that(2)] that(1) by (simp add: unresolved_def cong: FlightState.case_cong)
  moreover have "live s h" using D(4) h idle by (auto simp: flights_single_def unresolved_def)
  ultimately have "\<forall>h'\<in>sys_handles s. unresolved ?s' h' \<longrightarrow> live ?s' h'"
    using D(4) unfolding live flights_single_def by metis
  moreover have "set (busy ?s') = insert h (set (busy s))" "distinct (busy ?s') = (h \<notin> set (busy s) \<and> distinct (busy s))"
    by (auto simp: busy_def)
  ultimately have "flights_single ?s'"
    using D(4) fl h new by (simp add: flights_single_def)
  moreover have "accounts lim ?s'" "slots_hold ?s'" "tokens_unique ?s'" "workers_bounded ?s'"
    using D(5) by (auto simp: r workers_bounded_def intro: frame(1) [OF _ _ D(1)] frame(2) [OF _ _ D(2)] frame(3) [OF _ _ D(3)])
  ultimately show ?thesis by (simp add: registry_inv_def)
qed

lemma grant_inv:
  assumes inv: "registry_inv lim s" and h: "h \<in> set (sys_waiting s)" and step: "acquire_worker h (sys_registry s) = Some (Inr r)"
  shows "registry_inv lim (s\<lparr>sys_registry := r, sys_waiting := remove1 h (sys_waiting s), sys_working := h # sys_working s\<rparr>)"
    (is "registry_inv lim ?s'")
proof -
  note D = registry_invD [OF inv]
  have r: "r = (sys_registry s)\<lparr>reg_active_workers := reg_active_workers (sys_registry s) + 1\<rparr>"
    and free: "reg_active_workers (sys_registry s) < RECONCILIATION_WORKER_CAPACITY"
    using step by (auto simp: acquire_worker_def split: if_splits)
  have live: "live ?s' h' = live s h'" and unresolved: "unresolved ?s' h' = unresolved s h'" for h'
    by (simp_all add: live_def unresolved_def r cong: FlightState.case_cong)
  have "set (busy ?s') = set (busy s)" "distinct (busy ?s')"
    using D(4) h by (auto simp: busy_def flights_single_def distinct_remove1 set_remove1_eq)
  then have "flights_single ?s'" using D(4) live unresolved by (simp add: flights_single_def r)
  moreover have "accounts lim ?s'" "slots_hold ?s'" "tokens_unique ?s'" "workers_bounded ?s'"
    using D(5) free by (auto simp: r workers_bounded_def intro: frame(1) [OF _ _ D(1)] frame(2) [OF _ _ D(2)] frame(3) [OF _ _ D(3)])
  ultimately show ?thesis by (simp add: registry_inv_def)
qed

text \<open>A trigger that holds a flight is never told that its scope is stale.\<close>

lemma waiting_not_refused:
  assumes "registry_inv lim s" "h \<in> set (sys_waiting s)"
  shows "acquire_worker h (sys_registry s) \<noteq> Some (Inl e)"
  using busy_live [OF assms(1), of h] assms(2) by (auto simp: acquire_worker_def verifies_def live_def)

text \<open>What a worker leaves behind: a failure changes no scope, an answer vacates or closes the scope of the handle.\<close>

lemma charges_nth: "i < length scopes \<Longrightarrow> scope_charge (scopes ! i) \<le> charges scopes"
  unfolding charges_def by (rule member_le_sum_list) simp_all

lemma release_core: "\<exists>core. release_retained_core_if_idle st = st\<lparr>reg_retained_core := core\<rparr>"
proof (cases "list_ex is_installed (reg_scopes st)")
  case True
  then show ?thesis by (intro exI [of _ "reg_retained_core st"]) (simp add: release_retained_core_if_idle_def)
qed (auto simp: release_retained_core_if_idle_def)

lemma finish_failed:
  assumes "registry_inv lim s" "h \<in> set (sys_working s)"
  shows "finish_worker digest h (Inl e) (sys_registry s) =
    Some (Inl e, (sys_registry s)\<lparr>reg_active_workers := reg_active_workers (sys_registry s) - 1\<rparr>)"
  using assms by (auto simp: finish_worker_def worker_done_def registry_inv_def workers_bounded_def)

lemma finish_answered:
  assumes inv: "registry_inv lim s" and h: "h \<in> set (sys_working s)" and max: "lim_reserved_bytes lim \<le> usize_max"
    and d: "reg_scopes (sys_registry s) ! hd_index h = Verifying t d c f"
  shows "\<exists>x core. finish_worker digest h (Inr (sides, receipt)) (sys_registry s) =
      Some (Inr (case ordinary_exact_side sides of None \<Rightarrow> ResolvedCollision | Some side \<Rightarrow> if side = SideOld then ResolvedOld else ResolvedNew receipt),
        (sys_registry s)\<lparr>reg_scopes := (reg_scopes (sys_registry s))[hd_index h := x],
          reg_reserved_bytes := reg_reserved_bytes (sys_registry s) - c + scope_charge x, reg_retained_core := core,
          reg_active_workers := reg_active_workers (sys_registry s) - 1\<rparr>) \<and>
      scope_charge x \<le> c \<and> (x = Vacant \<or> (\<exists>facts. x = Closed t facts f))"
proof -
  let ?R = "sys_registry s"
  note D = registry_invD [OF inv]
  have i: "hd_index h < length (reg_scopes ?R)" "t = hd_token h" using busy_live [OF inv, of h] h d by (auto simp: live_def)
  have c: "c \<le> reg_reserved_bytes ?R" "reg_reserved_bytes ?R \<le> usize_max"
    using charges_nth [OF i(1)] d D(1) max by (auto simp: accounts_def)
  have w: "reg_active_workers ?R \<noteq> 0" using D(5) h by (auto simp: workers_bounded_def)
  have "32 + sealed_size (rt_domains d) \<le> c" using D(2) i(1) d nth_mem [of "hd_index h" "reg_scopes ?R"] by (force simp: slots_hold_def)
  then obtain facts where facts: "seal_collision digest d sides = Some facts" "sc_charged_bytes facts \<le> c"
    using seal_collision_charge [of d c digest sides] c by auto
  show ?thesis
  proof (cases "ordinary_exact_side sides")
    case None
    obtain core where "release_retained_core_if_idle (?R\<lparr>reg_reserved_bytes := reg_reserved_bytes ?R - c + sc_charged_bytes facts,
        reg_scopes := (reg_scopes ?R)[hd_index h := Closed t facts f]\<rparr>) =
      ?R\<lparr>reg_reserved_bytes := reg_reserved_bytes ?R - c + sc_charged_bytes facts,
        reg_scopes := (reg_scopes ?R)[hd_index h := Closed t facts f], reg_retained_core := core\<rparr>"
      using release_core by blast
    with None facts i c w d show ?thesis
      by (intro exI [of _ "Closed t facts f"] exI [of _ core]) (simp add: finish_worker_def worker_done_def usize_checked_add_def Let_def)
  next
    case (Some side)
    obtain core where "release_retained_core_if_idle (?R\<lparr>reg_scopes := (reg_scopes ?R)[hd_index h := Vacant],
        reg_reserved_bytes := reg_reserved_bytes ?R - c\<rparr>) =
      ?R\<lparr>reg_scopes := (reg_scopes ?R)[hd_index h := Vacant], reg_reserved_bytes := reg_reserved_bytes ?R - c, reg_retained_core := core\<rparr>"
      using release_core by blast
    with Some i c w d show ?thesis
      by (intro exI [of _ Vacant] exI [of _ core]) (simp add: finish_worker_def worker_done_def release_charge_def Let_def)
  qed
qed

lemma busy_finish:
  assumes "registry_inv lim s" "h \<in> set (sys_working s)"
    and "s' = s\<lparr>sys_registry := r, sys_working := remove1 h (sys_working s), sys_finishing := (h, result) # sys_finishing s\<rparr>"
  shows "set (busy s') = set (busy s)" "distinct (busy s')"
    "length (sys_working s') = length (sys_working s) - 1"
  using assms registry_invD(4) [OF assms(1)]
  by (auto simp: busy_def flights_single_def distinct_remove1 set_remove1_eq length_remove1)

lemma finish_failed_inv:
  assumes inv: "registry_inv lim s" and h: "h \<in> set (sys_working s)"
  shows "registry_inv lim (s\<lparr>sys_registry := (sys_registry s)\<lparr>reg_active_workers := reg_active_workers (sys_registry s) - 1\<rparr>,
    sys_working := remove1 h (sys_working s), sys_finishing := (h, Inl e) # sys_finishing s\<rparr>)" (is "registry_inv lim ?s'")
proof -
  note D = registry_invD [OF inv] and B = busy_finish [OF inv h refl]
  have "live ?s' h' = live s h'" "unresolved ?s' h' = unresolved s h'" for h'
    by (auto simp: live_def unresolved_def split: FlightState.split)
  then have "flights_single ?s'" using D(4) B(1,2) by (simp add: flights_single_def)
  moreover have "accounts lim ?s'" "slots_hold ?s'" "tokens_unique ?s'" "workers_bounded ?s'"
    using D(5) B(3) by (auto simp: workers_bounded_def intro: frame(1) [OF _ _ D(1)] frame(2) [OF _ _ D(2)] frame(3) [OF _ _ D(3)])
  ultimately show ?thesis by (simp add: registry_inv_def)
qed

lemma slots_hold_update:
  assumes "slots_hold s" and "reg_scopes (sys_registry s') = (reg_scopes (sys_registry s))[i := x]" and "sys_slots s' = sys_slots s"
    and "sealable x" "reg_scopes (sys_registry s) ! i = Verifying t d c f"
  shows "slots_hold s'"
proof -
  have "\<forall>slot\<in>set (sys_slots s). sl_index slot \<noteq> i" using assms(1,5) by (auto simp: slots_hold_def)
  moreover have "\<forall>scope\<in>set (reg_scopes (sys_registry s')). sealable scope"
    using assms(1,4) unfolding assms(2) by (intro sealable_update) (simp_all add: slots_hold_def)
  ultimately show ?thesis using assms(1) by (auto simp: slots_hold_def assms(2,3))
qed

lemma finish_answered_flights:
  assumes inv: "registry_inv lim s" and h: "h \<in> set (sys_working s)"
    and r: "reg_scopes r = (reg_scopes (sys_registry s))[hd_index h := x]" "reg_flights r = reg_flights (sys_registry s)"
  shows "flights_single (s\<lparr>sys_registry := r, sys_working := remove1 h (sys_working s), sys_finishing := (h, Inr result) # sys_finishing s\<rparr>)"
    (is "flights_single ?s'")
proof -
  note D = registry_invD [OF inv] and B = busy_finish [OF inv h refl]
  have hb: "h \<in> set (busy s)" using h by (simp add: busy_def)
  have "live ?s' h'" if "h' \<in> sys_handles s" "unresolved ?s' h'" for h'
  proof -
    have "h' \<noteq> h" using that(2) busy_handles(2) [OF inv hb] by (auto simp: unresolved_def r)
    moreover from this have "unresolved s h'" using that(2) by (auto simp: unresolved_def r split: FlightState.splits)
    then have "live s h'" using D(4) that(1) by (simp add: flights_single_def)
    ultimately have "hd_index h' \<noteq> hd_index h"
      using live_index [OF inv busy_handles(1) [OF inv hb] _ that(1)] busy_live [OF inv, of h] h by blast
    with \<open>live s h'\<close> show ?thesis by (auto simp: live_def r)
  qed
  then show ?thesis using D(4) B(1,2) by (simp add: flights_single_def r)
qed

lemma finish_inv:
  assumes inv: "registry_inv lim s" and h: "h \<in> set (sys_working s)" and max: "lim_reserved_bytes lim \<le> usize_max"
    and step: "finish_worker digest h execution (sys_registry s) = Some (result, r)"
  shows "registry_inv lim (s\<lparr>sys_registry := r, sys_working := remove1 h (sys_working s), sys_finishing := (h, result) # sys_finishing s\<rparr>)"
    (is "registry_inv lim ?s'")
proof (cases execution)
  case (Inl e)
  with step finish_failed [OF inv h, of digest e] finish_failed_inv [OF inv h, of e] show ?thesis by simp
next
  case (Inr a)
  obtain sides receipt where a: "a = (sides, receipt)" by fastforce
  let ?R = "sys_registry s"
  note D = registry_invD [OF inv] and B = busy_finish [OF inv h refl]
  obtain d c where i: "hd_index h < length (reg_scopes ?R)" and d: "reg_scopes ?R ! hd_index h = Verifying (hd_token h) d c (hd_flight h)"
    using busy_live [OF inv, of h] h by (auto simp: live_def)
  from finish_answered [OF inv h max d, of digest sides receipt] step Inr a
  obtain x core res where result: "result = Inr res" and r: "r = ?R\<lparr>reg_scopes := (reg_scopes ?R)[hd_index h := x],
      reg_reserved_bytes := reg_reserved_bytes ?R - c + scope_charge x, reg_retained_core := core,
      reg_active_workers := reg_active_workers ?R - 1\<rparr>"
    and x: "scope_charge x \<le> c" "x = Vacant \<or> (\<exists>facts. x = Closed (hd_token h) facts (hd_flight h))" by auto
  have c: "c \<le> reg_reserved_bytes ?R" using charges_nth [OF i] d D(1) by (auto simp: accounts_def)
  have "accounts lim ?s'"
    by (rule accounts_update [OF D(1) i, where x = x]) (use d c x D(1) in \<open>auto simp: r accounts_def\<close>)
  moreover have "slots_hold ?s'"
    by (rule slots_hold_update [OF D(2) _ _ _ d, where x = x]) (use x in \<open>auto simp: r\<close>)
  moreover have "tokens_unique ?s'"
  proof -
    have tokens: "scope_tokens (reg_scopes ?R) (reg_next_token ?R)" using D(3) by (simp add: tokens_unique_def)
    have "scope_tokens ((reg_scopes ?R)[hd_index h := x]) (reg_next_token ?R)"
      by (rule scope_tokens_update [OF tokens i]) (use x d scope_tokensD(1) [OF tokens i] in auto)
    with D(3) show ?thesis by (simp add: tokens_unique_def r)
  qed
  moreover have "flights_single ?s'"
    unfolding result by (rule finish_answered_flights [OF inv h, where x = x]) (simp_all add: r)
  moreover have "workers_bounded ?s'" using D(5) B(3) by (auto simp: workers_bounded_def r)
  ultimately show ?thesis by (simp add: registry_inv_def)
qed

lemma flights_frame:
  assumes inv: "registry_inv lim s" and f: "reg_flights (sys_registry s') = (reg_flights (sys_registry s))[i := x]"
    and R: "sys_registry s' = (sys_registry s)\<lparr>reg_flights := reg_flights (sys_registry s')\<rparr>"
    and S: "sys_slots s' = sys_slots s" "sys_handles s' = sys_handles s" "sys_working s' = sys_working s"
    and "flights_single s'"
  shows "registry_inv lim s'"
proof -
  note D = registry_invD [OF inv]
  have "reg_scopes (sys_registry s') = reg_scopes (sys_registry s)" "reg_reserved_bytes (sys_registry s') = reg_reserved_bytes (sys_registry s)"
    "reg_failed (sys_registry s') = reg_failed (sys_registry s)" "reg_next_token (sys_registry s') = reg_next_token (sys_registry s)"
    "reg_active_workers (sys_registry s') = reg_active_workers (sys_registry s)"
    by (subst R, simp)+
  with S f frame [of s' s] D assms(7) show ?thesis by (simp add: registry_inv_def workers_bounded_def)
qed

lemma set_map_remove1: "\<lbrakk>distinct (map f xs); x \<in> set xs\<rbrakk> \<Longrightarrow> f ` set (remove1 x xs) = f ` set xs - {f x}"
  by (simp add: distinct_map set_remove1_eq inj_on_image_set_diff [where C = "set xs"])

lemma publish_busy:
  assumes "registry_inv lim s" and p: "(h, result) \<in> set (sys_finishing s)"
  shows "set (sys_waiting s @ sys_working s @ map fst (remove1 (h, result) (sys_finishing s))) = set (busy s) - {h}"
    "distinct (sys_waiting s @ sys_working s @ map fst (remove1 (h, result) (sys_finishing s)))"
    "(h, result') \<in> set (sys_finishing s) \<Longrightarrow> result' = result"
proof -
  have d: "distinct (busy s)" using assms(1) by (simp add: registry_inv_def flights_single_def)
  then have dm: "distinct (map fst (sys_finishing s))" by (simp add: busy_def)
  then show "result' = result" if "(h, result') \<in> set (sys_finishing s)" using that p by (rule eq_key_imp_eq_value)
  have h: "h \<in> fst ` set (sys_finishing s)" using p by force
  have e: "fst ` set (remove1 (h, result) (sys_finishing s)) = fst ` set (sys_finishing s) - {h}"
    using set_map_remove1 [OF dm p] by simp
  from d h show "set (sys_waiting s @ sys_working s @ map fst (remove1 (h, result) (sys_finishing s))) = set (busy s) - {h}"
    unfolding busy_def set_append set_map e distinct_append by blast
  from d show "distinct (sys_waiting s @ sys_working s @ map fst (remove1 (h, result) (sys_finishing s)))"
    using distinct_map_remove1 [OF dm, of "(h, result)"] unfolding busy_def distinct_append set_append set_map e by blast
qed

lemma flights_singleI:
  assumes "flights_single s" and "distinct (busy s')" "set (busy s') \<subseteq> set (busy s)" "sys_handles s' = sys_handles s"
    and "\<And>h. h \<in> sys_handles s \<Longrightarrow> reg_flights (sys_registry s') ! hd_flight h = FlightRunning \<longleftrightarrow> h \<in> set (busy s')"
    and "\<And>h. h \<in> sys_handles s \<Longrightarrow> unresolved s' h = unresolved s h"
    and "\<And>h. live s' h = live s h"
  shows "flights_single s'"
  using assms unfolding flights_single_def by (metis (no_types, lifting) subset_trans)

lemma publish_inv:
  assumes inv: "registry_inv lim s" and p: "(h, result) \<in> set (sys_finishing s)"
  shows "registry_inv lim (s\<lparr>sys_registry := flight_complete h result (sys_registry s),
    sys_finishing := remove1 (h, result) (sys_finishing s)\<rparr>)" (is "registry_inv lim ?s'")
proof (rule flights_frame [OF inv, where i = "hd_flight h" and x = "FlightComplete result"])
  note D = registry_invD [OF inv] and P = publish_busy [OF inv p]
  have hb: "h \<in> set (busy s)" using p by (force simp: busy_def)
  note H = busy_handles [OF inv hb] and F = flight_handles [OF inv busy_handles(1) [OF inv hb]]
  have fl: "reg_flights (sys_registry ?s') ! hd_flight h' =
      (if h' = h then FlightComplete result else reg_flights (sys_registry s) ! hd_flight h')" if "h' \<in> sys_handles s" for h'
    using F(1) F(2) [OF that] by (auto simp: flight_complete_def nth_list_update)
  have live: "live ?s' h' = live s h'" for h' by (simp add: live_def flight_complete_def)
  have busy: "set (busy ?s') = set (busy s) - {h}" "distinct (busy ?s')" using P(1,2) by (simp_all add: busy_def)
  show "flights_single ?s'"
  proof (rule flights_singleI [OF D(4) busy(2) _ _ _ _ live])
    fix h' assume h': "h' \<in> sys_handles s"
    have run: "reg_flights (sys_registry s) ! hd_flight h' = FlightRunning \<longleftrightarrow> h' \<in> set (busy s)"
      using D(4) h' by (simp add: flights_single_def)
    show "reg_flights (sys_registry ?s') ! hd_flight h' = FlightRunning \<longleftrightarrow> h' \<in> set (busy ?s')"
      unfolding fl [OF h'] busy(1) using run by simp
    show "unresolved ?s' h' = unresolved s h'"
    proof (cases "h' = h")
      case True
      have "(\<forall>result'. (h, result') \<in> set (sys_finishing s) \<longrightarrow> isl result') = isl result" using P(3) p by blast
      then have "unresolved s h = isl result" by (simp add: unresolved_def H(2))
      moreover have "unresolved ?s' h = isl result" unfolding unresolved_def fl [OF H(1)] by simp
      ultimately show ?thesis using True by simp
    next
      case False
      with fl [OF h'] show ?thesis by (simp add: unresolved_def in_set_remove1 cong: FlightState.case_cong)
    qed
  qed (use busy in auto)
qed (simp_all add: flight_complete_def)

lemma retry_handle_state:
  assumes "retry_handle h st = (answer, r)"
  shows "r = st \<or> (\<exists>e. reg_flights st ! hd_flight h = FlightComplete (Inl e) \<and>
    r = st\<lparr>reg_flights := (reg_flights st)[hd_flight h := FlightIdle]\<rparr>)"
proof -
  have "r = st \<or> r = reset_failed_flight (hd_flight h) st"
    using assms by (auto simp: retry_handle_def split: if_splits ScopeState.splits)
  then show ?thesis by (auto simp: reset_failed_flight_def split: FlightState.splits sum.splits)
qed

lemma retry_inv:
  assumes inv: "registry_inv lim s" and h: "h \<in> sys_handles s" and step: "retry_handle h (sys_registry s) = (answer, r)"
  shows "registry_inv lim (s\<lparr>sys_registry := r\<rparr>)" (is "registry_inv lim ?s'")
proof (cases "r = sys_registry s")
  case True
  with inv show ?thesis by simp
next
  case False
  then obtain e where e: "reg_flights (sys_registry s) ! hd_flight h = FlightComplete (Inl e)"
    and r: "r = (sys_registry s)\<lparr>reg_flights := (reg_flights (sys_registry s))[hd_flight h := FlightIdle]\<rparr>"
    using retry_handle_state [OF step] by blast
  note D = registry_invD [OF inv] and F = flight_handles [OF inv h]
  show ?thesis
  proof (rule flights_frame [OF inv, where i = "hd_flight h" and x = FlightIdle])
    have fl: "reg_flights (sys_registry ?s') ! hd_flight h' =
        (if h' = h then FlightIdle else reg_flights (sys_registry s) ! hd_flight h')" if "h' \<in> sys_handles s" for h'
      using F(1) F(2) [OF that] by (auto simp: r nth_list_update)
    have busy: "busy ?s' = busy s" by (simp add: busy_def)
    show "flights_single ?s'"
    proof (rule flights_singleI [OF D(4)])
      fix h' assume h': "h' \<in> sys_handles s"
      have run: "reg_flights (sys_registry s) ! hd_flight h' = FlightRunning \<longleftrightarrow> h' \<in> set (busy s)"
        using D(4) h' by (simp add: flights_single_def)
      then show "reg_flights (sys_registry ?s') ! hd_flight h' = FlightRunning \<longleftrightarrow> h' \<in> set (busy ?s')"
        unfolding fl [OF h'] busy using e by auto
      show "unresolved ?s' h' = unresolved s h'"
        using fl [OF h'] e by (cases "h' = h") (simp_all add: unresolved_def cong: FlightState.case_cong)
    qed (use D(4) in \<open>simp_all add: live_def r busy_def flights_single_def\<close>)
  qed (simp_all add: r)
qed

section \<open>Closing the home\<close>

lemma settled_scopes:
  assumes "filter is_pending scopes = []"
  shows "map (\<lambda>s. case s of Closed _ _ _ \<Rightarrow> Vacant | _ \<Rightarrow> s) scopes = replicate (length scopes) Vacant"
  using assms by (induction scopes) (auto simp: is_pending_def split: ScopeState.splits if_splits)

lemma settled_nth: "\<lbrakk>filter is_pending scopes = []; i < length scopes\<rbrakk> \<Longrightarrow> \<not> is_pending (scopes ! i)"
  by (auto simp: filter_empty_conv)

text \<open>A close that finds no pending scope returns every charge.\<close>

lemma close_settled:
  assumes inv: "registry_inv lim s" and max: "lim_reserved_bytes lim \<le> usize_max" and none: "pending_scope_count (sys_registry s) = 0"
  shows "sys_slots s = []" "\<not> live s h"
    "begin_close (sys_registry s) = Some (0, (sys_registry s)\<lparr>reg_accepting := False,
      reg_scopes := replicate (length (reg_scopes (sys_registry s))) Vacant, reg_reserved_bytes := 0, reg_retained_core := False\<rparr>)"
proof -
  note D = registry_invD [OF inv]
  have f: "filter is_pending (reg_scopes (sys_registry s)) = []" using none by (simp add: pending_scope_count_def)
  have "slot \<notin> set (sys_slots s)" for slot
    using slot_of [OF inv, of slot] settled_nth [OF f, of "sl_index slot"] by (auto simp: is_pending_def)
  then show e: "sys_slots s = []" by (cases "sys_slots s") auto
  show "\<not> live s h" using settled_nth [OF f, of "hd_index h"] by (auto simp: live_def is_pending_def)
  have "reg_reserved_bytes (sys_registry s) = charges (reg_scopes (sys_registry s))" using D(1) e by (simp add: accounts_def)
  moreover have "reg_reserved_bytes (sys_registry s) \<le> usize_max" using D(1) max by (simp add: accounts_def)
  ultimately show "begin_close (sys_registry s) = Some (0, (sys_registry s)\<lparr>reg_accepting := False,
      reg_scopes := replicate (length (reg_scopes (sys_registry s))) Vacant, reg_reserved_bytes := 0, reg_retained_core := False\<rparr>)"
    using closed_charges_settled [OF f, of 0] settled_scopes [OF f] f
    by (simp add: begin_close_def dispose_closed_scopes_def pending_scope_count_def Let_def)
qed

lemma close_pending:
  "pending_scope_count st \<noteq> 0 \<Longrightarrow> begin_close st = Some (pending_scope_count st, st\<lparr>reg_accepting := False\<rparr>)"
  by (simp add: begin_close_def pending_scope_count_def Let_def)

text \<open>Flags of the registry that no other part of its state depends on.\<close>

lemma flags_inv:
  assumes inv: "registry_inv lim s"
  shows "registry_inv lim (s\<lparr>sys_registry := (sys_registry s)\<lparr>reg_accepting := a, reg_retained_core := b\<rparr>\<rparr>)" (is "registry_inv lim ?s'")
proof -
  note D = registry_invD [OF inv]
  have "flights_single ?s'" by (rule flights_single_mono [OF D(4)]) (simp_all add: busy_def live_def)
  then show ?thesis using frame [of ?s' s] D by (simp add: registry_inv_def workers_bounded_def)
qed

lemma close_inv:
  assumes inv: "registry_inv lim s" and max: "lim_reserved_bytes lim \<le> usize_max" and step: "begin_close (sys_registry s) = Some (n, r)"
  shows "registry_inv lim (s\<lparr>sys_registry := r\<rparr>)" (is "registry_inv lim ?s'")
proof (cases "pending_scope_count (sys_registry s) = 0")
  case True
  note D = registry_invD [OF inv] and C = close_settled [OF inv max True]
  have r: "r = (sys_registry s)\<lparr>reg_accepting := False, reg_scopes := replicate (length (reg_scopes (sys_registry s))) Vacant,
      reg_reserved_bytes := 0, reg_retained_core := False\<rparr>"
    using step C(3) by simp
  have "flights_single ?s'"
    by (rule flights_single_mono [OF D(4)]) (use C(2) in \<open>simp_all add: busy_def r\<close>)
  moreover have "accounts lim ?s'" using D(1) C(1) by (simp add: accounts_def charges_def r sum_list_replicate)
  moreover have "slots_hold ?s'" using D(2) C(1) by (simp add: slots_hold_def r)
  moreover have "tokens_unique ?s'" using D(3) C(1) by (simp add: tokens_unique_def scope_tokens_def r)
  moreover have "workers_bounded ?s'" using D(5) by (simp add: workers_bounded_def r)
  ultimately show ?thesis by (simp add: registry_inv_def)
next
  case False
  with close_pending [of "sys_registry s"] step flags_inv [OF inv, where a = False and b = "reg_retained_core (sys_registry s)"] show ?thesis by simp
qed

lemma shutdown_inv:
  assumes inv: "registry_inv lim s" and step: "begin_drop (sys_registry s) = (n, r)"
  shows "registry_inv lim (s\<lparr>sys_registry := r\<rparr>)"
  using step flags_inv [OF inv] by (auto simp: begin_drop_def Let_def)

lemma registry_step_inv:
  assumes max: "lim_reserved_bytes lim \<le> usize_max" and "registry_step lim digest s s'" and inv: "registry_inv lim s"
  shows "registry_inv lim s'"
  using assms(2) inv
proof cases
  case (refuse h e)
  with waiting_not_refused [OF inv] show ?thesis by blast
qed (use inv max in \<open>simp_all add: reserve_inv install_inv drop_inv trigger_inv grant_inv finish_inv publish_inv retry_inv close_inv shutdown_inv\<close>)

text \<open>The states that a new registry can come to.\<close>

definition registry_reach :: "RegistryLimits \<Rightarrow> (bytes \<Rightarrow> bytes) \<Rightarrow> ('io, 'a, 'e) registry_system \<Rightarrow> bool" where
  "registry_reach lim digest s \<longleftrightarrow> (registry_step lim digest)\<^sup>*\<^sup>* system_new s"

lemma registry_run_inv:
  assumes "(registry_step lim digest)\<^sup>*\<^sup>* s s'" and "lim_reserved_bytes lim \<le> usize_max" and "registry_inv lim s"
  shows "registry_inv lim s'"
  using assms by (induction rule: rtranclp_induct) (auto intro: registry_step_inv)

lemma registry_reach_inv:
  assumes "registry_reach lim digest s" and "lim_reserved_bytes lim \<le> usize_max"
  shows "registry_inv lim s"
  using assms registry_run_inv [OF _ _ registry_inv_new] by (auto simp: registry_reach_def)

end
