(* ===== verification/Writer_Commit.thy ===== *)
theory Writer_Commit
  imports Home_Writer Memory_Store
begin

text \<open>
  What the writer does to a home: the contents that a committed batch leaves, the documented
  behaviour of the storage engine that this rests on, and the well-formedness of registries and
  commands.
\<close>

section \<open>Documented behaviour of the engine\<close>

fun apply_op :: "contents \<Rightarrow> batch_op \<Rightarrow> contents" where
  "apply_op m (BatchInsert ks key v) = m(ks := (m ks)(key \<mapsto> v))"
| "apply_op m (BatchRemove ks key) = m(ks := (m ks)(key := None))"

definition apply_ops :: "contents \<Rightarrow> batch_op list \<Rightarrow> contents" where
  "apply_ops = foldl apply_op"

text \<open>
  A snapshot agrees with the contents it is taken of; a commit applies the whole batch or nothing,
  and its classification tells which, unless it is indeterminate.
\<close>

definition commit_sound :: "contents \<Rightarrow> batch_op list \<Rightarrow> contents \<times> ('io \<times> CommitState option) option \<Rightarrow> bool" where
  "commit_sound m ops r = (case r of
     (m', None) \<Rightarrow> m' = apply_ops m ops
   | (m', Some (e, Some StateCommitted)) \<Rightarrow> m' = apply_ops m ops
   | (m', Some (e, Some StateNotCommitted)) \<Rightarrow> m' = m
   | (m', Some _) \<Rightarrow> m' = m \<or> m' = apply_ops m ops)"

definition engine_sound :: "'io engine \<Rightarrow> bool" where
  "engine_sound eng \<longleftrightarrow> (\<forall>m sn. eng_snapshot eng m = Inr sn \<longrightarrow> snapshot_of sn m) \<and>
     (\<forall>m ops. commit_sound m ops (eng_commit eng m ops))"

text \<open>An engine over contents in memory that never fails on storable contents.\<close>

definition memory_engine :: "unit engine" where
  "memory_engine =
     \<lparr>eng_snapshot = (\<lambda>m. if storable m then Inr (memory_snapshot m) else Inl ()),
      eng_batch = (\<lambda>_ _ _. Inr ()), eng_push = (\<lambda>_ _. Inr ()),
      eng_commit = (\<lambda>m ops. (apply_ops m ops, None)), eng_persist = (\<lambda>_. Inr ()), eng_fault = (\<lambda>_. Inr ())\<rparr>"

lemma memory_engine_sound: "engine_sound memory_engine"
  using snapshot_reliable_of [OF memory_snapshot_reliable]
  by (auto simp: engine_sound_def memory_engine_def commit_sound_def)

section \<open>Contents after a batch\<close>

definition revision_metadata :: "CommitReceipt \<Rightarrow> PreparedMutation \<Rightarrow> bytes" where
  "revision_metadata receipt u = metadata_bytes (domain_metadata (pu_domain u) (the (receipt_revision receipt (pu_slot u))))"

definition participant_effect :: "CommitReceipt \<Rightarrow> contents \<Rightarrow> PreparedMutation \<Rightarrow> contents" where
  "participant_effect receipt m u =
     (let m = apply_pending (dom_families (pu_domain u)) m (pu_pending u) in
      m(DOMAINS_KEYSPACE := (m DOMAINS_KEYSPACE)(ascii_bytes (dom_name (pu_domain u)) \<mapsto> revision_metadata receipt u)))"

definition commit_effect :: "CommitReceipt \<Rightarrow> PreparedMutation list \<Rightarrow> contents \<Rightarrow> contents" where
  "commit_effect receipt us m =
     (let m = foldl (participant_effect receipt) m us in
      m(HEADER_KEYSPACE := (m HEADER_KEYSPACE)(HOME_REVISION_KEY \<mapsto> encode_home_revision (rc_home_revision receipt))))"

definition slots_ok :: "PreparedMutation \<Rightarrow> bool" where
  "slots_ok u \<longleftrightarrow> list_all (\<lambda>p. pm_family_slot p < length (dom_families (pu_domain u))) (pu_pending u)"

lemma batch_push_eq_Inr: "batch_push eng batch op = Inr batch' \<Longrightarrow> batch' = batch @ [op]"
  by (auto simp: batch_push_def result_simps)

lemma push_pending_effect:
  "push_pending eng d ps batch = (Inr batch' :: ('io, 'a, 'e) CommandError + _) \<Longrightarrow>
     apply_ops m batch' = apply_pending (dom_families d) (apply_ops m batch) ps \<and>
     list_all (\<lambda>p. pm_family_slot p < length (dom_families d)) ps"
proof (induction ps arbitrary: batch)
  case Nil
  then show ?case by (simp add: apply_pending_def)
next
  case (Cons p ps)
  let ?ks = "fam_keyspace (dom_families d ! pm_family_slot p)"
  let ?op = "case pm_action p of Put v \<Rightarrow> BatchInsert ?ks (pm_key p) v | Delete \<Rightarrow> BatchRemove ?ks (pm_key p)"
  obtain b where "batch_push eng batch ?op = (Inr b :: ('io, 'a, 'e) CommandError + _)" and rest: "push_pending eng d ps b = (Inr batch' :: ('io, 'a, 'e) CommandError + _)"
      and slot: "pm_family_slot p < length (dom_families d)"
    using Cons.prems by (auto simp: result_simps Let_def split: if_splits)
  then have "apply_ops m b = apply_mutation (dom_families d) (apply_ops m batch) p"
    by (auto dest!: batch_push_eq_Inr simp: apply_ops_def apply_mutation_def Let_def split: PendingAction.split)
  with Cons.IH [OF rest] slot show ?case by (simp add: apply_pending_def)
qed

lemma push_participants_effect:
  "push_participants eng us batch = (Inr batch' :: ('io, 'a, 'e) CommandError + _) \<Longrightarrow>
     list_all (\<lambda>(u, metadata). metadata = revision_metadata receipt u) us \<Longrightarrow>
     apply_ops m batch' = foldl (participant_effect receipt) (apply_ops m batch) (map fst us) \<and> list_all slots_ok (map fst us)"
proof (induction us arbitrary: batch)
  case Nil
  then show ?case by simp
next
  case (Cons x us)
  obtain u metadata where x: "x = (u, metadata)" by (cases x)
  with Cons.prems obtain b1 b2 where "push_pending eng (pu_domain u) (pu_pending u) batch = (Inr b1 :: ('io, 'a, 'e) CommandError + _)"
      "batch_push eng b1 (BatchInsert DOMAINS_KEYSPACE (ascii_bytes (dom_name (pu_domain u))) metadata) = (Inr b2 :: ('io, 'a, 'e) CommandError + _)"
      "push_participants eng us b2 = (Inr batch' :: ('io, 'a, 'e) CommandError + _)" "metadata = revision_metadata receipt u"
    by (auto simp: result_simps)
  moreover from this have "apply_ops m b2 = participant_effect receipt (apply_ops m batch) u" "slots_ok u"
    by (auto dest!: batch_push_eq_Inr push_pending_effect [where m = m]
        simp: apply_ops_def participant_effect_def Let_def slots_ok_def)
  ultimately show ?case using Cons.IH [of b2] Cons.prems(2) x by simp
qed

lemma encode_participants_eq_Inr:
  "encode_participants receipt us = Inr vs \<Longrightarrow> map fst vs = us \<and>
     list_all (\<lambda>(u, metadata). metadata = revision_metadata receipt u \<and>
       (\<exists>revision. receipt_revision receipt (pu_slot u) = Some revision \<and>
         metadata_encode (domain_metadata (pu_domain u) revision) = Inr metadata)) vs"
  by (induction us arbitrary: vs) (auto simp: result_simps revision_metadata_def metadata_encode_eq_Inr)

lemma assemble_effect:
  assumes "assemble eng receipt us = (Inr batch :: ('io, 'a, 'e) CommandError + _)"
  shows "apply_ops m batch = commit_effect receipt us m" and "list_all slots_ok us"
    and "\<And>u. u \<in> set us \<Longrightarrow> \<exists>revision. receipt_revision receipt (pu_slot u) = Some revision \<and>
      metadata_encode (domain_metadata (pu_domain u) revision) = Inr (revision_metadata receipt u)"
proof -
  obtain vs b where vs: "encode_participants receipt us = (Inr vs :: ('io, 'a, 'e) CommandError + _)" and b: "push_participants eng vs [] = (Inr b :: ('io, 'a, 'e) CommandError + _)"
      "batch_push eng b (BatchInsert HEADER_KEYSPACE HOME_REVISION_KEY (encode_home_revision (rc_home_revision receipt))) = (Inr batch :: ('io, 'a, 'e) CommandError + _)"
    using assms by (auto simp: assemble_def result_simps Let_def)
  note enc = encode_participants_eq_Inr [OF vs]
  then have "list_all (\<lambda>(u, metadata). metadata = revision_metadata receipt u) vs" by (auto simp: list_all_iff)
  from push_participants_effect [OF b(1) this, of m] enc
  have "apply_ops m b = foldl (participant_effect receipt) m us" and slots: "list_all slots_ok us"
    by (simp_all add: apply_ops_def)
  then show "apply_ops m batch = commit_effect receipt us m" "list_all slots_ok us"
    using batch_push_eq_Inr [OF b(2)] by (simp_all add: apply_ops_def commit_effect_def Let_def)
  fix u
  assume "u \<in> set us"
  with enc obtain metadata where "(u, metadata) \<in> set vs" by (metis (no_types, lifting) fst_conv imageE list.set_map surj_pair)
  with enc show "\<exists>revision. receipt_revision receipt (pu_slot u) = Some revision \<and>
      metadata_encode (domain_metadata (pu_domain u) revision) = Inr (revision_metadata receipt u)"
    by (fastforce simp: list_all_iff)
qed

section \<open>Well-formed registries and commands\<close>

text \<open>
  Every registered domain has the families of a blueprint, and the names of the domains differ;
  the keyspaces of different domains, and the two control keyspaces, then differ as well.
\<close>

definition registered :: "StoreGeneration \<Rightarrow> bool" where
  "registered gen \<longleftrightarrow> distinct (map dom_name (gen_registry gen)) \<and>
     (\<forall>d\<in>set (gen_registry gen). \<exists>declared. blueprint_for_domain (dom_name d) declared = Inr (dom_families d))"

definition keyspaces_of :: "RegisteredDomain \<Rightarrow> keyspace set" where
  "keyspaces_of d = fam_keyspace ` set (dom_families d)"

lemma blueprint_families_keyspaces:
  "blueprint_families domain seen declared = Inr fs \<Longrightarrow>
     \<forall>f\<in>set fs. fam_keyspace f \<in> range (physical_name domain)"
  by (induction domain seen declared arbitrary: fs rule: blueprint_families.induct)
    (auto simp: result_simps validate_component_def split: if_splits)

lemma blueprint_keyspaces:
  assumes "blueprint_for_domain domain declared = Inr fs"
  shows "list_all component_char domain \<and>
    (\<forall>f\<in>set fs. fam_keyspace f \<in> range (physical_name domain))"
  using assms by (auto simp: blueprint_for_domain_def result_simps validate_component_def
      dest!: blueprint_families_keyspaces split: if_splits)

lemma component_dot: "\<not> component_char (CHR ''.'')"
  by (simp add: component_char_def)

lemma append_dot_eq:
  "\<lbrakk>list_all component_char a; list_all component_char b; a @ CHR ''.'' # xs = b @ CHR ''.'' # ys\<rbrakk> \<Longrightarrow> a = b"
proof (induction a arbitrary: b)
  case Nil
  then show ?case using component_dot by (cases b) auto
next
  case (Cons x a)
  then show ?case using component_dot by (cases b) auto
qed

lemma component_ascii_inj:
  assumes "list_all component_char a" "list_all component_char b" "ascii_bytes a = ascii_bytes b"
  shows "a = b"
proof -
  have "unat (of_nat (of_char c mod 128) :: u8) = of_char c" if "component_char c" for c
    using that by (auto simp: component_char_def Let_def unat_of_nat)
  then have "map unat (ascii_bytes cs) = map of_char cs" if "list_all component_char cs" for cs
    using that by (simp add: ascii_bytes_def list_all_iff)
  then have "map (of_char :: char \<Rightarrow> nat) a = map of_char b" using assms by metis
  then show ?thesis by (simp add: list.inj_map_strong inj_on_def inj_map_eq_map)
qed

lemma registered_keyspaces:
  assumes "registered gen" "d \<in> set (gen_registry gen)"
  shows "HEADER_KEYSPACE \<notin> keyspaces_of d" "DOMAINS_KEYSPACE \<notin> keyspaces_of d"
    and "\<lbrakk>d' \<in> set (gen_registry gen); d' \<noteq> d\<rbrakk> \<Longrightarrow>
      keyspaces_of d \<inter> keyspaces_of d' = {} \<and> ascii_bytes (dom_name d) \<noteq> ascii_bytes (dom_name d')"
proof -
  have ks: "list_all component_char (dom_name d) \<and>
      (\<forall>k\<in>keyspaces_of d. \<exists>name. k = physical_name (dom_name d) name)" if "d \<in> set (gen_registry gen)" for d
    using assms(1) that blueprint_keyspaces unfolding registered_def keyspaces_of_def by (simp add: image_iff) blast
  then show "HEADER_KEYSPACE \<notin> keyspaces_of d" "DOMAINS_KEYSPACE \<notin> keyspaces_of d"
    using assms(2) by (fastforce simp: HEADER_KEYSPACE_def DOMAINS_KEYSPACE_def physical_name_def)+
  assume d': "d' \<in> set (gen_registry gen)" "d' \<noteq> d"
  then have "dom_name d' \<noteq> dom_name d"
    using assms by (auto simp: registered_def distinct_map inj_on_def)
  then have "physical_name (dom_name d) n \<noteq> physical_name (dom_name d') n'" for n n'
    using ks [OF assms(2)] ks [OF d'(1)] append_dot_eq [of "dom_name d" "dom_name d'" n n'] by (auto simp: physical_name_def)
  moreover have "ascii_bytes (dom_name d) \<noteq> ascii_bytes (dom_name d')"
    using ks [OF assms(2)] ks [OF d'(1)] component_ascii_inj \<open>dom_name d' \<noteq> dom_name d\<close> by metis
  ultimately show "keyspaces_of d \<inter> keyspaces_of d' = {} \<and> ascii_bytes (dom_name d) \<noteq> ascii_bytes (dom_name d')"
    using ks [OF assms(2)] ks [OF d'(1)] by (metis disjoint_iff)
qed

text \<open>A command is built by adding participants, so no domain takes part twice.\<close>

definition command_built :: "('io, 'a, 'e) HomeCommand \<Rightarrow> bool" where
  "command_built cmd \<longleftrightarrow> distinct (map (\<lambda>p. (pt_store p, pt_slot p)) (hc_participants cmd))"

lemma home_command_add_built:
  "command_built cmd \<Longrightarrow> home_command_add p cmd = Inr cmd' \<Longrightarrow> command_built cmd'"
  by (fastforce simp: command_built_def home_command_add_def list_ex_iff split: if_splits)

section \<open>Locality of the effect\<close>

lemma distinct_map_neq: "\<lbrakk>distinct (map f (x # xs)); y \<in> set xs\<rbrakk> \<Longrightarrow> f y \<noteq> f x"
  by (metis distinct.simps(2) image_eqI list.set_map list.simps(9))

lemma apply_pending_other:
  "\<lbrakk>list_all (\<lambda>p. pm_family_slot p < length fs) ps; ks \<notin> fam_keyspace ` set fs\<rbrakk> \<Longrightarrow> apply_pending fs m ps ks = m ks"
proof (induction ps arbitrary: m)
  case (Cons p ps)
  then have "fam_keyspace (fs ! pm_family_slot p) \<noteq> ks" by auto
  then have "apply_mutation fs m p ks = m ks" by (simp add: apply_mutation_def Let_def)
  with Cons.IH [of "apply_mutation fs m p"] Cons.prems show ?case by (simp add: apply_pending_def)
qed (simp add: apply_pending_def)

lemma apply_pending_cong: "m ks = m' ks \<Longrightarrow> apply_pending fs m ps ks = apply_pending fs m' ps ks"
proof (induction ps arbitrary: m m')
  case (Cons p ps)
  then have "apply_mutation fs m p ks = apply_mutation fs m' p ks" by (auto simp: apply_mutation_def Let_def)
  from Cons.IH [of "apply_mutation fs m p" "apply_mutation fs m' p", OF this] show ?case
    by (simp add: apply_pending_def)
qed (simp add: apply_pending_def)

lemma participant_effect_at:
  "ks \<noteq> DOMAINS_KEYSPACE \<Longrightarrow>
     participant_effect receipt m u ks = apply_pending (dom_families (pu_domain u)) m (pu_pending u) ks"
  "\<lbrakk>slots_ok u; DOMAINS_KEYSPACE \<notin> keyspaces_of (pu_domain u)\<rbrakk> \<Longrightarrow>
     participant_effect receipt m u DOMAINS_KEYSPACE =
       (m DOMAINS_KEYSPACE)(ascii_bytes (dom_name (pu_domain u)) \<mapsto> revision_metadata receipt u)"
  by (simp_all add: participant_effect_def Let_def keyspaces_of_def slots_ok_def apply_pending_other)

lemma effect_other:
  "\<lbrakk>list_all slots_ok us; ks \<noteq> DOMAINS_KEYSPACE; \<forall>u\<in>set us. ks \<notin> keyspaces_of (pu_domain u)\<rbrakk> \<Longrightarrow>
     foldl (participant_effect receipt) m us ks = m ks"
  by (induction us arbitrary: m) (auto simp: participant_effect_at keyspaces_of_def slots_ok_def apply_pending_other)

lemma effect_own:
  assumes "registered gen"
  shows "\<lbrakk>list_all slots_ok us; distinct (map pu_domain us); pu_domain ` set us \<subseteq> set (gen_registry gen);
      u \<in> set us; ks \<in> keyspaces_of (pu_domain u)\<rbrakk> \<Longrightarrow>
    foldl (participant_effect receipt) m us ks = apply_pending (dom_families (pu_domain u)) m (pu_pending u) ks"
proof (induction us arbitrary: m)
  case (Cons v us)
  have ks: "ks \<noteq> DOMAINS_KEYSPACE"
    using registered_keyspaces(2) [OF assms, of "pu_domain u"] Cons.prems by auto
  have other: "ks \<notin> keyspaces_of (pu_domain w)" if "w \<in> set (v # us)" "pu_domain w \<noteq> pu_domain u" for w
    using registered_keyspaces(3) [OF assms, of "pu_domain u" "pu_domain w"] Cons.prems that by blast
  show ?case
  proof (cases "u = v")
    case True
    then have "\<forall>w\<in>set us. ks \<notin> keyspaces_of (pu_domain w)"
      using other distinct_map_neq [OF Cons.prems(2)] by auto
    then have "foldl (participant_effect receipt) (participant_effect receipt m v) us ks = participant_effect receipt m v ks"
      using Cons.prems(1) ks by (intro effect_other) auto
    with True ks show ?thesis by (simp add: participant_effect_at)
  next
    case False
    then have u: "u \<in> set us" "pu_domain v \<noteq> pu_domain u" using Cons.prems by auto
    then have "participant_effect receipt m v ks = m ks"
      using other [of v] ks Cons.prems by (simp add: participant_effect_at keyspaces_of_def slots_ok_def apply_pending_other)
    moreover have "foldl (participant_effect receipt) (participant_effect receipt m v) us ks =
        apply_pending (dom_families (pu_domain u)) (participant_effect receipt m v) (pu_pending u) ks"
      using Cons.prems u by (intro Cons.IH) auto
    ultimately show ?thesis
      using apply_pending_cong [of "participant_effect receipt m v" ks m] by simp
  qed
qed simp

lemma effect_domains:
  assumes "registered gen"
  shows "\<lbrakk>list_all slots_ok us; distinct (map pu_domain us); pu_domain ` set us \<subseteq> set (gen_registry gen)\<rbrakk> \<Longrightarrow>
    (\<forall>u\<in>set us. foldl (participant_effect receipt) m us DOMAINS_KEYSPACE (ascii_bytes (dom_name (pu_domain u))) =
      Some (revision_metadata receipt u)) \<and>
    (\<forall>k. (\<forall>u\<in>set us. k \<noteq> ascii_bytes (dom_name (pu_domain u))) \<longrightarrow>
      foldl (participant_effect receipt) m us DOMAINS_KEYSPACE k = m DOMAINS_KEYSPACE k)"
proof (induction us arbitrary: m)
  case (Cons v us)
  have "participant_effect receipt m v DOMAINS_KEYSPACE =
      (m DOMAINS_KEYSPACE)(ascii_bytes (dom_name (pu_domain v)) \<mapsto> revision_metadata receipt v)"
    using Cons.prems registered_keyspaces(2) [OF assms] by (intro participant_effect_at) auto
  moreover have "\<forall>u\<in>set us. ascii_bytes (dom_name (pu_domain v)) \<noteq> ascii_bytes (dom_name (pu_domain u))"
  proof
    fix u
    assume "u \<in> set us"
    with Cons.prems(2) have "pu_domain u \<noteq> pu_domain v" by (rule distinct_map_neq)
    with \<open>u \<in> set us\<close> Cons.prems show "ascii_bytes (dom_name (pu_domain v)) \<noteq> ascii_bytes (dom_name (pu_domain u))"
      using registered_keyspaces(3) [OF assms, of "pu_domain v" "pu_domain u"] by auto
  qed
  ultimately show ?case
    using Cons.IH [of "participant_effect receipt m v"] Cons.prems by auto
qed simp

section \<open>What is prepared\<close>

definition home_at :: "contents \<Rightarrow> HomeRevision \<Rightarrow> bool" where
  "home_at m r \<longleftrightarrow> m HEADER_KEYSPACE HOME_REVISION_KEY = Some (encode_home_revision r)"

definition domain_at :: "contents \<Rightarrow> RegisteredDomain \<Rightarrow> DomainRevision \<Rightarrow> bool" where
  "domain_at m d r \<longleftrightarrow> (\<exists>bs. metadata_encode (domain_metadata d r) = Inr bs \<and> metadata_ok (domain_metadata d r) \<and>
     m DOMAINS_KEYSPACE (ascii_bytes (dom_name d)) = Some bs)"

definition revision_next :: "nonzero_u64 \<Rightarrow> nonzero_u64 \<Rightarrow> bool" where
  "revision_next r s \<longleftrightarrow> unat (nz_get s) = unat (nz_get r) + 1"

definition participates :: "StoreGeneration \<Rightarrow> ('io, 'a, 'e) DomainParticipant \<Rightarrow> RegisteredDomain \<Rightarrow> bool" where
  "participates gen p d \<longleftrightarrow> pt_store p = gen_instance_id gen \<and> registry_get gen (pt_slot p) = Some d \<and>
     dom_name d = pt_domain p \<and> dom_owner d = pt_owner p"

text \<open>The participant prepares on the snapshot and then assembles the pending mutations.\<close>

definition contributes ::
    "'io snapshot \<Rightarrow> RegisteredDomain \<Rightarrow> ('io, 'a, 'e) DomainParticipant \<Rightarrow> PendingMutation list \<Rightarrow> bool" where
  "contributes sn d p pending \<longleftrightarrow> pending \<noteq> [] \<and>
     (\<exists>prepare assemble. pt_work p = Mutation prepare \<and> prepare sn d = Inr assemble \<and> assemble d = Inr pending)"

lemma home_at_unique: "\<lbrakk>home_at m r; home_at m s\<rbrakk> \<Longrightarrow> r = s"
  using decode_home_revision_eq_Inr by (metis Inr_inject home_at_def option.inject)

lemma domain_at_unique: "\<lbrakk>domain_at m d r; domain_at m d s\<rbrakk> \<Longrightarrow> r = s"
proof -
  assume "domain_at m d r" "domain_at m d s"
  then have "domain_metadata d r = domain_metadata d s"
    using metadata_decode_eq_Inr unfolding domain_at_def by (metis Inr_inject option.inject)
  then show "r = s" by (simp add: domain_metadata_def)
qed

lemma fence_participant_sound:
  assumes "snapshot_of sn m" and "fence_participant gen sn p = Inr (d, current)"
  shows "participates gen p d" and "domain_at m d current"
  using assms(2) read_domain_metadata_sound [OF assms(1), of "pt_domain p"]
  by (auto simp: fence_participant_def result_simps participates_def domain_at_def split: if_splits option.splits)

lemma fence_participant_complete:
  fixes sn :: "'io snapshot"
  assumes "snapshot_reliable sn m" and "participates gen p d" and "domain_at m d current"
  shows "fence_participant gen sn p = Inr (d, current)"
proof -
  have "read_domain_metadata sn (pt_domain p) = (Inr (domain_metadata d current) :: ('io, unit) ReadError + _)"
    using assms(2,3) read_domain_metadata_complete [OF assms(1)] by (auto simp: domain_at_def participates_def)
  then show ?thesis using assms(2) by (simp add: fence_participant_def participates_def domain_metadata_def)
qed

definition domain_conflicts ::
    "(('io, 'a, 'e) DomainParticipant \<times> RegisteredDomain \<times> DomainRevision) list \<Rightarrow> RevisionConflict list" where
  "domain_conflicts ps = concat (map (\<lambda>(p, d, current). if current \<noteq> pt_expected_revision p
     then [DomainConflict (pt_domain p) (pt_expected_revision p) current] else []) ps)"

lemma fence_participants_eq_Inr:
  "fence_participants gen sn ps conflicts = Inr (fenced, conflicts') \<longleftrightarrow>
     list_all2 (\<lambda>p f. fence_participant gen sn p = Inr f) ps fenced \<and>
     conflicts' = conflicts @ domain_conflicts (zip ps fenced)"
proof (induction ps arbitrary: conflicts fenced)
  case (Cons p ps)
  show ?case
  proof (cases "fence_participant gen sn p")
    case (Inr f)
    then show ?thesis
      by (cases f; cases fenced) (auto simp: result_simps Cons.IH domain_conflicts_def)
  qed (auto simp: list_all2_Cons1)
qed (auto simp: domain_conflicts_def)

lemma domain_conflicts_Nil:
  "domain_conflicts ps = [] \<longleftrightarrow> (\<forall>(p, d, current)\<in>set ps. current = pt_expected_revision p)"
  by (auto simp: domain_conflicts_def split: if_splits)

definition mutators :: "('io, 'a, 'e) HomeCommand \<Rightarrow> ('io, 'a, 'e) DomainParticipant list" where
  "mutators cmd = filter (\<lambda>p. is_mutation (pt_work p)) (hc_participants cmd)"

definition prepared_by ::
    "'io snapshot \<Rightarrow> ('io, 'a, 'e) DomainParticipant \<times> RegisteredDomain \<times> DomainRevision \<Rightarrow>
     ('a, 'e) PreparedContribution \<Rightarrow> bool" where
  "prepared_by sn = (\<lambda>(p, d, current) c. pc_slot c = pt_slot p \<and> pc_domain c = d \<and> pc_current_revision c = current \<and>
     (\<exists>prepare. pt_work p = Mutation prepare \<and> prepare sn d = Inr (pc_assemble c)))"

lemma prepare_participants_eq_Inr:
  "prepare_participants sn ps = (Inr cs :: ('io, 'a, 'e) CommandError + _) \<Longrightarrow>
     list_all2 (prepared_by sn) (filter (\<lambda>(p, _). is_mutation (pt_work p)) ps) cs"
proof (induction ps arbitrary: cs)
  case (Cons x ps)
  obtain p d current where x: "x = (p, d, current)" by (cases x)
  show ?case
  proof (cases "pt_work p")
    case (Mutation prepare)
    with x Cons.prems obtain asm cs' where "prepare sn d = Inr asm"
        "prepare_participants sn ps = (Inr cs' :: ('io, 'a, 'e) CommandError + _)"
        "cs = \<lparr>pc_slot = pt_slot p, pc_assemble = asm, pc_domain = d, pc_current_revision = current\<rparr> # cs'"
      by (auto simp: result_simps participant_prepare_def)
    with Mutation x Cons.IH show ?thesis by (simp add: prepared_by_def)
  next
    case (Validation validate)
    with x Cons show ?thesis by (auto simp: result_simps participant_prepare_def)
  qed
qed simp

lemma assemble_contributions_eq_Inr:
  "assemble_contributions cs = (Inr us :: ('io, 'a, 'e) CommandError + _) \<Longrightarrow>
     list_all2 (\<lambda>c u. pu_slot u = pc_slot c \<and> pu_domain u = pc_domain c \<and> pu_pending u \<noteq> [] \<and>
       pc_assemble c (pc_domain c) = Inr (pu_pending u)) cs us"
  by (induction cs arbitrary: us) (auto simp: result_simps split: if_splits)

lemma intended_domains_eq_Inr:
  "intended_domains cs = (Inr ds :: ('io, 'a, 'e) CommandError + _) \<Longrightarrow>
     list_all2 (\<lambda>c (slot, revision). slot = pc_slot c \<and> revision_next (pc_current_revision c) revision) cs ds"
  by (induction cs arbitrary: ds) (auto simp: result_simps revision_next_def)

lemma map_filter_fst_zip:
  "length xs = length ys \<Longrightarrow> map fst (filter (\<lambda>(x, _). P x) (zip xs ys)) = filter P xs"
  by (induction xs ys rule: list_induct2) auto

lemma if_Inl_eq_Inr: "(if b then Inl e else r) = Inr x \<longleftrightarrow> \<not> b \<and> r = Inr x"
  by simp

lemma prepare_admitted_sound:
  assumes "engine_sound eng"
    and prep: "prepare_admitted eng gen health cmd m = (Inr (sn, home, cs) :: ('io, 'a, 'e) CommandError + _)"
  shows "snapshot_of sn m" and "home = hc_expected_home_revision cmd" and "home_at m home"
    and "\<forall>p\<in>set (hc_participants cmd). \<exists>d. participates gen p d \<and> domain_at m d (pt_expected_revision p)"
    and "list_all2 (\<lambda>p c. participates gen p (pc_domain c) \<and> prepared_by sn (p, pc_domain c, pt_expected_revision p) c)
      (mutators cmd) cs"
proof -
  let ?ps = "hc_participants cmd"
  obtain fenced where sn: "eng_snapshot eng m = Inr sn"
    and home: "read_home_revision sn = (Inr home :: ('io, unit) ReadError + _)" "home = hc_expected_home_revision cmd"
    and fence: "list_all2 (\<lambda>p f. fence_participant gen sn p = (Inr f :: ('io, 'a, 'e) CommandError + _)) ?ps fenced"
      "domain_conflicts (zip ?ps fenced) = []"
    and cs: "prepare_participants sn (zip ?ps fenced) = (Inr cs :: ('io, 'a, 'e) CommandError + _)"
    using prep unfolding prepare_admitted_def
    by (simp add: if_Inl_eq_Inr and_then_eq_Inr fence_participants_eq_Inr split_def) (elim exE conjE, simp split: if_splits)
  show snap: "snapshot_of sn m" using assms(1) sn by (simp add: engine_sound_def)
  show "home = hc_expected_home_revision cmd" by fact
  show "home_at m home" using read_home_revision_sound [OF snap home(1)] by (simp add: home_at_def)
  have zip: "participates gen p d \<and> domain_at m d current \<and> current = pt_expected_revision p"
    if "(p, d, current) \<in> set (zip ?ps fenced)" for p d current
  proof -
    have "fence_participant gen sn p = (Inr (d, current) :: ('io, 'a, 'e) CommandError + _)" "current = pt_expected_revision p"
      using that fence by (auto simp: list_all2_iff domain_conflicts_Nil)
    then show ?thesis using fence_participant_sound [OF snap] by blast
  qed
  have len: "length ?ps = length fenced" using fence(1) by (rule list_all2_lengthD)
  then show "\<forall>p\<in>set ?ps. \<exists>d. participates gen p d \<and> domain_at m d (pt_expected_revision p)"
    using zip by (metis in_set_impl_in_set_zip1 surj_pair)
  have "mutators cmd = map fst (filter (\<lambda>(p, _). is_mutation (pt_work p)) (zip ?ps fenced))"
    using len by (simp add: mutators_def map_filter_fst_zip)
  then show "list_all2 (\<lambda>p c. participates gen p (pc_domain c) \<and> prepared_by sn (p, pc_domain c, pt_expected_revision p) c)
      (mutators cmd) cs"
    using prepare_participants_eq_Inr [OF cs] zip
    by (auto simp: list_all2_map1 prepared_by_def elim!: list.rel_mono_strong)
qed

section \<open>The step of a committed command\<close>

text \<open>
  Every expected revision is the stored one; the home and the domains that are mutated advance by
  one revision each, as the receipt says; the records of a mutated domain change by what its
  participant contributes on a snapshot of the home; everything of other domains stays.
\<close>

definition commit_step ::
    "StoreGeneration \<Rightarrow> ('io, 'a, 'e) HomeCommand \<Rightarrow> contents \<Rightarrow> contents \<Rightarrow> CommitReceipt \<Rightarrow> bool" where
  "commit_step gen cmd m m' receipt \<longleftrightarrow>
     home_at m (hc_expected_home_revision cmd) \<and> home_at m' (rc_home_revision receipt) \<and>
     revision_next (hc_expected_home_revision cmd) (rc_home_revision receipt) \<and>
     (\<forall>p\<in>set (hc_participants cmd). \<exists>d. participates gen p d \<and> domain_at m d (pt_expected_revision p)) \<and>
     (\<exists>sn. snapshot_of sn m \<and> (\<forall>p\<in>set (mutators cmd). \<exists>d pending revision. participates gen p d \<and>
        contributes sn d p pending \<and> (\<forall>ks\<in>keyspaces_of d. m' ks = apply_pending (dom_families d) m pending ks) \<and>
        receipt_revision receipt (pt_slot p) = Some revision \<and> revision_next (pt_expected_revision p) revision \<and>
        domain_at m' d revision)) \<and>
     (\<forall>d\<in>set (gen_registry gen). (\<forall>p\<in>set (mutators cmd). \<not> participates gen p d) \<longrightarrow>
        m' DOMAINS_KEYSPACE (ascii_bytes (dom_name d)) = m DOMAINS_KEYSPACE (ascii_bytes (dom_name d)) \<and>
        (\<forall>ks\<in>keyspaces_of d. m' ks = m ks))"

definition mutates ::
    "StoreGeneration \<Rightarrow> 'io snapshot \<Rightarrow> ('io, 'a, 'e) DomainParticipant \<Rightarrow> PreparedMutation \<Rightarrow> bool" where
  "mutates gen sn p u \<longleftrightarrow> participates gen p (pu_domain u) \<and> pu_slot u = pt_slot p \<and>
     contributes sn (pu_domain u) p (pu_pending u)"

lemma list_all2_in1: "\<lbrakk>list_all2 R xs ys; x \<in> set xs\<rbrakk> \<Longrightarrow> \<exists>y\<in>set ys. R x y"
  by (metis in_set_conv_nth list_all2_conv_all_nth)

lemma list_all2_in2: "\<lbrakk>list_all2 R xs ys; y \<in> set ys\<rbrakk> \<Longrightarrow> \<exists>x\<in>set xs. R x y"
  by (metis in_set_conv_nth list_all2_conv_all_nth)

lemma registry_getD:
  "registry_get gen slot = Some d \<Longrightarrow> slot < length (gen_registry gen) \<and> d = gen_registry gen ! slot \<and> d \<in> set (gen_registry gen)"
  by (auto simp: registry_get_def split: if_splits)

lemma registered_slot_unique:
  assumes "registered gen" and "registry_get gen i = Some d" and "registry_get gen j = Some d"
  shows "i = j"
proof -
  have "distinct (gen_registry gen)" using assms(1) by (auto simp: registered_def distinct_map)
  with assms(2,3) show ?thesis by (metis nth_eq_iff_index_eq registry_getD)
qed

lemma participants_unique:
  assumes "registered gen" and "command_built cmd" and "p \<in> set (hc_participants cmd)" "q \<in> set (hc_participants cmd)"
    and "participates gen p d" "participates gen q d"
  shows "p = q"
proof -
  have "pt_store p = pt_store q" "pt_slot p = pt_slot q"
    using assms(5,6) registered_slot_unique [OF assms(1)] by (auto simp: participates_def)
  with assms(2-4) show ?thesis by (auto simp: command_built_def distinct_map inj_on_def)
qed

lemma mutated_domains_distinct:
  assumes "registered gen" and "list_all2 (mutates gen sn) ps us" and "distinct (map (\<lambda>p. (pt_store p, pt_slot p)) ps)"
  shows "distinct (map pu_domain us)"
  using assms(2,3)
proof (induction rule: list_all2_induct)
  case (Cons p ps u us)
  have "pu_domain u \<noteq> pu_domain v" if v: "v \<in> set us" for v
  proof
    assume eq: "pu_domain u = pu_domain v"
    obtain q where "q \<in> set ps" "mutates gen sn q v" using list_all2_in2 [OF Cons.hyps(2) v] by blast
    with Cons.hyps(1) eq have "pt_store p = pt_store q" "pt_slot p = pt_slot q"
      using registered_slot_unique [OF assms(1)] by (auto simp: mutates_def participates_def)
    with distinct_map_neq [OF Cons.prems \<open>q \<in> set ps\<close>] show False by simp
  qed
  with Cons show ?case by auto
qed simp

lemma receipt_lookup:
  "\<lbrakk>list_all2 (\<lambda>p (slot, revision). slot = pt_slot p \<and> revision_next (pt_expected_revision p) revision) ps ds;
    distinct (map pt_slot ps); p \<in> set ps\<rbrakk> \<Longrightarrow>
   \<exists>revision. map_of ds (pt_slot p) = Some revision \<and> revision_next (pt_expected_revision p) revision"
proof (induction rule: list_all2_induct)
  case (Cons q ps x ds)
  show ?case
  proof (cases "p = q")
    case True
    with Cons.hyps(1) show ?thesis by (cases x) auto
  next
    case False
    then have "p \<in> set ps" using Cons.prems by simp
    moreover from this have "pt_slot p \<noteq> pt_slot q" by (rule distinct_map_neq [OF Cons.prems(1)])
    ultimately have "p \<in> set ps" "pt_slot p \<noteq> pt_slot q" by simp_all
    with Cons show ?thesis by (cases x) auto
  qed
qed simp

lemma control_keyspaces_differ: "HEADER_KEYSPACE \<noteq> DOMAINS_KEYSPACE"
  by (simp add: HEADER_KEYSPACE_def DOMAINS_KEYSPACE_def)

lemma commit_effect_at:
  "ks \<noteq> HEADER_KEYSPACE \<Longrightarrow> commit_effect receipt us m ks = foldl (participant_effect receipt) m us ks"
  "home_at (commit_effect receipt us m) (rc_home_revision receipt)"
  by (simp_all add: commit_effect_def Let_def home_at_def)

lemma commit_effect_local:
  assumes reg: "registered gen" and us: "list_all slots_ok us" "distinct (map pu_domain us)"
      "pu_domain ` set us \<subseteq> set (gen_registry gen)"
  shows "u \<in> set us \<Longrightarrow> commit_effect receipt us m DOMAINS_KEYSPACE (ascii_bytes (dom_name (pu_domain u))) =
      Some (revision_metadata receipt u)"
    and "\<lbrakk>u \<in> set us; ks \<in> keyspaces_of (pu_domain u)\<rbrakk> \<Longrightarrow>
      commit_effect receipt us m ks = apply_pending (dom_families (pu_domain u)) m (pu_pending u) ks"
    and "\<lbrakk>d \<in> set (gen_registry gen); d \<notin> pu_domain ` set us\<rbrakk> \<Longrightarrow>
      commit_effect receipt us m DOMAINS_KEYSPACE (ascii_bytes (dom_name d)) = m DOMAINS_KEYSPACE (ascii_bytes (dom_name d)) \<and>
      (\<forall>ks\<in>keyspaces_of d. commit_effect receipt us m ks = m ks)"
proof -
  note dom = effect_domains [OF reg us]
  show "u \<in> set us \<Longrightarrow> commit_effect receipt us m DOMAINS_KEYSPACE (ascii_bytes (dom_name (pu_domain u))) =
      Some (revision_metadata receipt u)"
    using dom control_keyspaces_differ by (simp add: commit_effect_at)
  show "\<lbrakk>u \<in> set us; ks \<in> keyspaces_of (pu_domain u)\<rbrakk> \<Longrightarrow>
      commit_effect receipt us m ks = apply_pending (dom_families (pu_domain u)) m (pu_pending u) ks"
    using effect_own [OF reg us] registered_keyspaces(1) [OF reg] us(3) commit_effect_at(1) by (metis image_subset_iff)
  assume d: "d \<in> set (gen_registry gen)" "d \<notin> pu_domain ` set us"
  then have other: "keyspaces_of d \<inter> keyspaces_of (pu_domain u) = {} \<and> ascii_bytes (dom_name d) \<noteq> ascii_bytes (dom_name (pu_domain u))"
    if "u \<in> set us" for u
    using registered_keyspaces(3) [OF reg d(1), of "pu_domain u"] us(3) that by auto
  have "commit_effect receipt us m ks = m ks" if "ks \<in> keyspaces_of d" for ks
  proof -
    have "ks \<noteq> HEADER_KEYSPACE" "ks \<noteq> DOMAINS_KEYSPACE" using registered_keyspaces [OF reg d(1)] that by auto
    moreover have "\<forall>u\<in>set us. ks \<notin> keyspaces_of (pu_domain u)" using other that by blast
    ultimately show ?thesis using effect_other [OF us(1)] by (simp add: commit_effect_at)
  qed
  with dom other control_keyspaces_differ
  show "commit_effect receipt us m DOMAINS_KEYSPACE (ascii_bytes (dom_name d)) = m DOMAINS_KEYSPACE (ascii_bytes (dom_name d)) \<and>
      (\<forall>ks\<in>keyspaces_of d. commit_effect receipt us m ks = m ks)"
    by (simp add: commit_effect_at)
qed

lemma commit_effect_step:
  assumes reg: "registered gen" and built: "command_built cmd" and sn: "snapshot_of sn m"
    and home: "home_at m (hc_expected_home_revision cmd)"
      "revision_next (hc_expected_home_revision cmd) (rc_home_revision receipt)"
    and fenced: "\<forall>p\<in>set (hc_participants cmd). \<exists>d. participates gen p d \<and> domain_at m d (pt_expected_revision p)"
    and us: "list_all2 (mutates gen sn) (mutators cmd) us" "list_all slots_ok us"
    and ds: "list_all2 (\<lambda>p (slot, revision). slot = pt_slot p \<and> revision_next (pt_expected_revision p) revision)
      (mutators cmd) (rc_domains receipt)"
    and enc: "\<And>u. u \<in> set us \<Longrightarrow> \<exists>revision. receipt_revision receipt (pu_slot u) = Some revision \<and>
      metadata_encode (domain_metadata (pu_domain u) revision) = Inr (revision_metadata receipt u)"
  shows "commit_step gen cmd m (commit_effect receipt us m) receipt"
proof -
  have dist: "distinct (map (\<lambda>p. (pt_store p, pt_slot p)) (mutators cmd))"
    using built by (simp add: command_built_def mutators_def distinct_map_filter)
  then have dom: "distinct (map pu_domain us)" by (rule mutated_domains_distinct [OF reg us(1)])
  have sub: "pu_domain ` set us \<subseteq> set (gen_registry gen)"
    using list_all2_in2 [OF us(1)] registry_getD by (fastforce simp: mutates_def participates_def)
  note local = commit_effect_local [OF reg us(2) dom sub]
  have "\<exists>d pending revision. participates gen p d \<and> contributes sn d p pending \<and>
      (\<forall>ks\<in>keyspaces_of d. commit_effect receipt us m ks = apply_pending (dom_families d) m pending ks) \<and>
      receipt_revision receipt (pt_slot p) = Some revision \<and> revision_next (pt_expected_revision p) revision \<and>
      domain_at (commit_effect receipt us m) d revision" if p: "p \<in> set (mutators cmd)" for p
  proof -
    obtain u where u: "u \<in> set us" "mutates gen sn p u" using list_all2_in1 [OF us(1) p] by blast
    have "\<forall>q\<in>set (mutators cmd). pt_store q = gen_instance_id gen"
      using list_all2_in1 [OF us(1)] by (fastforce simp: mutates_def participates_def)
    with dist have "distinct (map pt_slot (mutators cmd))" by (simp add: distinct_map inj_on_def)
    from receipt_lookup [OF ds this p] obtain revision where r: "receipt_revision receipt (pt_slot p) = Some revision"
        "revision_next (pt_expected_revision p) revision" by (auto simp: receipt_revision_def)
    obtain d where "participates gen p d" "domain_at m d (pt_expected_revision p)"
      using fenced p by (auto simp: mutators_def)
    then have "metadata_ok (domain_metadata (pu_domain u) revision)"
      using u(2) by (auto simp: mutates_def participates_def domain_at_def metadata_ok_def domain_metadata_def)
    then have "domain_at (commit_effect receipt us m) (pu_domain u) revision"
      using enc [OF u(1)] r(1) u local(1) by (auto simp: domain_at_def mutates_def)
    with u r local(2) show ?thesis
      by (intro exI [of _ "pu_domain u"] exI [of _ "pu_pending u"] exI [of _ revision]) (simp add: mutates_def)
  qed
  moreover have "d \<notin> pu_domain ` set us" if "\<forall>p\<in>set (mutators cmd). \<not> participates gen p d" for d
    using that list_all2_in2 [OF us(1)] by (auto simp: mutates_def)
  ultimately show ?thesis
    using home sn fenced local(3) by (auto simp: commit_step_def commit_effect_at)
qed

lemma after_commit_cases:
  "after_commit eng m receipt f \<noteq> NotCommitted e" "after_commit eng m receipt f = Committed r g \<Longrightarrow> r = receipt"
  by (auto simp: after_commit_def split: sum.splits)

text \<open>A commit leaves the contents as they were, or applies the assembled batch.\<close>

lemma commit_prepared_cases:
  fixes eng :: "'io engine"
  assumes "engine_sound eng" and "commit_prepared eng m receipt us = (m', outcome :: ('io, 'a, 'e) ExecutionOutcome)"
  shows "case outcome of
      NotCommitted _ \<Rightarrow> m' = m
    | Committed r _ \<Rightarrow> r = receipt \<and> (\<exists>batch. assemble eng receipt us = (Inr batch :: ('io, 'a, 'e) CommandError + _) \<and> m' = apply_ops m batch)
    | Indeterminate _ \<Rightarrow> m' = m \<or> (\<exists>batch. assemble eng receipt us = (Inr batch :: ('io, 'a, 'e) CommandError + _) \<and> m' = apply_ops m batch)"
proof (cases "assemble eng receipt us :: ('io, 'a, 'e) CommandError + _")
  case (Inl e)
  with assms(2) show ?thesis by (auto simp: commit_prepared_def)
next
  case (Inr batch)
  have "commit_sound m batch (eng_commit eng m batch)" using assms(1) by (simp add: engine_sound_def)
  with assms(2) Inr show ?thesis
    by (auto simp: commit_prepared_def commit_sound_def after_commit_cases dest: after_commit_cases(2)
        split: sum.splits prod.splits option.splits CommitState.splits ExecutionOutcome.splits)
qed

lemma execute_admitted_dest:
  fixes eng :: "'io engine"
  assumes "execute_admitted eng gen health cmd res m = (m', res', outcome :: ('io, 'a, 'e) ExecutionOutcome)"
  shows "(m' = m \<and> res' = res \<and> (\<exists>e. outcome = NotCommitted e)) \<or>
    (\<exists>sn home cs us receipt. prepare_admitted eng gen health cmd m = (Inr (sn, home, cs) :: ('io, 'a, 'e) CommandError + _) \<and>
      intended_receipt gen health home cs = (Inr receipt :: ('io, 'a, 'e) CommandError + _) \<and>
      assemble_contributions cs = (Inr us :: ('io, 'a, 'e) CommandError + _) \<and>
      materialize_reservation sn us res receipt = (Inr res' :: ('io, 'a, 'e) CommandError + _) \<and>
      commit_prepared eng m receipt us = (m', outcome))"
  using assms by (fastforce simp: execute_admitted_def result_simps split: sum.splits prod.splits)

lemma admitted_mutations:
  assumes "engine_sound eng"
    and prep: "prepare_admitted eng gen health cmd m = (Inr (sn, home, cs) :: ('io, 'a, 'e) CommandError + _)"
    and receipt: "intended_receipt gen health home cs = (Inr receipt :: ('io, 'a, 'e) CommandError + _)"
    and us: "assemble_contributions cs = (Inr us :: ('io, 'a, 'e) CommandError + _)"
  shows "list_all2 (mutates gen sn) (mutators cmd) us"
    and "revision_next (hc_expected_home_revision cmd) (rc_home_revision receipt)"
    and "list_all2 (\<lambda>p (slot, revision). slot = pt_slot p \<and> revision_next (pt_expected_revision p) revision)
      (mutators cmd) (rc_domains receipt)"
proof -
  note sound = prepare_admitted_sound [OF assms(1) prep]
  show "list_all2 (mutates gen sn) (mutators cmd) us"
    by (rule list_all2_trans [OF _ sound(5) assemble_contributions_eq_Inr [OF us]])
      (auto simp: mutates_def contributes_def prepared_by_def)
  have "intended_domains cs = (Inr (rc_domains receipt) :: ('io, 'a, 'e) CommandError + _)"
    and "revision_next home (rc_home_revision receipt)"
    using receipt by (auto simp: intended_receipt_def result_simps revision_next_def)
  then show "revision_next (hc_expected_home_revision cmd) (rc_home_revision receipt)"
    and "list_all2 (\<lambda>p (slot, revision). slot = pt_slot p \<and> revision_next (pt_expected_revision p) revision)
      (mutators cmd) (rc_domains receipt)"
    using sound(2) by (auto intro!: list_all2_trans [OF _ sound(5) intended_domains_eq_Inr] simp: prepared_by_def)
qed

lemma execute_admitted_steps:
  fixes eng :: "'io engine"
  assumes eng: "engine_sound eng" and reg: "registered gen" and built: "command_built cmd"
    and exec: "execute_admitted eng gen health cmd res m = (m', res', outcome :: ('io, 'a, 'e) ExecutionOutcome)"
  shows "case outcome of
      NotCommitted _ \<Rightarrow> m' = m
    | Committed receipt _ \<Rightarrow> commit_step gen cmd m m' receipt
    | Indeterminate _ \<Rightarrow> m' = m \<or> (\<exists>receipt. commit_step gen cmd m m' receipt)"
  using execute_admitted_dest [OF exec]
proof (elim disjE exE conjE)
  fix sn home cs us receipt
  assume prep: "prepare_admitted eng gen health cmd m = (Inr (sn, home, cs) :: ('io, 'a, 'e) CommandError + _)"
    and receipt: "intended_receipt gen health home cs = (Inr receipt :: ('io, 'a, 'e) CommandError + _)"
    and us: "assemble_contributions cs = (Inr us :: ('io, 'a, 'e) CommandError + _)"
    and commit: "commit_prepared eng m receipt us = (m', outcome)"
  note sound = prepare_admitted_sound [OF eng prep]
  note mut = admitted_mutations [OF eng prep receipt us]
  have "commit_step gen cmd m (apply_ops m batch) receipt"
    if "assemble eng receipt us = (Inr batch :: ('io, 'a, 'e) CommandError + _)" for batch
    using commit_effect_step [OF reg built sound(1) _ mut(2) sound(4) mut(1) _ mut(3)] assemble_effect [OF that] sound(2,3)
    by simp
  with commit_prepared_cases [OF eng commit] show ?thesis by (auto split: ExecutionOutcome.splits)
qed auto

end
