(* ===== verification/Writer_Laws.thy ===== *)
theory Writer_Laws
  imports Writer_Commit Home_Batch
begin

text \<open>
  Laws of the writer: atomic commits fenced by revisions, the conflicts of a stale command, runs of
  commands, and the reconciliation descriptor that is kept of a batch.
\<close>

section \<open>Atomic commits\<close>


section \<open>Runs of the writer\<close>

fun writer_run ::
    "'io engine \<Rightarrow> StoreGeneration \<Rightarrow> HomeGeneration \<Rightarrow> (('io, 'a, 'e) HomeCommand \<times> CommandReservation) list \<Rightarrow>
     contents \<Rightarrow> ('io, 'a, 'e) ExecutionOutcome list \<times> contents" where
  "writer_run eng gen health [] m = ([], m)"
| "writer_run eng gen health ((cmd, res) # cmds) m =
     (case execute_admitted eng gen health cmd res m of (m, _, outcome) \<Rightarrow>
       (case writer_run eng gen health cmds m of (outcomes, m) \<Rightarrow> (outcome # outcomes, m)))"

fun is_committed :: "('io, 'a, 'e) ExecutionOutcome \<Rightarrow> bool" where
  "is_committed (Committed _ _) = True"
| "is_committed _ = False"

definition committed_revisions ::
    "(('io, 'a, 'e) HomeCommand \<times> CommandReservation) list \<Rightarrow> ('io, 'a, 'e) ExecutionOutcome list \<Rightarrow> HomeRevision list" where
  "committed_revisions cmds outcomes =
     map (\<lambda>((cmd, _), _). hc_expected_home_revision cmd) (filter (\<lambda>(_, outcome). is_committed outcome) (zip cmds outcomes))"

lemma committed_revisions_simps [simp]:
  "committed_revisions [] outcomes = []"
  "committed_revisions ((cmd, res) # cmds) (outcome # outcomes) =
     (if is_committed outcome then [hc_expected_home_revision cmd] else []) @ committed_revisions cmds outcomes"
  by (simp_all add: committed_revisions_def)

lemma revision_next_less: "revision_next r s \<Longrightarrow> r < s"
  by (simp add: revision_next_def less_nonzero_u64_def word_less_nat_alt)

lemma execute_home_revision:
  fixes eng :: "'io engine"
  assumes "engine_sound eng" "registered gen" "command_built cmd" "home_at m h"
    and exec: "execute_admitted eng gen health cmd res m = (m', res', outcome :: ('io, 'a, 'e) ExecutionOutcome)"
  shows "\<exists>h'. home_at m' h' \<and> h \<le> h' \<and> (is_committed outcome \<longrightarrow> h = hc_expected_home_revision cmd \<and> h < h')"
proof -
  have "\<exists>h'. home_at m' h' \<and> h < h' \<and> h = hc_expected_home_revision cmd" if "commit_step gen cmd m m' receipt" for receipt
    using that revision_next_less home_at_unique [OF assms(4)] by (auto simp: commit_step_def)
  with execute_admitted_steps [OF assms(1-3) exec] assms(4) show ?thesis
    by (auto split: ExecutionOutcome.splits) (meson less_imp_le order_refl)+
qed

lemma writer_run_revisions:
  fixes eng :: "'io engine"
  assumes "engine_sound eng" "registered gen"
  shows "\<lbrakk>\<forall>(cmd, _)\<in>set cmds. command_built cmd; home_at m h;
      writer_run eng gen health cmds m = (outcomes :: ('io, 'a, 'e) ExecutionOutcome list, m')\<rbrakk> \<Longrightarrow>
    (\<exists>h'. home_at m' h' \<and> h \<le> h') \<and> (\<forall>r\<in>set (committed_revisions cmds outcomes). h \<le> r) \<and>
    sorted_wrt (<) (committed_revisions cmds outcomes)"
proof (induction cmds arbitrary: m h outcomes)
  case Nil
  then show ?case by auto
next
  case (Cons x cmds)
  obtain cmd res where x: "x = (cmd, res)" by (cases x)
  obtain m1 res1 outcome where exec: "execute_admitted eng gen health cmd res m = (m1, res1, outcome :: ('io, 'a, 'e) ExecutionOutcome)"
    by (rule prod_cases3)
  with Cons.prems(3) x obtain os where run: "writer_run eng gen health cmds m1 = (os, m')" and os: "outcomes = outcome # os"
    by (simp split: prod.splits)
  obtain h1 where h1: "home_at m1 h1" "h \<le> h1" "is_committed outcome \<longrightarrow> h = hc_expected_home_revision cmd \<and> h < h1"
    using execute_home_revision [OF assms _ Cons.prems(2) exec] Cons.prems(1) x by auto
  from Cons.IH [OF _ h1(1) run] Cons.prems(1)
  have "(\<exists>h'. home_at m' h' \<and> h1 \<le> h') \<and> (\<forall>r\<in>set (committed_revisions cmds os). h1 \<le> r) \<and>
    sorted_wrt (<) (committed_revisions cmds os)" by auto
  with h1 os x show ?case by (auto intro: order.trans order.strict_trans2)
qed

text \<open>
  C20. No update is lost: along every run of commands the committed ones carry strictly increasing
  expected home revisions, so of two commands built against the same home revision at most one
  commits.
\<close>

theorem writer_no_lost_update:
  assumes "engine_sound eng" and "registered gen" and "\<forall>(cmd, _)\<in>set cmds. command_built cmd" and "home_at m h"
    and "writer_run eng gen health cmds m = (outcomes, m')"
  shows "sorted_wrt (<) (committed_revisions cmds outcomes) \<and> (\<exists>h'. home_at m' h' \<and> h \<le> h')"
  using writer_run_revisions [OF assms] by simp

section \<open>Stale commands\<close>

text \<open>A command that passes the checks before the revisions are compared.\<close>

definition command_admissible :: "StoreGeneration \<Rightarrow> HomeGeneration \<Rightarrow> ('io, 'a, 'e) HomeCommand \<Rightarrow> bool" where
  "command_admissible gen health cmd \<longleftrightarrow> mutators cmd \<noteq> [] \<and>
     (\<forall>(store, generation)\<in>set (hc_sidecars cmd). store = gen_instance_id gen \<and> generation = health)"

definition home_conflicts :: "HomeRevision \<Rightarrow> ('io, 'a, 'e) HomeCommand \<Rightarrow> RevisionConflict list" where
  "home_conflicts current cmd = (if current \<noteq> hc_expected_home_revision cmd
     then [HomeConflict (hc_expected_home_revision cmd) current] else [])"

lemma sort_conflicts:
  "sort_key (\<lambda>c. ascii_bytes (conflict_name c)) (home_conflicts current cmd @ cs) =
     home_conflicts current cmd @ sort_key (\<lambda>c. ascii_bytes (conflict_name c)) cs"
  by (simp add: home_conflicts_def insort_is_Cons ascii_bytes_def)

lemma prepare_admitted_fenced:
  fixes eng :: "'io engine"
  assumes adm: "command_admissible gen health cmd" and sn: "eng_snapshot eng m = Inr sn" "snapshot_reliable sn m"
    and home: "home_at m current"
    and fenced: "list_all2 (\<lambda>p (d, revision). participates gen p d \<and> domain_at m d revision) (hc_participants cmd) fenced"
  shows "prepare_admitted eng gen health cmd m =
    (let conflicts = home_conflicts current cmd @ domain_conflicts (zip (hc_participants cmd) fenced) in
     if conflicts \<noteq> []
     then Inl (Conflict (length conflicts) (sort_key (\<lambda>c. ascii_bytes (conflict_name c)) conflicts))
     else and_then (validate_command_pair (map pair_participant (hc_participants cmd))) (\<lambda>_.
       and_then (prepare_participants sn (zip (hc_participants cmd) fenced)) (\<lambda>cs.
         Inr (sn, current, cs) :: ('io, 'a, 'e) CommandError + _)))"
proof -
  have guards: "hc_participants cmd \<noteq> []" "list_ex (\<lambda>p. is_mutation (pt_work p)) (hc_participants cmd)"
      "\<not> list_ex (\<lambda>(store, generation). store \<noteq> gen_instance_id gen \<or> generation \<noteq> health) (hc_sidecars cmd)"
    using adm by (auto simp: command_admissible_def mutators_def list_ex_iff filter_empty_conv)
  have rev: "read_home_revision sn = (Inr current :: ('io, unit) ReadError + _)"
    by (rule read_home_revision_complete [OF sn(2) home [unfolded home_at_def]])
  have "list_all2 (\<lambda>p f. fence_participant gen sn p = (Inr f :: ('io, 'a, 'e) CommandError + _)) (hc_participants cmd) fenced"
    using fenced by (rule list.rel_mono_strong) (use fence_participant_complete [OF sn(2)] in auto)
  then have "fence_participants gen sn (hc_participants cmd) (home_conflicts current cmd) =
      (Inr (fenced, home_conflicts current cmd @ domain_conflicts (zip (hc_participants cmd) fenced)) :: ('io, 'a, 'e) CommandError + _)"
    by (simp add: fence_participants_eq_Inr)
  with guards rev sn(1) show ?thesis
    by (simp add: prepare_admitted_def home_conflicts_def [symmetric] Let_def)
qed

text \<open>
  C21. A stale command is refused before any callback runs: if the stored home revision or the
  revision of a participating domain is not the expected one, nothing is written and the error
  names exactly the stale revisions, the home first and the domains by name.
\<close>

theorem stale_home_command_refused:
  fixes eng :: "'io engine"
  assumes "command_admissible gen health cmd" and "eng_snapshot eng m = Inr sn" "snapshot_reliable sn m"
    and "home_at m current"
    and "list_all2 (\<lambda>p (d, revision). participates gen p d \<and> domain_at m d revision) (hc_participants cmd) fenced"
    and "home_conflicts current cmd @ domain_conflicts (zip (hc_participants cmd) fenced) \<noteq> []"
  shows "execute_admitted eng gen health cmd res m = (m, res, NotCommitted (Conflict
    (length (home_conflicts current cmd) + length (domain_conflicts (zip (hc_participants cmd) fenced)))
    (home_conflicts current cmd @
      sort_key (\<lambda>c. ascii_bytes (conflict_name c)) (domain_conflicts (zip (hc_participants cmd) fenced)))
    :: ('io, 'a, 'e) CommandError))"
  using prepare_admitted_fenced [where 'a = 'a and 'e = 'e, OF assms(1-5)] assms(6)
  by (simp add: execute_admitted_def Let_def sort_conflicts)

section \<open>The descriptor of a batch\<close>

definition action_value :: "PendingAction \<Rightarrow> bytes option" where
  "action_value action = (case action of Put v \<Rightarrow> Some v | Delete \<Rightarrow> None)"

definition place_in :: "RegisteredDomain \<Rightarrow> usize \<Rightarrow> keyspace" where
  "place_in d slot = fam_keyspace (dom_families d ! slot)"

lemma materialize_old_sound:
  assumes "snapshot_of sn m" and "materialize_old sn domain family key = Inr old"
  shows "old = m (fam_keyspace family) key"
proof -
  obtain point where p: "snap_point sn (fam_keyspace family) key = Inr point"
    using assms(2) by (auto simp: materialize_old_def result_simps)
  note agrees = snapshot_of_point [OF assms(1) p]
  show ?thesis
  proof (cases point)
    case None
    with assms(2) p agrees show ?thesis by (auto simp: materialize_old_def point_agrees_def split: option.splits)
  next
    case (Some x)
    obtain len a where "x = (len, a)" by (cases x)
    with Some assms(2) p agrees show ?thesis
      by (auto simp: materialize_old_def result_simps point_agrees_def split: option.splits if_splits)
  qed
qed

definition describes :: "contents \<Rightarrow> RegisteredDomain \<Rightarrow> PendingMutation \<Rightarrow> MaterializedRecordDescriptor \<Rightarrow> bool" where
  "describes m d p r \<longleftrightarrow> mr_family_slot r = pm_family_slot p \<and> mr_key r = pm_key p \<and>
     mr_old r = m (place_in d (pm_family_slot p)) (pm_key p) \<and> mr_new r = action_value (pm_action p)"

lemma materialize_records_sound:
  assumes "snapshot_of sn m"
  shows "materialize_records sn d quotas actual ps = (Inr rs :: ('io, 'a, 'e) CommandError + _) \<Longrightarrow>
    list_all2 (describes m d) ps rs"
proof (induction ps arbitrary: actual rs)
  case (Cons p ps)
  let ?family = "dom_families d ! pm_family_slot p"
  from Cons.prems obtain old rs' actual' where
    old: "materialize_old sn (dom_name d) ?family (pm_key p) = (Inr old :: ('io, 'a, 'e) CommandError + _)"
    and rest: "materialize_records sn d quotas actual' ps = (Inr rs' :: ('io, 'a, 'e) CommandError + _)"
    and rs: "rs = \<lparr>mr_family_slot = pm_family_slot p, mr_key = pm_key p, mr_old = old,
      mr_new = (case pm_action p of Put v \<Rightarrow> Some v | Delete \<Rightarrow> None)\<rparr> # rs'"
    by (auto simp: result_simps Let_def split: if_splits option.splits)
  from Cons.IH [OF rest] materialize_old_sound [OF assms old] rs show ?case
    by (simp add: describes_def place_in_def action_value_def)
qed simp

lemma materialize_domains_sound:
  assumes "snapshot_of sn m"
  shows "materialize_domains sn receipt (zip us declarations) = (Inr ds :: ('io, 'a, 'e) CommandError + _) \<Longrightarrow>
    length us = length declarations \<Longrightarrow>
    list_all2 (\<lambda>u dd. mm_domain_slot dd = pu_slot u \<and> receipt_revision receipt (pu_slot u) = Some (mm_intended_revision dd) \<and>
      list_all2 (describes m (pu_domain u)) (pu_pending u) (mm_records dd)) us ds"
proof (induction us arbitrary: declarations ds)
  case (Cons u us)
  then show ?case
    by (cases declarations) (auto simp: result_simps split: if_splits dest!: materialize_records_sound [OF assms])
qed simp

lemma materialize_reservation_sound:
  assumes "snapshot_of sn m" and "materialize_reservation sn us res receipt = (Inr res' :: ('io, 'a, 'e) CommandError + _)"
  shows "\<exists>ds. rs_materialized res' = Some (ds, receipt) \<and>
    list_all2 (\<lambda>u dd. mm_domain_slot dd = pu_slot u \<and> receipt_revision receipt (pu_slot u) = Some (mm_intended_revision dd) \<and>
      list_all2 (describes m (pu_domain u)) (pu_pending u) (mm_records dd)) us ds"
  using assms(2) by (auto simp: materialize_reservation_def result_simps split: if_splits
      dest!: materialize_domains_sound [OF assms(1)])

lemma apply_pending_untouched:
  "\<forall>p\<in>set ps. fam_keyspace (fs ! pm_family_slot p) \<noteq> ks \<or> pm_key p \<noteq> k \<Longrightarrow> apply_pending fs m ps ks k = m ks k"
proof (induction ps arbitrary: m)
  case (Cons p ps)
  then have "apply_mutation fs m p ks k = m ks k" by (auto simp: apply_mutation_def Let_def)
  with Cons show ?case by (simp add: apply_pending_def)
qed (simp add: apply_pending_def)

lemma apply_pending_written:
  assumes "distinct (map fam_keyspace fs)"
  shows "\<lbrakk>list_all (\<lambda>p. pm_family_slot p < length fs) ps; distinct (map pending_place ps); p \<in> set ps\<rbrakk> \<Longrightarrow>
    apply_pending fs m ps (fam_keyspace (fs ! pm_family_slot p)) (pm_key p) = action_value (pm_action p)"
proof (induction ps arbitrary: m)
  case (Cons q ps)
  show ?case
  proof (cases "p = q")
    case True
    have "\<forall>r\<in>set ps. fam_keyspace (fs ! pm_family_slot r) \<noteq> fam_keyspace (fs ! pm_family_slot p) \<or> pm_key r \<noteq> pm_key p"
    proof
      fix r
      assume r: "r \<in> set ps"
      then have "pending_place r \<noteq> pending_place p" using distinct_map_neq [OF Cons.prems(2)] True by simp
      moreover have "pm_family_slot r < length fs" "pm_family_slot p < length fs"
        using Cons.prems(1) True r by (auto simp: list_all_iff)
      ultimately show "fam_keyspace (fs ! pm_family_slot r) \<noteq> fam_keyspace (fs ! pm_family_slot p) \<or> pm_key r \<noteq> pm_key p"
        using assms nth_eq_iff_index_eq [of "map fam_keyspace fs" "pm_family_slot r" "pm_family_slot p"]
        by (auto simp: pending_place_def)
    qed
    from apply_pending_untouched [OF this, of "apply_mutation fs m p"] True show ?thesis
      by (simp add: apply_pending_def apply_mutation_def action_value_def Let_def)
  next
    case False
    with Cons show ?thesis by (auto simp: apply_pending_def)
  qed
qed simp

lemma blueprint_families_distinct:
  "blueprint_families domain seen declared = Inr fs \<Longrightarrow>
     distinct (map fam_logical_name fs) \<and> (\<forall>f\<in>set fs. fam_logical_name f \<notin> set seen) \<and>
     map fam_keyspace fs = map (\<lambda>f. physical_name domain (fam_logical_name f)) fs"
  by (induction domain seen declared arbitrary: fs rule: blueprint_families.induct)
    (fastforce simp: result_simps split: if_splits)+

lemma registered_families_distinct:
  assumes "registered gen" and "d \<in> set (gen_registry gen)"
  shows "distinct (map fam_keyspace (dom_families d))"
proof -
  obtain declared where "blueprint_for_domain (dom_name d) declared = Inr (dom_families d)"
    using assms by (auto simp: registered_def)
  then obtain fs where "blueprint_families (dom_name d) [] declared = Inr fs"
    and sorted: "dom_families d = sort_key (\<lambda>f. ascii_bytes (fam_logical_name f)) fs"
    by (auto simp: blueprint_for_domain_def result_simps split: if_splits)
  then have "distinct (map fam_logical_name fs)" "map fam_keyspace fs = map (\<lambda>f. physical_name (dom_name d) (fam_logical_name f)) fs"
    using blueprint_families_distinct by blast+
  then have "distinct fs" "inj_on fam_keyspace (set fs)"
    by (auto simp: distinct_map inj_on_def physical_name_def)
  then show ?thesis by (simp add: sorted distinct_map)
qed

text \<open>
  The descriptor names every record that differs between the contents before and after the batch,
  with both values.
\<close>

definition describes_batch :: "StoreGeneration \<Rightarrow> contents \<Rightarrow> contents \<Rightarrow> MaterializedDomainDescriptor list \<Rightarrow> bool" where
  "describes_batch gen m mc ds \<longleftrightarrow>
     (\<forall>dd\<in>set ds. \<exists>d. registry_get gen (mm_domain_slot dd) = Some d \<and> domain_at mc d (mm_intended_revision dd) \<and>
        (\<forall>r\<in>set (mm_records dd). mr_old r = m (place_in d (mr_family_slot r)) (mr_key r) \<and>
           mr_new r = mc (place_in d (mr_family_slot r)) (mr_key r))) \<and>
     (\<forall>d\<in>set (gen_registry gen). \<forall>ks\<in>keyspaces_of d. \<forall>k. m ks k \<noteq> mc ks k \<longrightarrow>
        (\<exists>dd\<in>set ds. registry_get gen (mm_domain_slot dd) = Some d \<and>
           (\<exists>r\<in>set (mm_records dd). place_in d (mr_family_slot r) = ks \<and> mr_key r = k)))"

text \<open>The pending mutations of a participant come from a mutation builder, so they name no record twice.\<close>

definition builds_distinct :: "('io, 'a, 'e) HomeCommand \<Rightarrow> bool" where
  "builds_distinct cmd \<longleftrightarrow> (\<forall>p\<in>set (mutators cmd). \<forall>sn d pending. contributes sn d p pending \<longrightarrow>
     distinct (map pending_place pending))"

lemma commit_prepared_assembled:
  fixes eng :: "'io engine"
  assumes "commit_prepared eng m receipt us = (m', outcome :: ('io, 'a, 'e) ExecutionOutcome)" "\<forall>e. outcome \<noteq> NotCommitted e"
  shows "\<exists>batch. assemble eng receipt us = (Inr batch :: ('io, 'a, 'e) CommandError + _)"
  using assms by (auto simp: commit_prepared_def split: sum.splits)

lemma describes_written:
  assumes "registered gen" "d \<in> set (gen_registry gen)" "list_all (\<lambda>p. pm_family_slot p < length (dom_families d)) ps"
    and "distinct (map pending_place ps)" "list_all2 (describes m d) ps rs"
    and after: "\<forall>ks\<in>keyspaces_of d. mc ks = apply_pending (dom_families d) m ps ks"
  shows "\<forall>r\<in>set rs. mr_old r = m (place_in d (mr_family_slot r)) (mr_key r) \<and>
      mr_new r = mc (place_in d (mr_family_slot r)) (mr_key r)"
    and "\<lbrakk>ks \<in> keyspaces_of d; m ks k \<noteq> mc ks k\<rbrakk> \<Longrightarrow>
      \<exists>r\<in>set rs. place_in d (mr_family_slot r) = ks \<and> mr_key r = k"
proof -
  show "\<forall>r\<in>set rs. mr_old r = m (place_in d (mr_family_slot r)) (mr_key r) \<and>
      mr_new r = mc (place_in d (mr_family_slot r)) (mr_key r)"
  proof
    fix r
    assume "r \<in> set rs"
    from list_all2_in2 [OF assms(5) this] obtain p where p: "p \<in> set ps" "describes m d p r" by blast
    moreover have "place_in d (pm_family_slot p) \<in> keyspaces_of d"
      using p(1) assms(3) by (auto simp: place_in_def keyspaces_of_def list_all_iff)
    moreover note apply_pending_written [OF registered_families_distinct [OF assms(1,2)] assms(3,4) p(1), of m]
    ultimately show "mr_old r = m (place_in d (mr_family_slot r)) (mr_key r) \<and>
        mr_new r = mc (place_in d (mr_family_slot r)) (mr_key r)"
      using after by (simp add: describes_def place_in_def)
  qed
  assume "ks \<in> keyspaces_of d" "m ks k \<noteq> mc ks k"
  then obtain p where p: "p \<in> set ps" "fam_keyspace (dom_families d ! pm_family_slot p) = ks" "pm_key p = k"
    using after apply_pending_untouched [of ps "dom_families d" ks k m] by auto
  from list_all2_in1 [OF assms(5) p(1)] obtain r where "r \<in> set rs" "describes m d p r" by blast
  with p show "\<exists>r\<in>set rs. place_in d (mr_family_slot r) = ks \<and> mr_key r = k"
    by (intro bexI [of _ r]) (simp_all add: describes_def place_in_def)
qed

lemma commit_effect_described:
  assumes reg: "registered gen" and us: "list_all2 (mutates gen sn) (mutators cmd) us" "list_all slots_ok us"
    and dist: "distinct (map pu_domain us)" "builds_distinct cmd"
    and ds: "list_all2 (\<lambda>u dd. mm_domain_slot dd = pu_slot u \<and> receipt_revision receipt (pu_slot u) = Some (mm_intended_revision dd) \<and>
      list_all2 (describes m (pu_domain u)) (pu_pending u) (mm_records dd)) us ds"
    and step: "commit_step gen cmd m (commit_effect receipt us m) receipt"
  shows "describes_batch gen m (commit_effect receipt us m) ds"
proof -
  let ?mc = "commit_effect receipt us m"
  have mut: "\<exists>p\<in>set (mutators cmd). mutates gen sn p u" if "u \<in> set us" for u
    using list_all2_in2 [OF us(1) that] by blast
  then have sub: "pu_domain ` set us \<subseteq> set (gen_registry gen)"
    using registry_getD by (fastforce simp: mutates_def participates_def)
  note local = commit_effect_local [OF reg us(2) dist(1) sub]
  have slot: "registry_get gen (pu_slot u) = Some (pu_domain u)" "distinct (map pending_place (pu_pending u))"
      "list_all (\<lambda>p. pm_family_slot p < length (dom_families (pu_domain u))) (pu_pending u)" if "u \<in> set us" for u
    using mut [OF that] dist(2) us(2) that
    by (auto simp: mutates_def participates_def builds_distinct_def list_all_iff slots_ok_def)
  note written = describes_written [OF reg _ slot(3) slot(2)]
  have "\<exists>d. registry_get gen (mm_domain_slot dd) = Some d \<and> domain_at ?mc d (mm_intended_revision dd) \<and>
      (\<forall>r\<in>set (mm_records dd). mr_old r = m (place_in d (mr_family_slot r)) (mr_key r) \<and>
         mr_new r = ?mc (place_in d (mr_family_slot r)) (mr_key r))" if dd: "dd \<in> set ds" for dd
  proof -
    from list_all2_in2 [OF ds dd] obtain u where u: "u \<in> set us" "mm_domain_slot dd = pu_slot u"
      "receipt_revision receipt (pu_slot u) = Some (mm_intended_revision dd)"
      "list_all2 (describes m (pu_domain u)) (pu_pending u) (mm_records dd)" by blast
    obtain p where "p \<in> set (mutators cmd)" "mutates gen sn p u" using mut [OF u(1)] by blast
    then have "domain_at ?mc (pu_domain u) (mm_intended_revision dd)"
      using step u(3) by (auto simp: commit_step_def mutates_def participates_def dest!: bspec)
    moreover have "pu_domain u \<in> set (gen_registry gen)" using sub u(1) by blast
    moreover have "\<forall>ks\<in>keyspaces_of (pu_domain u). ?mc ks = apply_pending (dom_families (pu_domain u)) m (pu_pending u) ks"
      using local(2) u(1) by blast
    ultimately show ?thesis using written(1) [OF _ u(1) u(1) u(4)] slot(1) [OF u(1)] u(2) by simp
  qed
  moreover have "\<exists>dd\<in>set ds. registry_get gen (mm_domain_slot dd) = Some d \<and>
      (\<exists>r\<in>set (mm_records dd). place_in d (mr_family_slot r) = ks \<and> mr_key r = k)"
    if d: "d \<in> set (gen_registry gen)" "ks \<in> keyspaces_of d" "m ks k \<noteq> ?mc ks k" for d ks k
  proof -
    have "d \<in> pu_domain ` set us"
    proof (rule ccontr)
      assume "d \<notin> pu_domain ` set us"
      from local(3) [OF d(1) this] d(2,3) show False by simp
    qed
    then obtain u where u: "u \<in> set us" "d = pu_domain u" by blast
    from list_all2_in1 [OF ds u(1)] obtain dd where dd: "dd \<in> set ds" "mm_domain_slot dd = pu_slot u"
      "list_all2 (describes m (pu_domain u)) (pu_pending u) (mm_records dd)" by blast
    have "\<forall>ks\<in>keyspaces_of d. ?mc ks = apply_pending (dom_families d) m (pu_pending u) ks"
      using local(2) u by blast
    from written(2) [OF d(1) [unfolded u(2)] u(1) u(1) dd(3) this [unfolded u(2)] d(2) [unfolded u(2)] d(3)]
    show ?thesis using dd(1,2) slot(1) [OF u(1)] u(2) by (intro bexI [of _ dd]) simp_all
  qed
  ultimately show ?thesis by (simp add: describes_batch_def)
qed

text \<open>What is known of a command that reached the engine.\<close>

lemma prepare_admitted_mutates:
  assumes "prepare_admitted eng gen health cmd m = (Inr x :: ('io, 'a, 'e) CommandError + _)"
  shows "mutators cmd \<noteq> []"
proof (rule ccontr)
  assume "\<not> mutators cmd \<noteq> []"
  then have "\<not> list_ex (\<lambda>p. is_mutation (pt_work p)) (hc_participants cmd)"
    by (auto simp: mutators_def list_ex_iff filter_empty_conv)
  with assms show False by (simp add: prepare_admitted_def result_simps split: if_splits)
qed

lemma sent_described:
  fixes eng :: "'io engine"
  assumes eng: "engine_sound eng" and reg: "registered gen" and built: "command_built cmd"
    and exec: "execute_admitted eng gen health cmd res m = (m', res', outcome :: ('io, 'a, 'e) ExecutionOutcome)"
    and sent: "\<forall>e. outcome \<noteq> NotCommitted e"
  obtains sn us receipt ds where "snapshot_of (sn :: 'io snapshot) m" and "list_all2 (mutates gen sn) (mutators cmd) us" and "list_all slots_ok us"
    and "distinct (map pu_domain us)" and "rs_materialized res' = Some (ds, receipt)"
    and "list_all2 (\<lambda>u dd. mm_domain_slot dd = pu_slot u \<and> receipt_revision receipt (pu_slot u) = Some (mm_intended_revision dd) \<and>
      list_all2 (describes m (pu_domain u)) (pu_pending u) (mm_records dd)) us ds"
    and "commit_step gen cmd m (commit_effect receipt us m) receipt" and "mutators cmd \<noteq> []"
    and "m' = commit_effect receipt us m \<or> m' = m \<and> \<not> is_committed outcome"
  using execute_admitted_dest [OF exec]
proof (elim disjE exE conjE)
  fix sn home cs us receipt
  assume prep: "prepare_admitted eng gen health cmd m = (Inr (sn, home, cs) :: ('io, 'a, 'e) CommandError + _)"
    and receipt: "intended_receipt gen health home cs = (Inr receipt :: ('io, 'a, 'e) CommandError + _)"
    and us: "assemble_contributions cs = (Inr us :: ('io, 'a, 'e) CommandError + _)"
    and mat: "materialize_reservation sn us res receipt = (Inr res' :: ('io, 'a, 'e) CommandError + _)"
    and commit: "commit_prepared eng m receipt us = (m', outcome)"
  obtain batch where batch: "assemble eng receipt us = (Inr batch :: ('io, 'a, 'e) CommandError + _)"
    using commit_prepared_assembled [OF commit sent] by blast
  note sound = prepare_admitted_sound [OF eng prep]
  note mut = admitted_mutations [OF eng prep receipt us]
  note effect = assemble_effect [OF batch]
  have step: "commit_step gen cmd m (commit_effect receipt us m) receipt"
    using commit_effect_step [OF reg built sound(1) _ mut(2) sound(4) mut(1) _ mut(3)] effect sound(2,3) by simp
  have "distinct (map (\<lambda>p. (pt_store p, pt_slot p)) (mutators cmd))"
    using built by (simp add: command_built_def mutators_def distinct_map_filter)
  from mutated_domains_distinct [OF reg mut(1) this] have dom: "distinct (map pu_domain us)" .
  obtain ds where ds: "rs_materialized res' = Some (ds, receipt)"
    "list_all2 (\<lambda>u dd. mm_domain_slot dd = pu_slot u \<and> receipt_revision receipt (pu_slot u) = Some (mm_intended_revision dd) \<and>
      list_all2 (describes m (pu_domain u)) (pu_pending u) (mm_records dd)) us ds"
    using materialize_reservation_sound [OF sound(1) mat] by blast
  have "m' = commit_effect receipt us m \<or> m' = m \<and> \<not> is_committed outcome"
    using commit_prepared_cases [OF eng commit] sent batch effect(1) by (auto split: ExecutionOutcome.splits)
  from that [OF sound(1) mut(1) effect(2) dom ds step prepare_admitted_mutates [OF prep] this] show thesis .
qed (use sent in blast)

text \<open>
  The descriptors list, mutation for mutation and in their order, the records that the prepared
  mutations write, and no record twice.
\<close>

definition record_place :: "MaterializedRecordDescriptor \<Rightarrow> usize \<times> bytes" where
  "record_place r = (mr_family_slot r, mr_key r)"

definition lists_writes :: "PreparedMutation list \<Rightarrow> MaterializedDomainDescriptor list \<Rightarrow> bool" where
  "lists_writes us ds \<longleftrightarrow> list_all2 (\<lambda>u dd. mm_domain_slot dd = pu_slot u \<and>
     map record_place (mm_records dd) = map pending_place (pu_pending u) \<and> distinct (map record_place (mm_records dd))) us ds"

lemma describes_places: "list_all2 (describes m d) ps rs \<Longrightarrow> map record_place rs = map pending_place ps"
  by (induction rule: list_all2_induct) (simp_all add: describes_def record_place_def pending_place_def)

lemma described_lists_writes:
  assumes us: "list_all2 (mutates gen sn) (mutators cmd) us" and dist: "builds_distinct cmd"
    and ds: "list_all2 (\<lambda>u dd. mm_domain_slot dd = pu_slot u \<and> receipt_revision receipt (pu_slot u) = Some (mm_intended_revision dd) \<and>
      list_all2 (describes m (pu_domain u)) (pu_pending u) (mm_records dd)) us ds"
  shows "lists_writes us ds"
  unfolding lists_writes_def
proof (rule list.rel_mono_strong [OF ds])
  fix u dd
  assume u: "u \<in> set us" and dd: "mm_domain_slot dd = pu_slot u \<and> receipt_revision receipt (pu_slot u) = Some (mm_intended_revision dd) \<and>
      list_all2 (describes m (pu_domain u)) (pu_pending u) (mm_records dd)"
  obtain p where "p \<in> set (mutators cmd)" "mutates gen sn p u" using list_all2_in2 [OF us u] by blast
  then have "distinct (map pending_place (pu_pending u))" using dist by (auto simp: mutates_def builds_distinct_def)
  with dd describes_places show "mm_domain_slot dd = pu_slot u \<and>
      map record_place (mm_records dd) = map pending_place (pu_pending u) \<and> distinct (map record_place (mm_records dd))"
    by metis
qed

text \<open>
  C12. The reconciliation descriptor that is in place before the engine is asked to commit tells
  the batch exactly, for a command whose contributions come from a mutation builder and so name no
  record twice. Unless the command is reported as not committed, the reservation holds a descriptor
  and the intended receipt of one atomic step. The descriptor lists the records that the
  contributions of the mutating participants put or delete, in their order, each once and no other;
  every listed record carries its stored value from before and the value the step gives it; every
  record of a registered domain that the step changes is listed; and the home is left before or
  after that step (after, if committed).
\<close>

theorem descriptor_tells_batch:
  fixes eng :: "'io engine"
  assumes eng: "engine_sound eng" and reg: "registered gen" and built: "command_built cmd" "builds_distinct cmd"
    and exec: "execute_admitted eng gen health cmd res m = (m', res', outcome :: ('io, 'a, 'e) ExecutionOutcome)"
    and sent: "\<forall>e. outcome \<noteq> NotCommitted e"
  shows "\<exists>(sn :: 'io snapshot) us ds receipt after. snapshot_of sn m \<and> list_all2 (mutates gen sn) (mutators cmd) us \<and>
    rs_materialized res' = Some (ds, receipt) \<and> lists_writes us ds \<and>
    after = commit_effect receipt us m \<and> commit_step gen cmd m after receipt \<and>
    describes_batch gen m after ds \<and> (m' = after \<or> m' = m \<and> \<not> is_committed outcome)"
proof -
  obtain sn us receipt ds where sn: "snapshot_of (sn :: 'io snapshot) m"
      and d: "list_all2 (mutates gen sn) (mutators cmd) us" "list_all slots_ok us" "distinct (map pu_domain us)"
      and mat: "rs_materialized res' = Some (ds, receipt)"
      and ds: "list_all2 (\<lambda>u dd. mm_domain_slot dd = pu_slot u \<and> receipt_revision receipt (pu_slot u) = Some (mm_intended_revision dd) \<and>
        list_all2 (describes m (pu_domain u)) (pu_pending u) (mm_records dd)) us ds"
      and step: "commit_step gen cmd m (commit_effect receipt us m) receipt"
      and after: "m' = commit_effect receipt us m \<or> m' = m \<and> \<not> is_committed outcome"
    by (rule sent_described [OF eng reg built(1) exec sent])
  from sn d(1) mat described_lists_writes [OF d(1) built(2) ds] commit_effect_described [OF reg d built(2) ds step] step after
  show ?thesis by blast
qed

end
