(* ===== verification/Custody_Charge.thy ===== *)
theory Custody_Charge
  imports Home_Custody Registry_Laws Writer_Laws
begin

text \<open>
  The contract between the writer and a domain about reservations: what a mutation declares pays for
  the longest keys it may touch, so that the descriptor of an uncertain commit, and the collision it
  may be sealed to, never outgrow the charge of their scope. The quotas of a declaration are the
  potential from which every materialized record is paid.
\<close>

section \<open>What a declaration pays for\<close>

text \<open>The longest key of a family, by its name and the type of its codec.\<close>

type_synonym key_bounds = "string \<Rightarrow> string \<Rightarrow> usize"

definition record_charge :: "key_bounds \<Rightarrow> ReservedRecordQuota \<Rightarrow> usize" where
  "record_charge bound q = COLLISION_RECORD_BYTES + bound (quota_family q) (quota_codec_type q)"

definition pays :: "key_bounds \<Rightarrow> ReconciliationReservationOutput \<Rightarrow> bool" where
  "pays bound decl \<longleftrightarrow>
     32 + COLLISION_DOMAIN_BYTES + sum_list (map (\<lambda>q. quota_count q * record_charge bound q) (ro_quotas decl)) \<le>
       ro_descriptor_bytes decl \<and> ro_descriptor_bytes decl \<le> usize_max"

definition keys_fit :: "key_bounds \<Rightarrow> RegisteredFamily list \<Rightarrow> PendingMutation list \<Rightarrow> bool" where
  "keys_fit bound families pending \<longleftrightarrow> (\<forall>p\<in>set pending.
     length (pm_key p) \<le> bound (fam_logical_name (families ! pm_family_slot p)) (fam_codec_type (families ! pm_family_slot p)))"

lemma keys_fit_simps [simp]:
  "keys_fit bound families []"
  "keys_fit bound families (p # ps) \<longleftrightarrow>
     length (pm_key p) \<le> bound (fam_logical_name (families ! pm_family_slot p)) (fam_codec_type (families ! pm_family_slot p)) \<and>
     keys_fit bound families ps"
  "keys_fit bound families (ps @ qs) \<longleftrightarrow> keys_fit bound families ps \<and> keys_fit bound families qs"
  by (auto simp: keys_fit_def)

section \<open>Reservations and builders of a codec\<close>

definition bounds_codec :: "key_bounds \<Rightarrow> ('k, 'v, 'x) record_codec \<Rightarrow> bool" where
  "bounds_codec bound c \<longleftrightarrow> bound (c_family c) (c_type c) = c_max_key_bytes c"

definition reservation_pays :: "key_bounds \<Rightarrow> ReconciliationReservation \<Rightarrow> bool" where
  "reservation_pays bound r \<longleftrightarrow>
     32 + COLLISION_DOMAIN_BYTES + sum_list (map (\<lambda>q. quota_count q * record_charge bound q) (res_quotas r)) \<le>
       res_descriptor_bytes r \<and> res_descriptor_bytes r \<le> usize_max"

lemma reservation_new_pays: "reservation_pays bound reservation_new"
  by (simp add: reservation_pays_def reservation_new_def usize_saturating_add_def usize_max_def COLLISION_DOMAIN_BYTES_def
      RECONCILIATION_DESCRIPTOR_FIXED_BYTES_def RECONCILIATION_DOMAIN_FIXED_BYTES_def)

lemma reserve_records_pays:
  assumes "reserve_records c n r = (Inr r' :: ('io, 'x) MutationBuildError + _)" "bounds_codec bound c" "reservation_pays bound r"
  shows "reservation_pays bound r'"
proof -
  let ?stored = "usize_saturating_add (c_max_value_bytes c) RECORD_VERSION_BYTES"
  let ?per_record = "RECONCILIATION_RECORD_FIXED_BYTES + c_max_key_bytes c + ?stored + ?stored"
  from assms(1) have r': "r' = r\<lparr>res_families := insert (c_family c) (res_families r), res_descriptor_bytes := res_descriptor_bytes r + ?per_record * n,
      res_quotas := res_quotas r @ [\<lparr>quota_family = c_family c, quota_codec_type = c_type c, quota_count = n\<rparr>]\<rparr>"
    and max: "res_descriptor_bytes r + ?per_record * n \<le> usize_max"
    by (auto simp: reserve_records_def Let_def and_then_eq_Inr usize_checked_add_def usize_checked_mul_def bind_eq_Some_conv split: if_splits)
  define total where "total = ?per_record * n"
  have "n * (COLLISION_RECORD_BYTES + c_max_key_bytes c) \<le> total"
    by (simp add: total_def COLLISION_RECORD_BYTES_def RECONCILIATION_RECORD_FIXED_BYTES_def mult.commute)
  with max [folded total_def] assms(2,3) show ?thesis by (simp add: reservation_pays_def r' [folded total_def] record_charge_def bounds_codec_def)
qed

lemma into_output_pays: "reservation_pays bound r \<Longrightarrow> pays bound (into_output domain r)"
  by (simp add: reservation_pays_def pays_def into_output_def)

lemma typed_reservation_pays:
  assumes "typed_reservation domain into_callback_source callback = Inr decl"
    and "\<And>r. callback reservation_new = Inr r \<Longrightarrow> reservation_pays bound r"
  shows "pays bound decl"
  using assms by (auto simp: typed_reservation_def and_then_eq_Inr intro: into_output_pays)

definition builder_fits :: "key_bounds \<Rightarrow> MutationBuilder \<Rightarrow> bool" where
  "builder_fits bound mb \<longleftrightarrow> keys_fit bound (mb_families mb) (mb_pending mb)"

lemma builder_new_fits: "builder_fits bound (builder_new fs)"
  by (simp add: builder_fits_def builder_new_def)

lemma encode_stored_key_size: "encode_stored_key c key = (Inr k :: ('io, 'x) ReadError + _) \<Longrightarrow> length k \<le> c_max_key_bytes c"
  by (auto simp: encode_stored_key_def encode_cursor_key_def ensure_caller_key_size_def and_then_eq_Inr split: if_splits)

lemma family_slot_from_name: "family_slot_from n fs name = Some i \<Longrightarrow> n \<le> i \<and> fam_logical_name (fs ! (i - n)) = name"
proof (induction fs arbitrary: n)
  case (Cons f fs)
  show ?case using Cons.IH [of "Suc n"] Cons.prems by (auto simp: Suc_diff_Suc [symmetric] split: if_splits)
qed simp

lemma family_slot_name: "family_slot fs name = Some i \<Longrightarrow> fam_logical_name (fs ! i) = name"
  using family_slot_from_name [of 0 fs name i] by (simp add: family_slot_def)

lemma builder_family_slot_name:
  assumes "builder_family_slot mb c = (Inr slot :: ('io, 'x) MutationBuildError + _)"
  shows "fam_logical_name (mb_families mb ! slot) = c_family c \<and> fam_codec_type (mb_families mb ! slot) = c_type c"
  using assms family_slot_name by (auto simp: builder_family_slot_def and_then_eq_Inr split: if_splits)

lemma builder_put_fits:
  "\<lbrakk>builder_put c key v mb = (Inr mb' :: ('io, 'x) MutationBuildError + _); bounds_codec bound c; builder_fits bound mb\<rbrakk> \<Longrightarrow> builder_fits bound mb'"
  by (auto simp: builder_put_def and_then_eq_Inr builder_push_eq_Inr builder_fits_def bounds_codec_def
      dest!: encode_stored_key_size builder_family_slot_name)

lemma builder_delete_fits:
  "\<lbrakk>builder_delete c key mb = (Inr mb' :: ('io, 'x) MutationBuildError + _); bounds_codec bound c; builder_fits bound mb\<rbrakk> \<Longrightarrow> builder_fits bound mb'"
  by (auto simp: builder_delete_def and_then_eq_Inr builder_push_eq_Inr builder_fits_def bounds_codec_def
      dest!: encode_stored_key_size builder_family_slot_name)

section \<open>Materialized records are paid from the quotas\<close>

fun used :: "key_bounds \<Rightarrow> ReservedRecordQuota list \<Rightarrow> usize list \<Rightarrow> usize" where
  "used bound (q # qs) (n # ns) = n * record_charge bound q + used bound qs ns"
| "used bound _ _ = 0"

lemma used_none: "used bound qs (replicate n 0) = 0"
proof (induction qs arbitrary: n)
  case (Cons q qs)
  then show ?case by (cases n) auto
qed simp

lemma used_one_more:
  "\<lbrakk>i < length qs; length ns = length qs\<rbrakk> \<Longrightarrow> used bound qs (ns[i := Suc (ns ! i)]) = used bound qs ns + record_charge bound (qs ! i)"
  by (induction bound qs ns arbitrary: i rule: used.induct) (auto split: nat.splits)

lemma used_within:
  "\<lbrakk>length ns = length qs; \<And>i. i < length qs \<Longrightarrow> ns ! i \<le> quota_count (qs ! i)\<rbrakk> \<Longrightarrow>
     used bound qs ns \<le> sum_list (map (\<lambda>q. quota_count q * record_charge bound q) qs)"
proof (induction bound qs ns rule: used.induct)
  case (1 bound q qs n ns)
  have "used bound qs ns \<le> sum_list (map (\<lambda>q. quota_count q * record_charge bound q) qs)"
    using 1(2) 1(3) [of "Suc _"] by (intro 1(1)) auto
  moreover have "n \<le> quota_count q" using 1(3) [of 0] by simp
  ultimately show ?case by (simp add: add_mono mult_le_mono)
qed auto

definition records_charge :: "MaterializedRecordDescriptor list \<Rightarrow> usize" where
  "records_charge rs = sum_list (map (\<lambda>r. COLLISION_RECORD_BYTES + length (mr_key r)) rs)"

lemma materialize_records_paid:
  "\<lbrakk>materialize_records sn d quotas actual pending = (Inr rds :: ('io, 'a, 'e) CommandError + _);
     keys_fit bound (dom_families d) pending; length actual = length quotas; \<forall>q\<in>set quotas. quota_count q < usize_max;
     \<forall>i<length quotas. actual ! i \<le> quota_count (quotas ! i)\<rbrakk> \<Longrightarrow>
   records_charge rds + used bound quotas actual \<le> sum_list (map (\<lambda>q. quota_count q * record_charge bound q) quotas)"
proof (induction pending arbitrary: actual rds)
  case Nil
  then show ?case using used_within [of actual quotas bound] by (simp add: records_charge_def)
next
  case (Cons p pending)
  let ?family = "dom_families d ! pm_family_slot p"
  from Cons.prems(1) obtain i old rest where
    i: "position (\<lambda>q. quota_family q = fam_logical_name ?family \<and> quota_codec_type q = fam_codec_type ?family) quotas = Some i"
    and within: "\<not> quota_count (quotas ! i) < actual[i := usize_saturating_add (actual ! i) 1] ! i"
    and rest: "materialize_records sn d quotas (actual[i := usize_saturating_add (actual ! i) 1]) pending =
      (Inr rest :: ('io, 'a, 'e) CommandError + _)"
    and rds: "rds = \<lparr>mr_family_slot = pm_family_slot p, mr_key = pm_key p, mr_old = old,
      mr_new = (case pm_action p of Put v \<Rightarrow> Some v | Delete \<Rightarrow> None)\<rparr> # rest"
    by (auto simp: Let_def result_simps split: if_splits option.splits)
  from i have q: "i < length quotas" "quota_family (quotas ! i) = fam_logical_name ?family"
      "quota_codec_type (quotas ! i) = fam_codec_type ?family"
    using position_Some [OF i] by auto
  have "actual ! i < usize_max" using Cons.prems(4,5) q(1) by (meson le_less_trans nth_mem)
  then have next_actual: "usize_saturating_add (actual ! i) 1 = Suc (actual ! i)" by (simp add: usize_saturating_add_def)
  with within q(1) Cons.prems(3) have "Suc (actual ! i) \<le> quota_count (quotas ! i)" by (simp del: One_nat_def)
  then have "records_charge rest + used bound quotas (actual[i := Suc (actual ! i)]) \<le>
      sum_list (map (\<lambda>q. quota_count q * record_charge bound q) quotas)"
    using Cons.prems(2-) q(1) by (intro Cons.IH rest [unfolded next_actual]) (auto simp: nth_list_update)
  moreover have "length (pm_key p) \<le> bound (quota_family (quotas ! i)) (quota_codec_type (quotas ! i))"
    using Cons.prems(2) q by simp
  ultimately show ?case
    using used_one_more [OF q(1) Cons.prems(3), of bound] by (simp add: rds records_charge_def record_charge_def)
qed

section \<open>Descriptors are paid from their declarations\<close>

lemma domain_paid:
  assumes "materialize_records sn d (ro_quotas decl) (replicate (length (ro_quotas decl)) 0) pending =
      (Inr rds :: ('io, 'a, 'e) CommandError + _)"
    and pays: "pays bound decl" and fit: "keys_fit bound (dom_families d) pending"
  shows "32 + (COLLISION_DOMAIN_BYTES + records_charge rds) \<le> ro_descriptor_bytes decl"
proof -
  let ?sum = "sum_list (map (\<lambda>q. quota_count q * record_charge bound q) (ro_quotas decl))"
  have "quota_count q < usize_max" if "q \<in> set (ro_quotas decl)" for q
  proof -
    have "quota_count q \<le> quota_count q * record_charge bound q" by (simp add: record_charge_def COLLISION_RECORD_BYTES_def)
    also have "\<dots> \<le> ?sum" using that by (intro member_le_sum_list) auto
    finally show ?thesis using pays by (simp add: pays_def)
  qed
  with materialize_records_paid [OF assms(1) fit] used_none pays show ?thesis by (force simp: pays_def)
qed

lemma domains_paid:
  "\<lbrakk>materialize_domains sn receipt (zip us declarations) = (Inr dds :: ('io, 'a, 'e) CommandError + _); length us = length declarations;
     list_all2 (\<lambda>u decl. \<exists>bound. pays bound decl \<and> keys_fit bound (dom_families (pu_domain u)) (pu_pending u)) us declarations\<rbrakk> \<Longrightarrow>
   32 * length us + sealed_size dds \<le> sum_list (map ro_descriptor_bytes declarations)"
proof (induction us arbitrary: declarations dds)
  case (Cons u us)
  then obtain decl rest bound where ds: "declarations = decl # rest" and bound: "pays bound decl"
      "keys_fit bound (dom_families (pu_domain u)) (pu_pending u)"
    by (auto simp: list_all2_Cons1)
  with Cons.prems(1) obtain revision rds dds' where
    rds: "materialize_records sn (pu_domain u) (ro_quotas decl) (replicate (length (ro_quotas decl)) 0) (pu_pending u) =
      (Inr rds :: ('io, 'a, 'e) CommandError + _)"
    and rest: "materialize_domains sn receipt (zip us rest) = (Inr dds' :: ('io, 'a, 'e) CommandError + _)"
    and dds: "dds = \<lparr>mm_domain_slot = pu_slot u, mm_intended_revision = revision, mm_records = rds\<rparr> # dds'"
    by (auto simp: result_simps split: if_splits)
  have "32 * length us + sealed_size dds' \<le> sum_list (map ro_descriptor_bytes rest)"
    using Cons.prems(2,3) ds by (intro Cons.IH rest) auto
  with domain_paid [OF rds bound] show ?case by (simp add: ds dds sealed_size_def records_charge_def)
qed (simp add: sealed_size_def)

lemma descriptor_total_eq: "descriptor_total declarations = min (sum_list (map ro_descriptor_bytes declarations)) usize_max"
proof -
  have "foldl (\<lambda>total decl. usize_saturating_add total (ro_descriptor_bytes decl)) (min n usize_max) ds =
      min (n + sum_list (map ro_descriptor_bytes ds)) usize_max" for n and ds :: "ReconciliationReservationOutput list"
  proof (induction ds arbitrary: n)
    case (Cons d ds)
    have "usize_saturating_add (min n usize_max) (ro_descriptor_bytes d) = min (n + ro_descriptor_bytes d) usize_max"
      by (simp add: usize_saturating_add_def)
    with Cons.IH [of "n + ro_descriptor_bytes d"] show ?case by (simp add: add.assoc)
  qed simp
  from this [of 0 declarations] show ?thesis by (simp add: descriptor_total_def)
qed

section \<open>Commands\<close>

text \<open>A participant is charged if what it declares pays for the keys it contributes.\<close>

definition charged_participant :: "('io, 'a, 'e) reservation_callback \<Rightarrow> ('io, 'a, 'e) DomainParticipant \<Rightarrow> bool" where
  "charged_participant reserves p \<longleftrightarrow> (\<exists>bound. (\<forall>decl. reserves p = Inr decl \<longrightarrow> pays bound decl) \<and>
     (\<forall>sn d pending. contributes sn d p pending \<longrightarrow> keys_fit bound (dom_families d) pending))"

lemma reserve_participants_declared:
  "reserve_participants reserves ps = (Inr declarations :: ('io, 'a, 'e) CommandError + _) \<Longrightarrow>
     list_all2 (\<lambda>p decl. reserves p = Inr decl) (filter (\<lambda>p. is_mutation (pt_work p)) ps) declarations"
  by (induction ps arbitrary: declarations) (auto simp: result_simps split: if_splits)

lemma reserve_charged:
  "reserve lim n st = Inr (slot, st') \<Longrightarrow> sl_charged_bytes slot = n \<and> n \<le> lim_descriptor_bytes lim"
  by (auto simp: reserve_def Let_def and_then_eq_Inr split: if_splits)

lemma reserve_home_command_dest:
  assumes "reserve_home_command lim reserves cmd st = (Inr ((slot, res), st') :: ('io, 'a, 'e) CommandError + _)"
  shows "list_all2 (\<lambda>p decl. reserves p = Inr decl) (mutators cmd) (rs_declarations res)"
    and "reserve lim (descriptor_total (rs_declarations res)) st = Inr (slot, st')"
    and "sl_charged_bytes slot = descriptor_total (rs_declarations res)" "sl_charged_bytes slot \<le> lim_descriptor_bytes lim"
proof -
  from assms obtain declarations where
    "reserve_participants reserves (hc_participants cmd) = (Inr declarations :: ('io, 'a, 'e) CommandError + _)"
    and "reserve lim (descriptor_total declarations) st = Inr (slot, st')" "rs_declarations res = declarations"
    by (auto simp: reserve_home_command_def reserve_reconciliation_def and_then_eq_Inr)
  then show "list_all2 (\<lambda>p decl. reserves p = Inr decl) (mutators cmd) (rs_declarations res)"
      and r: "reserve lim (descriptor_total (rs_declarations res)) st = Inr (slot, st')"
    using reserve_participants_declared by (auto simp: mutators_def)
  from reserve_charged [OF r] show "sl_charged_bytes slot = descriptor_total (rs_declarations res)"
      "sl_charged_bytes slot \<le> lim_descriptor_bytes lim" by auto
qed

lemma described_within_charge:
  fixes eng :: "'io engine"
  assumes eng: "engine_sound eng" and lim: "lim_descriptor_bytes lim < usize_max"
    and charged: "\<forall>p\<in>set (mutators cmd). charged_participant reserves p"
    and res: "reserve_home_command lim reserves cmd st = (Inr ((slot, res), st') :: ('io, 'a, 'e) CommandError + _)"
    and exec: "execute_admitted eng gen health cmd res m = (m', res', outcome :: ('io, 'a, 'e) ExecutionOutcome)"
    and sent: "\<forall>e. outcome \<noteq> NotCommitted e" "mutators cmd \<noteq> []" and mat: "rs_materialized res' = Some (dds, receipt)"
  shows "32 + sealed_size dds \<le> sl_charged_bytes slot"
  using execute_admitted_dest [OF exec]
proof (elim disjE exE conjE)
  fix sn home cs us receipt'
  assume prep: "prepare_admitted eng gen health cmd m = (Inr (sn, home, cs) :: ('io, 'a, 'e) CommandError + _)"
    and receipt: "intended_receipt gen health home cs = (Inr receipt' :: ('io, 'a, 'e) CommandError + _)"
    and us: "assemble_contributions cs = (Inr us :: ('io, 'a, 'e) CommandError + _)"
    and mat': "materialize_reservation sn us res receipt' = (Inr res' :: ('io, 'a, 'e) CommandError + _)"
  note dest = reserve_home_command_dest [OF res]
  have mut: "list_all2 (mutates gen sn) (mutators cmd) us" by (rule admitted_mutations [OF eng prep receipt us])
  from mat' mat have dds: "materialize_domains sn receipt' (zip us (rs_declarations res)) = (Inr dds :: ('io, 'a, 'e) CommandError + _)"
      and len: "length us = length (rs_declarations res)"
    by (auto simp: materialize_reservation_def result_simps split: if_splits)
  have "list_all2 (\<lambda>u decl. \<exists>bound. pays bound decl \<and> keys_fit bound (dom_families (pu_domain u)) (pu_pending u))
      us (rs_declarations res)"
    unfolding list_all2_conv_all_nth
  proof (intro conjI allI impI len)
    fix i assume i: "i < length us"
    then have "mutates gen sn (mutators cmd ! i) (us ! i)" "reserves (mutators cmd ! i) = Inr (rs_declarations res ! i)"
        "mutators cmd ! i \<in> set (mutators cmd)"
      using mut dest(1) len by (auto simp: list_all2_conv_all_nth)
    with charged show "\<exists>bound. pays bound (rs_declarations res ! i) \<and> keys_fit bound (dom_families (pu_domain (us ! i))) (pu_pending (us ! i))"
      unfolding charged_participant_def mutates_def by blast
  qed
  from domains_paid [OF dds len this] have "32 * length us + sealed_size dds \<le> sum_list (map ro_descriptor_bytes (rs_declarations res))" .
  moreover have "us \<noteq> []" using mut sent(2) by auto
  moreover have "sl_charged_bytes slot = sum_list (map ro_descriptor_bytes (rs_declarations res))"
    using dest(3,4) lim by (simp add: descriptor_total_eq min_def split: if_splits)
  ultimately show ?thesis by (cases us) auto
qed (use sent in auto)

section \<open>The contract of a domain\<close>

text \<open>
  A domain offers mutations, each the work it does and the reservation it declares before. Both go
  through the record codecs of the domain, which bound the keys.
\<close>

locale charged_domain =
  fixes mutations :: "(('io, 'a, 'e) participant_work \<times> (('a, 'e) ErasedCallbackError + ReconciliationReservationOutput)) set"
    and bound :: key_bounds
  assumes declared_pays: "(work, Inr decl) \<in> mutations \<Longrightarrow> pays bound decl"
    and contributed_fits: "\<lbrakk>(Mutation prepare, declared) \<in> mutations; prepare sn d = Inr contribution; contribution d = Inr pending\<rbrakk> \<Longrightarrow>
      keys_fit bound (dom_families d) pending"
begin

lemma offered_charged: "(pt_work p, reserves p) \<in> mutations \<Longrightarrow> charged_participant reserves p"
  using declared_pays contributed_fits unfolding charged_participant_def contributes_def by (metis (no_types))

end

end
