(* ===== verification/Writer_Current.thy ===== *)
theory Writer_Current
  imports Writer_Laws
begin

text \<open>
  Commands without fences of their own: the writer reads the current revisions, builds a command
  with them and executes it, so such a command never meets a revision conflict.
\<close>

section \<open>Where conflicts come from\<close>

definition no_conflict :: "('io, 'a, 'e) CommandError + 'b \<Rightarrow> bool" where
  "no_conflict r \<longleftrightarrow> (\<forall>n cs. r \<noteq> Inl (Conflict n cs))"

lemma no_conflict_simps [simp]:
  "no_conflict (Inr x)" "no_conflict (Inl e) \<longleftrightarrow> (\<forall>n cs. e \<noteq> Conflict n cs)"
  "no_conflict (ok_or e r) \<longleftrightarrow> r \<noteq> None \<or> (\<forall>n cs. e \<noteq> Conflict n cs)"
  "no_conflict (if b then r1 else r2) \<longleftrightarrow> (if b then no_conflict r1 else no_conflict r2)"
  by (auto simp: no_conflict_def ok_or_def split: option.splits)

lemma no_conflict_and_then:
  "\<lbrakk>no_conflict r; \<And>x. r = Inr x \<Longrightarrow> no_conflict (f x)\<rbrakk> \<Longrightarrow> no_conflict (and_then r f)"
  by (cases r) (auto simp: no_conflict_def)

lemma no_conflict_map_err: "(\<And>e n cs. f e \<noteq> Conflict n cs) \<Longrightarrow> no_conflict (map_err f r)"
  by (cases r) (auto simp: no_conflict_def)

lemma no_conflict_ensure: "(\<And>n cs. e \<noteq> Conflict n cs) \<Longrightarrow> no_conflict (ensure e b)"
  by (auto simp: no_conflict_def ensure_def)

lemma callback_no_conflict: "callback_command_error domain stage source \<noteq> Conflict n cs"
  by (simp add: callback_command_error_def split: ErasedCallbackError.split ContributorCallbackStage.split)

lemmas no_conflict_intros = no_conflict_and_then no_conflict_map_err no_conflict_ensure

lemma no_conflict_fence: "no_conflict (fence_participant gen sn p)"
  by (auto simp: fence_participant_def intro!: no_conflict_intros)

lemma no_conflict_fences: "no_conflict (fence_participants gen sn ps conflicts)"
  by (induction ps arbitrary: conflicts) (auto intro!: no_conflict_intros no_conflict_fence split: prod.splits)

lemma no_conflict_prepares: "no_conflict (prepare_participants sn ps)"
proof (induction ps)
  case (Cons x ps)
  then show ?case by (cases x) (auto intro!: no_conflict_intros simp: callback_no_conflict split: option.splits)
qed simp

lemma no_conflict_pair: "no_conflict (validate_command_pair ps)"
  by (auto simp: validate_command_pair_def split: list.splits option.splits prod.splits)

lemma no_conflict_domains: "no_conflict (intended_domains cs)"
  by (induction cs) (auto intro!: no_conflict_intros)

lemma no_conflict_receipt: "no_conflict (intended_receipt gen health home cs)"
  by (auto simp: intended_receipt_def intro!: no_conflict_intros no_conflict_domains)

lemma no_conflict_assembles: "no_conflict (assemble_contributions cs)"
  by (induction cs) (auto intro!: no_conflict_intros simp: callback_no_conflict)

lemma no_conflict_records: "no_conflict (materialize_records sn d quotas actual ps)"
  by (induction ps arbitrary: actual)
    (auto simp: materialize_old_def Let_def intro!: no_conflict_intros split: option.splits)

lemma no_conflict_materialized: "no_conflict (materialize_domains sn receipt xs)"
proof (induction xs)
  case (Cons x xs)
  then show ?case by (cases x) (auto intro!: no_conflict_intros no_conflict_records)
qed simp

lemma no_conflict_reservation: "no_conflict (materialize_reservation sn us res receipt)"
  by (auto simp: materialize_reservation_def intro!: no_conflict_intros no_conflict_materialized)

lemma no_conflict_totals: "no_conflict (totals_include k v t)" "no_conflict (totals_pending ps t)"
proof -
  show "no_conflict (totals_include k v t)" for k v and t :: BatchTotals
    by (auto simp: totals_include_def intro!: no_conflict_intros)
  then show "no_conflict (totals_pending ps t)"
    by (induction ps arbitrary: t) (auto intro!: no_conflict_intros)
qed

lemma no_conflict_participants: "no_conflict (totals_participants vs t)"
proof (induction vs arbitrary: t)
  case (Cons x vs)
  then show ?case by (cases x) (auto intro!: no_conflict_intros no_conflict_totals)
qed simp

lemma no_conflict_push: "no_conflict (batch_push eng batch op)"
  by (auto simp: batch_push_def intro!: no_conflict_intros)

lemma no_conflict_pending: "no_conflict (push_pending eng d ps batch)"
  by (induction ps arbitrary: batch) (auto simp: Let_def intro!: no_conflict_intros no_conflict_push)

lemma no_conflict_pushes: "no_conflict (push_participants eng vs batch)"
proof (induction vs arbitrary: batch)
  case (Cons x vs)
  then show ?case by (cases x) (auto intro!: no_conflict_intros no_conflict_push no_conflict_pending)
qed simp

lemma no_conflict_encodes: "no_conflict (encode_participants receipt us)"
  by (induction us) (auto intro!: no_conflict_intros)

lemma no_conflict_assemble: "no_conflict (assemble eng receipt us)"
  by (auto simp: assemble_def Let_def intro!: no_conflict_intros no_conflict_encodes no_conflict_participants
      no_conflict_totals no_conflict_push no_conflict_pushes)

lemma commit_prepared_no_conflict:
  fixes eng :: "'io engine"
  shows "commit_prepared eng m receipt us \<noteq> (m', NotCommitted (Conflict n cs) :: ('io, 'a, 'e) ExecutionOutcome)"
proof -
  have "assemble eng receipt us \<noteq> (Inl (Conflict n cs) :: ('io, 'a, 'e) CommandError + _)"
    using no_conflict_assemble [of eng receipt us] unfolding no_conflict_def by blast
  then show ?thesis
    by (auto simp: commit_prepared_def after_commit_def split: sum.splits prod.splits option.splits CommitState.splits)
qed

text \<open>So the only conflicts are those of the fences.\<close>

lemma execute_admitted_conflict:
  fixes eng :: "'io engine"
  assumes "execute_admitted eng gen health cmd res m = (m', res', NotCommitted (Conflict n cs) :: ('io, 'a, 'e) ExecutionOutcome)"
  shows "prepare_admitted eng gen health cmd m = (Inl (Conflict n cs) :: ('io, 'a, 'e) CommandError + _)"
proof (cases "prepare_admitted eng gen health cmd m :: ('io, 'a, 'e) CommandError + _")
  case (Inr x)
  obtain sn home cs' where x: "x = (sn, home, cs')" by (rule prod_cases3)
  have "no_conflict (and_then (ensure LocalAdmissionRejected (hc_local_admission cmd \<noteq> Some False)) (\<lambda>_.
         and_then (intended_receipt gen health home cs') (\<lambda>receipt.
         and_then (assemble_contributions cs') (\<lambda>mutations.
         and_then (materialize_reservation sn mutations res receipt) (\<lambda>res. Inr (receipt, mutations, res)))))
        :: ('io, 'a, 'e) CommandError + _)"
    by (auto intro!: no_conflict_intros no_conflict_receipt no_conflict_assembles no_conflict_reservation)
  with assms Inr x show ?thesis
    by (auto simp: execute_admitted_def no_conflict_def commit_prepared_no_conflict split: sum.splits prod.splits)
qed (use assms in \<open>simp add: execute_admitted_def\<close>)

section \<open>Commands that are built by the writer\<close>

lemma current_command_eq_Inr:
  fixes eng :: "'io engine"
  assumes "current_command eng gen p m = (Inr cmd :: ('io, 'a, 'e) CommandError + _)"
  shows "\<exists>sn d home revision. eng_snapshot eng m = Inr sn \<and>
    read_home_revision sn = (Inr home :: ('io, unit) ReadError + _) \<and>
    fence_participant gen sn p = (Inr (d, revision) :: ('io, 'a, 'e) CommandError + _) \<and>
    cmd = \<lparr>hc_local_admission = None, hc_expected_home_revision = home,
      hc_participants = [p\<lparr>pt_expected_revision := revision\<rparr>], hc_sidecars = []\<rparr>"
  using assms
  by (auto simp: current_command_def fence_participant_def result_simps split: if_splits option.splits)

lemma fence_participant_expected:
  "fence_participant gen sn (p\<lparr>pt_expected_revision := revision\<rparr>) = fence_participant gen sn p"
  by (simp add: fence_participant_def cong: if_cong option.case_cong)

lemma current_command_fresh:
  fixes eng :: "'io engine"
  assumes cmd: "current_command eng gen p m = (Inr cmd :: ('io, 'a, 'e) CommandError + _)"
  shows "no_conflict (prepare_admitted eng gen health cmd m :: ('io, 'a, 'e) CommandError + _)"
proof -
  obtain sn d home revision where c: "eng_snapshot eng m = Inr sn"
    "read_home_revision sn = (Inr home :: ('io, unit) ReadError + _)"
    "fence_participant gen sn p = (Inr (d, revision) :: ('io, 'a, 'e) CommandError + _)"
    "cmd = \<lparr>hc_local_admission = None, hc_expected_home_revision = home,
      hc_participants = [p\<lparr>pt_expected_revision := revision\<rparr>], hc_sidecars = []\<rparr>"
    using current_command_eq_Inr [OF cmd] by blast
  then show ?thesis
    by (auto simp: prepare_admitted_def fence_participant_expected simp del: prepare_participants.simps
        intro!: no_conflict_intros no_conflict_pair no_conflict_prepares)
qed

text \<open>The command of one participant at the given revisions.\<close>

definition command_at :: "('io, 'a, 'e) DomainParticipant \<Rightarrow> HomeRevision \<Rightarrow> DomainRevision \<Rightarrow> ('io, 'a, 'e) HomeCommand" where
  "command_at p home revision = \<lparr>hc_local_admission = None, hc_expected_home_revision = home,
     hc_participants = [p\<lparr>pt_expected_revision := revision\<rparr>], hc_sidecars = []\<rparr>"

text \<open>
  C22. A command without fences takes the current revisions: it never fails with a revision
  conflict, and it does nothing or the atomic step of the command that expects the stored revisions.
\<close>

theorem current_command_commits:
  fixes eng :: "'io engine"
  assumes "engine_sound eng" and "registered gen"
    and exec: "execute_current_admitted eng gen health p res m = (m', res', outcome :: ('io, 'a, 'e) ExecutionOutcome)"
  shows "case outcome of
      NotCommitted e \<Rightarrow> m' = m \<and> (\<forall>n cs. e \<noteq> Conflict n cs)
    | Committed receipt _ \<Rightarrow> \<exists>home revision. commit_step gen (command_at p home revision) m m' receipt
    | Indeterminate _ \<Rightarrow> m' = m \<or> (\<exists>home revision receipt. commit_step gen (command_at p home revision) m m' receipt)"
proof (cases "current_command eng gen p m :: ('io, 'a, 'e) CommandError + _")
  case (Inl e)
  moreover have "\<And>n cs. e \<noteq> Conflict n cs"
    using Inl by (auto simp: current_command_def result_simps split: if_splits)
  ultimately show ?thesis using exec by (auto simp: execute_current_admitted_def)
next
  case (Inr cmd)
  obtain home revision where c: "cmd = command_at p home revision"
    using current_command_eq_Inr [OF Inr] unfolding command_at_def by blast
  have e: "execute_admitted eng gen health cmd res m = (m', res', outcome)"
    using exec Inr by (simp add: execute_current_admitted_def)
  have "command_built cmd" by (simp add: command_built_def c command_at_def)
  note steps = execute_admitted_steps [OF assms(1,2) this e]
  have "outcome \<noteq> NotCommitted (Conflict n cs)" for n cs
    using e execute_admitted_conflict current_command_fresh [OF Inr] unfolding no_conflict_def by blast
  with steps c show ?thesis by (cases outcome) auto
qed

end
