(* ===== verification/Writer_Progress.thy ===== *)
theory Writer_Progress
  imports Writer_Current
begin

text \<open>
  Progress of the writer: on an engine that serves its calls, a command that is fenced by the
  stored revisions, whose callbacks accept and whose reservation covers its mutations commits.
\<close>

section \<open>Conditions for a commit\<close>

definition engine_serves :: "'io engine \<Rightarrow> contents \<Rightarrow> 'io snapshot \<Rightarrow> bool" where
  "engine_serves eng m sn \<longleftrightarrow> eng_snapshot eng m = Inr sn \<and> snapshot_reliable sn m \<and>
     (\<forall>r k v. eng_batch eng r k v = Inr ()) \<and> (\<forall>batch op. eng_push eng batch op = Inr ()) \<and>
     (\<forall>ops. snd (eng_commit eng m ops) = None) \<and> (\<forall>m. eng_persist eng m = Inr ()) \<and> (\<forall>point. eng_fault eng point = Inr ())"

definition domain_of :: "StoreGeneration \<Rightarrow> ('io, 'a, 'e) DomainParticipant \<Rightarrow> RegisteredDomain" where
  "domain_of gen p = the (registry_get gen (pt_slot p))"

definition advances :: "nonzero_u64 \<Rightarrow> bool" where
  "advances r \<longleftrightarrow> unat (nz_get r) < 2 ^ 64 - 1"

definition participant_ready :: "StoreGeneration \<Rightarrow> 'io snapshot \<Rightarrow> contents \<Rightarrow> ('io, 'a, 'e) DomainParticipant \<Rightarrow> bool" where
  "participant_ready gen sn m p \<longleftrightarrow> participates gen p (domain_of gen p) \<and>
     domain_at m (domain_of gen p) (pt_expected_revision p) \<and> advances (pt_expected_revision p) \<and>
     (\<forall>validate. pt_work p = Validation validate \<longrightarrow> validate sn (domain_of gen p) = Inr ())"

text \<open>The first quota that names the family of a pending mutation; the mutations of one quota must fit it.\<close>

definition quota_slot :: "ReservedRecordQuota list \<Rightarrow> RegisteredDomain \<Rightarrow> PendingMutation \<Rightarrow> usize option" where
  "quota_slot quotas d p = position (\<lambda>q. quota_family q = fam_logical_name (dom_families d ! pm_family_slot p) \<and>
     quota_codec_type q = fam_codec_type (dom_families d ! pm_family_slot p)) quotas"

definition covers :: "PreparedMutation \<Rightarrow> ReconciliationReservationOutput \<Rightarrow> bool" where
  "covers u declaration \<longleftrightarrow> ro_domain declaration = dom_name (pu_domain u) \<and>
     (\<forall>p\<in>set (pu_pending u). \<exists>i. quota_slot (ro_quotas declaration) (pu_domain u) p = Some i \<and>
        length (filter (\<lambda>q. quota_slot (ro_quotas declaration) (pu_domain u) q = Some i) (pu_pending u)) \<le>
          quota_count (ro_quotas declaration ! i))"

definition values_fit :: "contents \<Rightarrow> RegisteredDomain \<Rightarrow> bool" where
  "values_fit m d \<longleftrightarrow> (\<forall>f\<in>set (dom_families d). \<forall>v\<in>ran (m (fam_keyspace f)). length v \<le> fam_max_stored_value_bytes f)"

text \<open>A bound on the records, key bytes and value bytes of a batch.\<close>

definition pending_size :: "PendingMutation \<Rightarrow> nat" where
  "pending_size p = 1 + length (pm_key p) + (case pm_action p of Put v \<Rightarrow> length v | Delete \<Rightarrow> 0)"

definition mutation_size :: "PreparedMutation \<Rightarrow> nat" where
  "mutation_size u = sum_list (map pending_size (pu_pending u)) + 1 + length (dom_name (pu_domain u)) + MAX_DOMAIN_METADATA_BYTES"

definition batch_size :: "PreparedMutation list \<Rightarrow> nat" where
  "batch_size us = sum_list (map mutation_size us) + 1 + length HOME_REVISION_KEY + HOME_REVISION_BYTES"

definition command_ready ::
    "'io engine \<Rightarrow> StoreGeneration \<Rightarrow> HomeGeneration \<Rightarrow> ('io, 'a, 'e) HomeCommand \<Rightarrow> CommandReservation \<Rightarrow> contents \<Rightarrow>
     'io snapshot \<Rightarrow> PreparedMutation list \<Rightarrow> bool" where
  "command_ready eng gen health cmd res m sn us \<longleftrightarrow> engine_serves eng m sn \<and> command_admissible gen health cmd \<and>
     hc_local_admission cmd \<noteq> Some False \<and> home_at m (hc_expected_home_revision cmd) \<and>
     advances (hc_expected_home_revision cmd) \<and> list_all (participant_ready gen sn m) (hc_participants cmd) \<and>
     validate_command_pair (map pair_participant (hc_participants cmd)) = (Inr () :: ('io, 'a, 'e) CommandError + unit) \<and>
     list_all2 (mutates gen sn) (mutators cmd) us \<and> list_all slots_ok us \<and>
     list_all2 covers us (rs_declarations res) \<and> list_all (\<lambda>u. values_fit m (pu_domain u)) us \<and> batch_size us < 2 ^ 64"

section \<open>Preparation\<close>

lemma advances_next: "advances r \<Longrightarrow> \<exists>s. revision_checked_next r = Inr s"
  by (cases "nonzero_u64_next r") (auto simp: advances_def revision_checked_next_def nonzero_u64_next_eq_None)

lemma mutates_domain: "mutates gen sn p u \<Longrightarrow> pu_domain u = domain_of gen p"
  by (simp add: mutates_def participates_def domain_of_def)

lemma prepare_ready:
  "\<lbrakk>list_all (participant_ready gen sn m) ps; list_all2 (mutates gen sn) (filter (\<lambda>p. is_mutation (pt_work p)) ps) us\<rbrakk> \<Longrightarrow>
   \<exists>cs ds. prepare_participants sn (map (\<lambda>p. (p, domain_of gen p, pt_expected_revision p)) ps) =
       (Inr cs :: ('io, 'a, 'e) CommandError + _) \<and>
     intended_domains cs = (Inr ds :: ('io, 'a, 'e) CommandError + _) \<and>
     assemble_contributions cs = (Inr us :: ('io, 'a, 'e) CommandError + _)"
proof (induction ps arbitrary: us)
  case (Cons p ps)
  show ?case
  proof (cases "pt_work p")
    case (Mutation prepare)
    with Cons.prems(2) obtain u us' where us: "us = u # us'" and u: "mutates gen sn p u"
      and rest: "list_all2 (mutates gen sn) (filter (\<lambda>p. is_mutation (pt_work p)) ps) us'"
      by (auto simp: list_all2_Cons1)
    obtain r where "revision_checked_next (pt_expected_revision p) = Inr r"
      using Cons.prems(1) advances_next by (auto simp: participant_ready_def)
    moreover obtain asm where "prepare sn (domain_of gen p) = Inr asm" "asm (domain_of gen p) = Inr (pu_pending u)"
        "pu_pending u \<noteq> []" "u = \<lparr>pu_slot = pt_slot p, pu_domain = domain_of gen p, pu_pending = pu_pending u\<rparr>"
      using u mutates_domain [OF u] Mutation by (auto simp: mutates_def contributes_def)
    moreover note Cons.IH [OF _ rest]
    ultimately show ?thesis
      using Cons.prems(1) Mutation us by (auto simp: participant_prepare_def)
  next
    case (Validation validate)
    moreover have "validate sn (domain_of gen p) = Inr ()"
      using Validation Cons.prems(1) by (simp add: participant_ready_def)
    moreover have "list_all (participant_ready gen sn m) ps"
      "list_all2 (mutates gen sn) (filter (\<lambda>p. is_mutation (pt_work p)) ps) us"
      using Validation Cons.prems by simp_all
    from Cons.IH [OF this] obtain cs ds where
      "prepare_participants sn (map (\<lambda>p. (p, domain_of gen p, pt_expected_revision p)) ps) = (Inr cs :: ('io, 'a, 'e) CommandError + _)"
      "intended_domains cs = (Inr ds :: ('io, 'a, 'e) CommandError + _)"
      "assemble_contributions cs = (Inr us :: ('io, 'a, 'e) CommandError + _)" by blast
    ultimately show ?thesis by (simp add: participant_prepare_def)
  qed
qed simp

section \<open>The descriptor\<close>

lemma position_less: "position P xs = Some i \<Longrightarrow> i < length xs"
  by (induction xs arbitrary: i) (auto split: if_splits)

lemma quota_slot_less: "quota_slot quotas d p = Some i \<Longrightarrow> i < length quotas"
  unfolding quota_slot_def by (rule position_less)

lemma materialize_old_succeeds:
  assumes "snapshot_reliable sn m" and "\<forall>v\<in>ran (m (fam_keyspace f)). length v \<le> fam_max_stored_value_bytes f"
  shows "\<exists>old. materialize_old sn domain f k = (Inr old :: ('io, 'a, 'e) CommandError + _)"
proof (rule snapshot_reliable_point [OF assms(1), of "fam_keyspace f" k])
  fix r
  assume r: "snap_point sn (fam_keyspace f) k = Inr r" "point_agrees r (m (fam_keyspace f) k)"
    "\<And>len a. r = Some (len, a) \<Longrightarrow> \<exists>w. a = Inr w"
  show ?thesis
  proof (cases r)
    case None
    with r(1) show ?thesis by (simp add: materialize_old_def)
  next
    case (Some x)
    obtain len a where x: "x = (len, a)" by (cases x)
    with Some r(3) obtain w where "a = Inr w" by blast
    with Some x r(2) assms(2) have "unat len \<le> fam_max_stored_value_bytes f"
      by (auto simp: point_agrees_def ran_def split: option.splits)
    with r(1) Some x \<open>a = Inr w\<close> show ?thesis by (simp add: materialize_old_def)
  qed
qed

lemma materialize_records_succeed:
  assumes "snapshot_reliable sn m" and "values_fit m d"
  shows "\<lbrakk>list_all (\<lambda>p. pm_family_slot p < length (dom_families d)) ps; length actual = length quotas;
      \<forall>p\<in>set ps. \<exists>i. quota_slot quotas d p = Some i \<and>
        actual ! i + length (filter (\<lambda>q. quota_slot quotas d q = Some i) ps) \<le> quota_count (quotas ! i)\<rbrakk> \<Longrightarrow>
    \<exists>rs. materialize_records sn d quotas actual ps = (Inr rs :: ('io, 'a, 'e) CommandError + _)"
proof (induction ps arbitrary: actual)
  case (Cons p ps)
  let ?f = "dom_families d ! pm_family_slot p"
  obtain i where i: "quota_slot quotas d p = Some i" "i < length actual"
      "actual ! i + 1 + length (filter (\<lambda>q. quota_slot quotas d q = Some i) ps) \<le> quota_count (quotas ! i)"
    using Cons.prems(2,3) quota_slot_less [of quotas d p] by auto
  let ?actual = "actual[i := usize_saturating_add (actual ! i) 1]"
  have "\<exists>j. quota_slot quotas d q = Some j \<and>
      ?actual ! j + length (filter (\<lambda>r. quota_slot quotas d r = Some j) ps) \<le> quota_count (quotas ! j)" if q: "q \<in> set ps" for q
  proof -
    obtain j where j: "quota_slot quotas d q = Some j"
        "actual ! j + length (filter (\<lambda>r. quota_slot quotas d r = Some j) (p # ps)) \<le> quota_count (quotas ! j)"
      using Cons.prems(3) q by force
    with i show ?thesis by (cases "j = i") (auto simp: usize_saturating_add_def nth_list_update)
  qed
  then obtain rs where "materialize_records sn d quotas ?actual ps = (Inr rs :: ('io, 'a, 'e) CommandError + _)"
    using Cons.IH [of ?actual] Cons.prems by auto
  moreover obtain old where "materialize_old sn (dom_name d) ?f (pm_key p) = (Inr old :: ('io, 'a, 'e) CommandError + _)"
    using materialize_old_succeeds [OF assms(1)] assms(2) Cons.prems(1) by (force simp: values_fit_def)
  moreover have "\<not> quota_count (quotas ! i) < ?actual ! i" using i by (simp add: usize_saturating_add_def)
  ultimately show ?case using Cons.prems(1) i(1) by (simp add: quota_slot_def Let_def)
qed simp

lemma materialize_domains_succeed:
  assumes "snapshot_reliable sn m"
  shows "\<lbrakk>list_all2 covers us declarations; list_all (\<lambda>u. values_fit m (pu_domain u)) us; list_all slots_ok us;
      \<forall>u\<in>set us. \<exists>r. receipt_revision receipt (pu_slot u) = Some r\<rbrakk> \<Longrightarrow>
    \<exists>ds. materialize_domains sn receipt (zip us declarations) = (Inr ds :: ('io, 'a, 'e) CommandError + _)"
proof (induction rule: list_all2_induct)
  case (Cons u us decl decls)
  have "\<forall>p\<in>set (pu_pending u). \<exists>i. quota_slot (ro_quotas decl) (pu_domain u) p = Some i \<and>
      replicate (length (ro_quotas decl)) 0 ! i + length (filter (\<lambda>q. quota_slot (ro_quotas decl) (pu_domain u) q = Some i)
        (pu_pending u)) \<le> quota_count (ro_quotas decl ! i)"
    using Cons.hyps(1) quota_slot_less by (fastforce simp: covers_def)
  from materialize_records_succeed [OF assms(1) _ _ _ this] Cons.prems
  obtain rs where "materialize_records sn (pu_domain u) (ro_quotas decl)
      (replicate (length (ro_quotas decl)) 0) (pu_pending u) = (Inr rs :: ('io, 'a, 'e) CommandError + _)"
    by (auto simp: slots_ok_def)
  with Cons show ?case by (auto simp: covers_def)
qed simp

section \<open>The batch\<close>

definition totals_sum :: "BatchTotals \<Rightarrow> nat" where
  "totals_sum t = unat (bt_records t) + unat (bt_key_bytes t) + unat (bt_value_bytes t)"

lemma checked_add_succeeds:
  fixes a b :: u64
  assumes "unat a + unat b < 2 ^ 64"
  shows "\<exists>c. checked_add a b = Some c \<and> unat c = unat a + unat b"
proof -
  have c: "checked_add a b = Some (a + b)" using assms by (simp add: checked_add_def)
  with checked_add_SomeD show ?thesis by blast
qed

lemma totals_include_succeeds:
  assumes "totals_sum t + 1 + k + v < 2 ^ 64"
  shows "\<exists>t'. totals_include k v t = (Inr t' :: ('io, 'a, 'e) CommandError + _) \<and> totals_sum t' = totals_sum t + 1 + k + v"
proof -
  have k: "unat (of_nat k :: u64) = k" "unat (of_nat v :: u64) = v" using assms by (simp_all add: unat_of_nat)
  obtain r ks vs where "checked_add (bt_records t) 1 = Some r" "unat r = unat (bt_records t) + 1"
      "checked_add (bt_key_bytes t) (of_nat k) = Some ks" "unat ks = unat (bt_key_bytes t) + k"
      "checked_add (bt_value_bytes t) (of_nat v) = Some vs" "unat vs = unat (bt_value_bytes t) + v"
    using assms k checked_add_succeeds [of "bt_records t" 1] checked_add_succeeds [of "bt_key_bytes t" "of_nat k"]
      checked_add_succeeds [of "bt_value_bytes t" "of_nat v"] by (auto simp: totals_sum_def)
  with assms show ?thesis by (simp add: totals_include_def totals_sum_def)
qed

lemma totals_pending_succeeds:
  "totals_sum t + sum_list (map pending_size ps) < 2 ^ 64 \<Longrightarrow>
     \<exists>t'. totals_pending ps t = (Inr t' :: ('io, 'a, 'e) CommandError + _) \<and> totals_sum t' = totals_sum t + sum_list (map pending_size ps)"
proof (induction ps arbitrary: t)
  case (Cons p ps)
  let ?v = "case pm_action p of Put v \<Rightarrow> length v | Delete \<Rightarrow> 0"
  obtain t1 where "totals_include (length (pm_key p)) ?v t = (Inr t1 :: ('io, 'a, 'e) CommandError + _)" "totals_sum t1 = totals_sum t + pending_size p"
    using totals_include_succeeds [where 'io = 'io and 'a = 'a and 'e = 'e, of t "length (pm_key p)" ?v] Cons.prems
    by (auto simp: pending_size_def ac_simps)
  with Cons.IH [of t1] Cons.prems show ?case by auto
qed simp

lemma totals_participants_succeed:
  "\<lbrakk>totals_sum t + sum_list (map (mutation_size \<circ> fst) vs) < 2 ^ 64; list_all (\<lambda>(_, metadata). length metadata \<le> MAX_DOMAIN_METADATA_BYTES) vs\<rbrakk> \<Longrightarrow>
     \<exists>t'. totals_participants vs t = (Inr t' :: ('io, 'a, 'e) CommandError + _) \<and>
       totals_sum t' \<le> totals_sum t + sum_list (map (mutation_size \<circ> fst) vs)"
proof (induction vs arbitrary: t)
  case (Cons x vs)
  obtain u metadata where x: "x = (u, metadata)" by (cases x)
  obtain t1 where t1: "totals_pending (pu_pending u) t = (Inr t1 :: ('io, 'a, 'e) CommandError + _)"
      "totals_sum t1 = totals_sum t + sum_list (map pending_size (pu_pending u))"
    using totals_pending_succeeds [where 'io = 'io and 'a = 'a and 'e = 'e, of t "pu_pending u"] Cons.prems(1) x
    by (auto simp: mutation_size_def)
  obtain t2 where t2: "totals_include (length (dom_name (pu_domain u))) (length metadata) t1 = (Inr t2 :: ('io, 'a, 'e) CommandError + _)"
      "totals_sum t2 \<le> totals_sum t + mutation_size u"
    using totals_include_succeeds [where 'io = 'io and 'a = 'a and 'e = 'e,
        of t1 "length (dom_name (pu_domain u))" "length metadata"] Cons.prems x t1(2)
    by (auto simp: mutation_size_def)
  from t2(2) Cons.IH [of t2] Cons.prems x obtain t3 where "totals_participants vs t2 = (Inr t3 :: ('io, 'a, 'e) CommandError + _)"
      "totals_sum t3 \<le> totals_sum t2 + sum_list (map (mutation_size \<circ> fst) vs)" by (auto simp: comp_def)
  with t1 t2 x show ?case by (auto simp: comp_def)
qed simp

lemma metadata_encode_revision:
  assumes "metadata_encode (domain_metadata d r) = Inr bs"
  shows "metadata_encode (domain_metadata d s) = Inr (metadata_bytes (domain_metadata d s))"
    and "length (metadata_bytes (domain_metadata d s)) \<le> MAX_DOMAIN_METADATA_BYTES"
  using assms by (auto simp: metadata_encode_eq_Inr domain_metadata_def length_metadata_bytes)

lemma encode_participants_succeed:
  "\<forall>u\<in>set us. (\<exists>r. receipt_revision receipt (pu_slot u) = Some r) \<and> (\<exists>r bs. metadata_encode (domain_metadata (pu_domain u) r) = Inr bs) \<Longrightarrow>
     \<exists>vs. encode_participants receipt us = (Inr vs :: ('io, 'a, 'e) CommandError + _) \<and> map fst vs = us \<and>
       list_all (\<lambda>(_, metadata). length metadata \<le> MAX_DOMAIN_METADATA_BYTES) vs"
proof (induction us)
  case (Cons u us)
  then obtain r vs where "receipt_revision receipt (pu_slot u) = Some r" "encode_participants receipt us = (Inr vs :: ('io, 'a, 'e) CommandError + _)"
      "map fst vs = us" "list_all (\<lambda>(_, metadata). length metadata \<le> MAX_DOMAIN_METADATA_BYTES) vs" by auto
  moreover from Cons.prems have "metadata_encode (domain_metadata (pu_domain u) r) = Inr (metadata_bytes (domain_metadata (pu_domain u) r))"
      "length (metadata_bytes (domain_metadata (pu_domain u) r)) \<le> MAX_DOMAIN_METADATA_BYTES"
    using metadata_encode_revision by auto
  ultimately show ?case by simp
qed simp

lemma push_pending_succeeds:
  assumes "\<forall>batch op. eng_push eng batch op = Inr ()"
  shows "list_all (\<lambda>p. pm_family_slot p < length (dom_families d)) ps \<Longrightarrow>
    \<exists>batch'. push_pending eng d ps batch = (Inr batch' :: ('io, 'a, 'e) CommandError + _)"
  using assms by (induction ps arbitrary: batch) (auto simp: batch_push_def Let_def)

lemma push_participants_succeed:
  assumes "\<forall>batch op. eng_push eng batch op = Inr ()"
  shows "list_all slots_ok (map fst vs) \<Longrightarrow> \<exists>batch'. push_participants eng vs batch = (Inr batch' :: ('io, 'a, 'e) CommandError + _)"
proof (induction vs arbitrary: batch)
  case (Cons x vs)
  obtain u metadata where x: "x = (u, metadata)" by (cases x)
  with Cons.prems push_pending_succeeds [OF assms, of "pu_domain u" "pu_pending u" batch]
  obtain b where "push_pending eng (pu_domain u) (pu_pending u) batch = (Inr b :: ('io, 'a, 'e) CommandError + _)"
    by (auto simp: slots_ok_def)
  with Cons.IH Cons.prems x assms show ?case by (auto simp: batch_push_def)
qed simp

lemma assemble_succeeds:
  fixes eng :: "'io engine"
  assumes "engine_serves eng m sn" and "list_all slots_ok us" and "batch_size us < 2 ^ 64"
    and "\<forall>u\<in>set us. (\<exists>r. receipt_revision receipt (pu_slot u) = Some r) \<and> (\<exists>r bs. metadata_encode (domain_metadata (pu_domain u) r) = Inr bs)"
  shows "\<exists>batch. assemble eng receipt us = (Inr batch :: ('io, 'a, 'e) CommandError + _)"
proof -
  obtain vs where vs: "encode_participants receipt us = (Inr vs :: ('io, 'a, 'e) CommandError + _)" "map fst vs = us"
      "list_all (\<lambda>(_, metadata). length metadata \<le> MAX_DOMAIN_METADATA_BYTES) vs"
    using encode_participants_succeed [OF assms(4)] by blast
  let ?zero = "\<lparr>bt_records = 0, bt_key_bytes = 0, bt_value_bytes = 0\<rparr>"
  have size: "sum_list (map (mutation_size \<circ> fst) vs) = sum_list (map mutation_size us)" using vs(2) by (metis map_map)
  have "totals_sum ?zero + sum_list (map (mutation_size \<circ> fst) vs) < 2 ^ 64"
    using assms(3) size by (simp add: totals_sum_def batch_size_def)
  from totals_participants_succeed [OF this vs(3)] obtain t where
    t: "totals_participants vs ?zero = (Inr t :: ('io, 'a, 'e) CommandError + _)" "totals_sum t \<le> sum_list (map mutation_size us)"
    using size by (auto simp: totals_sum_def)
  have "length (encode_home_revision (rc_home_revision receipt)) = HOME_REVISION_BYTES"
    by (simp add: encode_home_revision_def HOME_REVISION_BYTES_def)
  with t(2) assms(3) have "totals_sum t + 1 + length HOME_REVISION_KEY + length (encode_home_revision (rc_home_revision receipt)) < 2 ^ 64"
    by (simp add: batch_size_def)
  from totals_include_succeeds [OF this] obtain t' where
    "totals_include (length HOME_REVISION_KEY) (length (encode_home_revision (rc_home_revision receipt))) t =
      (Inr t' :: ('io, 'a, 'e) CommandError + _)" by blast
  moreover have push: "\<forall>batch op. eng_push eng batch op = Inr ()" using assms(1) by (simp add: engine_serves_def)
  moreover obtain b where "push_participants eng vs [] = (Inr b :: ('io, 'a, 'e) CommandError + _)"
    using push_participants_succeed [OF push, of vs "[]"] vs(2) assms(2) by auto
  ultimately show ?thesis using assms(1) vs(1) t(1) by (simp add: assemble_def Let_def batch_push_def engine_serves_def)
qed

lemma commit_prepared_succeeds:
  fixes eng :: "'io engine"
  assumes "engine_serves eng m sn" and "assemble eng receipt us = (Inr batch :: ('io, 'a, 'e) CommandError + _)"
  shows "\<exists>m'. commit_prepared eng m receipt us = (m', Committed receipt None :: ('io, 'a, 'e) ExecutionOutcome)"
proof -
  obtain m' where "eng_commit eng m batch = (m', None)"
    using assms(1) by (metis engine_serves_def prod.collapse)
  with assms show ?thesis by (simp add: commit_prepared_def after_commit_def engine_serves_def)
qed

lemma prepare_admitted_ready:
  fixes eng :: "'io engine"
  assumes "command_ready eng gen health cmd res m sn us"
  shows "\<exists>cs ds. prepare_admitted eng gen health cmd m = (Inr (sn, hc_expected_home_revision cmd, cs) :: ('io, 'a, 'e) CommandError + _) \<and>
    intended_domains cs = (Inr ds :: ('io, 'a, 'e) CommandError + _) \<and>
    assemble_contributions cs = (Inr us :: ('io, 'a, 'e) CommandError + _)"
proof -
  let ?fenced = "map (\<lambda>p. (domain_of gen p, pt_expected_revision p)) (hc_participants cmd)"
  have ready: "command_admissible gen health cmd" "eng_snapshot eng m = Inr sn" "snapshot_reliable sn m"
      "home_at m (hc_expected_home_revision cmd)" "list_all (participant_ready gen sn m) (hc_participants cmd)"
      "list_all2 (mutates gen sn) (filter (\<lambda>p. is_mutation (pt_work p)) (hc_participants cmd)) us"
      "validate_command_pair (map pair_participant (hc_participants cmd)) = (Inr () :: ('io, 'a, 'e) CommandError + unit)"
    using assms by (simp_all add: command_ready_def engine_serves_def mutators_def)
  have "list_all2 (\<lambda>p (d, revision). participates gen p d \<and> domain_at m d revision) (hc_participants cmd) ?fenced"
    using ready(5) by (auto simp: list_all2_conv_all_nth list_all_length participant_ready_def)
  note fenced = prepare_admitted_fenced [where 'a = 'a and 'e = 'e, OF ready(1-4) this]
  have zip: "zip (hc_participants cmd) ?fenced = map (\<lambda>p. (p, domain_of gen p, pt_expected_revision p)) (hc_participants cmd)"
    by (simp add: zip_map2 zip_same_conv_map)
  have "home_conflicts (hc_expected_home_revision cmd) cmd = []" by (simp add: home_conflicts_def)
  moreover have "domain_conflicts (zip (hc_participants cmd) ?fenced) = []"
    unfolding zip domain_conflicts_Nil by auto
  ultimately show ?thesis
    using fenced ready(7) prepare_ready [where 'a = 'a and 'e = 'e, OF ready(5,6)] unfolding zip by auto
qed

lemma receipt_covers:
  assumes "command_built cmd" and us: "list_all2 (mutates gen sn) (mutators cmd) us"
    and "list_all2 (\<lambda>p (slot, revision). slot = pt_slot p \<and> revision_next (pt_expected_revision p) revision)
      (mutators cmd) (rc_domains receipt)"
    and "u \<in> set us"
  shows "\<exists>r. receipt_revision receipt (pu_slot u) = Some r"
proof -
  have "distinct (map (\<lambda>p. (pt_store p, pt_slot p)) (mutators cmd))"
    using assms(1) by (simp add: command_built_def mutators_def distinct_map_filter)
  moreover have "\<forall>q\<in>set (mutators cmd). pt_store q = gen_instance_id gen"
    using list_all2_in1 [OF us] by (fastforce simp: mutates_def participates_def)
  ultimately have "distinct (map pt_slot (mutators cmd))" by (simp add: distinct_map inj_on_def)
  moreover obtain p where "p \<in> set (mutators cmd)" "mutates gen sn p u" using list_all2_in2 [OF us assms(4)] by blast
  ultimately show ?thesis using receipt_lookup [OF assms(3)] by (auto simp: receipt_revision_def mutates_def)
qed

lemma mutated_domain_encodes:
  assumes "command_ready eng gen health cmd res m sn us" and "u \<in> set us"
  shows "\<exists>r bs. metadata_encode (domain_metadata (pu_domain u) r) = Inr bs"
proof -
  have us: "list_all2 (mutates gen sn) (mutators cmd) us" and "list_all (participant_ready gen sn m) (hc_participants cmd)"
    using assms(1) by (simp_all add: command_ready_def)
  moreover obtain p where "p \<in> set (mutators cmd)" "mutates gen sn p u" using list_all2_in2 [OF us assms(2)] by blast
  ultimately show ?thesis
    using mutates_domain by (fastforce simp: mutators_def list_all_iff participant_ready_def domain_at_def)
qed

lemma ready_command_commits:
  fixes eng :: "'io engine"
  assumes eng: "engine_sound eng" and built: "command_built cmd" and ready: "command_ready eng gen health cmd res m sn us"
  shows "\<exists>m' res' receipt. execute_admitted eng gen health cmd res m =
    (m', res', Committed receipt None :: ('io, 'a, 'e) ExecutionOutcome)"
proof -
  obtain cs ds where prep: "prepare_admitted eng gen health cmd m = (Inr (sn, hc_expected_home_revision cmd, cs) :: ('io, 'a, 'e) CommandError + _)"
      and cs: "intended_domains cs = (Inr ds :: ('io, 'a, 'e) CommandError + _)" "assemble_contributions cs = (Inr us :: ('io, 'a, 'e) CommandError + _)"
    using prepare_admitted_ready [OF ready] by blast
  obtain home where "revision_checked_next (hc_expected_home_revision cmd) = Inr home"
    using ready advances_next by (auto simp: command_ready_def)
  then obtain receipt where receipt: "intended_receipt gen health (hc_expected_home_revision cmd) cs = (Inr receipt :: ('io, 'a, 'e) CommandError + _)"
    using cs(1) by (simp add: intended_receipt_def)
  have mut: "list_all2 (mutates gen sn) (mutators cmd) us" and serves: "engine_serves eng m sn" "snapshot_reliable sn m"
    using ready by (simp_all add: command_ready_def engine_serves_def)
  have found: "\<exists>r. receipt_revision receipt (pu_slot u) = Some r" "\<exists>r bs. metadata_encode (domain_metadata (pu_domain u) r) = Inr bs"
    if "u \<in> set us" for u
    using receipt_covers [OF built mut admitted_mutations(3) [OF eng prep receipt cs(2)] that]
      mutated_domain_encodes [OF ready that] by blast+
  have us: "list_all2 covers us (rs_declarations res)" "list_all (\<lambda>u. values_fit m (pu_domain u)) us" "list_all slots_ok us"
      "batch_size us < 2 ^ 64" and receipts: "\<forall>u\<in>set us. \<exists>r. receipt_revision receipt (pu_slot u) = Some r"
    using ready found(1) by (simp_all add: command_ready_def)
  obtain ds' where "materialize_domains sn receipt (zip us (rs_declarations res)) = (Inr ds' :: ('io, 'a, 'e) CommandError + _)"
    using materialize_domains_succeed [OF serves(2) us(1-3) receipts] by blast
  then obtain res' where mat: "materialize_reservation sn us res receipt = (Inr res' :: ('io, 'a, 'e) CommandError + _)"
    using list_all2_lengthD [OF us(1)] by (simp add: materialize_reservation_def)
  obtain batch where "assemble eng receipt us = (Inr batch :: ('io, 'a, 'e) CommandError + _)"
    using assemble_succeeds [OF serves(1) us(3,4)] receipts found(2) by blast
  from commit_prepared_succeeds [OF serves(1) this] obtain m' where
    "commit_prepared eng m receipt us = (m', Committed receipt None :: ('io, 'a, 'e) ExecutionOutcome)" by blast
  with prep receipt cs(2) mat ready show ?thesis
    by (simp add: execute_admitted_def command_ready_def)
qed

text \<open>
  C13. Progress: a command that is ready - the engine serves its calls, the stored revisions are the
  expected ones and can advance, validations accept, every mutating participant contributes, the
  reservation covers the mutations and the batch can be counted in 64 bits - commits, with no
  failure to report, as one atomic step.
\<close>

theorem fenced_command_commits:
  fixes eng :: "'io engine"
  assumes "engine_sound eng" and "registered gen" and built: "command_built cmd"
    and ready: "command_ready eng gen health cmd res m sn us"
  shows "\<exists>m' res' receipt. execute_admitted eng gen health cmd res m =
      (m', res', Committed receipt None :: ('io, 'a, 'e) ExecutionOutcome) \<and> commit_step gen cmd m m' receipt"
proof -
  obtain m' res' receipt where exec: "execute_admitted eng gen health cmd res m =
      (m', res', Committed receipt None :: ('io, 'a, 'e) ExecutionOutcome)"
    using ready_command_commits [OF assms(1) built ready] by blast
  from execute_admitted_steps [OF assms(1-3) this] exec show ?thesis by auto
qed

end
