(* ===== verification/Writer_Domains.thy ===== *)
theory Writer_Domains
  imports Writer_Progress
begin

text \<open>
  The contract between the writer and a domain: the domain says which abstract state its keyspaces
  hold and what its callbacks may do to it, and the writer then keeps the state over every run of
  commands, whatever other domains take part in them.
\<close>

text \<open>A command keeps to the works of a domain if every participant that mutates the domain does one of them.\<close>

definition keeps_to ::
    "StoreGeneration \<Rightarrow> RegisteredDomain \<Rightarrow> ('io, 'a, 'e) participant_work set \<Rightarrow> ('io, 'a, 'e) HomeCommand \<Rightarrow> bool" where
  "keeps_to gen d works cmd \<longleftrightarrow> (\<forall>p\<in>set (mutators cmd). participates gen p d \<longrightarrow> pt_work p \<in> works)"

locale storage_domain =
  fixes families :: "RegisteredFamily list"
    and works :: "('io, 'a, 'e) participant_work set"
    and rep :: "contents \<Rightarrow> 't \<Rightarrow> bool"
    and inv :: "'t \<Rightarrow> bool"
    and step :: "'t \<Rightarrow> 't \<Rightarrow> bool"
  assumes rep_local: "\<lbrakk>\<And>ks. ks \<in> fam_keyspace ` set families \<Longrightarrow> m' ks = m ks; rep m T\<rbrakk> \<Longrightarrow> rep m' T"
    and work_step: "\<lbrakk>Mutation prepare \<in> works; dom_families d = families; snapshot_of sn m; rep m T; inv T;
        prepare sn d = Inr contribution; contribution d = Inr pending\<rbrakk> \<Longrightarrow>
      \<exists>T'. step T T' \<and> inv T' \<and> rep (apply_pending families m pending) T'"
    and work_distinct: "\<lbrakk>Mutation prepare \<in> works; prepare sn d = Inr contribution; contribution d = Inr pending\<rbrakk> \<Longrightarrow>
      distinct (map pending_place pending)"
begin

lemma commit_step_refines:
  assumes d: "d \<in> set (gen_registry gen)" "dom_families d = families" and ok: "keeps_to gen d works cmd"
    and state: "rep m T" "inv T" and commit: "commit_step gen cmd m m' receipt"
  shows "\<exists>T'. step\<^sup>=\<^sup>= T T' \<and> inv T' \<and> rep m' T'"
proof (cases "\<exists>p\<in>set (mutators cmd). participates gen p d")
  case True
  then obtain p where p: "p \<in> set (mutators cmd)" "participates gen p d" by blast
  with commit obtain sn d' pending where sn: "snapshot_of (sn :: 'io snapshot) m" and "participates gen p d'"
    and con: "contributes sn d' p pending" "\<forall>ks\<in>keyspaces_of d'. m' ks = apply_pending (dom_families d') m pending ks"
    unfolding commit_step_def by blast
  with p(2) have d': "d' = d" by (simp add: participates_def)
  from con(1) obtain prepare contribution where work: "pt_work p = Mutation prepare"
      "prepare sn d = Inr contribution" "contribution d = Inr pending"
    unfolding contributes_def d' by blast
  moreover have "Mutation prepare \<in> works" using ok p work(1) by (auto simp: keeps_to_def)
  ultimately obtain T' where "step T T'" "inv T'" "rep (apply_pending families m pending) T'"
    using work_step d(2) sn state by blast
  moreover from this(3) have "rep m' T'"
    by (rule rep_local [rotated]) (use con(2) d' d(2) in \<open>auto simp: keyspaces_of_def\<close>)
  ultimately show ?thesis by blast
next
  case False
  with commit d(1) have "\<forall>ks\<in>keyspaces_of d. m' ks = m ks" unfolding commit_step_def by blast
  then have "rep m' T" using state(1) d(2) by (auto simp: keyspaces_of_def intro: rep_local [of m' m])
  with state(2) show ?thesis by blast
qed

lemma execute_refines:
  fixes eng :: "'io engine"
  assumes home: "engine_sound eng" "registered gen" "command_built cmd"
    and d: "d \<in> set (gen_registry gen)" "dom_families d = families" "keeps_to gen d works cmd"
    and state: "rep m T" "inv T"
    and exec: "execute_admitted eng gen health cmd res m = (m', res', outcome :: ('io, 'a, 'e) ExecutionOutcome)"
  shows "\<exists>T'. step\<^sup>=\<^sup>= T T' \<and> inv T' \<and> rep m' T'"
proof -
  from execute_admitted_steps [OF home exec] have "m' = m \<or> (\<exists>receipt. commit_step gen cmd m m' receipt)"
    by (cases outcome) auto
  then show ?thesis using commit_step_refines [OF d state] state by blast
qed

lemma writer_run_refines:
  fixes eng :: "'io engine"
  assumes home: "engine_sound eng" "registered gen" and d: "d \<in> set (gen_registry gen)" "dom_families d = families"
  shows "\<lbrakk>\<forall>(cmd, _)\<in>set cmds. command_built cmd \<and> keeps_to gen d works cmd; rep m T; inv T;
      writer_run eng gen health cmds m = (outcomes :: ('io, 'a, 'e) ExecutionOutcome list, m')\<rbrakk> \<Longrightarrow>
    \<exists>T'. step\<^sup>*\<^sup>* T T' \<and> inv T' \<and> rep m' T'"
proof (induction cmds arbitrary: m T outcomes)
  case (Cons x cmds)
  obtain cmd res where x: "x = (cmd, res)" by (cases x)
  obtain m1 res1 outcome where exec: "execute_admitted eng gen health cmd res m = (m1, res1, outcome :: ('io, 'a, 'e) ExecutionOutcome)"
    by (rule prod_cases3)
  with Cons.prems(4) x obtain os where run: "writer_run eng gen health cmds m1 = (os, m')"
    by (simp split: prod.splits)
  have cmd: "command_built cmd" "keeps_to gen d works cmd"
      and rest: "\<forall>(cmd, _)\<in>set cmds. command_built cmd \<and> keeps_to gen d works cmd"
    using Cons.prems(1) x by simp_all
  obtain T1 where T1: "step\<^sup>=\<^sup>= T T1" "inv T1" "rep m1 T1"
    using execute_refines [OF home cmd(1) d cmd(2) Cons.prems(2,3) exec] by blast
  obtain T' where "step\<^sup>*\<^sup>* T1 T'" "inv T'" "rep m' T'"
    using Cons.IH [OF rest T1(3,2) run] by blast
  moreover have "step\<^sup>*\<^sup>* T T1" using T1(1) by auto
  ultimately show ?case using rtranclp_trans [of step T T1 T'] by blast
qed auto

lemma works_distinct:
  assumes "keeps_to gen d works cmd" "p \<in> set (mutators cmd)" "participates gen p d" "contributes sn d' p pending"
  shows "distinct (map pending_place pending)"
proof -
  from assms(4) obtain prepare contribution where "pt_work p = Mutation prepare" "prepare sn d' = Inr contribution"
      "contribution d' = Inr pending" unfolding contributes_def by blast
  moreover from this assms(1-3) have "Mutation prepare \<in> works" by (auto simp: keeps_to_def)
  ultimately show ?thesis using work_distinct by blast
qed

end

end
