(* ===== verification/Home_Domains.thy ===== *)
theory Home_Domains
  imports Writer_Domains Job_Batch Settings_Domain
begin

text \<open>
  The durable-job domain and the settings domain as domains of one home: their commands are works
  of the writer, and every run of the writer is a run of the steps of both, side by side.
\<close>

section \<open>Durable jobs\<close>

definition job_work ::
    "('io DurableJobMutationError \<Rightarrow> 'a + 'e) \<Rightarrow> JobCommand \<Rightarrow> ('io, 'a, 'e) participant_work" where
  "job_work into_callback_source cmd =
     typed_mutation into_callback_source (\<lambda>rd. command_prepare (domain_reader rd) cmd) (command_contribute cmd)"

definition job_works :: "('io, 'a, 'e) participant_work set" where
  "job_works = {job_work into_callback_source cmd | into_callback_source cmd. command_ok cmd}"

lemma jobs_rep_local:
  "\<lbrakk>\<And>ks. ks \<in> fam_keyspace ` set job_families \<Longrightarrow> m' ks = m ks; jobs_rep m T\<rbrakk> \<Longrightarrow> jobs_rep m' T"
  by (simp add: jobs_rep_def table_rep_def job_families_eq)

lemma typed_mutation_runs:
  assumes "typed_mutation into_callback_source prepare contribute = Mutation work"
    and "work sn d = Inr contribution" "contribution d' = Inr pending"
  obtains prepared mb where "prepare \<lparr>rd_snapshot = sn, rd_families = dom_families d\<rparr> = Inr prepared"
    and "contribute prepared (builder_new (dom_families d')) = Inr mb" and "pending = mb_pending mb"
  using assms by (auto simp: typed_mutation_def result_simps)

interpretation jobs: storage_domain job_families "job_works :: ('io, 'a, 'e) participant_work set" jobs_rep job_inv tables_step
proof
  fix m m' T
  assume "\<And>ks. ks \<in> fam_keyspace ` set job_families \<Longrightarrow> m' ks = m ks" "jobs_rep m T"
  then show "jobs_rep m' T" by (rule jobs_rep_local)
next
  fix work :: "'io snapshot \<Rightarrow> RegisteredDomain \<Rightarrow> ('a, 'e) ErasedCallbackError + ('a, 'e) prepared_mutation"
    and d sn m T contribution pending
  assume w: "Mutation work \<in> job_works" and d: "dom_families d = job_families" and sn: "snapshot_of sn m"
    and T: "jobs_rep m T" "job_inv T" and run: "work sn d = Inr contribution" "contribution d = Inr pending"
  from w obtain into cmd where cmd: "command_ok cmd" and work: "Mutation work = job_work into cmd"
    by (auto simp: job_works_def)
  let ?rd = "\<lparr>rd_snapshot = sn, rd_families = job_families\<rparr>"
  obtain job mb where prep: "command_prepare (domain_reader ?rd) cmd = Inr job"
      and con: "command_contribute cmd job (builder_new job_families) = (Inr mb :: 'io DurableJobMutationError + _)"
      and ps: "pending = mb_pending mb"
    by (rule typed_mutation_runs [OF work [symmetric, unfolded job_work_def] run]) (simp add: d)
  then have run: "run_command ?rd cmd = (Inr pending :: 'io DurableJobMutationError + _)" by (simp add: run_command_def)
  have "snapshot_of (rd_snapshot ?rd) m" "rd_families ?rd = job_families" using sn by simp_all
  from run_command_refines [OF this T cmd run] tables_step_inv T(2)
  show "\<exists>T'. tables_step T T' \<and> job_inv T' \<and> jobs_rep (apply_pending job_families m pending) T'" by blast
next
  fix work :: "'io snapshot \<Rightarrow> RegisteredDomain \<Rightarrow> ('a, 'e) ErasedCallbackError + ('a, 'e) prepared_mutation"
    and d sn contribution pending
  assume w: "Mutation work \<in> job_works" and run: "work sn d = Inr contribution" "contribution d = Inr pending"
  from w obtain into cmd where work: "Mutation work = job_work into cmd" by (auto simp: job_works_def)
  from typed_mutation_runs [OF work [symmetric, unfolded job_work_def] run] command_contribute_inv [OF _ builder_new_inv]
  show "distinct (map pending_place pending)" unfolding builder_inv_def by metis
qed

section \<open>Settings\<close>

definition settings_work ::
    "('io SettingsMutationError \<Rightarrow> 'a + 'e) \<Rightarrow> ApplySettings \<Rightarrow> ('io, 'a, 'e) participant_work" where
  "settings_work into_callback_source cmd =
     typed_mutation into_callback_source (\<lambda>rd. apply_prepare rd (apply_updates cmd)) apply_contribute"

definition updates_ok :: "SettingUpdate list \<Rightarrow> bool" where
  "updates_ok us \<longleftrightarrow> apply_settings_new us = Inr \<lparr>apply_updates = us\<rparr> \<and> list_all (\<lambda>u. kind_ok (sv_kind (upd_value u))) us"

definition settings_works :: "('io, 'a, 'e) participant_work set" where
  "settings_works = {settings_work into_callback_source \<lparr>apply_updates = us\<rparr> | into_callback_source us. updates_ok us}"

text \<open>A step of the settings: updates that are all due replace the scalars they name.\<close>

inductive settings_step :: "settings_table \<Rightarrow> settings_table \<Rightarrow> bool" where
  apply_updates: "\<lbrakk>updates_ok us; list_all (update_due S) us\<rbrakk> \<Longrightarrow> settings_step S (settings_after S us)"

lemma updates_okD:
  assumes "updates_ok us"
  shows "distinct (map upd_key us)" "list_all (\<lambda>u. setting_ok (updated_setting S u)) us"
  using assms by (auto simp: updates_ok_def apply_settings_new_def result_simps check_updates_eq_Inr list_all_iff
      setting_ok_def updated_setting_def split: if_splits)

lemma settings_rep_local:
  "\<lbrakk>\<And>ks. ks \<in> fam_keyspace ` set settings_families \<Longrightarrow> m' ks = m ks; settings_rep m S\<rbrakk> \<Longrightarrow> settings_rep m' S"
  by (simp add: settings_rep_def table_rep_def settings_families_eq)

lemma setting_read_sound:
  assumes "snapshot_of (rd_snapshot rd) m" and "rd_families rd = settings_families" and "settings_rep m S"
    and "setting_read rd key = Inr r"
  shows "r = S key"
proof -
  have "serves (rd_families rd) setting_codec ks_settings" using assms(2) by simp
  from settings.read_point_table [OF assms(1) this assms(3) [unfolded settings_rep_def] TrueI] assms(4)
  show ?thesis by (auto simp: setting_read_def result_simps)
qed

lemma apply_prepare_sound:
  assumes rd: "snapshot_of (rd_snapshot rd) m" "rd_families rd = settings_families" and S: "settings_rep m S" "settings_inv S"
  shows "apply_prepare rd us = (Inr rs :: 'io SettingsMutationError + _) \<Longrightarrow>
    list_all (update_due S) us \<and> rs = map (updated_setting S) us"
proof (induction us arbitrary: rs)
  case (Cons u us)
  then obtain r rs' where r: "prepare_update rd u = (Inr r :: 'io SettingsMutationError + _)" and rs': "apply_prepare rd us = (Inr rs' :: 'io SettingsMutationError + _)" "rs = r # rs'"
    by (auto simp: result_simps)
  then obtain x where x: "setting_read rd (upd_key u) = (Inr x :: 'io SettingsMutationError + _)"
    by (auto simp: prepare_update_def result_simps)
  with setting_read_sound [OF rd S(1)] have "setting_read rd (upd_key u) = (Inr (S (upd_key u)) :: 'io SettingsMutationError + _)" by blast
  from prepare_update_decided [OF this S(2,1)] r have "update_due S u" "r = updated_setting S u"
    by (auto split: if_splits)
  with Cons.IH [OF rs'(1)] rs'(2) show ?case by simp
qed simp

lemma apply_contribute_sound:
  "\<lbrakk>apply_contribute rs mb = (Inr mb' :: 'io SettingsMutationError + _); mb_families mb = settings_families;
    list_all setting_ok rs; settings_rep (pending_contents m mb) S\<rbrakk> \<Longrightarrow>
   settings_rep (pending_contents m mb') (write_all S rs)"
proof (induction rs arbitrary: mb S)
  case (Cons r rs)
  then obtain mb1 where put: "builder_put setting_codec (set_key r) r mb = (Inr mb1 :: ('io, _) MutationBuildError + _)"
    and rest: "apply_contribute rs mb1 = (Inr mb' :: 'io SettingsMutationError + _)"
    by (auto simp: result_simps)
  have serve: "serves (mb_families mb) setting_codec ks_settings" using Cons.prems(2) by simp
  have "mb_families mb1 = settings_families" "settings_rep (pending_contents m mb1) (S(set_key r \<mapsto> r))"
    using settings.builder_put_effect [OF serve _ _ put, of m] settings.table_rep_put Cons.prems(2-4)
    by (simp_all add: settings_rep_def)
  from Cons.IH [OF rest this(1) _ this(2)] Cons.prems(3) show ?case by (simp add: write_all_def del: fun_upd_apply)
qed (simp add: write_all_def)

lemma apply_contribute_inv:
  "\<lbrakk>apply_contribute rs mb = (Inr mb' :: 'io SettingsMutationError + _); builder_inv mb\<rbrakk> \<Longrightarrow> builder_inv mb'"
  by (induction rs arbitrary: mb) (auto simp: result_simps dest!: builder_put_inv)

lemma apply_contribute_families:
  "apply_contribute rs mb = (Inr mb' :: 'io SettingsMutationError + _) \<Longrightarrow> mb_families mb' = mb_families mb"
  by (induction rs arbitrary: mb) (auto simp: result_simps builder_put_def builder_push_eq_Inr)

lemma settings_run_steps:
  assumes us: "updates_ok us" and rd: "snapshot_of sn m" and S: "settings_rep m S" "settings_inv S"
    and prep: "apply_prepare \<lparr>rd_snapshot = sn, rd_families = settings_families\<rparr> us = (Inr rs :: 'io SettingsMutationError + _)"
    and con: "apply_contribute rs (builder_new settings_families) = (Inr mb :: 'io SettingsMutationError + _)"
  shows "settings_step S (settings_after S us) \<and> settings_inv (settings_after S us) \<and>
    settings_rep (apply_pending settings_families m (mb_pending mb)) (settings_after S us)"
proof -
  have due: "list_all (update_due S) us" and rs: "rs = map (updated_setting S) us"
    using apply_prepare_sound [OF _ _ S prep] rd by simp_all
  have "settings_rep (pending_contents m mb) (write_all S rs)"
    by (rule apply_contribute_sound [OF con]) (use updates_okD(2) [OF us] rs S(1) in \<open>simp_all add: list.pred_map comp_def\<close>)
  moreover have "mb_families mb = settings_families" by (rule apply_contribute_families [OF con, simplified])
  ultimately show ?thesis
    using settings_step.intros [OF us due] settings_after_inv [OF S(2)]
    by (simp add: rs write_all_updates settings_after_def pending_contents_def)
qed

interpretation prefs: storage_domain settings_families "settings_works :: ('io, 'a, 'e) participant_work set"
  settings_rep settings_inv settings_step
proof
  fix m m' S
  assume "\<And>ks. ks \<in> fam_keyspace ` set settings_families \<Longrightarrow> m' ks = m ks" "settings_rep m S"
  then show "settings_rep m' S" by (rule settings_rep_local)
next
  fix work :: "'io snapshot \<Rightarrow> RegisteredDomain \<Rightarrow> ('a, 'e) ErasedCallbackError + ('a, 'e) prepared_mutation"
    and d sn m S contribution pending
  assume w: "Mutation work \<in> settings_works" and d: "dom_families d = settings_families" and sn: "snapshot_of sn m"
    and S: "settings_rep m S" "settings_inv S" and run: "work sn d = Inr contribution" "contribution d = Inr pending"
  from w obtain into us where us: "updates_ok us" and work: "Mutation work = settings_work into \<lparr>apply_updates = us\<rparr>"
    by (auto simp: settings_works_def)
  obtain rs mb where "apply_prepare \<lparr>rd_snapshot = sn, rd_families = settings_families\<rparr> us = (Inr rs :: 'io SettingsMutationError + _)"
      "apply_contribute rs (builder_new settings_families) = (Inr mb :: 'io SettingsMutationError + _)" "pending = mb_pending mb"
    by (rule typed_mutation_runs [OF work [symmetric, unfolded settings_work_def] run]) (simp add: d)
  with settings_run_steps [OF us sn S]
  show "\<exists>S'. settings_step S S' \<and> settings_inv S' \<and> settings_rep (apply_pending settings_families m pending) S'" by blast
next
  fix work :: "'io snapshot \<Rightarrow> RegisteredDomain \<Rightarrow> ('a, 'e) ErasedCallbackError + ('a, 'e) prepared_mutation"
    and d sn contribution pending
  assume w: "Mutation work \<in> settings_works" and run: "work sn d = Inr contribution" "contribution d = Inr pending"
  from w obtain into us where work: "Mutation work = settings_work into \<lparr>apply_updates = us\<rparr>"
    by (auto simp: settings_works_def)
  from typed_mutation_runs [OF work [symmetric, unfolded settings_work_def] run] apply_contribute_inv [OF _ builder_new_inv]
  show "distinct (map pending_place pending)" unfolding builder_inv_def by metis
qed

section \<open>Both domains in one home\<close>

text \<open>
  C3. The domains of a home stay well formed over every run of the writer: if the commands
  mutate the durable jobs and the settings only through their own commands, then, whatever other
  domains take part and however each commit ends, the stored jobs and the stored settings evolve by
  steps of their own, keep their invariants and remain what the keyspaces hold.
\<close>

theorem home_runs_keep_domains:
  fixes eng :: "'io engine"
  assumes home: "engine_sound eng" "registered gen"
    and dj: "dj \<in> set (gen_registry gen)" "dom_families dj = job_families"
    and ds: "ds \<in> set (gen_registry gen)" "dom_families ds = settings_families"
    and cmds: "\<forall>(cmd, _)\<in>set cmds. command_built cmd \<and> keeps_to gen dj job_works cmd \<and> keeps_to gen ds settings_works cmd"
    and jobs: "jobs_rep m T" "job_inv T" and settings: "settings_rep m S" "settings_inv S"
    and run: "writer_run eng gen health cmds m = (outcomes :: ('io, 'a, 'e) ExecutionOutcome list, m')"
  shows "\<exists>T' S'. tables_step\<^sup>*\<^sup>* T T' \<and> job_inv T' \<and> jobs_rep m' T' \<and>
    settings_step\<^sup>*\<^sup>* S S' \<and> settings_inv S' \<and> settings_rep m' S'"
proof -
  have "\<forall>(cmd, _)\<in>set cmds. command_built cmd \<and> keeps_to gen dj job_works cmd" using cmds by auto
  from jobs.writer_run_refines [OF home dj this jobs run] obtain T' where
    "tables_step\<^sup>*\<^sup>* T T'" "job_inv T'" "jobs_rep m' T'" by blast
  moreover have "\<forall>(cmd, _)\<in>set cmds. command_built cmd \<and> keeps_to gen ds settings_works cmd" using cmds by auto
  from prefs.writer_run_refines [OF home ds this settings run] obtain S' where
    "settings_step\<^sup>*\<^sup>* S S'" "settings_inv S'" "settings_rep m' S'" by blast
  ultimately show ?thesis by blast
qed

end
