(* ===== verification/Home_Reconcile.thy ===== *)
theory Home_Reconcile
  imports Home_Domains Home_Registry
begin

text \<open>
  Reconciliation of a commit whose outcome is uncertain: the descriptor-bound reader of
  \<^verbatim>\<open>reconciliation/reader.rs\<close>, the classification of \<^verbatim>\<open>crates/beryl-state/src/reconciliation.rs\<close>, the
  hooks of the modelled domains, and the execution of the hooks of a scope.
\<close>

section \<open>The reader\<close>

record ('k, 'v) ReconciliationRecord =
  rr_key :: 'k
  rr_old :: "'v option"
  rr_new :: "'v option"
  rr_current :: "'v option"

record 'io ReconciliationReader =
  rn_snapshot :: "'io snapshot"
  rn_domain :: RegisteredDomain
  rn_descriptor :: MaterializedDomainDescriptor

definition reader_decode_key :: "('k, 'v, 'e) record_codec \<Rightarrow> bytes \<Rightarrow> ('io, 'e) ReadError + 'k" where
  "reader_decode_key c encoded =
     and_then (map_err (Codec (c_domain c) (c_family c) DecodeKey) (c_decode_key c encoded)) (\<lambda>key.
     and_then (map_err (Codec (c_domain c) (c_family c) DecodeKey) (c_validate_stored_key c key)) (\<lambda>_.
       Inr key))"

text \<open>A point that is acquired carries the key it was read with.\<close>

definition read_current ::
    "'io snapshot \<Rightarrow> ('k, 'v, 'e) record_codec \<Rightarrow> RegisteredFamily \<Rightarrow> bytes \<Rightarrow> ('io, 'e) ReadError + 'v option" where
  "read_current sn c family key =
     and_then (map_err (Storage PointSize) (snap_point sn (fam_keyspace family) key)) (\<lambda>point.
     case point of
       None \<Rightarrow> Inr None
     | Some (len, acquire) \<Rightarrow>
         let actual = unat len in
         if fam_max_stored_value_bytes family < actual
         then Inl (InvalidStoredValueSize (c_domain c) (c_family c) (fam_max_stored_value_bytes family) actual)
         else and_then (map_err (Storage PointValue) acquire) (\<lambda>stored.
           and_then (decode_record_envelope c key stored) (\<lambda>v. Inr (Some v))))"

definition decode_side :: "('k, 'v, 'e) record_codec \<Rightarrow> bytes option \<Rightarrow> ('io, 'e) ReadError + 'v option" where
  "decode_side c side = (case side of
     None \<Rightarrow> Inr None | Some encoded \<Rightarrow> and_then (store_decode_value c encoded) (\<lambda>v. Inr (Some v)))"

definition read_record ::
    "'io snapshot \<Rightarrow> ('k, 'v, 'e) record_codec \<Rightarrow> RegisteredFamily \<Rightarrow> MaterializedRecordDescriptor \<Rightarrow>
     ('io, 'e) ReadError + ('k, 'v) ReconciliationRecord" where
  "read_record sn c family r =
     and_then (reader_decode_key c (mr_key r)) (\<lambda>key.
     and_then (decode_side c (mr_old r)) (\<lambda>old.
     and_then (decode_side c (mr_new r)) (\<lambda>new.
     and_then (read_current sn c family (mr_key r)) (\<lambda>current.
       Inr \<lparr>rr_key = key, rr_old = old, rr_new = new, rr_current = current\<rparr>))))"

fun read_all ::
    "'io snapshot \<Rightarrow> ('k, 'v, 'e) record_codec \<Rightarrow> RegisteredFamily \<Rightarrow> MaterializedRecordDescriptor list \<Rightarrow>
     ('io, 'e) ReadError + ('k, 'v) ReconciliationRecord list" where
  "read_all sn c family [] = Inr []"
| "read_all sn c family (r # rs) =
     and_then (read_record sn c family r) (\<lambda>x.
     and_then (read_all sn c family rs) (\<lambda>xs. Inr (x # xs)))"

definition reader_records ::
    "'io ReconciliationReader \<Rightarrow> ('k, 'v, 'e) record_codec \<Rightarrow> ('io, 'e) ReadError + ('k, 'v) ReconciliationRecord list" where
  "reader_records rn c =
     and_then (ok_or (UnknownFamily (c_domain c) (c_family c)) (family_slot (dom_families (rn_domain rn)) (c_family c))) (\<lambda>slot.
       let family = dom_families (rn_domain rn) ! slot in
       if fam_codec_type family \<noteq> c_type c then Inl (CodecTypeMismatch (c_domain c) (c_family c))
       else read_all (rn_snapshot rn) c family (filter (\<lambda>r. mr_family_slot r = slot) (mm_records (rn_descriptor rn))))"

section \<open>Classification\<close>

record ReconciliationClassification =
  saw_record :: bool
  old_possible :: bool
  new_possible :: bool

definition classification_new :: ReconciliationClassification where
  "classification_new = \<lparr>saw_record = False, old_possible = True, new_possible = True\<rparr>"

definition observe_matches :: "bool \<Rightarrow> bool \<Rightarrow> ReconciliationClassification \<Rightarrow> ReconciliationClassification" where
  "observe_matches old_matches new_matches cl =
     cl\<lparr>saw_record := True, old_possible := old_possible cl \<and> old_matches, new_possible := new_possible cl \<and> new_matches\<rparr>"

definition classification_finish :: "ReconciliationClassification \<Rightarrow> DomainReconciliation" where
  "classification_finish cl = (case (saw_record cl, old_possible cl, new_possible cl) of
     (True, True, False) \<Rightarrow> SideOld
   | (True, False, True) \<Rightarrow> SideNew
   | (True, True, True) \<Rightarrow> SideUnchanged
   | _ \<Rightarrow> SideCollision)"

definition classify_records ::
    "'io ReconciliationReader \<Rightarrow> ('k, 'v, 'e) record_codec \<Rightarrow> ReconciliationClassification \<Rightarrow>
     ('io, 'e) ReadError + ReconciliationClassification" where
  "classify_records rn c cl = and_then (reader_records rn c) (\<lambda>records.
     Inr (foldl (\<lambda>cl r. observe_matches (rr_current r = rr_old r) (rr_current r = rr_new r) cl) cl records))"

section \<open>Hooks\<close>

definition settings_reconcile :: "'io ReconciliationReader \<Rightarrow> 'io SettingsValidationError + DomainReconciliation" where
  "settings_reconcile rn =
     and_then (map_err SetValRead (classify_records rn setting_codec classification_new)) (\<lambda>cl.
       Inr (classification_finish cl))"

definition job_reconcile :: "'io ReconciliationReader \<Rightarrow> 'io DurableJobValidationError + DomainReconciliation" where
  "job_reconcile rn =
     and_then (map_err ValRead (classify_records rn job_record_codec classification_new)) (\<lambda>cl.
     and_then (map_err ValRead (classify_records rn live_job_codec cl)) (\<lambda>cl.
     and_then (map_err ValRead (classify_records rn request_codec cl)) (\<lambda>cl.
     and_then (map_err ValRead (classify_records rn attempt_codec cl)) (\<lambda>cl.
     and_then (map_err ValRead (classify_records rn latest_codec cl)) (\<lambda>cl.
       Inr (classification_finish cl))))))"

text \<open>The field \<^verbatim>\<open>reconciler\<close> of a registered domain.\<close>

type_synonym ('io, 'a, 'e) reconciler =
  "'io snapshot \<Rightarrow> RegisteredDomain \<Rightarrow> MaterializedDomainDescriptor \<Rightarrow> ('a, 'e) ErasedCallbackError + DomainReconciliation"

definition reconcile_typed ::
    "('f \<Rightarrow> 'a + 'e) \<Rightarrow> ('io ReconciliationReader \<Rightarrow> 'f + DomainReconciliation) \<Rightarrow> ('io, 'a, 'e) reconciler" where
  "reconcile_typed into_callback_source reconcile sn d descriptor =
     map_err (erased_from_typed into_callback_source)
       (reconcile \<lparr>rn_snapshot = sn, rn_domain = d, rn_descriptor = descriptor\<rparr>)"

definition map_hook_failure :: "string \<Rightarrow> ('a, 'e) ErasedCallbackError \<Rightarrow> ('io, 'a, 'e) ReconciliationFailure" where
  "map_hook_failure domain error = (case error of
     CallbackAccess source \<Rightarrow> HookAccess domain source
   | CallbackRejected source \<Rightarrow> HookRejected domain source)"

fun hook_sides ::
    "StoreGeneration \<Rightarrow> (RegisteredDomain \<Rightarrow> ('io, 'a, 'e) reconciler) \<Rightarrow> 'io snapshot \<Rightarrow>
     MaterializedDomainDescriptor list \<Rightarrow> ('io, 'a, 'e) ReconciliationFailure + DomainReconciliation list" where
  "hook_sides gen reconcilers sn [] = Inr []"
| "hook_sides gen reconcilers sn (dd # rest) =
     and_then (ok_or StaleScope (registry_get gen (mm_domain_slot dd))) (\<lambda>d.
     and_then (map_err (map_hook_failure (dom_name d)) (reconcilers d sn d dd)) (\<lambda>side.
     and_then (hook_sides gen reconcilers sn rest) (\<lambda>sides.
       Inr (side # sides))))"

text \<open>A command without a successor promotion; the admission by the health gate is left out.\<close>

definition execute_reconciliation_hook ::
    "'io engine \<Rightarrow> StoreGeneration \<Rightarrow> (RegisteredDomain \<Rightarrow> ('io, 'a, 'e) reconciler) \<Rightarrow> contents \<Rightarrow>
     ReconciliationHandle \<Rightarrow> ('io, 'a, 'e) RegistryState \<Rightarrow>
     ('io, 'a, 'e) ReconciliationFailure + DomainReconciliation list \<times> CommitReceipt" where
  "execute_reconciliation_hook eng gen reconcilers m h st =
     and_then (map_err SnapshotFailed (eng_snapshot eng m)) (\<lambda>sn.
     and_then (case reg_scopes st ! hd_index h of
         Verifying token descriptor _ _ \<Rightarrow> if token = hd_token h then Inr descriptor else Inl StaleScope
       | _ \<Rightarrow> Inl StaleScope) (\<lambda>descriptor.
     and_then (hook_sides gen reconcilers sn (rt_domains descriptor)) (\<lambda>sides.
       Inr (sides, rt_receipt descriptor))))"

section \<open>What a typed family tells\<close>

text \<open>The slot \<open>slot\<close> of a domain stores the family of the codec in the keyspace \<open>ks\<close>.\<close>

definition stores_at :: "RegisteredFamily list \<Rightarrow> ('k, 'v, 'e) record_codec \<Rightarrow> usize \<Rightarrow> keyspace \<Rightarrow> bool" where
  "stores_at families c slot ks \<longleftrightarrow> family_slot families (c_family c) = Some slot \<and>
     fam_codec_type (families ! slot) = c_type c \<and> fam_keyspace (families ! slot) = ks \<and>
     fam_max_stored_value_bytes (families ! slot) = c_max_value_bytes c + 4"

text \<open>What the records of a descriptor say against the contents \<open>m\<close>.\<close>

definition side_stored ::
    "contents \<Rightarrow> RegisteredDomain \<Rightarrow> (MaterializedRecordDescriptor \<Rightarrow> bytes option) \<Rightarrow> MaterializedRecordDescriptor list \<Rightarrow> bool" where
  "side_stored m d side rs \<longleftrightarrow> (\<forall>r\<in>set rs. m (place_in d (mr_family_slot r)) (mr_key r) = side r)"

definition matches ::
    "contents \<Rightarrow> RegisteredDomain \<Rightarrow> MaterializedRecordDescriptor list \<Rightarrow> ReconciliationClassification \<Rightarrow> ReconciliationClassification" where
  "matches m d rs cl = \<lparr>saw_record = saw_record cl \<or> rs \<noteq> [],
     old_possible = old_possible cl \<and> side_stored m d mr_old rs, new_possible = new_possible cl \<and> side_stored m d mr_new rs\<rparr>"

lemma matches_append: "matches m d ss (matches m d rs cl) = matches m d (rs @ ss) cl"
  by (auto simp: matches_def side_stored_def)

lemma matches_cong: "set rs = set ss \<Longrightarrow> matches m d rs cl = matches m d ss cl"
  by (cases rs; cases ss) (auto simp: matches_def side_stored_def)

context typed_family
begin

lemma reader_decode_key_ok: "kok k \<Longrightarrow> reader_decode_key c (kenc k) = Inr k"
  using decode_key [of "kenc k" k] by (simp add: reader_decode_key_def)

lemma decode_stored_ok:
  "vok v \<Longrightarrow> decode_value_with_size c (stored_as c venc v) = Inr (v, length (venc v))"
  "kok k \<Longrightarrow> decode_stored_key_with_size c (kenc k) = Inr (k, length (kenc k))"
  by (simp_all add: decode_stored_value_iff decode_stored_key_iff)

lemma store_decode_ok: "vok v \<Longrightarrow> store_decode_value c (stored_as c venc v) = Inr v"
  by (simp add: store_decode_value_def decode_stored_ok)

lemma decode_side_table:
  assumes "table_rep c kenc venc kok vok m ks T" and "kok k"
  shows "decode_side c (m ks (kenc k)) = Inr (T k)"
  using table_rep_lookup [OF assms] table_rep_ok [OF assms(1), of k] by (cases "T k") (auto simp: decode_side_def store_decode_ok)

lemma read_current_table:
  assumes sn: "snapshot_reliable sn m" and T: "table_rep c kenc venc kok vok m ks T" and k: "kok k"
    and f: "fam_keyspace f = ks" "fam_max_stored_value_bytes f = c_max_value_bytes c + 4"
  shows "read_current sn c f (kenc k) = Inr (T k)"
proof -
  obtain p where p: "snap_point sn ks (kenc k) = Inr p"
    and agrees: "point_agrees p (m ks (kenc k))" and acq: "\<And>len a. p = Some (len, a) \<Longrightarrow> \<exists>w. a = Inr w"
    using snapshot_reliable_point [OF sn] by blast
  note m = table_rep_lookup [OF T k]
  show ?thesis
  proof (cases "T k")
    case None
    with agrees m have "p = None" by (simp add: point_agrees_def split: option.splits)
    with None p f show ?thesis by (simp add: read_current_def)
  next
    case (Some v)
    with agrees m acq obtain len where q: "p = Some (len, Inr (stored_as c venc v))"
      and len: "unat len = length (stored_as c venc v)"
      by (auto simp: point_agrees_def split: option.splits)
    have v: "vok v" using table_rep_ok [OF T Some] by simp
    have "length (kenc k) \<le> c_max_key_bytes c" "kenc k \<noteq> []" using kenc_bounds [OF k] by auto
    then show ?thesis
      using Some p q f len venc_bound [OF v] codec_bounds(3)
      by (simp add: store_decode_ok [OF v] decode_stored_ok(2) [OF k] read_current_def decode_record_envelope_def validate_codec_ok validate_stored_key_size_def
          ensure_stored_value_size_def usize_saturating_add_def RECORD_VERSION_BYTES_def usize_max_def Let_def)
  qed
qed

lemma table_rep_same:
  assumes "table_rep c kenc venc kok vok m ks T" "table_rep c kenc venc kok vok m' ks U" "kok k"
  shows "U k = T k \<longleftrightarrow> m' ks (kenc k) = m ks (kenc k)"
  using table_rep_lookup [OF assms(1,3)] table_rep_lookup [OF assms(2,3)] table_rep_ok [OF assms(1), of k] table_rep_ok [OF assms(2), of k]
  by (cases "T k"; cases "U k") (auto dest: stored_as_inj)

text \<open>
  The classification of a family compares stored bytes: the contents \<open>mo\<close> and \<open>mn\<close> are those the
  descriptor was made from, \<open>m\<close> what is stored now.
\<close>

lemma classify_all:
  assumes sn: "snapshot_reliable sn m" and T: "table_rep c kenc venc kok vok m ks T"
    and old: "table_rep c kenc venc kok vok mo ks To" and new: "table_rep c kenc venc kok vok mn ks Tn"
    and f: "fam_keyspace f = ks" "fam_max_stored_value_bytes f = c_max_value_bytes c + 4"
  shows "\<forall>r\<in>set rs. place_in d (mr_family_slot r) = ks \<and> (\<exists>k. kok k \<and> mr_key r = kenc k) \<and> mr_old r = mo ks (mr_key r) \<and>
      mr_new r = mn ks (mr_key r) \<Longrightarrow>
    and_then (read_all sn c f rs) (\<lambda>records.
      Inr (foldl (\<lambda>cl r. observe_matches (rr_current r = rr_old r) (rr_current r = rr_new r) cl) cl records)) =
    Inr (matches m d rs cl)"
proof (induction rs arbitrary: cl)
  case (Cons r rs)
  then obtain k where k: "kok k" and r: "mr_key r = kenc k" "mr_old r = mo ks (kenc k)" "mr_new r = mn ks (kenc k)"
      "place_in d (mr_family_slot r) = ks" by auto
  have "read_record sn c f r = Inr \<lparr>rr_key = k, rr_old = To k, rr_new = Tn k, rr_current = T k\<rparr>"
    by (simp add: read_record_def r reader_decode_key_ok [OF k] decode_side_table [OF old k] decode_side_table [OF new k]
        read_current_table [OF sn T k f])
  then have step: "and_then (read_all sn c f (r # rs)) (\<lambda>records.
      Inr (foldl (\<lambda>cl r. observe_matches (rr_current r = rr_old r) (rr_current r = rr_new r) cl) cl records)) =
    and_then (read_all sn c f rs) (\<lambda>records. Inr (foldl (\<lambda>cl r. observe_matches (rr_current r = rr_old r) (rr_current r = rr_new r) cl)
      (observe_matches (T k = To k) (T k = Tn k) cl) records))"
    by (cases "read_all sn c f rs") simp_all
  have "\<forall>r\<in>set rs. place_in d (mr_family_slot r) = ks \<and> (\<exists>k. kok k \<and> mr_key r = kenc k) \<and> mr_old r = mo ks (mr_key r) \<and>
      mr_new r = mn ks (mr_key r)" using Cons.prems by simp
  from Cons.IH [OF this, of "observe_matches (T k = To k) (T k = Tn k) cl"] show ?case
    unfolding step table_rep_same [OF old T k] table_rep_same [OF new T k]
    by (auto simp: matches_def side_stored_def observe_matches_def r)
qed (simp add: matches_def side_stored_def)

lemma classify_records_table:
  assumes at: "stores_at (dom_families d) c slot ks" and sn: "snapshot_reliable sn m" and T: "table_rep c kenc venc kok vok m ks T"
    and old: "table_rep c kenc venc kok vok mo ks To" and new: "table_rep c kenc venc kok vok mn ks Tn"
    and rs: "\<forall>r\<in>set (mm_records dd). mr_family_slot r = slot \<longrightarrow> (\<exists>k. kok k \<and> mr_key r = kenc k) \<and> mr_old r = mo ks (mr_key r) \<and>
      mr_new r = mn ks (mr_key r)"
  shows "classify_records \<lparr>rn_snapshot = sn, rn_domain = d, rn_descriptor = dd\<rparr> c cl =
    Inr (matches m d (filter (\<lambda>r. mr_family_slot r = slot) (mm_records dd)) cl)"
proof -
  let ?f = "dom_families d ! slot" and ?rs = "filter (\<lambda>r. mr_family_slot r = slot) (mm_records dd)"
  have f: "fam_keyspace ?f = ks" "fam_max_stored_value_bytes ?f = c_max_value_bytes c + 4" using at by (simp_all add: stores_at_def)
  have "\<forall>r\<in>set ?rs. place_in d (mr_family_slot r) = ks \<and> (\<exists>k. kok k \<and> mr_key r = kenc k) \<and> mr_old r = mo ks (mr_key r) \<and>
      mr_new r = mn ks (mr_key r)" using rs f by (auto simp: place_in_def)
  from classify_all [OF sn T old new f this] show ?thesis
    using at by (simp add: classify_records_def reader_records_def stores_at_def)
qed

end

section \<open>The contract of a hook\<close>

text \<open>
  The side of a domain, read off the stored bytes. The descriptor of a domain is faithful to the
  contents \<open>mo\<close> before and \<open>mn\<close> after a batch if it carries their bytes; \<open>key_ok\<close> is what is known of
  the key of a record that is absent before and after.
\<close>

definition exact_side :: "contents \<Rightarrow> RegisteredDomain \<Rightarrow> MaterializedDomainDescriptor \<Rightarrow> DomainReconciliation" where
  "exact_side m d dd = classification_finish (matches m d (mm_records dd) classification_new)"

lemma exact_side_eq:
  "exact_side m d dd =
     (if mm_records dd = [] then SideCollision
      else if side_stored m d mr_old (mm_records dd) then if side_stored m d mr_new (mm_records dd) then SideUnchanged else SideOld
      else if side_stored m d mr_new (mm_records dd) then SideNew else SideCollision)"
  by (simp add: exact_side_def matches_def classification_finish_def classification_new_def split: bool.split)

lemma exact_side_local:
  assumes "\<And>r. r \<in> set (mm_records dd) \<Longrightarrow> m (place_in d (mr_family_slot r)) = m' (place_in d (mr_family_slot r))"
  shows "exact_side m d dd = exact_side m' d dd"
proof -
  have "side_stored m d side (mm_records dd) = side_stored m' d side (mm_records dd)" for side
    using assms by (simp add: side_stored_def)
  then show ?thesis by (simp add: exact_side_eq)
qed

definition faithful ::
    "(usize \<Rightarrow> bytes \<Rightarrow> bool) \<Rightarrow> contents \<Rightarrow> contents \<Rightarrow> RegisteredDomain \<Rightarrow> MaterializedDomainDescriptor \<Rightarrow> bool" where
  "faithful key_ok mo mn d dd \<longleftrightarrow> (\<forall>r\<in>set (mm_records dd). mr_family_slot r < length (dom_families d) \<and>
     mr_old r = mo (place_in d (mr_family_slot r)) (mr_key r) \<and> mr_new r = mn (place_in d (mr_family_slot r)) (mr_key r) \<and>
     (mr_old r = None \<and> mr_new r = None \<longrightarrow> key_ok (mr_family_slot r) (mr_key r)))"

lemma faithful_key:
  assumes "faithful key_ok mo mn d dd" "r \<in> set (mm_records dd)" "table_rep c kenc venc kok vok mo (place_in d (mr_family_slot r)) To"
    "table_rep c kenc venc kok vok mn (place_in d (mr_family_slot r)) Tn"
    and "key_ok (mr_family_slot r) (mr_key r) \<Longrightarrow> \<exists>k. kok k \<and> mr_key r = kenc k"
  shows "\<exists>k. kok k \<and> mr_key r = kenc k"
proof -
  have r: "mr_old r = mo (place_in d (mr_family_slot r)) (mr_key r)" "mr_new r = mn (place_in d (mr_family_slot r)) (mr_key r)"
      "mr_old r = None \<and> mr_new r = None \<longrightarrow> key_ok (mr_family_slot r) (mr_key r)"
    using assms(1,2) by (auto simp: faithful_def)
  show ?thesis
    using r table_rep_key [OF assms(3), of "mr_key r"] table_rep_key [OF assms(4), of "mr_key r"] assms(5)
    by (cases "mr_old r"; cases "mr_new r") (auto, metis+)
qed

context typed_family
begin

lemma faithful_classify:
  assumes dd: "faithful key_ok mo mn d dd" and at: "stores_at (dom_families d) c slot ks" and sn: "snapshot_reliable sn m"
    and T: "table_rep c kenc venc kok vok m ks T"
    and old: "table_rep c kenc venc kok vok mo ks To" and new: "table_rep c kenc venc kok vok mn ks Tn"
    and key: "\<forall>key. key_ok slot key \<longrightarrow> (\<exists>k. kok k \<and> key = kenc k)"
  shows "classify_records \<lparr>rn_snapshot = sn, rn_domain = d, rn_descriptor = dd\<rparr> c cl =
    Inr (matches m d (filter (\<lambda>r. mr_family_slot r = slot) (mm_records dd)) cl)"
proof (rule classify_records_table [OF at sn T old new], intro ballI impI conjI)
  fix r assume r: "r \<in> set (mm_records dd)" "mr_family_slot r = slot"
  have place: "place_in d slot = ks" using at by (simp add: place_in_def stores_at_def)
  show "\<exists>k. kok k \<and> mr_key r = kenc k"
    by (rule faithful_key [OF dd r(1)]) (use old new place r(2) key in simp_all)
  show "mr_old r = mo ks (mr_key r)" "mr_new r = mn ks (mr_key r)"
    using dd r place by (auto simp: faithful_def)
qed

end

locale reconciled_domain = storage_domain families works rep inv step
  for families :: "RegisteredFamily list" and works :: "('io, 'a, 'e) participant_work set"
    and rep :: "contents \<Rightarrow> 't \<Rightarrow> bool" and inv :: "'t \<Rightarrow> bool" and step :: "'t \<Rightarrow> 't \<Rightarrow> bool" +
  fixes hook :: "('io, 'a, 'e) reconciler" and key_ok :: "usize \<Rightarrow> bytes \<Rightarrow> bool"
  assumes rep_unique: "\<lbrakk>rep m T; rep m U\<rbrakk> \<Longrightarrow> T = U"
    and step_changes: "\<lbrakk>step T T'; inv T\<rbrakk> \<Longrightarrow> T' \<noteq> T"
    and work_keys: "\<lbrakk>Mutation prepare \<in> works; dom_families d = families; prepare sn d = Inr contribution; contribution d = Inr pending;
        p \<in> set pending; pm_action p = Delete\<rbrakk> \<Longrightarrow> key_ok (pm_family_slot p) (pm_key p)"
    and hook_exact: "\<lbrakk>dom_families d = families; snapshot_reliable sn m; rep m T; rep mo To; rep mn Tn; faithful key_ok mo mn d dd\<rbrakk> \<Longrightarrow>
      hook sn d dd = Inr (exact_side m d dd)"
begin

lemma hook_tells_side:
  assumes reg: "registered gen" "d \<in> set (gen_registry gen)" and d: "dom_families d = families" "keeps_to gen d works cmd"
    and p: "p \<in> set (mutators cmd)" "mutates gen sn p u" "pu_domain u = d" "slots_ok u"
    and before: "snapshot_of sn mo" "rep mo To" "inv To"
    and after: "\<forall>ks\<in>keyspaces_of d. mn ks = apply_pending families mo (pu_pending u) ks"
    and rs: "list_all2 (describes mo d) (pu_pending u) (mm_records dd)"
    and now: "snapshot_reliable sn' m" "\<And>ks. ks \<in> fam_keyspace ` set families \<Longrightarrow> m ks = mx ks" "mx = mo \<or> mx = mn"
  shows "hook sn' d dd = Inr (if mx = mo then SideOld else SideNew) \<and> mo \<noteq> mn"
proof -
  from p(2,3) have con: "contributes sn d p (pu_pending u)" "participates gen p d" by (auto simp: mutates_def)
  then obtain prepare contribution where work: "pt_work p = Mutation prepare" "prepare sn d = Inr contribution"
      "contribution d = Inr (pu_pending u)" unfolding contributes_def by blast
  have works: "Mutation prepare \<in> works" using d(2) p(1) con(2) work(1) by (auto simp: keeps_to_def)
  obtain Tn where Tn: "step To Tn" "inv Tn" "rep (apply_pending families mo (pu_pending u)) Tn"
    using work_step [OF works d(1) before work(2,3)] by blast
  have mn: "rep mn Tn" by (rule rep_local [OF _ Tn(3)]) (use after d(1) in \<open>auto simp: keyspaces_of_def\<close>)
  have slots: "list_all (\<lambda>p. pm_family_slot p < length (dom_families d)) (pu_pending u)" using p(3,4) by (simp add: slots_ok_def)
  have after': "\<forall>ks\<in>keyspaces_of d. mn ks = apply_pending (dom_families d) mo (pu_pending u) ks" using after d(1) by simp
  note written = describes_written [OF reg slots work_distinct [OF works work(2,3)] rs after']
  have "mo \<noteq> mn" using step_changes [OF Tn(1) before(3)] rep_unique [OF before(2)] mn by auto
  have changed: "\<exists>r\<in>set (mm_records dd). mo (place_in d (mr_family_slot r)) (mr_key r) \<noteq> mn (place_in d (mr_family_slot r)) (mr_key r)"
  proof (rule ccontr)
    assume same: "\<not> ?thesis"
    have "mn ks = mo ks" if "ks \<in> fam_keyspace ` set families" for ks
    proof (rule ccontr)
      assume "mn ks \<noteq> mo ks"
      then obtain k where k: "mo ks k \<noteq> mn ks k" by (metis ext)
      have "ks \<in> keyspaces_of d" using that d(1) by (simp add: keyspaces_of_def)
      from written(2) [OF this k] same k show False by metis
    qed
    then have "rep mn To" using rep_local [of mn mo] before(2) by blast
    with mn step_changes [OF Tn(1) before(3)] rep_unique show False by blast
  qed
  have dd: "faithful key_ok mo mn d dd"
    unfolding faithful_def
  proof (intro ballI conjI impI)
    fix r assume r: "r \<in> set (mm_records dd)"
    from list_all2_in2 [OF rs r] obtain q where q: "q \<in> set (pu_pending u)" "describes mo d q r" by blast
    then show "mr_family_slot r < length (dom_families d)" using slots by (auto simp: describes_def list_all_iff)
    show "mr_old r = mo (place_in d (mr_family_slot r)) (mr_key r)" "mr_new r = mn (place_in d (mr_family_slot r)) (mr_key r)"
      using written(1) r by blast+
    assume "mr_old r = None \<and> mr_new r = None"
    with q have "pm_action q = Delete" by (auto simp: describes_def action_value_def split: PendingAction.splits)
    with work_keys [OF works d(1) work(2,3) q(1)] q(2) show "key_ok (mr_family_slot r) (mr_key r)" by (simp add: describes_def)
  qed
  obtain Tx where "rep mx Tx" using now(3) before(2) mn by blast
  then have "rep m Tx" using rep_local [of m mx] now(2) by blast
  from hook_exact [OF d(1) now(1) this before(2) mn dd] have "hook sn' d dd = Inr (exact_side m d dd)" .
  moreover have "exact_side m d dd = exact_side mx d dd"
    by (rule exact_side_local) (use dd d(1) now(2) in \<open>auto simp: faithful_def place_in_def\<close>)
  moreover have "exact_side mx d dd = (if mx = mo then SideOld else SideNew)"
  proof -
    have "side_stored mo d mr_old (mm_records dd)" "side_stored mn d mr_new (mm_records dd)" using written(1) by (simp_all add: side_stored_def)
    moreover have "\<not> side_stored mo d mr_new (mm_records dd)" "\<not> side_stored mn d mr_old (mm_records dd)"
      using changed written(1) unfolding side_stored_def by metis+
    moreover have "mm_records dd \<noteq> []" using changed by auto
    ultimately show ?thesis using now(3) \<open>mo \<noteq> mn\<close> by (auto simp: exact_side_eq)
  qed
  ultimately show ?thesis using \<open>mo \<noteq> mn\<close> by simp
qed

end

end
