(* ===== verification/Reconcile_Domains.thy ===== *)
theory Reconcile_Domains
  imports Home_Reconcile Registry_Laws
begin

text \<open>
  The hooks of the durable-job domain and of the settings domain keep the contract of a hook, so
  reconciling an uncertain commit of their commands tells whether it was applied.
\<close>

section \<open>Settings\<close>

lemma settings_after_last: "us \<noteq> [] \<Longrightarrow> settings_after S us (upd_key (last us)) = Some (updated_setting S (last us))"
  unfolding settings_after_def by (cases us rule: rev_cases) simp_all

lemma update_due_changes:
  assumes "update_due S u"
  shows "S (upd_key u) \<noteq> Some (updated_setting S u)"
proof
  let ?w = "nz_get (set_revision (updated_setting S u))"
  assume same: "S (upd_key u) = Some (updated_setting S u)"
  with assms have "unat ?w < 2 ^ 64 - 1" by (cases "upd_expected u") (auto simp: update_due_def)
  then have "?w + 1 \<noteq> 0" by (auto simp: unat_eq_zero [symmetric] unat_word_ariths)
  then have "nz_get (nz_of (?w + 1)) = ?w + 1" by simp
  moreover have "set_revision (updated_setting S u) = nz_of (?w + 1)"
    by (subst updated_setting_def) (simp add: same)
  ultimately show False by simp
qed

lemma settings_step_changes: "settings_step S S' \<Longrightarrow> S' \<noteq> S"
proof (erule settings_step.cases)
  fix us S0
  assume s: "S = S0" "S' = settings_after S0 us" "updates_ok us" "list_all (update_due S0) us"
  then have "us \<noteq> []" by (auto simp: updates_ok_def apply_settings_new_def)
  moreover from this s(4) have "update_due S0 (last us)" by (auto simp: list_all_iff)
  ultimately show "S' \<noteq> S" using settings_after_last [of us S0] update_due_changes [of S0 "last us"] s(1,2) by metis
qed

lemma settings_slots: "stores_at settings_families setting_codec 0 ks_settings" "length settings_families = 1"
  by (simp_all add: stores_at_def settings_families_eq family_slot_def setting_codec_def SETTINGS_RECORD_LIMIT_def)

definition no_key :: "usize \<Rightarrow> bytes \<Rightarrow> bool" where
  "no_key slot key \<longleftrightarrow> False"

lemma settings_hook_exact:
  assumes d: "dom_families d = settings_families" and sn: "snapshot_reliable sn m"
    and S: "settings_rep m S" "settings_rep mo So" "settings_rep mn Sn" and dd: "faithful no_key mo mn d dd"
  shows "reconcile_typed into settings_reconcile sn d dd = Inr (exact_side m d dd)"
proof -
  have "mr_family_slot r = 0" if "r \<in> set (mm_records dd)" for r
    using dd that settings_slots(2) by (auto simp: faithful_def d)
  then have "filter (\<lambda>r. mr_family_slot r = 0) (mm_records dd) = mm_records dd" by (simp add: filter_id_conv)
  then show ?thesis
    using settings.faithful_classify [OF dd settings_slots(1) [folded d] sn S [unfolded settings_rep_def]]
    by (simp add: reconcile_typed_def settings_reconcile_def exact_side_def no_key_def)
qed

lemma apply_contribute_puts:
  "\<lbrakk>apply_contribute rs mb = (Inr mb' :: 'io SettingsMutationError + _); \<forall>p\<in>set (mb_pending mb). pm_action p \<noteq> Delete\<rbrakk> \<Longrightarrow>
   \<forall>p\<in>set (mb_pending mb'). pm_action p \<noteq> Delete"
proof (induction rs arbitrary: mb)
  case (Cons r rs)
  then obtain mb1 where put: "builder_put setting_codec (set_key r) r mb = (Inr mb1 :: ('io, _) MutationBuildError + _)"
    and rest: "apply_contribute rs mb1 = (Inr mb' :: 'io SettingsMutationError + _)"
    by (auto simp: result_simps)
  from put Cons.prems(2) have "\<forall>p\<in>set (mb_pending mb1). pm_action p \<noteq> Delete"
    by (auto simp: builder_put_def builder_push_eq_Inr result_simps)
  from Cons.IH [OF rest this] show ?case .
qed simp

interpretation prefs_hook: reconciled_domain settings_families "settings_works :: ('io, 'a, 'e) participant_work set"
  settings_rep settings_inv settings_step "reconcile_typed into settings_reconcile" no_key
  for into :: "'io SettingsValidationError \<Rightarrow> 'a + 'e"
proof
  fix m S U
  assume "settings_rep m S" "settings_rep m U"
  then show "S = U" unfolding settings_rep_def by (rule settings.table_rep_unique)
next
  fix work :: "'io snapshot \<Rightarrow> RegisteredDomain \<Rightarrow> ('a, 'e) ErasedCallbackError + ('a, 'e) prepared_mutation"
    and d sn contribution pending p
  assume w: "Mutation work \<in> settings_works" and run: "work sn d = Inr contribution" "contribution d = Inr pending"
    and p: "p \<in> set pending" "pm_action p = Delete"
  from w obtain into us where work: "Mutation work = settings_work into \<lparr>apply_updates = us\<rparr>"
    by (auto simp: settings_works_def)
  obtain rs mb where "apply_contribute rs (builder_new (dom_families d)) = (Inr mb :: 'io SettingsMutationError + _)" "pending = mb_pending mb"
    by (rule typed_mutation_runs [OF work [symmetric, unfolded settings_work_def] run])
  from apply_contribute_puts [OF this(1)] this(2) p show "no_key (pm_family_slot p) (pm_key p)" by (simp add: builder_new_def)
qed (use settings_step_changes settings_hook_exact in blast)+

section \<open>Durable jobs\<close>

lemma tables_step_changes:
  assumes "tables_step T T'" and "job_inv T"
  shows "T' \<noteq> T"
  using assms(1)
proof cases
  case (admit a j)
  then have "t_jobs T (job_id j) = None" "t_jobs T' (job_id j) = Some j" by (simp_all add: admissible_def admitted_def)
  then show ?thesis by auto
next
  case (move k j j')
  have "job_id j' = k" using job_invD(1) [OF assms(2) move(2)] job_step_same [OF move(3)] by (simp add: job_entry_ok_def same_identity_def)
  then have "t_jobs T' k = Some j'" using move by (simp add: transitioned_def)
  with move(2) job_step_differs [OF move(3)] show ?thesis by auto
qed

lemma job_slots:
  "stores_at job_families job_record_codec 3 ks_jobs" "stores_at job_families live_job_codec 2 ks_live"
  "stores_at job_families request_codec 4 ks_requests" "stores_at job_families attempt_codec 0 ks_attempts"
  "stores_at job_families latest_codec 1 ks_latest" "length job_families = 5"
  by (simp_all add: stores_at_def job_codec_defs) (simp_all add: job_families_eq BRANCH_HANDOFF_JOB_RECORD_LIMIT_def REQUEST_IDEMPOTENCY_RECORD_LIMIT_def)

text \<open>The only records that a command deletes are entries of the live-job index.\<close>

definition live_key :: "usize \<Rightarrow> bytes \<Rightarrow> bool" where
  "live_key slot key \<longleftrightarrow> slot = 2 \<and> (\<exists>k. key = arr16_bytes k)"

lemma live_key_slot [simp]:
  "live_key 2 key \<longleftrightarrow> (\<exists>k. key = arr16_bytes k)" "\<not> live_key 0 key" "\<not> live_key (Suc 0) key" "\<not> live_key 3 key" "\<not> live_key 4 key"
  by (simp_all add: live_key_def)

definition deletes_live :: "MutationBuilder \<Rightarrow> bool" where
  "deletes_live mb \<longleftrightarrow> mb_families mb = job_families \<and>
     (\<forall>p\<in>set (mb_pending mb). pm_action p = Delete \<longrightarrow> live_key (pm_family_slot p) (pm_key p))"

lemma job_put_deletes: "\<lbrakk>job_put c k v mb = (Inr mb' :: 'io DurableJobMutationError + _); deletes_live mb\<rbrakk> \<Longrightarrow> deletes_live mb'"
  by (auto simp: job_put_eq_Inr builder_put_def builder_push_eq_Inr result_simps deletes_live_def)

lemma job_delete_deletes:
  assumes "job_delete live_job_codec k mb = (Inr mb' :: 'io DurableJobMutationError + _)" and "deletes_live mb"
  shows "deletes_live mb'"
proof -
  have "encode_stored_key live_job_codec k = (Inr (arr16_bytes k) :: ('io, CodecError) ReadError + _)"
    by (rule tf_live.encode_stored_key_ok) simp
  with assms show ?thesis
    by (auto simp: job_delete_eq_Inr builder_delete_def builder_push_eq_Inr builder_family_slot_def result_simps deletes_live_def
        live_job_codec_def split: if_splits)
qed

lemma command_contribute_deletes:
  assumes "command_contribute cmd j mb = (Inr mb' :: 'io DurableJobMutationError + _)" and "deletes_live mb"
  shows "deletes_live mb'"
  using assms
  by (cases cmd) (auto simp: admission_write_def put_live_transition_def put_terminal_transition_def
      prepared_transition_contribute_def and_then_eq_Inr dest!: job_put_deletes job_delete_deletes split: if_splits)

lemma job_hook_exact:
  assumes d: "dom_families d = job_families" and sn: "snapshot_reliable sn m"
    and T: "jobs_rep m T" "jobs_rep mo To" "jobs_rep mn Tn" and dd: "faithful live_key mo mn d dd"
  shows "reconcile_typed into job_reconcile sn d dd = Inr (exact_side m d dd)"
proof -
  let ?rn = "\<lparr>rn_snapshot = sn, rn_domain = d, rn_descriptor = dd\<rparr>" and ?of = "\<lambda>i. filter (\<lambda>r. mr_family_slot r = i) (mm_records dd)"
  note slots = job_slots [folded d] and rep = jobs_repD [OF T(1)] and old = jobs_repD [OF T(2)] and new = jobs_repD [OF T(3)]
  have "classify_records ?rn job_record_codec cl = Inr (matches m d (?of 3) cl)"
    "classify_records ?rn live_job_codec cl = Inr (matches m d (?of 2) cl)"
    "classify_records ?rn request_codec cl = Inr (matches m d (?of 4) cl)"
    "classify_records ?rn attempt_codec cl = Inr (matches m d (?of 0) cl)"
    "classify_records ?rn latest_codec cl = Inr (matches m d (?of 1) cl)" for cl
    using tf_job.faithful_classify [OF dd slots(1) sn rep(1) old(1) new(1)] tf_live.faithful_classify [OF dd slots(2) sn rep(2) old(2) new(2)]
      tf_request.faithful_classify [OF dd slots(3) sn rep(3) old(3) new(3)] tf_attempt.faithful_classify [OF dd slots(4) sn rep(4) old(4) new(4)]
      tf_latest.faithful_classify [OF dd slots(5) sn rep(5) old(5) new(5)] by simp_all
  moreover have "set (((?of 3 @ ?of 2) @ ?of 4) @ ?of 0 @ ?of 1) = set (mm_records dd)"
  proof -
    have "mr_family_slot r \<in> {0, 1, 2, 3, 4}" if "r \<in> set (mm_records dd)" for r
      using dd that job_slots(6) by (auto simp: faithful_def d)
    then show ?thesis by auto
  qed
  ultimately show ?thesis
    using matches_cong [of "((?of 3 @ ?of 2) @ ?of 4) @ ?of 0 @ ?of 1" "mm_records dd" m d classification_new]
    by (simp add: reconcile_typed_def job_reconcile_def exact_side_def matches_append)
qed

interpretation jobs_hook: reconciled_domain job_families "job_works :: ('io, 'a, 'e) participant_work set"
  jobs_rep job_inv tables_step "reconcile_typed into job_reconcile" live_key
  for into :: "'io DurableJobValidationError \<Rightarrow> 'a + 'e"
proof
  fix work :: "'io snapshot \<Rightarrow> RegisteredDomain \<Rightarrow> ('a, 'e) ErasedCallbackError + ('a, 'e) prepared_mutation"
    and d sn contribution pending p
  assume w: "Mutation work \<in> job_works" and d: "dom_families d = job_families"
    and run: "work sn d = Inr contribution" "contribution d = Inr pending" and p: "p \<in> set pending" "pm_action p = Delete"
  from w obtain into cmd where work: "Mutation work = job_work into cmd" by (auto simp: job_works_def)
  obtain j mb where con: "command_contribute cmd j (builder_new (dom_families d)) = (Inr mb :: 'io DurableJobMutationError + _)" and ps: "pending = mb_pending mb"
    by (rule typed_mutation_runs [OF work [symmetric, unfolded job_work_def] run])
  have "deletes_live (builder_new (dom_families d))" by (simp add: deletes_live_def builder_new_def d)
  from command_contribute_deletes [OF con this] ps p show "live_key (pm_family_slot p) (pm_key p)" by (simp add: deletes_live_def)
qed (use tables_step_changes job_hook_exact jobs_rep_unique in blast)+

end
