(* ===== verification/Home_Sample.thy ===== *)
theory Home_Sample
  imports Home_Domains
begin

text \<open>
  A home in memory with the two modelled domains at their first revisions and nothing stored in
  them, and a command that sets one setting; the hypotheses of the properties of the writer hold of
  them.
\<close>

section \<open>The home\<close>

definition job_domain :: RegisteredDomain where
  "job_domain = \<lparr>dom_name = DURABLE_JOB_DOMAIN, dom_schema = 1, dom_owner = ''beryl-state'', dom_families = job_families\<rparr>"

definition settings_domain :: RegisteredDomain where
  "settings_domain = \<lparr>dom_name = SETTINGS_DOMAIN, dom_schema = 1, dom_owner = ''beryl-state'', dom_families = settings_families\<rparr>"

definition sample_generation :: StoreGeneration where
  "sample_generation = \<lparr>gen_instance_id = 1, gen_registry = [job_domain, settings_domain]\<rparr>"

definition sample_home :: contents where
  "sample_home = empty_contents
     (HEADER_KEYSPACE := [HOME_REVISION_KEY \<mapsto> encode_home_revision (nz_of 1)],
      DOMAINS_KEYSPACE := [ascii_bytes DURABLE_JOB_DOMAIN \<mapsto> metadata_bytes (domain_metadata job_domain (nz_of 1)),
        ascii_bytes SETTINGS_DOMAIN \<mapsto> metadata_bytes (domain_metadata settings_domain (nz_of 1))])"

lemma sample_registered: "registered sample_generation"
proof -
  have "blueprint_for_domain DURABLE_JOB_DOMAIN DURABLE_JOB_FAMILIES = Inr job_families"
    using job_families_eq by (auto simp: job_families_def split: sum.splits)
  moreover have "blueprint_for_domain SETTINGS_DOMAIN SETTINGS_FAMILIES = Inr settings_families"
    using settings_families_eq by (auto simp: settings_families_def split: sum.splits)
  ultimately show ?thesis
    by (auto simp: registered_def sample_generation_def job_domain_def settings_domain_def
        DURABLE_JOB_DOMAIN_def SETTINGS_DOMAIN_def)
qed

lemma sample_home_at: "home_at sample_home (nz_of 1)"
  by (simp add: home_at_def sample_home_def HEADER_KEYSPACE_def DOMAINS_KEYSPACE_def)

lemma settings_metadata:
  "metadata_encode (domain_metadata settings_domain r) = Inr (metadata_bytes (domain_metadata settings_domain r))"
  "metadata_ok (domain_metadata settings_domain r)"
  by (simp_all add: metadata_encode_eq_Inr domain_metadata_def settings_domain_def settings_families_eq
      MAX_FAMILIES_val string_ok_def ks_settings_def metadata_bytes_def family_bytes_def string_bytes_def
      ascii_bytes_def MAX_DOMAIN_METADATA_BYTES_def metadata_ok_def)

lemma sample_domain_at: "domain_at sample_home settings_domain (nz_of 1)"
  using settings_metadata [of "nz_of 1"]
  by (simp add: domain_at_def sample_home_def settings_domain_def)

lemma job_metadata_length: "length (metadata_bytes (domain_metadata job_domain r)) \<le> MAX_DOMAIN_METADATA_BYTES"
  by (simp add: domain_metadata_def job_domain_def job_families_eq metadata_bytes_def family_bytes_def
      string_bytes_def ascii_bytes_def MAX_DOMAIN_METADATA_BYTES_def)

lemma sample_storable: "storable sample_home"
proof -
  have "length (metadata_bytes (domain_metadata settings_domain (nz_of 1))) \<le> MAX_DOMAIN_METADATA_BYTES"
    using settings_metadata(1) [of "nz_of 1"] by (simp add: metadata_encode_eq_Inr)
  with job_metadata_length [of "nz_of 1"]
  have "length (metadata_bytes (domain_metadata job_domain (nz_of 1))) < 4294967296"
      "length (metadata_bytes (domain_metadata settings_domain (nz_of 1))) < 4294967296"
    by (simp_all add: MAX_DOMAIN_METADATA_BYTES_def)
  then show ?thesis
    by (auto simp: storable_def sample_home_def empty_contents_def encode_home_revision_def ran_def
        split: if_splits)
qed

lemma sample_reliable: "snapshot_reliable (memory_snapshot sample_home) sample_home"
  by (rule memory_snapshot_reliable [OF sample_storable])

lemma sample_keyspaces: "ks \<in> fam_keyspace ` set (job_families @ settings_families) \<Longrightarrow> sample_home ks = empty_contents ks"
  by (auto simp: job_families_eq settings_families_eq ks_settings_def sample_home_def HEADER_KEYSPACE_def
      DOMAINS_KEYSPACE_def)

lemma sample_jobs: "jobs_rep sample_home empty_tables" "job_inv empty_tables"
  using jobs_rep_local [OF _ jobs_rep_empty] sample_keyspaces empty_tables_inv by auto

lemma sample_settings: "settings_rep sample_home Map.empty" "settings_inv Map.empty"
  using settings_rep_local [OF _ settings_rep_empty] sample_keyspaces by (auto simp: settings_inv_def)

section \<open>The command\<close>

definition sample_update :: SettingUpdate where
  "sample_update = \<lparr>upd_key = KeyDraftAutosaveInterval, upd_expected = ExpectAbsent,
     upd_value = setting_draft_autosave_interval 30\<rparr>"

definition sample_participant :: "(unit, unit, unit) DomainParticipant" where
  "sample_participant =
     \<lparr>pt_store = 1, pt_slot = 1, pt_owner = ''beryl-state'', pt_domain = SETTINGS_DOMAIN, pt_command_pair = None,
      pt_expected_revision = nz_of 1, pt_work = settings_work (\<lambda>_. Inr ()) \<lparr>apply_updates = [sample_update]\<rparr>\<rparr>"

definition sample_command :: "HomeRevision \<Rightarrow> (unit, unit, unit) HomeCommand" where
  "sample_command home = \<lparr>hc_local_admission = None, hc_expected_home_revision = home,
     hc_participants = [sample_participant], hc_sidecars = []\<rparr>"

definition sample_reservation :: CommandReservation where
  "sample_reservation =
     \<lparr>rs_declarations = [\<lparr>ro_domain = SETTINGS_DOMAIN, ro_quotas =
        [\<lparr>quota_family = ''records'', quota_codec_type = ''SettingRecordCodec'', quota_count = 1\<rparr>],
        ro_descriptor_bytes = 131593\<rparr>],
      rs_materialized = None\<rparr>"

definition sample_setting :: SettingRecord where
  "sample_setting = updated_setting Map.empty sample_update"

definition sample_mutation :: PreparedMutation where
  "sample_mutation = \<lparr>pu_slot = 1, pu_domain = settings_domain, pu_pending =
     [\<lparr>pm_family_slot = 0, pm_key = [encode_key_tag KeyDraftAutosaveInterval],
       pm_action = Put (stored_as setting_codec setting_bytes sample_setting)\<rparr>]\<rparr>"

lemma sample_update_ok: "updates_ok [sample_update]"
  by (simp add: updates_ok_def apply_settings_new_def sample_update_def setting_draft_autosave_interval_def value_key_def)

lemma sample_setting_ok: "setting_ok sample_setting"
  using updates_okD(2) [OF sample_update_ok] by (simp add: sample_setting_def)

lemma sample_participates: "participates sample_generation sample_participant settings_domain"
  by (simp add: participates_def sample_generation_def sample_participant_def registry_get_def settings_domain_def)

lemma sample_mutators [simp]: "mutators (sample_command r) = [sample_participant]"
  by (simp add: mutators_def sample_command_def sample_participant_def settings_work_def typed_mutation_def)

lemma sample_prepared:
  "apply_prepare \<lparr>rd_snapshot = memory_snapshot sample_home, rd_families = settings_families\<rparr> [sample_update] =
     Inr [sample_setting]"
proof -
  have "apply_prepare \<lparr>rd_snapshot = memory_snapshot sample_home, rd_families = settings_families\<rparr> [sample_update] =
      (case find (\<lambda>u. \<not> update_due Map.empty u) [sample_update] of
        None \<Rightarrow> Inr (map (updated_setting Map.empty) [sample_update]) | Some u \<Rightarrow> Inl (update_refusal Map.empty u))"
    by (rule apply_prepare_decided [OF setting_read_table [OF _ _ sample_settings(1)] sample_settings(2,1)])
      (simp_all add: sample_reliable)
  then show ?thesis by (simp add: update_due_def sample_update_def sample_setting_def)
qed

lemma sample_put:
  "builder_put setting_codec (set_key sample_setting) sample_setting (builder_new settings_families) =
     (Inr \<lparr>mb_families = settings_families, mb_pending = pu_pending sample_mutation,
       mb_touched = {(0, [encode_key_tag KeyDraftAutosaveInterval])}\<rparr> :: ('io, _) MutationBuildError + _)"
proof -
  have key: "set_key sample_setting = KeyDraftAutosaveInterval"
    by (simp add: sample_setting_def updated_setting_def sample_update_def)
  have "builder_family_slot (builder_new settings_families) setting_codec = (Inr 0 :: ('io, _) MutationBuildError + _)"
    by (simp add: builder_family_slot_def builder_new_def settings_families_eq family_slot_def setting_codec_def)
  then show ?thesis
    by (simp add: builder_put_def builder_push_def builder_new_def key sample_mutation_def
        settings.encode_stored_key_ok settings.store_encode_value_ok [OF sample_setting_ok])
qed

lemma sample_mutates: "mutates sample_generation (memory_snapshot sample_home) sample_participant sample_mutation"
  using sample_prepared sample_put [where 'io = unit] sample_participates
  by (simp add: mutates_def contributes_def sample_participant_def settings_work_def typed_mutation_def
      settings_domain_def sample_mutation_def)

lemma sample_ready:
  "command_ready memory_engine sample_generation health (sample_command (nz_of 1)) sample_reservation sample_home
     (memory_snapshot sample_home) [sample_mutation]"
proof -
  have "engine_serves memory_engine sample_home (memory_snapshot sample_home)"
    by (simp add: engine_serves_def memory_engine_def sample_storable sample_reliable)
  moreover have "command_admissible sample_generation health (sample_command (nz_of 1))"
    by (simp add: command_admissible_def) (simp add: sample_command_def)
  moreover have "advances (nz_of 1)" by (simp add: advances_def)
  moreover from this have "participant_ready sample_generation (memory_snapshot sample_home) sample_home sample_participant"
    using sample_participates sample_domain_at mutates_domain [OF sample_mutates]
    by (simp add: participant_ready_def sample_mutation_def)
      (simp add: sample_participant_def settings_work_def typed_mutation_def)
  moreover have "validate_command_pair (map pair_participant [sample_participant]) = (Inr () :: (unit, unit, unit) CommandError + unit)"
    by (simp add: validate_command_pair_def pair_participant_def sample_participant_def)
  moreover have "slots_ok sample_mutation" "values_fit sample_home (pu_domain sample_mutation)"
    using sample_keyspaces
    by (simp_all add: slots_ok_def sample_mutation_def settings_domain_def settings_families_eq values_fit_def empty_contents_def)
  moreover have "list_all2 covers [sample_mutation] (rs_declarations sample_reservation)"
    by (simp add: covers_def sample_mutation_def sample_reservation_def quota_slot_def settings_domain_def settings_families_eq)
  moreover have "batch_size [sample_mutation] < 2 ^ 64"
    using setting_bytes_bound [OF sample_setting_ok]
    by (simp add: batch_size_def mutation_size_def pending_size_def sample_mutation_def settings_domain_def
        SETTINGS_DOMAIN_def HOME_REVISION_KEY_def ascii_bytes_def HOME_REVISION_BYTES_def MAX_DOMAIN_METADATA_BYTES_def
        SETTINGS_RECORD_LIMIT_def)
  ultimately show ?thesis
    using sample_home_at sample_mutates by (simp add: command_ready_def) (simp add: sample_command_def)
qed

lemma sample_built: "command_built (sample_command r)"
  by (simp add: command_built_def sample_command_def)

lemma sample_commits:
  obtains m' res' receipt where "execute_admitted memory_engine sample_generation 0 (sample_command (nz_of 1))
    sample_reservation sample_home = (m', res', Committed receipt None :: (unit, unit, unit) ExecutionOutcome)"
  using ready_command_commits [OF memory_engine_sound sample_built sample_ready] by blast

lemma sample_keeps_settings: "keeps_to sample_generation settings_domain settings_works (sample_command r)"
  using sample_update_ok by (auto simp: keeps_to_def settings_works_def sample_participant_def)

lemma sample_keeps_jobs: "keeps_to sample_generation job_domain job_works (sample_command r)"
proof -
  have "dom_name job_domain \<noteq> pt_domain sample_participant"
    by (simp add: job_domain_def sample_participant_def DURABLE_JOB_DOMAIN_def SETTINGS_DOMAIN_def)
  then show ?thesis by (simp add: keeps_to_def participates_def)
qed

lemma sample_distinct: "builds_distinct (sample_command r)"
  using prefs.works_distinct [OF sample_keeps_settings _ sample_participates] by (simp add: builds_distinct_def)

section \<open>The properties of the writer on the sample\<close>


theorem writer_no_lost_update_witness:
  "\<exists>outcomes m'. writer_run memory_engine sample_generation 0
      [(sample_command (nz_of 1), sample_reservation), (sample_command (nz_of 1), sample_reservation)] sample_home = (outcomes, m') \<and>
     sorted_wrt (<) (committed_revisions
      [(sample_command (nz_of 1), sample_reservation), (sample_command (nz_of 1), sample_reservation)] outcomes)"
proof -
  let ?cmds = "[(sample_command (nz_of 1), sample_reservation), (sample_command (nz_of 1), sample_reservation)]"
  obtain outcomes m' where run: "writer_run memory_engine sample_generation 0 ?cmds sample_home = (outcomes, m')" by (rule prod.exhaust)
  have "\<forall>(cmd, _)\<in>set ?cmds. command_built cmd" by (simp add: sample_built)
  from writer_no_lost_update [OF memory_engine_sound sample_registered this sample_home_at run] run show ?thesis by blast
qed

theorem stale_home_command_refused_witness:
  "execute_admitted memory_engine sample_generation 0 (sample_command (nz_of 2)) sample_reservation sample_home =
     (sample_home, sample_reservation, NotCommitted (Conflict 1 [HomeConflict (nz_of 2) (nz_of 1)]))"
proof -
  have "nz_of 1 \<noteq> nz_of 2" using nz_get_of [of 1] nz_get_of [of 2] by force
  then have conflict: "home_conflicts (nz_of 1) (sample_command (nz_of 2)) = [HomeConflict (nz_of 2) (nz_of 1)]"
      "domain_conflicts (zip (hc_participants (sample_command (nz_of 2))) [(settings_domain, nz_of 1)]) = []"
    by (simp_all add: home_conflicts_def domain_conflicts_def sample_command_def sample_participant_def)
  have "command_admissible sample_generation 0 (sample_command (nz_of 2))"
    by (simp add: command_admissible_def) (simp add: sample_command_def)
  moreover have "eng_snapshot memory_engine sample_home = Inr (memory_snapshot sample_home)"
    by (simp add: memory_engine_def sample_storable)
  moreover have "list_all2 (\<lambda>p (d, revision). participates sample_generation p d \<and> domain_at sample_home d revision)
      (hc_participants (sample_command (nz_of 2))) [(settings_domain, nz_of 1)]"
    by (simp add: sample_command_def sample_participates sample_domain_at)
  ultimately show ?thesis
    using stale_home_command_refused [OF _ _ sample_reliable sample_home_at, where 'a = unit and 'e = unit] conflict by simp
qed

theorem descriptor_tells_batch_witness:
  "\<exists>m' res' us ds receipt intended. execute_admitted memory_engine sample_generation 0 (sample_command (nz_of 1)) sample_reservation
      sample_home = (m', res', Committed receipt None) \<and> rs_materialized res' = Some (ds, intended) \<and> length us = 1 \<and>
      lists_writes us ds \<and> describes_batch sample_generation sample_home m' ds"
proof (rule sample_commits)
  fix m' res' receipt
  assume exec: "execute_admitted memory_engine sample_generation 0 (sample_command (nz_of 1)) sample_reservation sample_home =
    (m', res', Committed receipt None)"
  from descriptor_tells_batch [OF memory_engine_sound sample_registered sample_built sample_distinct exec]
  obtain sn :: "unit snapshot" and us ds intended where w: "list_all2 (mutates sample_generation sn) (mutators (sample_command (nz_of 1))) us"
      "rs_materialized res' = Some (ds, intended)" "lists_writes us ds" "describes_batch sample_generation sample_home m' ds" by auto
  have "length us = 1" using list_all2_lengthD [OF w(1)] by (simp add: sample_mutators)
  with exec w show ?thesis by blast
qed

theorem current_command_commits_witness:
  "\<exists>m' res' outcome. execute_current_admitted memory_engine sample_generation 0 sample_participant sample_reservation
      sample_home = (m', res', outcome) \<and> (\<forall>n cs. outcome \<noteq> NotCommitted (Conflict n cs))"
proof -
  obtain m' res' outcome where exec: "execute_current_admitted memory_engine sample_generation 0 sample_participant
      sample_reservation sample_home = (m', res', outcome)" by (rule prod_cases3)
  from current_command_commits [OF memory_engine_sound sample_registered exec] exec show ?thesis by (auto split: ExecutionOutcome.splits)
qed

theorem fenced_command_commits_witness:
  "\<exists>m' res' receipt. execute_admitted memory_engine sample_generation 0 (sample_command (nz_of 1)) sample_reservation
      sample_home = (m', res', Committed receipt None) \<and> commit_step sample_generation (sample_command (nz_of 1)) sample_home m' receipt"
  by (rule fenced_command_commits [OF memory_engine_sound sample_registered sample_built sample_ready])

theorem home_runs_keep_domains_witness:
  "\<exists>outcomes m' T' S'. writer_run memory_engine sample_generation 0 [(sample_command (nz_of 1), sample_reservation)] sample_home =
      (outcomes, m') \<and> job_inv T' \<and> jobs_rep m' T' \<and> settings_step\<^sup>*\<^sup>* Map.empty S' \<and> settings_rep m' S'"
proof -
  let ?cmds = "[(sample_command (nz_of 1), sample_reservation)]"
  obtain outcomes m' where run: "writer_run memory_engine sample_generation 0 ?cmds sample_home = (outcomes, m')" by (rule prod.exhaust)
  have "job_domain \<in> set (gen_registry sample_generation)" "dom_families job_domain = job_families"
      "settings_domain \<in> set (gen_registry sample_generation)" "dom_families settings_domain = settings_families"
    by (simp_all add: sample_generation_def job_domain_def settings_domain_def)
  moreover have "\<forall>(cmd, _)\<in>set ?cmds. command_built cmd \<and> keeps_to sample_generation job_domain job_works cmd \<and>
      keeps_to sample_generation settings_domain settings_works cmd"
    by (simp add: sample_built sample_keeps_jobs sample_keeps_settings)
  ultimately show ?thesis
    using home_runs_keep_domains [OF memory_engine_sound sample_registered _ _ _ _ _ sample_jobs sample_settings run] run by blast
qed

end
