(* ===== verification/Reconcile_Laws.thy ===== *)
theory Reconcile_Laws
  imports Reconcile_Domains Home_Sample
begin

text \<open>
  Writer, domains and registry together: the registry resolves a commit whose outcome is uncertain
  to what really happened to the home.
\<close>

section \<open>The sides of a command\<close>

lemma exact_side_replicate:
  "\<lbrakk>side = SideOld \<or> side = SideNew; sides \<noteq> []; \<forall>s\<in>set sides. s = side\<rbrakk> \<Longrightarrow> ordinary_exact_side sides = Some side"
proof -
  assume side: "side = SideOld \<or> side = SideNew" and ne: "sides \<noteq> []" and all: "\<forall>s\<in>set sides. s = side"
  have "\<lbrakk>\<forall>s\<in>set ss. s = side; selected = None \<or> selected = Some side\<rbrakk> \<Longrightarrow>
      exact_side_loop selected ss = (if ss = [] then selected else Some side)" for ss selected
    using side by (induction ss arbitrary: selected) auto
  from this [OF all, of None] ne show ?thesis by (simp add: ordinary_exact_side_def)
qed

lemma hook_sides_all:
  fixes reconcilers :: "RegisteredDomain \<Rightarrow> ('io, 'a, 'e) reconciler"
  assumes "\<And>dd. dd \<in> set dds \<Longrightarrow> \<exists>d. registry_get gen (mm_domain_slot dd) = Some d \<and> reconcilers d sn d dd = Inr side"
  shows "hook_sides gen reconcilers sn dds = (Inr (replicate (length dds) side) :: ('io, 'a, 'e) ReconciliationFailure + _)"
  using assms
proof (induction dds)
  case (Cons dd dds)
  then obtain d where "registry_get gen (mm_domain_slot dd) = Some d" "reconcilers d sn d dd = Inr side" by auto
  with Cons show ?case by simp
qed simp

text \<open>A home with the two domains, whose commands mutate nothing else.\<close>

definition modelled_home :: "StoreGeneration \<Rightarrow> RegisteredDomain \<Rightarrow> RegisteredDomain \<Rightarrow> ('io, 'a, 'e) HomeCommand \<Rightarrow> bool" where
  "modelled_home gen dj ds cmd \<longleftrightarrow> registered gen \<and> command_built cmd \<and>
     dj \<in> set (gen_registry gen) \<and> dom_families dj = job_families \<and> keeps_to gen dj job_works cmd \<and>
     ds \<in> set (gen_registry gen) \<and> dom_families ds = settings_families \<and> keeps_to gen ds settings_works cmd \<and>
     (\<forall>p\<in>set (mutators cmd). participates gen p dj \<or> participates gen p ds)"

lemma sent_sides:
  fixes eng :: "'io engine" and cmd :: "('io, 'a, 'e) HomeCommand"
  assumes eng: "engine_sound eng" and home: "modelled_home gen dj ds cmd"
    and state: "jobs_rep m T" "job_inv T" "settings_rep m S" "settings_inv S"
    and exec: "execute_admitted eng gen health cmd res m = (m', res', outcome :: ('io, 'a, 'e) ExecutionOutcome)"
      "\<forall>e. outcome \<noteq> NotCommitted e"
    and mat: "rs_materialized res' = Some (dds, receipt)"
    and now: "snapshot_reliable sn' m''" "\<And>ks. ks \<in> keyspaces_of dj \<union> keyspaces_of ds \<Longrightarrow> m'' ks = m' ks"
    and hooks: "reconcilers dj = reconcile_typed into_j job_reconcile" "reconcilers ds = reconcile_typed into_s settings_reconcile"
  shows "\<exists>sides. hook_sides gen reconcilers sn' dds = (Inr sides :: ('io, 'a, 'e) ReconciliationFailure + _) \<and>
      ordinary_exact_side sides = Some (if m' = m then SideOld else SideNew) \<and> (m' = m \<or> commit_step gen cmd m m' receipt)"
proof -
  have reg: "registered gen" "command_built cmd" and dj: "dj \<in> set (gen_registry gen)" "dom_families dj = job_families" "keeps_to gen dj job_works cmd"
    and ds: "ds \<in> set (gen_registry gen)" "dom_families ds = settings_families" "keeps_to gen ds settings_works cmd"
    and only: "\<forall>p\<in>set (mutators cmd). participates gen p dj \<or> participates gen p ds"
    using home by (simp_all add: modelled_home_def)
  obtain sn us receipt' dds' where sn: "snapshot_of (sn :: 'io snapshot) m" and us: "list_all2 (mutates gen sn) (mutators cmd) us" "list_all slots_ok us"
      "distinct (map pu_domain us)" and mat': "rs_materialized res' = Some (dds', receipt')"
      and described: "list_all2 (\<lambda>u dd. mm_domain_slot dd = pu_slot u \<and> receipt_revision receipt' (pu_slot u) = Some (mm_intended_revision dd) \<and>
        list_all2 (describes m (pu_domain u)) (pu_pending u) (mm_records dd)) us dds'"
      and step: "commit_step gen cmd m (commit_effect receipt' us m) receipt'" and ne: "mutators cmd \<noteq> []"
      and after: "m' = commit_effect receipt' us m \<or> m' = m \<and> \<not> is_committed outcome"
    by (rule sent_described [OF eng reg exec])
  have eqs: "dds' = dds" "receipt' = receipt" using mat mat' by simp_all
  let ?side = "if m' = m then SideOld else SideNew" and ?mn = "commit_effect receipt us m"
  have "\<exists>d. registry_get gen (mm_domain_slot dd) = Some d \<and> reconcilers d sn' d dd = Inr ?side" if dd: "dd \<in> set dds" for dd
  proof -
    from list_all2_in2 [OF described] dd eqs obtain u where u: "u \<in> set us" "mm_domain_slot dd = pu_slot u"
      "list_all2 (describes m (pu_domain u)) (pu_pending u) (mm_records dd)" by blast
    from list_all2_in2 [OF us(1) u(1)] obtain p where p: "p \<in> set (mutators cmd)" "mutates gen sn p u" by blast
    have slot: "registry_get gen (mm_domain_slot dd) = Some (pu_domain u)" "participates gen p (pu_domain u)"
      using p(2) u(2) by (auto simp: mutates_def participates_def)
    have sub: "pu_domain ` set us \<subseteq> set (gen_registry gen)"
      using list_all2_in2 [OF us(1)] registry_getD by (fastforce simp: mutates_def participates_def)
    have applied: "\<forall>ks\<in>keyspaces_of (pu_domain u). ?mn ks = apply_pending (dom_families (pu_domain u)) m (pu_pending u) ks"
      using commit_effect_local(2) [OF reg(1) us(2,3) sub u(1)] by blast
    have ok: "slots_ok u" using us(2) u(1) by (simp add: list_all_iff)
    have mx: "m' = m \<or> m' = ?mn" using after eqs by blast
    consider "pu_domain u = dj" | "pu_domain u = ds" using only p(1) slot(2) by (auto simp: participates_def)
    then have "reconcilers (pu_domain u) sn' (pu_domain u) dd = Inr ?side"
    proof cases
      case 1
      from jobs_hook.hook_tells_side [OF reg(1) dj p 1 ok sn state(1,2) applied [unfolded 1 dj(2)] u(3) [unfolded 1] now(1) _ mx, where into = into_j]
      show ?thesis using 1 hooks(1) now(2) dj(2) by (simp add: keyspaces_of_def)
    next
      case 2
      from prefs_hook.hook_tells_side [OF reg(1) ds p 2 ok sn state(3,4) applied [unfolded 2 ds(2)] u(3) [unfolded 2] now(1) _ mx, where into = into_s]
      show ?thesis using 2 hooks(2) now(2) ds(2) by (simp add: keyspaces_of_def)
    qed
    with slot(1) show ?thesis by blast
  qed
  then have "hook_sides gen reconcilers sn' dds = (Inr (replicate (length dds) ?side) :: ('io, 'a, 'e) ReconciliationFailure + _)"
    by (rule hook_sides_all)
  moreover have "dds \<noteq> []" using us(1) described ne eqs by auto
  then have "ordinary_exact_side (replicate (length dds) ?side) = Some ?side" by (intro exact_side_replicate) auto
  ultimately show ?thesis using after step eqs by blast
qed

section \<open>Uncertain commits\<close>

lemma finish_exact:
  assumes "hd_index h < length (reg_scopes st)" "reg_scopes st ! hd_index h = Verifying (hd_token h) d charged flight"
    and "0 < reg_active_workers st" "ordinary_exact_side sides = Some side"
  shows "\<exists>st'. finish_worker digest h (Inr (sides, receipt)) st = Some (Inr (if side = SideOld then ResolvedOld else ResolvedNew receipt), st')"
proof -
  let ?st = "release_retained_core_if_idle (release_charge charged (st\<lparr>reg_scopes := (reg_scopes st)[hd_index h := Vacant]\<rparr>))"
  have "reg_active_workers ?st = reg_active_workers st"
    by (simp add: release_retained_core_if_idle_def release_charge_def Let_def)
  with assms show ?thesis by (simp add: finish_worker_def worker_done_def Let_def)
qed

text \<open>
  C4. An uncertain commit of the modelled domains is resolved to the truth: if a command may have
  reached the engine, its descriptor is installed and the hooks run on a faithful snapshot, then,
  whatever other domains have changed since, the worker resolves the scope to the old side exactly if
  nothing of the command was applied, and otherwise to the new side with the receipt of the atomic
  step that was made; it never reports a collision.
\<close>

theorem uncertain_commit_resolved:
  fixes eng :: "'io engine" and cmd :: "('io, 'a, 'e) HomeCommand" and st :: "('io, 'a, 'e) RegistryState"
  assumes "engine_sound eng" and "modelled_home gen dj ds cmd"
    and "jobs_rep m T" "job_inv T" "settings_rep m S" "settings_inv S"
    and "execute_admitted eng gen health cmd res m = (m', res', outcome :: ('io, 'a, 'e) ExecutionOutcome)" "\<forall>e. outcome \<noteq> NotCommitted e"
    and "rs_materialized res' = Some (dds, receipt)"
    and scope: "hd_index h < length (reg_scopes st)" "0 < reg_active_workers st"
      "reg_scopes st ! hd_index h = Verifying (hd_token h) \<lparr>rt_domains = dds, rt_receipt = receipt\<rparr> charged flight"
    and snap: "eng_snapshot eng m'' = Inr sn" "snapshot_reliable sn m''" "\<And>ks. ks \<in> keyspaces_of dj \<union> keyspaces_of ds \<Longrightarrow> m'' ks = m' ks"
    and "reconcilers dj = reconcile_typed into_j job_reconcile" "reconcilers ds = reconcile_typed into_s settings_reconcile"
  shows "(\<exists>st'. finish_worker digest h (execute_reconciliation_hook eng gen reconcilers m'' h st) st =
      Some (Inr (if m' = m then ResolvedOld else ResolvedNew receipt), st')) \<and> (m' = m \<or> commit_step gen cmd m m' receipt)"
proof -
  obtain sides where sides: "hook_sides gen reconcilers sn dds = (Inr sides :: ('io, 'a, 'e) ReconciliationFailure + _)"
      "ordinary_exact_side sides = Some (if m' = m then SideOld else SideNew)" and made: "m' = m \<or> commit_step gen cmd m m' receipt"
    using sent_sides [OF assms(1-9) snap(2,3) assms(16,17)] by blast
  have "execute_reconciliation_hook eng gen reconcilers m'' h st = Inr (sides, receipt)"
    using snap(1) scope(3) sides(1) by (simp add: execute_reconciliation_hook_def)
  with finish_exact [OF scope(1,3,2) sides(2), of digest receipt] made show ?thesis by (simp split: if_splits)
qed

section \<open>A commit that is lost\<close>

text \<open>An engine that fails to commit and does not say whether it did.\<close>

definition lost_engine :: "unit engine" where
  "lost_engine = memory_engine\<lparr>eng_commit := (\<lambda>m ops. (m, Some ((), None)))\<rparr>"

lemma lost_engine_sound: "engine_sound lost_engine"
  using memory_engine_sound by (simp add: engine_sound_def lost_engine_def commit_sound_def)

lemma lost_push_pending: "push_pending lost_engine d ps batch = (push_pending memory_engine d ps batch :: (unit, 'a, 'e) CommandError + _)"
  by (induction ps arbitrary: batch) (auto simp: batch_push_def lost_engine_def memory_engine_def Let_def)

lemma lost_push_participants:
  "push_participants lost_engine vs batch = (push_participants memory_engine vs batch :: (unit, 'a, 'e) CommandError + _)"
proof (induction vs arbitrary: batch)
  case (Cons v vs)
  obtain u metadata where v: "v = (u, metadata)" by (cases v)
  have "batch_push lost_engine b op = (batch_push memory_engine b op :: (unit, 'a, 'e) CommandError + _)" for b op
    by (simp add: batch_push_def lost_engine_def)
  moreover have "push_participants lost_engine vs = (push_participants memory_engine vs :: _ \<Rightarrow> (unit, 'a, 'e) CommandError + _)"
    using Cons.IH by (rule ext)
  ultimately show ?case by (simp add: v lost_push_pending)
qed simp

lemma lost_assemble: "assemble lost_engine receipt us = (assemble memory_engine receipt us :: (unit, 'a, 'e) CommandError + _)"
  unfolding assemble_def lost_push_participants by (simp add: batch_push_def lost_engine_def)

lemma lost_commit:
  obtains res' dds receipt where "execute_admitted lost_engine sample_generation 0 (sample_command (nz_of 1)) sample_reservation sample_home =
      (sample_home, res', Indeterminate (CommitFailure (EngineError ())) :: (unit, unit, unit) ExecutionOutcome)"
    and "rs_materialized res' = Some (dds, receipt)"
proof -
  let ?cmd = "sample_command (nz_of 1)"
  obtain m' res' receipt where run: "execute_admitted memory_engine sample_generation 0 ?cmd sample_reservation sample_home =
      (m', res', Committed receipt None :: (unit, unit, unit) ExecutionOutcome)" by (rule sample_commits)
  obtain dds receipt' where mat: "rs_materialized res' = Some (dds, receipt')"
    by (rule sent_described [OF memory_engine_sound sample_registered sample_built run]) auto
  have prep: "prepare_admitted lost_engine sample_generation 0 ?cmd sample_home =
      (prepare_admitted memory_engine sample_generation 0 ?cmd sample_home :: (unit, unit, unit) CommandError + _)"
    by (simp add: prepare_admitted_def lost_engine_def)
  obtain receipt us batch where stages: "and_then (prepare_admitted memory_engine sample_generation 0 ?cmd sample_home) (\<lambda>(sn, current_home, prepared).
         and_then (ensure LocalAdmissionRejected (hc_local_admission ?cmd \<noteq> Some False)) (\<lambda>_.
         and_then (intended_receipt sample_generation 0 current_home prepared) (\<lambda>receipt.
         and_then (assemble_contributions prepared) (\<lambda>mutations.
         and_then (materialize_reservation sn mutations sample_reservation receipt) (\<lambda>res.
           Inr (receipt, mutations, res)))))) = (Inr (receipt, us, res') :: (unit, unit, unit) CommandError + _)"
    and batch: "assemble memory_engine receipt us = (Inr batch :: (unit, unit, unit) CommandError + _)"
    using run unfolding execute_admitted_def
    by (auto simp: commit_prepared_def split: sum.splits prod.splits)
  have "commit_prepared lost_engine sample_home receipt us =
      (sample_home, Indeterminate (CommitFailure (EngineError ())) :: (unit, unit, unit) ExecutionOutcome)"
    by (simp add: commit_prepared_def lost_assemble batch) (simp add: lost_engine_def memory_engine_def)
  then have "execute_admitted lost_engine sample_generation 0 ?cmd sample_reservation sample_home =
      (sample_home, res', Indeterminate (CommitFailure (EngineError ())) :: (unit, unit, unit) ExecutionOutcome)"
    unfolding execute_admitted_def prep stages by simp
  from that [OF this mat] show thesis .
qed

definition sample_reconcilers :: "RegisteredDomain \<Rightarrow> (unit, unit, unit) reconciler" where
  "sample_reconcilers d = (if d = job_domain then reconcile_typed (\<lambda>_. Inr ()) job_reconcile else reconcile_typed (\<lambda>_. Inr ()) settings_reconcile)"

definition lost_scope :: "MaterializedDomainDescriptor list \<Rightarrow> CommitReceipt \<Rightarrow> (unit, unit, unit) RegistryState" where
  "lost_scope dds receipt =
     \<lparr>reg_accepting = True, reg_scopes = [Verifying 1 \<lparr>rt_domains = dds, rt_receipt = receipt\<rparr> 1024 0], reg_reserved_bytes = 1024,
      reg_active_workers = 1, reg_next_token = 2, reg_retained_core = True, reg_flights = [FlightRunning], reg_failed = False\<rparr>"

lemma sample_modelled: "modelled_home sample_generation job_domain settings_domain (sample_command r)"
  using sample_registered sample_built sample_keeps_jobs sample_keeps_settings sample_participates
  by (simp add: modelled_home_def) (simp add: sample_generation_def job_domain_def settings_domain_def)

theorem uncertain_commit_resolved_witness:
  "\<exists>res' dds receipt. execute_admitted lost_engine sample_generation 0 (sample_command (nz_of 1)) sample_reservation sample_home =
       (sample_home, res', Indeterminate (CommitFailure (EngineError ()))) \<and> rs_materialized res' = Some (dds, receipt) \<and>
     (\<exists>st'. finish_worker id \<lparr>hd_index = 0, hd_token = 1, hd_flight = 0\<rparr>
        (execute_reconciliation_hook lost_engine sample_generation sample_reconcilers sample_home
           \<lparr>hd_index = 0, hd_token = 1, hd_flight = 0\<rparr> (lost_scope dds receipt)) (lost_scope dds receipt) = Some (Inr ResolvedOld, st'))"
proof -
  let ?h = "\<lparr>hd_index = 0, hd_token = 1, hd_flight = 0\<rparr>"
  obtain res' dds receipt where run: "execute_admitted lost_engine sample_generation 0 (sample_command (nz_of 1)) sample_reservation sample_home =
      (sample_home, res', Indeterminate (CommitFailure (EngineError ())) :: (unit, unit, unit) ExecutionOutcome)"
    and mat: "rs_materialized res' = Some (dds, receipt)" by (rule lost_commit)
  have "settings_domain \<noteq> job_domain" by (simp add: settings_domain_def job_domain_def DURABLE_JOB_DOMAIN_def SETTINGS_DOMAIN_def)
  then have hooks: "sample_reconcilers job_domain = reconcile_typed (\<lambda>_. Inr ()) job_reconcile"
      "sample_reconcilers settings_domain = reconcile_typed (\<lambda>_. Inr ()) settings_reconcile"
    by (simp_all add: sample_reconcilers_def)
  have snap: "eng_snapshot lost_engine sample_home = Inr (memory_snapshot sample_home)"
    by (simp add: lost_engine_def memory_engine_def sample_storable)
  have "\<exists>st'. finish_worker id ?h (execute_reconciliation_hook lost_engine sample_generation sample_reconcilers sample_home ?h (lost_scope dds receipt))
      (lost_scope dds receipt) = Some (Inr ResolvedOld, st')"
    using uncertain_commit_resolved [OF lost_engine_sound sample_modelled sample_jobs sample_settings run _ mat _ _ _ snap sample_reliable refl hooks,
        where h = ?h and st = "lost_scope dds receipt" and charged = 1024 and flight = 0 and digest = id]
    by (simp add: lost_scope_def)
  with run mat show ?thesis by blast
qed

end
