(* ===== verification/Registry_Resolution.thy ===== *)
theory Registry_Resolution
  imports Registry_Laws
begin

text \<open>
  How the registry of uncertain commits resolves its scopes: what it promises under every
  interleaving of its users, and a sample run.
\<close>

section \<open>Resolution\<close>

lemma resolution_step:
  assumes max: "lim_reserved_bytes lim \<le> usize_max" and inv: "registry_inv lim s" and h: "h \<in> sys_handles s"
    and final: "reg_flights (sys_registry s) ! hd_flight h = FlightComplete (Inr resolution)"
    and step: "registry_step lim digest s s'"
  shows "h \<in> sys_handles s' \<and> reg_flights (sys_registry s') ! hd_flight h = FlightComplete (Inr resolution)"
proof -
  have new: "h' \<noteq> h \<and> hd_flight h' \<noteq> hd_flight h" if "h' \<in> set (busy s)" for h'
    using busy_handles [OF inv that] flight_handles(2) [OF inv h] final by auto
  from step show ?thesis
  proof cases
    case (publish h' result)
    then have "h' \<in> set (busy s)" by (force simp: busy_def)
    with new publish h final show ?thesis by (auto simp: flight_complete_def)
  next
    case (finish h' execution result r)
    obtain d c where d: "reg_scopes (sys_registry s) ! hd_index h' = Verifying (hd_token h') d c (hd_flight h')"
      using busy_live [OF inv, of h'] finish by (auto simp: live_def)
    have "reg_flights r = reg_flights (sys_registry s)"
    proof (cases execution)
      case (Inl e)
      with finish_failed [OF inv finish(2), of digest e] finish(3) show ?thesis by auto
    next
      case (Inr a)
      with finish_answered [OF inv finish(2) max d, of digest "fst a" "snd a"] finish(3) show ?thesis by auto
    qed
    with finish h final show ?thesis by simp
  next
    case (trigger h' r)
    with final h show ?thesis
      by (cases "hd_flight h' = hd_flight h") (auto simp: flight_pass_def split: FlightState.splits)
  next
    case (retry h' answer r)
    with retry_handle_state [of h' "sys_registry s" answer r] final h show ?thesis
      by (cases "hd_flight h' = hd_flight h") auto
  next
    case (close n r)
    with close_settled(3) [OF inv max] close_pending [of "sys_registry s"] final h show ?thesis
      by (cases "pending_scope_count (sys_registry s) = 0") auto
  qed (use h final flight_handles(1) [OF inv h] in \<open>auto simp: reserve_def slot_install_def slot_drop_def acquire_worker_def begin_drop_def
      result_simps Let_def nth_append split: if_splits\<close>)
qed

lemma resolution_run:
  assumes "(registry_step lim digest)\<^sup>*\<^sup>* s s'" and "lim_reserved_bytes lim \<le> usize_max" and "registry_inv lim s" and "h \<in> sys_handles s"
    and "reg_flights (sys_registry s) ! hd_flight h = FlightComplete (Inr resolution)"
  shows "h \<in> sys_handles s' \<and> reg_flights (sys_registry s') ! hd_flight h = FlightComplete (Inr resolution)"
  using assms
proof (induction rule: rtranclp_induct)
  case (step s1 s2)
  with registry_run_inv [OF step.hyps(1)] resolution_step [of lim s1 h resolution digest s2] show ?case by blast
qed simp

text \<open>The way of a handle to its resolution, from each state of its flight.\<close>

abbreviation run_to :: "RegistryLimits \<Rightarrow> (bytes \<Rightarrow> bytes) \<Rightarrow> ('io, 'a, 'e) registry_system \<Rightarrow> ('io, 'a, 'e) registry_system \<Rightarrow> bool" where
  "run_to lim digest \<equiv> (registry_step lim digest)\<^sup>*\<^sup>*"

definition resolved :: "('io, 'a, 'e) registry_system \<Rightarrow> ReconciliationHandle \<Rightarrow> bool" where
  "resolved s h \<longleftrightarrow> (\<exists>resolution. reg_flights (sys_registry s) ! hd_flight h = FlightComplete (Inr resolution))"

lemma finishing_resolves:
  assumes inv: "registry_inv lim s" and h: "(h, Inr resolution) \<in> set (sys_finishing s)"
  shows "\<exists>s'. run_to lim digest s s' \<and> resolved s' h"
proof -
  have "h \<in> set (busy s)" using h by (force simp: busy_def)
  then have "hd_flight h < length (reg_flights (sys_registry s))" using busy_handles(1) flight_handles(1) inv by blast
  then show ?thesis
    using publish [OF h, of lim digest] by (intro exI conjI r_into_rtranclp) (auto simp: resolved_def flight_complete_def)
qed

lemma working_finishes:
  assumes inv: "registry_inv lim s" and h: "h \<in> set (sys_working s)" and max: "lim_reserved_bytes lim \<le> usize_max"
  shows "\<exists>s' resolution. registry_step lim digest s s' \<and> (h, Inr resolution) \<in> set (sys_finishing s') \<and>
    sys_waiting s' = sys_waiting s \<and> length (sys_working s') = length (sys_working s) - 1"
proof -
  obtain d c where d: "reg_scopes (sys_registry s) ! hd_index h = Verifying (hd_token h) d c (hd_flight h)"
    using busy_live [OF inv, of h] h by (auto simp: live_def)
  obtain res r where fin: "finish_worker digest h (Inr ([], rt_receipt d)) (sys_registry s) = Some (Inr res, r)"
    using finish_answered [OF inv h max d, of digest "[]" "rt_receipt d"] by blast
  show ?thesis
    by (rule exI, rule exI [of _ res], rule conjI, rule finish [OF h fin]) (use h in \<open>simp add: length_remove1\<close>)
qed

lemma working_resolves:
  assumes "registry_inv lim s" "h \<in> set (sys_working s)" and max: "lim_reserved_bytes lim \<le> usize_max"
  shows "\<exists>s'. run_to lim digest s s' \<and> resolved s' h"
proof -
  obtain s1 resolution where s1: "registry_step lim digest s s1" "(h, Inr resolution) \<in> set (sys_finishing s1)"
    using working_finishes [OF assms] by blast
  from finishing_resolves [OF registry_step_inv [OF max s1(1) assms(1)] s1(2)] s1(1) show ?thesis
    by (meson converse_rtranclp_into_rtranclp)
qed

lemma waiting_works:
  assumes inv: "registry_inv lim s" and h: "h \<in> set (sys_waiting s)" and free: "length (sys_working s) < RECONCILIATION_WORKER_CAPACITY"
  shows "\<exists>s'. registry_step lim digest s s' \<and> h \<in> set (sys_working s')"
proof -
  have "verifies h (sys_registry s)" using busy_live [OF inv, of h] h by (auto simp: verifies_def live_def)
  moreover have "reg_active_workers (sys_registry s) = length (sys_working s)" using inv by (simp add: registry_inv_def workers_bounded_def)
  ultimately obtain r where "acquire_worker h (sys_registry s) = Some (Inr r)" using free by (simp add: acquire_worker_def)
  show ?thesis by (rule exI, rule conjI, rule grant [OF h \<open>acquire_worker h (sys_registry s) = Some (Inr r)\<close>]) simp
qed

lemma waiting_resolves:
  assumes inv: "registry_inv lim s" and h: "h \<in> set (sys_waiting s)" and max: "lim_reserved_bytes lim \<le> usize_max"
  shows "\<exists>s'. run_to lim digest s s' \<and> resolved s' h"
proof -
  have "\<exists>s1. run_to lim digest s s1 \<and> h \<in> set (sys_waiting s1) \<and> length (sys_working s1) < RECONCILIATION_WORKER_CAPACITY"
  proof (cases "length (sys_working s) < RECONCILIATION_WORKER_CAPACITY")
    case False
    then obtain w where w: "w \<in> set (sys_working s)" by (cases "sys_working s") (auto simp: RECONCILIATION_WORKER_CAPACITY_def)
    obtain s1 where "registry_step lim digest s s1" "sys_waiting s1 = sys_waiting s" "length (sys_working s1) = length (sys_working s) - 1"
      using working_finishes [OF inv w max] by blast
    moreover have "length (sys_working s) \<le> RECONCILIATION_WORKER_CAPACITY" using inv by (simp add: registry_inv_def workers_bounded_def)
    moreover have "0 < length (sys_working s)" using w by (cases "sys_working s") auto
    ultimately have "length (sys_working s1) < RECONCILIATION_WORKER_CAPACITY" by linarith
    with \<open>registry_step lim digest s s1\<close> \<open>sys_waiting s1 = sys_waiting s\<close> h show ?thesis by (intro exI [of _ s1]) auto
  qed (use h in blast)
  then obtain s1 where s1: "run_to lim digest s s1" "h \<in> set (sys_waiting s1)" "length (sys_working s1) < RECONCILIATION_WORKER_CAPACITY" by blast
  note inv1 = registry_run_inv [OF s1(1) max inv]
  obtain s2 where s2: "registry_step lim digest s1 s2" "h \<in> set (sys_working s2)" using waiting_works [OF inv1 s1(2,3)] by blast
  from working_resolves [OF registry_step_inv [OF max s2(1) inv1] s2(2) max] s1(1) s2(1) show ?thesis
    by (meson rtranclp.rtrancl_into_rtrancl rtranclp_trans)
qed

lemma idle_resolves:
  assumes inv: "registry_inv lim s" and h: "h \<in> sys_handles s" and idle: "reg_flights (sys_registry s) ! hd_flight h = FlightIdle"
    and max: "lim_reserved_bytes lim \<le> usize_max"
  shows "\<exists>s'. run_to lim digest s s' \<and> resolved s' h"
proof -
  obtain r where "flight_pass h (sys_registry s) = Some (Inr r)" using idle by (simp add: flight_pass_def)
  from trigger [OF h this, of lim digest] obtain s1 where s1: "registry_step lim digest s s1" "h \<in> set (sys_waiting s1)"
    by (rule that) simp
  from waiting_resolves [OF registry_step_inv [OF max s1(1) inv] s1(2) max] s1(1) show ?thesis
    by (meson converse_rtranclp_into_rtranclp)
qed

lemma failed_resolves:
  assumes inv: "registry_inv lim s" and h: "h \<in> sys_handles s" and failed: "reg_flights (sys_registry s) ! hd_flight h = FlightComplete (Inl e)"
    and max: "lim_reserved_bytes lim \<le> usize_max"
  shows "\<exists>s'. run_to lim digest s s' \<and> resolved s' h"
proof -
  have "live s h" using inv h failed by (auto simp: registry_inv_def flights_single_def unresolved_def)
  then have "retry_handle h (sys_registry s) = (Some (RetryCurrent h),
      (sys_registry s)\<lparr>reg_flights := (reg_flights (sys_registry s))[hd_flight h := FlightIdle]\<rparr>)"
    using failed by (auto simp: live_def retry_handle_def reset_failed_flight_def)
  from retry [OF h this, of lim digest] obtain s1 where s1: "registry_step lim digest s s1" "h \<in> sys_handles s1"
      "reg_flights (sys_registry s1) ! hd_flight h = FlightIdle"
    by (rule that) (use h flight_handles(1) [OF inv h] in simp_all)
  from idle_resolves [OF registry_step_inv [OF max s1(1) inv] s1(2,3) max] s1(1) show ?thesis
    by (meson converse_rtranclp_into_rtranclp)
qed

lemma finishing_any_resolves:
  assumes inv: "registry_inv lim s" and h: "(h, result) \<in> set (sys_finishing s)" and max: "lim_reserved_bytes lim \<le> usize_max"
  shows "\<exists>s'. run_to lim digest s s' \<and> resolved s' h"
proof (cases result)
  case (Inl e)
  have hb: "h \<in> set (busy s)" using h by (force simp: busy_def)
  note H = busy_handles(1) [OF inv hb]
  from publish [OF h, of lim digest] obtain s1 where s1: "registry_step lim digest s s1" "h \<in> sys_handles s1"
      "reg_flights (sys_registry s1) ! hd_flight h = FlightComplete (Inl e)"
    by (rule that) (use H flight_handles(1) [OF inv H] Inl in \<open>simp_all add: flight_complete_def\<close>)
  from failed_resolves [OF registry_step_inv [OF max s1(1) inv] s1(2,3) max] s1(1) show ?thesis
    by (meson converse_rtranclp_into_rtranclp)
qed (use finishing_resolves [OF inv] h in blast)

lemma handle_resolves:
  assumes inv: "registry_inv lim s" and h: "h \<in> sys_handles s" and max: "lim_reserved_bytes lim \<le> usize_max"
  shows "\<exists>s'. run_to lim digest s s' \<and> resolved s' h"
proof (cases "reg_flights (sys_registry s) ! hd_flight h")
  case FlightRunning
  with inv h have "h \<in> set (busy s)" by (simp add: registry_inv_def flights_single_def)
  then show ?thesis
    using waiting_resolves [OF inv _ max] working_resolves [OF inv _ max] finishing_any_resolves [OF inv _ max] by (auto simp: busy_def)
next
  case (FlightComplete result)
  then show ?thesis using failed_resolves [OF inv h _ max] by (cases result) (auto simp: resolved_def)
qed (use idle_resolves [OF inv h _ max] in blast)

section \<open>What the registry promises\<close>

text \<open>
  C16. Whatever commands, triggers, workers, retries and closes do, in any order, the bytes the
  registry has reserved are exactly the charges of its scopes and of the slots that commands hold, and
  stay within the limit; at most four workers run; no token is given out twice and no failure is ever
  signalled.
\<close>

theorem registry_accounts:
  assumes "registry_reach lim digest s" and "lim_reserved_bytes lim \<le> usize_max"
  shows "reg_reserved_bytes (sys_registry s) = charges (reg_scopes (sys_registry s)) + sum_list (map sl_charged_bytes (sys_slots s)) \<and>
    reg_reserved_bytes (sys_registry s) \<le> lim_reserved_bytes lim \<and>
    reg_active_workers (sys_registry s) = length (sys_working s) \<and> length (sys_working s) \<le> 4 \<and>
    scope_tokens (reg_scopes (sys_registry s)) (reg_next_token (sys_registry s)) \<and>
    \<not> reg_failed (sys_registry s)"
  using registry_reach_inv [OF assms]
  by (simp add: registry_inv_def accounts_def workers_bounded_def tokens_unique_def RECONCILIATION_WORKER_CAPACITY_def)

text \<open>
  C15. No interleaving makes the registry panic or lose a scope that is being resolved: a trigger that
  waits is never told that its scope is stale, a worker that has classified the domains always
  resolves the scope, to the side that the domains agree on or to a collision, and a close never panics.
\<close>

theorem workers_never_panic:
  assumes "registry_reach lim digest s" and "lim_reserved_bytes lim \<le> usize_max"
  shows "(h \<in> set (sys_waiting s) \<longrightarrow> acquire_worker h (sys_registry s) \<noteq> Some (Inl e)) \<and>
    (h \<in> set (sys_working s) \<longrightarrow>
      (\<exists>r. finish_worker digest h (Inl e) (sys_registry s) = Some (Inl e, r)) \<and>
      (\<exists>r. finish_worker digest h (Inr (sides, receipt)) (sys_registry s) =
        Some (Inr (case ordinary_exact_side sides of
          None \<Rightarrow> ResolvedCollision | Some side \<Rightarrow> if side = SideOld then ResolvedOld else ResolvedNew receipt), r))) \<and>
    (\<exists>r. begin_close (sys_registry s) = Some (pending_scope_count (sys_registry s), r))"
proof (intro conjI impI)
  note inv = registry_reach_inv [OF assms]
  show "acquire_worker h (sys_registry s) \<noteq> Some (Inl e)" if "h \<in> set (sys_waiting s)" by (rule waiting_not_refused [OF inv that])
  show "\<exists>r. begin_close (sys_registry s) = Some (pending_scope_count (sys_registry s), r)"
    using close_settled(3) [OF inv assms(2)] close_pending [of "sys_registry s"]
    by (cases "pending_scope_count (sys_registry s) = 0") auto
  assume h: "h \<in> set (sys_working s)"
  show "\<exists>r. finish_worker digest h (Inl e) (sys_registry s) = Some (Inl e, r)" using finish_failed [OF inv h] by blast
  obtain d c where "reg_scopes (sys_registry s) ! hd_index h = Verifying (hd_token h) d c (hd_flight h)"
    using busy_live [OF inv, of h] h by (auto simp: live_def)
  from finish_answered [OF inv h assms(2) this] show "\<exists>r. finish_worker digest h (Inr (sides, receipt)) (sys_registry s) =
      Some (Inr (case ordinary_exact_side sides of
        None \<Rightarrow> ResolvedCollision | Some side \<Rightarrow> if side = SideOld then ResolvedOld else ResolvedNew receipt), r)" by blast
qed

text \<open>
  C17. A resolution is final: once the flight of a handle has been resolved, every later trigger of
  the handle gets the same resolution, whatever happens in between.
\<close>

theorem resolution_is_final:
  assumes "registry_reach lim digest s" and "lim_reserved_bytes lim \<le> usize_max" and "h \<in> sys_handles s"
    and "flight_pass h (sys_registry s) = Some (Inl (Inr resolution))" and "run_to lim digest s s'"
  shows "flight_pass h (sys_registry s') = Some (Inl (Inr resolution))"
proof -
  have "reg_flights (sys_registry s) ! hd_flight h = FlightComplete (Inr resolution)"
    using assms(4) by (auto simp: flight_pass_def split: FlightState.splits)
  from resolution_run [OF assms(5,2) registry_reach_inv [OF assms(1,2)] assms(3) this] show ?thesis
    by (simp add: flight_pass_def)
qed

text \<open>
  C18. No handle is stranded: from every state the registry can come to, there is a way on in which the
  flight of the handle is resolved, even if its last attempt failed or all workers are taken.
\<close>

theorem every_handle_resolvable:
  assumes "registry_reach lim digest s" and "lim_reserved_bytes lim \<le> usize_max" and "h \<in> sys_handles s"
  shows "\<exists>s' resolution. run_to lim digest s s' \<and> flight_pass h (sys_registry s') = Some (Inl (Inr resolution))"
  using handle_resolves [OF registry_reach_inv [OF assms(1,2)] assms(3,2), of digest]
  by (auto simp: resolved_def flight_pass_def)

section \<open>A sample run\<close>

text \<open>A scope is reserved, installed, triggered, granted a worker and resolved.\<close>

definition sample_limits :: RegistryLimits where
  "sample_limits = \<lparr>lim_descriptor_bytes = 1000, lim_reserved_bytes = 4000\<rparr>"

definition sample_descriptor :: RetainedReconciliationDescriptor where
  "sample_descriptor = \<lparr>rt_domains = [], rt_receipt =
     \<lparr>rc_store = 1, rc_generation = 0, rc_home_revision = nz_of 2, rc_domains = []\<rparr>\<rparr>"

definition sample_handle :: ReconciliationHandle where
  "sample_handle = \<lparr>hd_index = 0, hd_token = 1, hd_flight = 0\<rparr>"

definition sample_registry :: "ScopeState \<Rightarrow> usize \<Rightarrow> (unit, unit, unit) FlightState \<Rightarrow> usize \<Rightarrow> bool \<Rightarrow> (unit, unit, unit) RegistryState" where
  "sample_registry scope bytes flight workers core =
     \<lparr>reg_accepting = True, reg_scopes = (replicate RECONCILIATION_SCOPE_CAPACITY Vacant)[0 := scope], reg_reserved_bytes = bytes,
      reg_active_workers = workers, reg_next_token = 2, reg_retained_core = core, reg_flights = [flight], reg_failed = False\<rparr>"

definition sample_working :: "(unit, unit, unit) registry_system" where
  "sample_working = \<lparr>sys_registry = sample_registry (Verifying 1 sample_descriptor 64 0) 64 FlightRunning 1 True,
     sys_slots = [], sys_handles = {sample_handle}, sys_waiting = [], sys_working = [sample_handle], sys_finishing = []\<rparr>"

definition sample_resolved :: "(unit, unit, unit) registry_system" where
  "sample_resolved = \<lparr>sys_registry = sample_registry Vacant 0 (FlightComplete (Inr (ResolvedNew (rt_receipt sample_descriptor)))) 0 False,
     sys_slots = [], sys_handles = {sample_handle}, sys_waiting = [], sys_working = [], sys_finishing = []\<rparr>"

lemma position_replicate: "\<lbrakk>P x; 0 < n\<rbrakk> \<Longrightarrow> position P (replicate n x) = Some 0"
  by (cases n) auto

lemma sample_capacity [simp]: "0 < RECONCILIATION_SCOPE_CAPACITY"
  by (simp add: RECONCILIATION_SCOPE_CAPACITY_def)

lemma sample_working_reached: "registry_reach sample_limits digest sample_working"
proof -
  let ?s = "registry_step sample_limits digest :: (unit, unit, unit) registry_system \<Rightarrow> _" and ?n = "RECONCILIATION_SCOPE_CAPACITY"
  let ?slot = "\<lparr>sl_index = 0, sl_token = 1, sl_charged_bytes = 64\<rparr>"
  define s1 :: "(unit, unit, unit) registry_system" where "s1 = system_new\<lparr>sys_registry := registry_new\<lparr>reg_next_token := 2,
    reg_scopes := (replicate ?n Vacant)[0 := Reserved 1], reg_reserved_bytes := 64\<rparr>, sys_slots := [?slot]\<rparr>"
  define s2 where "s2 = s1\<lparr>sys_registry := sample_registry (Verifying 1 sample_descriptor 64 0) 64 FlightIdle 0 True,
    sys_slots := [], sys_handles := {sample_handle}\<rparr>"
  define s3 where "s3 = s2\<lparr>sys_registry := sample_registry (Verifying 1 sample_descriptor 64 0) 64 FlightRunning 0 True,
    sys_waiting := [sample_handle]\<rparr>"
  have "reserve sample_limits 64 (sys_registry system_new) = Inr (?slot, sys_registry s1)"
    by (simp add: reserve_def sample_limits_def system_new_def registry_new_def s1_def usize_checked_add_def usize_max_def
        position_replicate checked_add_def result_simps)
  then have 1: "?s system_new s1" using reserve [where s = system_new] by (force simp: s1_def system_new_def)
  have "slot_install sample_descriptor ?slot (sys_registry s1) = (sample_handle, sys_registry s2)"
    by (simp add: slot_install_def s1_def s2_def system_new_def registry_new_def sample_registry_def sample_handle_def)
  then have 2: "?s s1 s2" using install [where s = s1 and slot = ?slot and descriptor = sample_descriptor]
    by (simp add: s1_def s2_def system_new_def sealed_size_def sample_descriptor_def)
  have "flight_pass sample_handle (sys_registry s2) = Some (Inr (sys_registry s3))"
    by (simp add: flight_pass_def s2_def s3_def sample_registry_def sample_handle_def)
  then have 3: "?s s2 s3" using trigger [where s = s2 and h = sample_handle] by (force simp: s2_def s3_def s1_def system_new_def)
  have "acquire_worker sample_handle (sys_registry s3) = Some (Inr (sys_registry sample_working))"
    by (simp add: acquire_worker_def verifies_def s3_def sample_registry_def sample_handle_def sample_working_def RECONCILIATION_WORKER_CAPACITY_def)
  then have 4: "?s s3 sample_working" using grant [where s = s3 and h = sample_handle] by (force simp: s3_def s2_def s1_def system_new_def sample_working_def)
  show ?thesis
    unfolding registry_reach_def
    by (rule rtranclp.rtrancl_into_rtrancl [OF rtranclp.rtrancl_into_rtrancl [OF rtranclp.rtrancl_into_rtrancl [OF r_into_rtranclp [of ?s, OF 1] 2] 3] 4])
qed

lemma sample_idle: "\<not> list_ex is_installed ((replicate n Vacant)[0 := Vacant])"
  by (cases n) (auto simp: list_ex_iff is_installed_def)

lemma sample_resolves: "run_to sample_limits digest sample_working sample_resolved"
proof -
  let ?s = "registry_step sample_limits digest :: (unit, unit, unit) registry_system \<Rightarrow> _"
  let ?result = "Inr (ResolvedNew (rt_receipt sample_descriptor)) :: (unit, unit, unit) shared_result"
  define s1 where "s1 = sample_working\<lparr>sys_registry := sample_registry Vacant 0 FlightRunning 0 False,
    sys_working := [], sys_finishing := [(sample_handle, ?result)]\<rparr>"
  have "finish_worker digest sample_handle (Inr ([SideNew], rt_receipt sample_descriptor)) (sys_registry sample_working) =
      Some (?result, sys_registry s1)"
    by (simp add: finish_worker_def sample_working_def sample_registry_def sample_handle_def ordinary_exact_side_def worker_done_def
        release_charge_def release_retained_core_if_idle_def sample_idle s1_def Let_def)
  then have 1: "?s sample_working s1"
    using finish [where s = sample_working and h = sample_handle] by (force simp: s1_def sample_working_def)
  have 2: "?s s1 sample_resolved"
    using publish [where s = s1 and h = sample_handle and result = ?result]
    by (force simp: s1_def sample_working_def sample_resolved_def flight_complete_def sample_registry_def sample_handle_def)
  from rtranclp.rtrancl_into_rtrancl [OF r_into_rtranclp [of ?s, OF 1] 2] show ?thesis .
qed

lemma sample_limits_max: "lim_reserved_bytes sample_limits \<le> usize_max"
  by (simp add: sample_limits_def usize_max_def)

theorem registry_accounts_witness:
  "reg_reserved_bytes (sys_registry sample_working) = 64 \<and> reg_active_workers (sys_registry sample_working) = 1 \<and>
   charges (reg_scopes (sys_registry sample_working)) = 64"
  using registry_accounts [OF sample_working_reached sample_limits_max]
  by (simp add: sample_working_def sample_registry_def)

theorem workers_never_panic_witness:
  "\<exists>r. finish_worker id sample_handle (Inr ([SideOld, SideUnchanged], rt_receipt sample_descriptor)) (sys_registry sample_working) =
     Some (Inr ResolvedOld, r)"
  using workers_never_panic [OF sample_working_reached sample_limits_max, where h = sample_handle and sides = "[SideOld, SideUnchanged]"]
  by (simp add: sample_working_def ordinary_exact_side_def)

theorem resolution_is_final_witness:
  "flight_pass sample_handle (snd (begin_drop (sys_registry sample_resolved))) = Some (Inl (Inr (ResolvedNew (rt_receipt sample_descriptor))))"
proof -
  have "registry_reach sample_limits id sample_resolved"
    using sample_working_reached sample_resolves rtranclp_trans unfolding registry_reach_def by metis
  moreover have "sample_handle \<in> sys_handles sample_resolved"
    "flight_pass sample_handle (sys_registry sample_resolved) = Some (Inl (Inr (ResolvedNew (rt_receipt sample_descriptor))))"
    by (simp_all add: sample_resolved_def flight_pass_def sample_registry_def sample_handle_def)
  moreover have "run_to sample_limits id sample_resolved (sample_resolved\<lparr>sys_registry := snd (begin_drop (sys_registry sample_resolved))\<rparr>)"
    by (rule r_into_rtranclp, rule shutdown) (rule surjective_pairing)
  ultimately have "flight_pass sample_handle
      (sys_registry (sample_resolved\<lparr>sys_registry := snd (begin_drop (sys_registry sample_resolved))\<rparr>)) =
    Some (Inl (Inr (ResolvedNew (rt_receipt sample_descriptor))))"
    by (rule resolution_is_final [OF _ sample_limits_max])
  then show ?thesis by simp
qed

theorem every_handle_resolvable_witness:
  "\<exists>s' resolution. run_to sample_limits id sample_working s' \<and> flight_pass sample_handle (sys_registry s') = Some (Inl (Inr resolution))"
  by (rule every_handle_resolvable [OF sample_working_reached sample_limits_max]) (simp add: sample_working_def)

end
