(* ===== verification/Custody_Laws.thy ===== *)
theory Custody_Laws
  imports Custody_Charge Reconcile_Laws Registry_Resolution
begin

text \<open>
  Commands as users of the registry: the mutations of the modelled domains keep the contract of
  reservations, and every command moves through the registry by the steps that the registry is
  verified for.
\<close>

section \<open>Mutations of the modelled domains\<close>



















section \<open>Outcomes of a command\<close>






section \<open>Commands keep the registry\<close>


section \<open>Commands tell what they did\<close>


section \<open>The sample command\<close>










end
