(* ===== verification/Health_Laws.thy ===== *)
theory Health_Laws
  imports Home_Health "HOL-Library.Multiset"
begin

text \<open>
  The gate of a home under every interleaving of the threads that use it: admissions and their ends,
  failures, the retirement of a generation and the maintenance that replaces it.
\<close>

section \<open>The gate and its users\<close>

text \<open>
  The system has the gate, the markers of every thread, the admissions that are alive (the newest
  first) and the thread that does maintenance, which drains the gate before it goes on. The admissions
  of a thread are guards of nested scopes, so the newest ends first. The markers of a thread also hold
  the gates of other homes.
\<close>

datatype maintainer = NoMaintainer | Draining | Maintaining

record health_system =
  hs_inner :: HealthInner
  hs_gates :: "nat \<Rightarrow> nat list"
  hs_admissions :: "(nat \<times> HealthAdmission) list"
  hs_maintainer :: maintainer

definition health_new :: health_system where
  "health_new = \<lparr>hs_inner = health_opening, hs_gates = (\<lambda>_. []), hs_admissions = [], hs_maintainer = NoMaintainer\<rparr>"

inductive health_step :: "nat \<Rightarrow> health_system \<Rightarrow> health_system \<Rightarrow> bool" for gate :: nat where
  admit: "admit_state gate state (hs_gates s t) (hs_inner s) = GateReturns (Inr ad, gates, inner) \<Longrightarrow>
    health_step gate s (s\<lparr>hs_inner := inner, hs_gates := (hs_gates s)(t := gates), hs_admissions := (t, ad) # hs_admissions s\<rparr>)"
| leave: "\<lbrakk>hs_admissions s = newer @ (t, ad) # older; t \<notin> fst ` set newer;
      admission_drop gate ad (hs_gates s t) (hs_inner s) = Some (gates, inner)\<rbrakk> \<Longrightarrow>
    health_step gate s (s\<lparr>hs_inner := inner, hs_gates := (hs_gates s)(t := gates), hs_admissions := newer @ older\<rparr>)"
| elsewhere: "filter ((=) gate) gates = filter ((=) gate) (hs_gates s t) \<Longrightarrow>
    health_step gate s (s\<lparr>hs_gates := (hs_gates s)(t := gates)\<rparr>)"
| failure: "health_step gate s (s\<lparr>hs_inner := signal_failure severity (hs_inner s)\<rparr>)"
| retire: "health_step gate s (s\<lparr>hs_inner := retire_generation generation (hs_inner s)\<rparr>)"
| publish_open: "publish_opening generation (hs_inner s) = Inr inner \<Longrightarrow> health_step gate s (s\<lparr>hs_inner := inner\<rparr>)"
| maintain: "begin_maintenance Recovery (hs_inner s) = Inr inner \<Longrightarrow>
    health_step gate s (s\<lparr>hs_inner := inner, hs_maintainer := Draining\<rparr>)"
| drained: "\<lbrakk>hs_maintainer s = Draining; hi_active (hs_inner s) = 0\<rbrakk> \<Longrightarrow>
    health_step gate s (s\<lparr>hs_maintainer := Maintaining\<rparr>)"
| prepare: "\<lbrakk>hs_maintainer s = Maintaining; prepare_candidate Recovery generation (hs_inner s) = Inr inner\<rbrakk> \<Longrightarrow>
    health_step gate s (s\<lparr>hs_inner := inner\<rparr>)"
| publish: "\<lbrakk>hs_maintainer s = Maintaining; publish_candidate Recovery generation (hs_inner s) = Inr inner\<rbrakk> \<Longrightarrow>
    health_step gate s (s\<lparr>hs_inner := inner, hs_maintainer := NoMaintainer\<rparr>)"
| give_up: "\<lbrakk>hs_maintainer s = Maintaining; inner = finish_failed (hs_inner s) \<or> inner = maintenance_drop Recovery (hs_inner s)\<rbrakk> \<Longrightarrow>
    health_step gate s (s\<lparr>hs_inner := inner, hs_maintainer := NoMaintainer\<rparr>)"

definition health_reach :: "nat \<Rightarrow> health_system \<Rightarrow> bool" where
  "health_reach gate s \<longleftrightarrow> (health_step gate)\<^sup>*\<^sup>* health_new s"

section \<open>The invariant\<close>

definition admissions_of :: "nat \<Rightarrow> (nat \<times> HealthAdmission) list \<Rightarrow> HealthAdmission list" where
  "admissions_of t ads = map snd (filter (\<lambda>x. fst x = t) ads)"

lemma admissions_of_simps [simp]:
  "admissions_of t [] = []"
  "admissions_of t ((u, ad) # ads) = (if u = t then ad # admissions_of t ads else admissions_of t ads)"
  "admissions_of t (xs @ ys) = admissions_of t xs @ admissions_of t ys"
  by (simp_all add: admissions_of_def)

lemma admissions_of_none: "t \<notin> fst ` set ads \<Longrightarrow> admissions_of t ads = []"
  by (induction ads) auto

text \<open>Of the admissions of a thread the oldest, and no other, is counted.\<close>

fun stacked :: "HealthAdmission list \<Rightarrow> bool" where
  "stacked [] = True"
| "stacked (ad # ads) \<longleftrightarrow> (ha_counted ad \<longleftrightarrow> ads = []) \<and> stacked ads"

definition counted :: "(nat \<times> HealthAdmission) list \<Rightarrow> nat" where
  "counted ads = length (filter (\<lambda>x. ha_counted (snd x)) ads)"

definition threads_ok :: "nat \<Rightarrow> health_system \<Rightarrow> bool" where
  "threads_ok gate s \<longleftrightarrow> (\<forall>t. stacked (admissions_of t (hs_admissions s)) \<and>
     length (filter ((=) gate) (hs_gates s t)) = length (admissions_of t (hs_admissions s)))"

definition gate_ok :: "health_system \<Rightarrow> bool" where
  "gate_ok s \<longleftrightarrow> hi_active (hs_inner s) = counted (hs_admissions s) \<and>
     hi_active (hs_inner s) \<le> MAX_CONCURRENT_STORAGE_ADMISSIONS \<and>
     (\<forall>x\<in>set (hs_admissions s). ha_generation (snd x) = hi_generation (hs_inner s)) \<and>
     (hi_maintenance (hs_inner s) = None \<longleftrightarrow> hs_maintainer s = NoMaintainer) \<and>
     (hi_state (hs_inner s) = HomeReopening \<longrightarrow> hs_maintainer s \<noteq> NoMaintainer) \<and>
     (hi_state (hs_inner s) \<in> {HomeOpening, HomeHealthy} \<longrightarrow> hs_maintainer s = NoMaintainer)"

definition health_inv :: "nat \<Rightarrow> health_system \<Rightarrow> bool" where
  "health_inv gate s \<longleftrightarrow> threads_ok gate s \<and> gate_ok s"

lemma stacked_counted: "\<lbrakk>stacked ads; ads \<noteq> []\<rbrakk> \<Longrightarrow> \<exists>ad\<in>set ads. ha_counted ad"
  by (induction ads) auto

lemma idle_iff:
  assumes "threads_ok gate s"
  shows "counted (hs_admissions s) = 0 \<longleftrightarrow> hs_admissions s = []"
proof
  assume none: "counted (hs_admissions s) = 0"
  show "hs_admissions s = []"
  proof (rule ccontr)
    assume "hs_admissions s \<noteq> []"
    then obtain t ad rest where "hs_admissions s = (t, ad) # rest" by (metis list.exhaust surj_pair)
    then have "admissions_of t (hs_admissions s) \<noteq> []" by simp
    with assms obtain ad' where "ad' \<in> set (admissions_of t (hs_admissions s))" "ha_counted ad'"
      unfolding threads_ok_def by (meson stacked_counted)
    with none show False by (auto simp: counted_def admissions_of_def filter_empty_conv)
  qed
qed (simp add: counted_def)

lemma thread_nested:
  assumes "threads_ok gate s"
  shows "thread_holds_gate gate (hs_gates s t) \<longleftrightarrow> admissions_of t (hs_admissions s) \<noteq> []"
proof -
  have "thread_holds_gate gate (hs_gates s t) \<longleftrightarrow> filter ((=) gate) (hs_gates s t) \<noteq> []"
    by (auto simp: thread_holds_gate_def filter_empty_conv)
  with assms show ?thesis unfolding threads_ok_def by (metis length_0_conv)
qed

section \<open>Markers\<close>

lemma rposition_Some: "rposition P xs = Some i \<Longrightarrow> i < length xs \<and> P (xs ! i)"
  by (induction xs arbitrary: i) (auto split: option.splits if_splits)

lemma rposition_None: "rposition P xs = None \<longleftrightarrow> filter P xs = []"
  by (induction xs) (auto split: option.splits)

lemma swap_remove_mset: "i < length xs \<Longrightarrow> mset (swap_remove i xs) = mset xs - {#xs ! i#}"
proof -
  assume i: "i < length xs"
  have ne: "xs[i := last xs] \<noteq> []" using i by auto
  have last: "last (xs[i := last xs]) = last xs" using i last_list_update [of xs i "last xs"] by (cases xs) auto
  have "mset (xs[i := last xs]) = add_mset (last xs) (mset (swap_remove i xs))"
    using append_butlast_last_id [OF ne] unfolding swap_remove_def last
    by (metis add_mset_add_single mset.simps(2) mset_append mset.simps(1))
  moreover have "mset (xs[i := last xs]) = add_mset (last xs) (mset xs - {#xs ! i#})" by (rule mset_update [OF i])
  ultimately show ?thesis by simp
qed

lemma cleared_markers:
  assumes "clear_thread_admitted gate gates = Some gates'"
  shows "length (filter ((=) gate) gates) = Suc (length (filter ((=) gate) gates'))"
proof -
  from assms obtain i where i: "rposition (\<lambda>c. c = gate) gates = Some i" and gates': "gates' = swap_remove i gates"
    by (auto simp: clear_thread_admitted_def)
  from rposition_Some [OF i] have i': "i < length gates" "gates ! i = gate" by auto
  then have "gate \<in># mset gates" by force
  with i' have "mset gates = add_mset gate (mset gates')" by (simp add: gates' swap_remove_mset)
  then have "filter_mset ((=) gate) (mset gates) = add_mset gate (filter_mset ((=) gate) (mset gates'))" by simp
  then show ?thesis by (metis mset_filter size_add_mset size_mset)
qed

lemma marker_found: "filter ((=) gate) gates \<noteq> [] \<Longrightarrow> \<exists>gates'. clear_thread_admitted gate gates = Some gates'"
proof -
  have "filter ((=) gate) gates = filter (\<lambda>c. c = gate) gates" by (rule filter_cong) auto
  then show "filter ((=) gate) gates \<noteq> [] \<Longrightarrow> \<exists>gates'. clear_thread_admitted gate gates = Some gates'"
    using rposition_None [of "\<lambda>c. c = gate" gates] by (auto simp: clear_thread_admitted_def)
qed

section \<open>Steps keep the invariant\<close>

lemma admit_inv:
  assumes inv: "health_inv gate s"
    and admit: "admit_state gate state (hs_gates s t) (hs_inner s) = GateReturns (Inr ad, gates, inner)"
  shows "health_inv gate (s\<lparr>hs_inner := inner, hs_gates := (hs_gates s)(t := gates), hs_admissions := (t, ad) # hs_admissions s\<rparr>)"
proof -
  let ?nested = "thread_holds_gate gate (hs_gates s t)"
  from inv have ok: "threads_ok gate s" "gate_ok s" by (simp_all add: health_inv_def)
  from admit have ad: "ad = \<lparr>ha_generation = hi_generation (hs_inner s), ha_state = state, ha_counted = (\<not> ?nested)\<rparr>"
      and gates: "gates = hs_gates s t @ [gate]"
      and inner: "inner = (hs_inner s)\<lparr>hi_active := (if ?nested then hi_active (hs_inner s) else Suc (hi_active (hs_inner s)))\<rparr>"
      and room: "?nested \<or> hi_active (hs_inner s) < MAX_CONCURRENT_STORAGE_ADMISSIONS"
    by (auto simp: admit_state_def Let_def usize_checked_add_def mark_thread_admitted_def split: if_splits option.splits)
  have "threads_ok gate (s\<lparr>hs_inner := inner, hs_gates := (hs_gates s)(t := gates), hs_admissions := (t, ad) # hs_admissions s\<rparr>)"
    using ok(1) thread_nested [OF ok(1), of t] by (auto simp: threads_ok_def ad gates)
  moreover have "gate_ok (s\<lparr>hs_inner := inner, hs_gates := (hs_gates s)(t := gates), hs_admissions := (t, ad) # hs_admissions s\<rparr>)"
    using ok(2) room by (auto simp: gate_ok_def counted_def ad inner)
  ultimately show ?thesis by (simp add: health_inv_def)
qed

lemma leave_inv:
  assumes inv: "health_inv gate s" and ads: "hs_admissions s = newer @ (t, ad) # older" "t \<notin> fst ` set newer"
    and leave: "admission_drop gate ad (hs_gates s t) (hs_inner s) = Some (gates, inner)"
  shows "health_inv gate (s\<lparr>hs_inner := inner, hs_gates := (hs_gates s)(t := gates), hs_admissions := newer @ older\<rparr>)"
proof -
  from inv have ok: "threads_ok gate s" "gate_ok s" by (simp_all add: health_inv_def)
  from leave have gates: "clear_thread_admitted gate (hs_gates s t) = Some gates"
      and inner: "inner = (hs_inner s)\<lparr>hi_active := (if ha_counted ad then hi_active (hs_inner s) - 1 else hi_active (hs_inner s))\<rparr>"
    by (auto simp: admission_drop_def split: option.splits if_splits)
  have "threads_ok gate (s\<lparr>hs_inner := inner, hs_gates := (hs_gates s)(t := gates), hs_admissions := newer @ older\<rparr>)"
    unfolding threads_ok_def
  proof
    fix u
    from ok(1) have "stacked (admissions_of u (hs_admissions s))"
        "length (filter ((=) gate) (hs_gates s u)) = length (admissions_of u (hs_admissions s))"
      by (simp_all add: threads_ok_def)
    then show "stacked (admissions_of u (hs_admissions (s\<lparr>hs_inner := inner, hs_gates := (hs_gates s)(t := gates), hs_admissions := newer @ older\<rparr>))) \<and>
      length (filter ((=) gate) (hs_gates (s\<lparr>hs_inner := inner, hs_gates := (hs_gates s)(t := gates), hs_admissions := newer @ older\<rparr>) u)) =
      length (admissions_of u (hs_admissions (s\<lparr>hs_inner := inner, hs_gates := (hs_gates s)(t := gates), hs_admissions := newer @ older\<rparr>)))"
      using cleared_markers [OF gates] admissions_of_none [OF ads(2)] by (auto simp: ads(1))
  qed
  moreover have "gate_ok (s\<lparr>hs_inner := inner, hs_gates := (hs_gates s)(t := gates), hs_admissions := newer @ older\<rparr>)"
    using ok(2) by (auto simp: gate_ok_def counted_def ads(1) inner split: if_splits)
  ultimately show ?thesis by (simp add: health_inv_def)
qed

lemma elsewhere_inv:
  "\<lbrakk>health_inv gate s; filter ((=) gate) gates = filter ((=) gate) (hs_gates s t)\<rbrakk> \<Longrightarrow>
     health_inv gate (s\<lparr>hs_gates := (hs_gates s)(t := gates)\<rparr>)"
  by (auto simp: health_inv_def threads_ok_def gate_ok_def)

lemma inner_inv:
  assumes "health_inv gate s" "hs_gates s' = hs_gates s" "hs_admissions s' = hs_admissions s"
    and "hi_active (hs_inner s') = hi_active (hs_inner s)"
    and "hs_admissions s = [] \<or> hi_generation (hs_inner s') = hi_generation (hs_inner s)"
    and "hi_maintenance (hs_inner s') = None \<longleftrightarrow> hs_maintainer s' = NoMaintainer"
    and "hi_state (hs_inner s') = HomeReopening \<longrightarrow> hs_maintainer s' \<noteq> NoMaintainer"
    and "hi_state (hs_inner s') \<in> {HomeOpening, HomeHealthy} \<longrightarrow> hs_maintainer s' = NoMaintainer"
  shows "health_inv gate s'"
  using assms by (auto simp: health_inv_def threads_ok_def gate_ok_def)

lemma inv_facts:
  assumes "health_inv gate s"
  shows "hi_active (hs_inner s) = 0 \<longleftrightarrow> hs_admissions s = []"
    and "hi_maintenance (hs_inner s) = None \<longleftrightarrow> hs_maintainer s = NoMaintainer"
    and "hi_state (hs_inner s) = HomeReopening \<Longrightarrow> hs_maintainer s \<noteq> NoMaintainer"
    and "hi_state (hs_inner s) \<in> {HomeOpening, HomeHealthy} \<Longrightarrow> hs_maintainer s = NoMaintainer"
  using assms idle_iff [of gate s] by (auto simp: health_inv_def gate_ok_def)

lemma signal_failure_eq: "signal_failure severity inner = inner\<lparr>hi_state := HomeFailed\<rparr>"
  by (cases "hi_state inner"; cases severity; cases inner) (simp_all add: signal_failure_def)

lemma Maintenance_Recovery: "(maintenance :: Maintenance) = Recovery"
  by (cases maintenance)

lemmas gate_defs = signal_failure_eq retire_generation_def publish_opening_def begin_maintenance_def prepare_candidate_def
  publish_candidate_def finish_failed_def maintenance_drop_def

lemma step_inv: "\<lbrakk>health_step gate s s'; health_inv gate s\<rbrakk> \<Longrightarrow> health_inv gate s'"
proof (induction rule: health_step.induct)
  case (admit state s t ad gates inner)
  then show ?case by (intro admit_inv)
next
  case (leave s newer t ad older gates inner)
  then show ?case by (intro leave_inv)
next
  case (elsewhere gates s t)
  then show ?case by (intro elsewhere_inv)
next
  case (failure s severity)
  show ?case
    by (rule inner_inv [of gate s]) (use failure inv_facts [OF failure] in \<open>auto simp: gate_defs\<close>)
next
  case (retire s generation)
  show ?case
    by (rule inner_inv [of gate s]) (use retire inv_facts [OF retire] in \<open>auto simp: gate_defs\<close>)
next
  case (publish_open generation s inner)
  show ?case
    by (rule inner_inv [of gate s]) (use publish_open inv_facts [OF publish_open(2)] in \<open>auto simp: gate_defs split: if_splits\<close>)
next
  case (maintain s inner)
  show ?case
    by (rule inner_inv [of gate s]) (use maintain inv_facts [OF maintain(2)] in \<open>auto simp: gate_defs split: if_splits Maintenance.splits\<close>)
next
  case (drained s)
  show ?case
    by (rule inner_inv [of gate s]) (use drained inv_facts [OF drained(3)] in \<open>auto\<close>)
next
  case (prepare s generation inner)
  show ?case
    by (rule inner_inv [of gate s]) (use prepare inv_facts [OF prepare(3)] in \<open>auto simp: gate_defs split: if_splits\<close>)
next
  case (publish s generation inner)
  show ?case
    by (rule inner_inv [of gate s]) (use publish inv_facts [OF publish(3)] in \<open>auto simp: gate_defs split: if_splits\<close>)
next
  case (give_up s inner)
  show ?case
    by (rule inner_inv [of gate s]) (use give_up inv_facts [OF give_up(3)] in \<open>auto simp: gate_defs Maintenance_Recovery split: if_splits\<close>)
qed

lemma new_inv: "health_inv gate health_new"
  by (simp add: health_inv_def threads_ok_def gate_ok_def health_new_def health_opening_def counted_def)

lemma reach_inv: "health_reach gate s \<Longrightarrow> health_inv gate s"
  unfolding health_reach_def by (induction rule: rtranclp_induct) (auto intro: new_inv step_inv)

section \<open>What the gate promises\<close>

lemma counted_threads:
  "\<forall>t. stacked (admissions_of t ads) \<Longrightarrow> counted ads = card (fst ` set ads)"
proof (induction ads)
  case (Cons x ads)
  obtain t ad where x: "x = (t, ad)" by (cases x)
  have "stacked (admissions_of u ads)" for u using Cons.prems [rule_format, of u] by (cases "u = t") (auto simp: x)
  then have IH: "counted ads = card (fst ` set ads)" by (intro Cons.IH) simp
  have "ha_counted ad \<longleftrightarrow> admissions_of t ads = []" using Cons.prems [rule_format, of t] by (simp add: x)
  also have "\<dots> \<longleftrightarrow> t \<notin> fst ` set ads" by (force simp: admissions_of_def filter_empty_conv)
  finally have "ha_counted ad \<longleftrightarrow> t \<notin> fst ` set ads" .
  with IH show ?case by (auto simp: x counted_def card_insert_if insert_absorb)
qed (simp add: counted_def)

lemma leave_possible:
  assumes inv: "health_inv gate s" and ads: "hs_admissions s = newer @ (t, ad) # older" "t \<notin> fst ` set newer"
  obtains gates inner where "admission_drop gate ad (hs_gates s t) (hs_inner s) = Some (gates, inner)"
    and "hi_state inner = hi_state (hs_inner s)" "hi_generation inner = hi_generation (hs_inner s)" "hi_maintenance inner = hi_maintenance (hs_inner s)"
proof -
  have "length (filter ((=) gate) (hs_gates s t)) = length (admissions_of t (hs_admissions s))"
    using inv by (simp add: health_inv_def threads_ok_def)
  then have "filter ((=) gate) (hs_gates s t) \<noteq> []" by (auto simp: ads(1))
  then obtain gates where gates: "clear_thread_admitted gate (hs_gates s t) = Some gates" using marker_found by blast
  have "hi_active (hs_inner s) \<noteq> 0" using inv_facts(1) [OF inv] ads(1) by simp
  with gates show thesis
    by (intro that [of gates "if ha_counted ad then (hs_inner s)\<lparr>hi_active := hi_active (hs_inner s) - 1\<rparr> else hs_inner s"])
      (auto simp: admission_drop_def)
qed

lemma busy_gate:
  assumes "health_step gate s s'" "health_inv gate s" "hs_admissions s \<noteq> []"
  shows "hi_generation (hs_inner s') = hi_generation (hs_inner s) \<and>
    (hi_state (hs_inner s') = HomeHealthy \<longrightarrow> hi_state (hs_inner s) = HomeHealthy)"
proof -
  have "hi_active (hs_inner s) \<noteq> 0" using inv_facts(1) [OF assms(2)] assms(3) by simp
  with assms(1) show ?thesis
    by (cases rule: health_step.cases)
      (auto simp: gate_defs admit_state_def admission_drop_def Let_def split: if_splits option.splits Maintenance.splits)
qed

text \<open>
  The gate accounts for its users under every interleaving: the active count is the number of threads
  that hold an admission and never exceeds the limit, every admission alive belongs to the current
  generation, and neither an admission nor its end ever panics.
\<close>

theorem gate_accounts:
  assumes "health_reach gate s"
  shows "hi_active (hs_inner s) = card (fst ` set (hs_admissions s)) \<and> hi_active (hs_inner s) \<le> MAX_CONCURRENT_STORAGE_ADMISSIONS \<and>
    (\<forall>(t, ad)\<in>set (hs_admissions s). ha_generation ad = hi_generation (hs_inner s)) \<and>
    (\<forall>t state. admit_state gate state (hs_gates s t) (hs_inner s) \<noteq> GatePanics) \<and>
    (\<forall>newer t ad older. hs_admissions s = newer @ (t, ad) # older \<and> t \<notin> fst ` set newer \<longrightarrow>
      admission_drop gate ad (hs_gates s t) (hs_inner s) \<noteq> None)"
proof (intro conjI allI impI)
  have inv: "health_inv gate s" by (rule reach_inv [OF assms])
  then have ok: "threads_ok gate s" "gate_ok s" by (simp_all add: health_inv_def)
  then show "hi_active (hs_inner s) = card (fst ` set (hs_admissions s))" "hi_active (hs_inner s) \<le> MAX_CONCURRENT_STORAGE_ADMISSIONS"
      "\<forall>(t, ad)\<in>set (hs_admissions s). ha_generation ad = hi_generation (hs_inner s)"
    using counted_threads by (auto simp: gate_ok_def threads_ok_def)
  then show "admit_state gate state (hs_gates s t) (hs_inner s) \<noteq> GatePanics" for t state
    by (auto simp: admit_state_def Let_def usize_checked_add_def usize_max_def MAX_CONCURRENT_STORAGE_ADMISSIONS_def)
  show "admission_drop gate ad (hs_gates s t) (hs_inner s) \<noteq> None"
    if "hs_admissions s = newer @ (t, ad) # older \<and> t \<notin> fst ` set newer" for newer t ad older
    using leave_possible [OF inv] that by (metis option.distinct(1))
qed

section \<open>Confirmed operations\<close>

fun health_path :: "nat \<Rightarrow> health_system list \<Rightarrow> bool" where
  "health_path gate (s # s' # ss) \<longleftrightarrow> health_step gate s s' \<and> health_path gate (s' # ss)"
| "health_path gate _ = True"

text \<open>
  C19. An operation that is confirmed ran undisturbed: if an admission to the healthy home is alive
  along a whole path and is confirmed at its end, then at every moment of the path the home was
  healthy and at the generation of the admission; no failure, recovery or replacement came between,
  not even one that was over again at the end.
\<close>

theorem confirmed_operation_undisturbed:
  assumes "health_reach gate (hd ss)" "ss \<noteq> []" "health_path gate ss"
    and "\<forall>s\<in>set ss. (t, ad) \<in> set (hs_admissions s)" "ha_state ad = HomeHealthy"
    and "admission_confirm ad (hs_inner (last ss)) = Inr ()"
  shows "\<forall>s\<in>set ss. hi_state (hs_inner s) = HomeHealthy \<and> hi_generation (hs_inner s) = ha_generation ad"
  using assms
proof (induction gate ss rule: health_path.induct)
  case (1 gate s s' ss)
  have inv: "health_inv gate s" and step: "health_step gate s s'" and busy: "hs_admissions s \<noteq> []"
    using 1(2,4,5) reach_inv by fastforce+
  have "health_reach gate s'" using 1(2) step by (simp add: health_reach_def)
  then have IH: "\<forall>s\<in>set (s' # ss). hi_state (hs_inner s) = HomeHealthy \<and> hi_generation (hs_inner s) = ha_generation ad"
    using 1(4-7) by (intro 1(1)) auto
  with busy_gate [OF step inv busy] show ?case by auto
qed (auto simp: admission_confirm_def split: if_splits)

section \<open>Recovery\<close>

lemma two_steps: "\<lbrakk>r a b; r b c\<rbrakk> \<Longrightarrow> r\<^sup>*\<^sup>* a c"
  by (rule converse_rtranclp_into_rtranclp [OF _ r_into_rtranclp])

lemma exists_after: "\<lbrakk>r\<^sup>*\<^sup>* a b; \<exists>c. r\<^sup>*\<^sup>* b c \<and> P c\<rbrakk> \<Longrightarrow> \<exists>c. r\<^sup>*\<^sup>* a c \<and> P c"
  by (blast intro: rtranclp_trans)

lemma gate_drains:
  "health_inv gate s \<Longrightarrow> \<exists>s'. (health_step gate)\<^sup>*\<^sup>* s s' \<and> health_inv gate s' \<and> hs_admissions s' = [] \<and>
     hi_state (hs_inner s') = hi_state (hs_inner s) \<and> hs_maintainer s' = hs_maintainer s"
proof (induction "length (hs_admissions s)" arbitrary: s)
  case (Suc n)
  then obtain t ad older where ads: "hs_admissions s = [] @ (t, ad) # older" by (cases "hs_admissions s") auto
  obtain gates inner where leave: "admission_drop gate ad (hs_gates s t) (hs_inner s) = Some (gates, inner)"
      and state: "hi_state inner = hi_state (hs_inner s)"
    by (rule leave_possible [OF Suc.prems ads]) auto
  let ?s = "s\<lparr>hs_inner := inner, hs_gates := (hs_gates s)(t := gates), hs_admissions := older\<rparr>"
  have step: "health_step gate s ?s" using health_step.leave [OF ads _ leave] by simp
  have "n = length (hs_admissions ?s)" using Suc.hyps(2) ads by simp
  from Suc.hyps(1) [OF this step_inv [OF step Suc.prems]] obtain s' where s': "(health_step gate)\<^sup>*\<^sup>* ?s s'" "health_inv gate s'"
      "hs_admissions s' = []" "hi_state (hs_inner s') = hi_state (hs_inner ?s)" "hs_maintainer s' = hs_maintainer ?s" by blast
  have "(health_step gate)\<^sup>*\<^sup>* s s'" using step s'(1) by (rule converse_rtranclp_into_rtranclp)
  with s' state show ?case by auto
qed auto

text \<open>With the gate drained, the maintainer of a home that is being reopened can publish any generation.\<close>

lemma reopening_publishes:
  assumes "hs_admissions s = []" "health_inv gate s" "hi_state (hs_inner s) = HomeReopening" "hs_maintainer s = Maintaining"
  shows "\<exists>s'. (health_step gate)\<^sup>*\<^sup>* s s' \<and> hi_state (hs_inner s') = HomeHealthy \<and> hi_generation (hs_inner s') = generation"
proof -
  have ready: "hi_active (hs_inner s) = 0" "hi_maintenance (hs_inner s) = Some Recovery"
    using assms inv_facts(1,2) [OF assms(2)] Maintenance_Recovery by auto
  let ?prepared = "s\<lparr>hs_inner := (hs_inner s)\<lparr>hi_generation := generation\<rparr>\<rparr>"
  let ?published = "?prepared\<lparr>hs_inner := (hs_inner ?prepared)\<lparr>hi_state := HomeHealthy, hi_generation := generation, hi_maintenance := None\<rparr>,
    hs_maintainer := NoMaintainer\<rparr>"
  have "health_step gate s ?prepared"
    using ready assms(3,4) by (intro health_step.prepare [where generation = generation]) (simp_all add: prepare_candidate_def)
  moreover have "health_step gate ?prepared ?published"
    using ready assms(3,4) by (intro health_step.publish [where generation = generation]) (simp_all add: publish_candidate_def)
  ultimately have "(health_step gate)\<^sup>*\<^sup>* s ?published" by (rule two_steps)
  then show ?thesis by (rule exI [where x = ?published, OF conjI]) simp
qed

text \<open>A drained home that has failed gets a maintainer of its own.\<close>

lemma failed_reopens:
  assumes "hs_admissions s = []" "health_inv gate s" "hi_state (hs_inner s) = HomeFailed" "hs_maintainer s = NoMaintainer"
  shows "\<exists>s'. (health_step gate)\<^sup>*\<^sup>* s s' \<and> hs_admissions s' = [] \<and> hi_state (hs_inner s') = HomeReopening \<and> hs_maintainer s' = Maintaining"
proof -
  have ready: "hi_active (hs_inner s) = 0" "hi_maintenance (hs_inner s) = None" using assms inv_facts(1,2) [OF assms(2)] by auto
  let ?begun = "s\<lparr>hs_inner := (hs_inner s)\<lparr>hi_state := HomeReopening, hi_maintenance := Some Recovery\<rparr>, hs_maintainer := Draining\<rparr>"
  have "health_step gate s ?begun"
    using ready assms(3) by (intro health_step.maintain) (simp add: begin_maintenance_def)
  moreover have "health_step gate ?begun (?begun\<lparr>hs_maintainer := Maintaining\<rparr>)" using ready by (intro health_step.drained) simp_all
  ultimately have "(health_step gate)\<^sup>*\<^sup>* s (?begun\<lparr>hs_maintainer := Maintaining\<rparr>)" by (rule two_steps)
  with assms(1) show ?thesis by (intro exI [where x = "?begun\<lparr>hs_maintainer := Maintaining\<rparr>"]) simp
qed

text \<open>A maintainer whose home is drained can go on, and can give up.\<close>

lemma maintainer_goes_on:
  assumes "hs_admissions s = []" "health_inv gate s" "hs_maintainer s \<noteq> NoMaintainer"
  shows "\<exists>s'. (health_step gate)\<^sup>*\<^sup>* s s' \<and> hs_admissions s' = [] \<and> hs_inner s' = hs_inner s \<and> hs_maintainer s' = Maintaining"
proof (cases "hs_maintainer s")
  case Draining
  then have "health_step gate s (s\<lparr>hs_maintainer := Maintaining\<rparr>)" using assms inv_facts(1) by (intro health_step.drained) simp_all
  with assms(1) show ?thesis by (intro exI [where x = "s\<lparr>hs_maintainer := Maintaining\<rparr>"]) auto
qed (use assms in auto)

lemma steps_inv: "\<lbrakk>(health_step gate)\<^sup>*\<^sup>* s s'; health_inv gate s\<rbrakk> \<Longrightarrow> health_inv gate s'"
  by (induction rule: rtranclp_induct) (auto intro: step_inv)

lemma failed_recovers:
  assumes idle: "hs_admissions s = []" and inv: "health_inv gate s" and failed: "hi_state (hs_inner s) = HomeFailed"
  shows "\<exists>s'. (health_step gate)\<^sup>*\<^sup>* s s' \<and> hi_state (hs_inner s') = HomeHealthy \<and> hi_generation (hs_inner s') = generation"
proof -
  have "\<exists>s1. (health_step gate)\<^sup>*\<^sup>* s s1 \<and> hs_admissions s1 = [] \<and> hi_state (hs_inner s1) = HomeFailed \<and> hs_maintainer s1 = NoMaintainer"
  proof (cases "hs_maintainer s = NoMaintainer")
    case False
    then obtain s1 where s1: "(health_step gate)\<^sup>*\<^sup>* s s1" "hs_admissions s1 = []" "hs_maintainer s1 = Maintaining"
      using maintainer_goes_on [OF idle inv] by blast
    let ?s = "s1\<lparr>hs_inner := finish_failed (hs_inner s1), hs_maintainer := NoMaintainer\<rparr>"
    have "health_step gate s1 ?s" by (rule health_step.give_up) (simp_all add: s1)
    with s1(1) have "(health_step gate)\<^sup>*\<^sup>* s ?s" by (rule rtranclp.rtrancl_into_rtrancl)
    with s1(2) show ?thesis by (intro exI [of _ ?s]) (simp add: finish_failed_def)
  qed (use idle failed in blast)
  then obtain s1 where s1: "(health_step gate)\<^sup>*\<^sup>* s s1" "hs_admissions s1 = []" "hi_state (hs_inner s1) = HomeFailed"
      "hs_maintainer s1 = NoMaintainer" by blast
  then obtain s2 where s2: "(health_step gate)\<^sup>*\<^sup>* s1 s2" "hs_admissions s2 = []" "hi_state (hs_inner s2) = HomeReopening"
      "hs_maintainer s2 = Maintaining"
    using failed_reopens [OF s1(2) steps_inv [OF s1(1) inv]] by blast
  from reopening_publishes [OF s2(2) steps_inv [OF s2(1) steps_inv [OF s1(1) inv]] s2(3,4), of generation]
  show ?thesis by (rule exists_after [OF rtranclp_trans [OF s1(1) s2(1)]])
qed

text \<open>
  The home can always be recovered: from every reachable state in which it has failed or is being
  reopened, whatever admissions are alive and whatever maintenance is under way, there is a
  continuation that brings it back into service at any given generation.
\<close>

theorem gate_recoverable:
  assumes "health_reach gate s" "hi_state (hs_inner s) \<in> {HomeFailed, HomeReopening}"
  shows "\<exists>s'. (health_step gate)\<^sup>*\<^sup>* s s' \<and> hi_state (hs_inner s') = HomeHealthy \<and> hi_generation (hs_inner s') = generation"
proof -
  have inv: "health_inv gate s" by (rule reach_inv [OF assms(1)])
  obtain s1 where s1: "(health_step gate)\<^sup>*\<^sup>* s s1" "health_inv gate s1" "hs_admissions s1 = []"
      "hi_state (hs_inner s1) = hi_state (hs_inner s)" using gate_drains [OF inv] by blast
  have "\<exists>s'. (health_step gate)\<^sup>*\<^sup>* s1 s' \<and> hi_state (hs_inner s') = HomeHealthy \<and> hi_generation (hs_inner s') = generation"
  proof (cases "hi_state (hs_inner s1) = HomeFailed")
    case False
    with s1(4) assms(2) have reopening: "hi_state (hs_inner s1) = HomeReopening" by auto
    then obtain s2 where s2: "(health_step gate)\<^sup>*\<^sup>* s1 s2" "hs_admissions s2 = []" "hs_inner s2 = hs_inner s1" "hs_maintainer s2 = Maintaining"
      using maintainer_goes_on [OF s1(3,2) inv_facts(3) [OF s1(2)]] by blast
    from reopening_publishes [OF s2(2) steps_inv [OF s2(1) s1(2)] _ s2(4), of generation] show ?thesis
      by (intro exists_after [OF s2(1)]) (simp add: s2(3) reopening)
  qed (rule failed_recovers [OF s1(3,2)])
  then show ?thesis by (rule exists_after [OF s1(1)])
qed

section \<open>A sample run\<close>

definition gate_admission :: HealthAdmission where
  "gate_admission = \<lparr>ha_generation = 1, ha_state = HomeHealthy, ha_counted = True\<rparr>"

definition sample_gate :: "nat list \<Rightarrow> health_system" where
  "sample_gate ts = \<lparr>hs_inner = \<lparr>hi_state = HomeHealthy, hi_generation = 1, hi_active = length ts, hi_maintenance = None\<rparr>,
     hs_gates = (\<lambda>t. if t \<in> set ts then [7] else []), hs_admissions = map (\<lambda>t. (t, gate_admission)) ts, hs_maintainer = NoMaintainer\<rparr>"

lemma sample_gate_admits:
  assumes "t \<notin> set ts" "length ts < 64"
  shows "health_step 7 (sample_gate ts) (sample_gate (t # ts))"
proof -
  have "admit_state 7 HomeHealthy (hs_gates (sample_gate ts) t) (hs_inner (sample_gate ts)) =
      GateReturns (Inr gate_admission, [7], (hs_inner (sample_gate ts))\<lparr>hi_active := Suc (length ts)\<rparr>)"
    using assms by (simp add: admit_state_def sample_gate_def Let_def thread_holds_gate_def mark_thread_admitted_def gate_admission_def
        usize_checked_add_def usize_max_def MAX_CONCURRENT_STORAGE_ADMISSIONS_def)
  from health_step.admit [OF this] show ?thesis
    using assms by (auto simp: sample_gate_def fun_upd_def fun_eq_iff cong: if_cong elim!: back_subst [of "health_step 7 _"])
qed

lemma sample_gate_open: "health_reach 7 (sample_gate [])"
proof -
  have "publish_opening 1 (hs_inner health_new) = Inr (hs_inner (sample_gate []))"
    by (simp add: publish_opening_def health_new_def health_opening_def home_generation_initial_def sample_gate_def)
  from health_step.publish_open [OF this, of 7] have "health_step 7 health_new (sample_gate [])"
    by (simp add: health_new_def sample_gate_def)
  then show ?thesis by (auto simp: health_reach_def)
qed

lemma sample_gate_reached: "health_reach 7 (sample_gate [1])"
  using sample_gate_open sample_gate_admits [of 1 "[]"] unfolding health_reach_def by (auto intro: rtranclp.rtrancl_into_rtrancl)

theorem gate_accounts_witness: "hi_active (hs_inner (sample_gate [1])) = card (fst ` set (hs_admissions (sample_gate [1])))"
  using gate_accounts [OF sample_gate_reached] by blast

theorem confirmed_operation_undisturbed_witness:
  "hi_state (hs_inner (sample_gate [1])) = HomeHealthy \<and> hi_state (hs_inner (sample_gate [2, 1])) = HomeHealthy \<and>
   hi_generation (hs_inner (sample_gate [1])) = ha_generation gate_admission"
proof -
  have "health_reach 7 (hd [sample_gate [1], sample_gate [2, 1]])" using sample_gate_reached by simp
  moreover have "health_path 7 [sample_gate [1], sample_gate [2, 1]]" by (simp add: sample_gate_admits)
  moreover have "\<forall>s\<in>set [sample_gate [1], sample_gate [2, 1]]. (1, gate_admission) \<in> set (hs_admissions s)" by (simp add: sample_gate_def)
  moreover have "admission_confirm gate_admission (hs_inner (last [sample_gate [1], sample_gate [2, 1]])) = Inr ()"
    by (simp add: admission_confirm_def gate_admission_def sample_gate_def)
  ultimately have "\<forall>s\<in>set [sample_gate [1], sample_gate [2, 1]]. hi_state (hs_inner s) = HomeHealthy \<and>
      hi_generation (hs_inner s) = ha_generation gate_admission"
    by (intro confirmed_operation_undisturbed) (simp_all add: gate_admission_def)
  then show ?thesis by simp
qed

theorem gate_recoverable_witness:
  "\<exists>s'. (health_step 7)\<^sup>*\<^sup>* (sample_gate [1]\<lparr>hs_inner := signal_failure Structural (hs_inner (sample_gate [1]))\<rparr>) s' \<and>
     hi_state (hs_inner s') = HomeHealthy \<and> hi_generation (hs_inner s') = 2"
proof (rule gate_recoverable)
  show "health_reach 7 (sample_gate [1]\<lparr>hs_inner := signal_failure Structural (hs_inner (sample_gate [1]))\<rparr>)"
    using sample_gate_reached health_step.failure [of 7] unfolding health_reach_def by (rule rtranclp.rtrancl_into_rtrancl)
qed (simp add: signal_failure_eq)

end
