(* ===== verification/Stream_Pool.thy ===== *)
theory Stream_Pool
  imports Beryl_Prelude
begin

text \<open>
  The pool of fixed-size pages of \<^verbatim>\<open>beryl-stream/src/page.rs\<close>: a stack of zeroed pages under a
  mutex, and leases that own one page each until they are dropped. Each operation is a function on
  the state that the mutex protects. A panic is \<open>None\<close>.
\<close>

section \<open>Pool and leases\<close>

record PagePoolState =
  pp_available :: "bytes list"
  pp_leased :: usize
  pp_high_water :: usize
  pp_total_leases :: u64
  pp_exhausted :: u64
  pp_next_generation :: u64

datatype PagePoolError =
    PoolSizeOverflow
  | PoolAllocationFailed
  | PoolExhausted
  | PoolGenerationExhausted
  | PoolInvalidLength usize usize

record PageLease =
  lease_page :: "bytes option"
  lease_valid_len :: usize
  lease_generation :: u64

text \<open>The success of the allocations is an argument.\<close>

definition page_pool_new :: "bool \<Rightarrow> usize \<Rightarrow> usize \<Rightarrow> PagePoolError + PagePoolState" where
  "page_pool_new allocated page_capacity page_count =
     and_then (ok_or PoolSizeOverflow (usize_checked_mul page_capacity page_count)) (\<lambda>_.
       if \<not> allocated then Inl PoolAllocationFailed
       else Inr \<lparr>pp_available = replicate page_count (replicate page_capacity 0), pp_leased = 0,
         pp_high_water = 0, pp_total_leases = 0, pp_exhausted = 0, pp_next_generation = 1\<rparr>)"

definition take_generation :: "u64 \<Rightarrow> u64 option \<times> u64" where
  "take_generation next_generation =
     (case checked_add next_generation 1 of
        None \<Rightarrow> (None, next_generation)
      | Some n \<Rightarrow> (Some next_generation, n))"

definition try_lease :: "PagePoolState \<Rightarrow> (PagePoolError + PageLease) \<times> PagePoolState" where
  "try_lease st =
     (if pp_available st = []
      then (Inl PoolExhausted, st\<lparr>pp_exhausted := saturating_add (pp_exhausted st) 1\<rparr>)
      else case take_generation (pp_next_generation st) of
        (None, n) \<Rightarrow> (Inl PoolGenerationExhausted,
          st\<lparr>pp_next_generation := n, pp_exhausted := saturating_add (pp_exhausted st) 1\<rparr>)
      | (Some generation, n) \<Rightarrow>
          (Inr \<lparr>lease_page = Some (last (pp_available st)), lease_valid_len = 0, lease_generation = generation\<rparr>,
           st\<lparr>pp_next_generation := n, pp_available := butlast (pp_available st),
             pp_leased := pp_leased st + 1,
             pp_high_water := max (pp_high_water st) (pp_leased st + 1),
             pp_total_leases := saturating_add (pp_total_leases st) 1\<rparr>))"

definition lease_as_slice :: "PageLease \<Rightarrow> bytes option" where
  "lease_as_slice l = (case lease_page l of
     Some page \<Rightarrow> if lease_valid_len l \<le> length page then Some (take (lease_valid_len l) page) else None
   | None \<Rightarrow> None)"

text \<open>\<^verbatim>\<open>buffer_mut\<close> hands out the page to be overwritten: what its user leaves there, of the same length.\<close>

definition lease_overwrite :: "bytes \<Rightarrow> PageLease \<Rightarrow> PageLease option" where
  "lease_overwrite bs l = (case lease_page l of
     Some page \<Rightarrow> if length bs = length page then Some (l\<lparr>lease_page := Some bs\<rparr>) else None
   | None \<Rightarrow> None)"

definition lease_set_len :: "usize \<Rightarrow> usize \<Rightarrow> PageLease \<Rightarrow> (PagePoolError + unit) \<times> PageLease" where
  "lease_set_len page_capacity valid_len l =
     (if page_capacity < valid_len then (Inl (PoolInvalidLength valid_len page_capacity), l)
      else (Inr (), l\<lparr>lease_valid_len := valid_len\<rparr>))"

definition lease_clear :: "PageLease \<Rightarrow> PageLease" where
  "lease_clear l = l\<lparr>lease_valid_len := 0\<rparr>"

definition lease_is_empty :: "PageLease \<Rightarrow> bool" where
  "lease_is_empty l \<longleftrightarrow> lease_valid_len l = 0"

definition drop_lease :: "PageLease \<Rightarrow> PagePoolState \<Rightarrow> PagePoolState option" where
  "drop_lease l st = (case lease_page l of
     None \<Rightarrow> Some st
   | Some page \<Rightarrow>
       if pp_leased st = 0 then None
       else Some (st\<lparr>pp_leased := pp_leased st - 1,
         pp_available := pp_available st @ [replicate (length page) 0]\<rparr>))"

record PagePoolDiagnostics =
  pd_page_capacity :: usize
  pd_page_count :: usize
  pd_available :: usize
  pd_leased :: usize
  pd_high_water :: usize
  pd_total_leases :: u64
  pd_exhausted :: u64

definition pool_diagnostics :: "usize \<Rightarrow> usize \<Rightarrow> PagePoolState \<Rightarrow> PagePoolDiagnostics" where
  "pool_diagnostics page_capacity page_count st =
     \<lparr>pd_page_capacity = page_capacity, pd_page_count = page_count,
      pd_available = length (pp_available st), pd_leased = pp_leased st,
      pd_high_water = pp_high_water st, pd_total_leases = pp_total_leases st,
      pd_exhausted = pp_exhausted st\<rparr>"

section \<open>Runs\<close>

text \<open>
  The pool together with the leases that are alive, by their generation. A run is any sequence of
  calls of the users of the pool; it collects the generations of the leases it granted.
\<close>

type_synonym leases = "u64 \<rightharpoonup> PageLease"

inductive pool_run ::
    "usize \<Rightarrow> PagePoolState \<Rightarrow> leases \<Rightarrow> u64 list \<Rightarrow> PagePoolState \<Rightarrow> leases \<Rightarrow> bool" for cap st0 live0 where
  start: "pool_run cap st0 live0 [] st0 live0"
| lease: "pool_run cap st0 live0 gs st live \<Longrightarrow> try_lease st = (Inr l, st') \<Longrightarrow>
    pool_run cap st0 live0 (gs @ [lease_generation l]) st' (live(lease_generation l \<mapsto> l))"
| refused: "pool_run cap st0 live0 gs st live \<Longrightarrow> try_lease st = (Inl e, st') \<Longrightarrow>
    pool_run cap st0 live0 gs st' live"
| overwrite: "pool_run cap st0 live0 gs st live \<Longrightarrow> live g = Some l \<Longrightarrow> lease_overwrite bs l = Some l' \<Longrightarrow>
    pool_run cap st0 live0 gs st (live(g \<mapsto> l'))"
| set_len: "pool_run cap st0 live0 gs st live \<Longrightarrow> live g = Some l \<Longrightarrow> lease_set_len cap n l = (r, l') \<Longrightarrow>
    pool_run cap st0 live0 gs st (live(g \<mapsto> l'))"
| clear: "pool_run cap st0 live0 gs st live \<Longrightarrow> live g = Some l \<Longrightarrow>
    pool_run cap st0 live0 gs st (live(g \<mapsto> lease_clear l))"
| release: "pool_run cap st0 live0 gs st live \<Longrightarrow> live g = Some l \<Longrightarrow> drop_lease l st = Some st' \<Longrightarrow>
    pool_run cap st0 live0 gs st' (live(g := None))"

section \<open>Invariant\<close>

definition lease_ok :: "usize \<Rightarrow> u64 \<Rightarrow> PageLease \<Rightarrow> bool" where
  "lease_ok cap g l \<longleftrightarrow> lease_generation l = g \<and> lease_valid_len l \<le> cap \<and>
     (\<exists>page. lease_page l = Some page \<and> length page = cap)"

definition pool_inv :: "usize \<Rightarrow> usize \<Rightarrow> PagePoolState \<Rightarrow> leases \<Rightarrow> bool" where
  "pool_inv cap count st live \<longleftrightarrow>
     set (pp_available st) \<subseteq> {replicate cap 0} \<and>
     finite (dom live) \<and> pp_leased st = card (dom live) \<and>
     pp_leased st + length (pp_available st) = count \<and>
     pp_leased st \<le> pp_high_water st \<and> pp_high_water st \<le> count \<and>
     unat (pp_next_generation st) = unat (pp_total_leases st) + 1 \<and>
     (\<forall>g l. live g = Some l \<longrightarrow> lease_ok cap g l \<and> g < pp_next_generation st)"

lemma pool_inv_new:
  assumes "page_pool_new allocated cap count = Inr st"
  shows "pool_inv cap count st Map.empty"
  using assms by (auto simp: page_pool_new_def pool_inv_def result_simps split: if_splits)

lemma pool_inv_live:
  "pool_inv cap count st live \<Longrightarrow> live g = Some l \<Longrightarrow> lease_ok cap g l"
  by (simp add: pool_inv_def)

lemma pool_inv_generation:
  "pool_inv cap count st live \<Longrightarrow> live g = Some l \<Longrightarrow> g < pp_next_generation st"
  by (simp add: pool_inv_def)

lemma try_lease_granted:
  assumes "try_lease st = (Inr l, st')"
  shows "pp_available st \<noteq> [] \<and> lease_page l = Some (last (pp_available st)) \<and> lease_valid_len l = 0 \<and>
    lease_generation l = pp_next_generation st \<and>
    unat (pp_next_generation st') = unat (pp_next_generation st) + 1 \<and>
    pp_available st' = butlast (pp_available st) \<and> pp_leased st' = pp_leased st + 1 \<and>
    pp_high_water st' = max (pp_high_water st) (pp_leased st + 1) \<and>
    pp_total_leases st' = saturating_add (pp_total_leases st) 1"
  using assms
  by (auto simp: try_lease_def take_generation_def dest: checked_add_SomeD split: if_splits option.splits)

lemma try_lease_refused:
  assumes "try_lease st = (Inl e, st')"
  shows "st' = st\<lparr>pp_exhausted := pp_exhausted st'\<rparr> \<and>
    (e = PoolExhausted \<and> pp_available st = [] \<or>
     e = PoolGenerationExhausted \<and> pp_available st \<noteq> [] \<and> pp_next_generation st = - 1)"
proof -
  have max: "pp_next_generation st = - 1" if "checked_add (pp_next_generation st) 1 = None"
    using that unat_less_exp [of "pp_next_generation st"]
    by (simp add: checked_add_None_iff word_unat_eq_iff unsigned_minus_1_eq_mask mask_eq_exp_minus_1
        del: unsigned_less)
  show ?thesis
    using assms max
    by (auto simp: try_lease_def take_generation_def split: if_splits option.splits)
qed

lemma pool_inv_exhausted [simp]: "pool_inv cap count (st\<lparr>pp_exhausted := n\<rparr>) live = pool_inv cap count st live"
  by (simp add: pool_inv_def)

lemma pool_inv_lease:
  assumes inv: "pool_inv cap count st live" and granted: "try_lease st = (Inr l, st')"
  shows "pool_inv cap count st' (live(lease_generation l \<mapsto> l)) \<and> live (lease_generation l) = None \<and>
    lease_page l = Some (replicate cap 0)"
proof -
  note l = try_lease_granted [OF granted]
  have fresh: "live (lease_generation l) = None"
    using inv l by (cases "live (lease_generation l)") (auto simp: pool_inv_def)
  have page: "lease_page l = Some (replicate cap 0)"
  proof -
    have "last (pp_available st) \<in> {replicate cap 0}"
      by (rule subsetD [OF _ last_in_set]) (use inv l in \<open>simp_all add: pool_inv_def\<close>)
    with l show ?thesis by simp
  qed
  have next_gen: "unat (pp_next_generation st') = unat (pp_total_leases st') + 1"
    using inv l unat_less_exp [of "pp_next_generation st'"]
    by (simp add: pool_inv_def unat_saturating_add del: unsigned_less)
  have later: "pp_next_generation st < pp_next_generation st'"
    using l by (simp add: word_less_nat_alt)
  have counts: "card (dom (live(lease_generation l \<mapsto> l))) = pp_leased st'"
    "pp_leased st' + length (pp_available st') = count"
    using inv l fresh by (auto simp: pool_inv_def card_insert_if domIff)
  have "lease_valid_len l = 0" using l by simp
  then have "lease_ok cap (lease_generation l) l" using page by (simp add: lease_ok_def)
  then have "lease_ok cap g k \<and> g < pp_next_generation st'" if "(live(lease_generation l \<mapsto> l)) g = Some k" for g k
  proof (cases "g = lease_generation l")
    case True
    with that \<open>lease_ok cap (lease_generation l) l\<close> later l show ?thesis by simp
  next
    case False
    with that have "live g = Some k" by simp
    then show ?thesis
      using pool_inv_live [OF inv] less_trans [OF pool_inv_generation [OF inv] later] by blast
  qed
  moreover have "set (pp_available st') \<subseteq> {replicate cap 0}"
    using inv l by (auto simp: pool_inv_def dest: in_set_butlastD)
  ultimately show ?thesis
    using inv l next_gen counts fresh page by (auto simp: pool_inv_def)
qed

lemma pool_inv_update:
  assumes "pool_inv cap count st live" and "live g = Some l" and "lease_ok cap g l'"
  shows "pool_inv cap count st (live(g \<mapsto> l'))"
proof -
  have "dom (live(g \<mapsto> l')) = dom live" using assms(2) by auto
  then show ?thesis using assms by (auto simp: pool_inv_def)
qed

lemma pool_inv_release:
  assumes inv: "pool_inv cap count st live" and live: "live g = Some l"
  shows "\<exists>st'. drop_lease l st = Some st' \<and> pool_inv cap count st' (live(g := None))"
proof -
  obtain page where page: "lease_page l = Some page" "length page = cap"
    using pool_inv_live [OF inv live] by (auto simp: lease_ok_def)
  have dom: "g \<in> dom live" "finite (dom live)" "pp_leased st = card (dom live)"
    using inv live by (auto simp: pool_inv_def)
  then have pos: "pp_leased st \<noteq> 0" by auto
  then obtain n where n: "pp_leased st = Suc n" by (cases "pp_leased st") auto
  have "card (dom (live(g := None))) = pp_leased st - 1" using dom by simp
  then have "pool_inv cap count (st\<lparr>pp_leased := pp_leased st - 1,
      pp_available := pp_available st @ [replicate (length page) 0]\<rparr>) (live(g := None))"
    using inv page n by (auto simp: pool_inv_def)
  then show ?thesis using page pos by (simp add: drop_lease_def)
qed

lemma pool_run_inv:
  assumes "pool_run cap st0 live0 gs st live" and "pool_inv cap count st0 live0"
  shows "pool_inv cap count st live"
  using assms
proof (induction rule: pool_run.induct)
  case (lease gs st live l st')
  then show ?case using pool_inv_lease by blast
next
  case (refused gs st live e st')
  then have "pool_inv cap count (st\<lparr>pp_exhausted := pp_exhausted st'\<rparr>) live" by simp
  then show ?case using try_lease_refused [OF refused.hyps(2)] by simp
next
  case (overwrite gs st live g l bs l')
  then have "lease_ok cap g l'"
    using pool_inv_live [of cap count st live g l]
    by (auto simp: lease_ok_def lease_overwrite_def split: option.splits if_splits)
  with overwrite show ?case by (blast intro: pool_inv_update)
next
  case (set_len gs st live g l n r l')
  then have "lease_ok cap g l'"
    using pool_inv_live [of cap count st live g l]
    by (auto simp: lease_ok_def lease_set_len_def split: if_splits)
  with set_len show ?case by (blast intro: pool_inv_update)
next
  case (clear gs st live g l)
  then have "lease_ok cap g (lease_clear l)"
    using pool_inv_live [of cap count st live g l] by (simp add: lease_ok_def lease_clear_def)
  with clear show ?case by (blast intro: pool_inv_update)
next
  case (release gs st live g l st')
  then show ?case using pool_inv_release [of cap count st live g l] by (auto simp del: fun_upd_apply)
qed

lemma drop_lease_generation: "drop_lease l st = Some st' \<Longrightarrow> pp_next_generation st' = pp_next_generation st"
  by (auto simp: drop_lease_def split: option.splits if_splits)

lemma pool_run_generations:
  assumes "pool_run cap st0 live0 gs st live" and "pp_next_generation st0 = 1"
  shows "map unat gs = [1..<unat (pp_next_generation st)] \<and> 1 \<le> unat (pp_next_generation st)"
  using assms
proof (induction rule: pool_run.induct)
  case (lease gs st live l st')
  then show ?case using try_lease_granted [OF lease.hyps(2)] by simp
next
  case (refused gs st live e st')
  moreover have "pp_next_generation st' = pp_next_generation st"
    using try_lease_refused [OF refused.hyps(2)] by (metis PagePoolState.select_convs(6) PagePoolState.surjective
        PagePoolState.update_convs(5))
  ultimately show ?case by simp
next
  case (release gs st live g l st')
  then show ?case using drop_lease_generation [of l st st'] by simp
qed auto

lemma sample_pool:
  "\<exists>st0 l st1 st2. page_pool_new True 4 1 = Inr st0 \<and> try_lease st0 = (Inr l, st1) \<and>
     pool_run 4 st0 Map.empty [1] st1 [1 \<mapsto> l] \<and> try_lease st1 = (Inl PoolExhausted, st2)"
proof -
  obtain st0 where st0: "page_pool_new True 4 1 = Inr st0"
    by (simp add: page_pool_new_def usize_checked_mul_def usize_max_def)
  then obtain l st1 where l: "try_lease st0 = (Inr l, st1)" "lease_generation l = 1" "pp_available st1 = []"
    by (auto simp: page_pool_new_def usize_checked_mul_def usize_max_def try_lease_def take_generation_def
        checked_add_def)
  have "pool_run 4 st0 Map.empty [1] st1 [1 \<mapsto> l]"
    using pool_run.lease [OF pool_run.start l(1), of 4 Map.empty] l(2) by simp
  then show ?thesis using st0 l by (auto simp: try_lease_def)
qed

text \<open>
  The pool accounts for its pages: in every state a run can reach, the pages on the stack and
  the live leases make up the pool, the stack holds only zeroed pages, every live lease owns a
  page of full size, the high-water mark bounds the leases, and dropping any of them succeeds.
\<close>

theorem pool_accounts:
  assumes "page_pool_new allocated cap count = Inr st0" and "pool_run cap st0 Map.empty gs st live"
  shows "card (dom live) + length (pp_available st) = count \<and> pp_leased st = card (dom live) \<and>
    pp_leased st \<le> pp_high_water st \<and> pp_high_water st \<le> count \<and>
    set (pp_available st) \<subseteq> {replicate cap 0} \<and>
    (\<forall>g l. live g = Some l \<longrightarrow> (\<exists>page st'. lease_page l = Some page \<and> length page = cap \<and>
      lease_as_slice l \<noteq> None \<and> drop_lease l st = Some st'))"
proof -
  have inv: "pool_inv cap count st live"
    using pool_run_inv [OF assms(2) pool_inv_new [OF assms(1)]] .
  have "\<exists>page st'. lease_page l = Some page \<and> length page = cap \<and>
      lease_as_slice l \<noteq> None \<and> drop_lease l st = Some st'" if "live g = Some l" for g l
    using pool_inv_live [OF inv that] pool_inv_release [OF inv that]
    by (auto simp: lease_ok_def lease_as_slice_def)
  with inv show ?thesis by (auto simp: pool_inv_def)
qed

theorem pool_accounts_witness:
  "\<exists>st0 st1 l. page_pool_new True 4 1 = Inr st0 \<and> pool_run 4 st0 Map.empty [1] st1 [1 \<mapsto> l] \<and>
     card (dom [1 :: u64 \<mapsto> l]) + length (pp_available st1) = 1 \<and> drop_lease l st1 \<noteq> None"
proof -
  obtain st0 l st1 where s: "page_pool_new True 4 1 = Inr st0" "pool_run 4 st0 Map.empty [1] st1 [1 \<mapsto> l]"
    using sample_pool by blast
  from pool_accounts [OF this] have "card (dom [1 :: u64 \<mapsto> l]) + length (pp_available st1) = 1"
    and drops: "\<forall>g k. [1 :: u64 \<mapsto> l] g = Some k \<longrightarrow> (\<exists>st'. drop_lease k st1 = Some st')" by blast+
  moreover have "\<exists>st'. drop_lease l st1 = Some st'" using drops [rule_format, of 1 l] by simp
  ultimately show ?thesis using s by blast
qed

text \<open>
  C38. Fresh pages. A lease that is granted after any run owns a page of zeros, whatever earlier
  leases wrote, with no valid bytes; its generation follows all earlier ones, which are counted
  from one without gap or repetition.
\<close>

theorem lease_is_fresh:
  assumes "page_pool_new allocated cap count = Inr st0" and "pool_run cap st0 Map.empty gs st live"
    and "try_lease st = (Inr l, st')"
  shows "lease_page l = Some (replicate cap 0) \<and> lease_as_slice l = Some [] \<and>
    map unat (gs @ [lease_generation l]) = [1..<length gs + 2]"
proof -
  have inv: "pool_inv cap count st live"
    using pool_run_inv [OF assms(2) pool_inv_new [OF assms(1)]] .
  have "pp_next_generation st0 = 1"
    using assms(1) by (auto simp: page_pool_new_def result_simps split: if_splits)
  from pool_run_generations [OF assms(2) this]
  have gs: "map unat gs = [1..<unat (pp_next_generation st)]" "1 \<le> unat (pp_next_generation st)" by auto
  then have "length gs = unat (pp_next_generation st) - 1" by (metis length_map length_upt)
  with gs have "map unat (gs @ [lease_generation l]) = [1..<length gs + 2]"
    using try_lease_granted [OF assms(3)] by simp
  then show ?thesis
    using pool_inv_lease [OF inv assms(3)] try_lease_granted [OF assms(3)] by (simp add: lease_as_slice_def)
qed

theorem lease_is_fresh_witness:
  "\<exists>st0 l st1. page_pool_new True 4 1 = Inr st0 \<and> try_lease st0 = (Inr l, st1) \<and>
     lease_page l = Some [0, 0, 0, 0] \<and> unat (lease_generation l) = 1"
proof -
  obtain st0 l st1 where s: "page_pool_new True 4 1 = Inr st0" "try_lease st0 = (Inr l, st1)"
    using sample_pool by blast
  from lease_is_fresh [OF s(1) pool_run.start s(2)] s show ?thesis
    by (auto simp: numeral_eq_Suc)
qed

text \<open>
  A lease is refused only for cause: because every page is leased, or because the generations
  are used up, which takes \<open>2\<^sup>6\<^sup>4 - 2\<close> leases; and then only the counter of refusals changes.
\<close>

theorem lease_refused_for_cause:
  assumes "page_pool_new allocated cap count = Inr st0" and "pool_run cap st0 Map.empty gs st live"
    and "try_lease st = (Inl e, st')"
  shows "(e = PoolExhausted \<and> card (dom live) = count \<or>
      e = PoolGenerationExhausted \<and> length gs = 2 ^ 64 - 2) \<and>
    st' = st\<lparr>pp_exhausted := pp_exhausted st'\<rparr>"
proof -
  have inv: "pool_inv cap count st live"
    using pool_run_inv [OF assms(2) pool_inv_new [OF assms(1)]] .
  have "pp_next_generation st0 = 1"
    using assms(1) by (auto simp: page_pool_new_def result_simps split: if_splits)
  then have "length gs = unat (pp_next_generation st) - 1"
    using pool_run_generations [OF assms(2)] by (metis length_map length_upt)
  then show ?thesis
    using try_lease_refused [OF assms(3)] inv
    by (auto simp: pool_inv_def unsigned_minus_1_eq_mask mask_eq_exp_minus_1)
qed

theorem lease_refused_for_cause_witness:
  "\<exists>st0 l st1 st2. page_pool_new True 4 1 = Inr st0 \<and> pool_run 4 st0 Map.empty [1] st1 [1 \<mapsto> l] \<and>
     try_lease st1 = (Inl PoolExhausted, st2) \<and> card (dom [1 :: u64 \<mapsto> l]) = 1"
proof -
  obtain st0 l st1 st2 where s: "page_pool_new True 4 1 = Inr st0" "pool_run 4 st0 Map.empty [1] st1 [1 \<mapsto> l]"
    "try_lease st1 = (Inl PoolExhausted, st2)" using sample_pool by blast
  from lease_refused_for_cause [OF this] s show ?thesis by blast
qed

end
