(* ===== verification/Stream_Channel.thy ===== *)
theory Stream_Channel
  imports Beryl_Prelude
begin

text \<open>
  The fixed-capacity channel of \<^verbatim>\<open>beryl-stream/src/channel.rs\<close>: a ring of slots under one mutex,
  shared by a sender and a receiver. Each operation is a function on the state that the mutex
  protects; an operation that waits is a loop of such functions, one for each time it holds the
  mutex. A panic (an index out of range, or \<^verbatim>\<open>expect\<close> on an empty slot) is \<open>None\<close>.
\<close>

section \<open>State\<close>

record 'a ChannelState =
  ch_slots :: "'a option list"
  ch_head :: usize
  ch_tail :: usize
  ch_len :: usize
  ch_sender_open :: bool
  ch_receiver_open :: bool
  ch_sends :: u64
  ch_receives :: u64
  ch_send_waits :: u64
  ch_receive_waits :: u64
  ch_send_timeouts :: u64
  ch_receive_timeouts :: u64
  ch_full :: u64
  ch_high_water :: usize

datatype ChannelBuildError = ChannelSizeOverflow | ChannelAllocationFailed

datatype 'a SendError = Full 'a | SendTimeout 'a | SendClosed 'a

datatype ReceiveError = Empty | ReceiveClosed

text \<open>
  \<^verbatim>\<open>Layout::array\<close> fails if the size of the array exceeds \<^verbatim>\<open>isize::MAX\<close> when rounded up to the
  alignment. Size and alignment of \<^verbatim>\<open>Option<T>\<close> and the success of the allocation are arguments.
\<close>

definition layout_array_ok :: "usize \<Rightarrow> usize \<Rightarrow> usize \<Rightarrow> bool" where
  "layout_array_ok elem_size align n \<longleftrightarrow> elem_size = 0 \<or> n \<le> (2 ^ 63 - align) div elem_size"

definition fixed_channel ::
    "usize \<Rightarrow> usize \<Rightarrow> bool \<Rightarrow> usize \<Rightarrow> ChannelBuildError + 'a ChannelState" where
  "fixed_channel elem_size align allocated capacity =
     (if \<not> layout_array_ok elem_size align capacity then Inl ChannelSizeOverflow
      else if \<not> allocated then Inl ChannelAllocationFailed
      else Inr \<lparr>ch_slots = replicate capacity None, ch_head = 0, ch_tail = 0, ch_len = 0,
        ch_sender_open = True, ch_receiver_open = True, ch_sends = 0, ch_receives = 0,
        ch_send_waits = 0, ch_receive_waits = 0, ch_send_timeouts = 0, ch_receive_timeouts = 0,
        ch_full = 0, ch_high_water = 0\<rparr>)"

section \<open>Sending\<close>

text \<open>The part of \<^verbatim>\<open>try_send\<close> and of \<^verbatim>\<open>send_timeout\<close> that stores the message.\<close>

definition put_tail :: "usize \<Rightarrow> 'a \<Rightarrow> 'a ChannelState \<Rightarrow> 'a ChannelState option" where
  "put_tail capacity message st =
     (let tail = ch_tail st in
      if tail < length (ch_slots st)
      then Some (st\<lparr>ch_slots := (ch_slots st)[tail := Some message],
        ch_tail := (tail + 1) mod capacity,
        ch_len := ch_len st + 1,
        ch_high_water := max (ch_high_water st) (ch_len st + 1),
        ch_sends := saturating_add (ch_sends st) 1\<rparr>)
      else None)"

definition try_send ::
    "usize \<Rightarrow> 'a \<Rightarrow> 'a ChannelState \<Rightarrow> (('a SendError + unit) \<times> 'a ChannelState) option" where
  "try_send capacity message st =
     (if \<not> ch_receiver_open st then Some (Inl (SendClosed message), st)
      else if ch_len st = capacity
      then Some (Inl (Full message), st\<lparr>ch_full := saturating_add (ch_full st) 1\<rparr>)
      else map_option (Pair (Inr ())) (put_tail capacity message st))"

text \<open>
  One pass of a waiting loop either returns, or releases the mutex and waits, having recorded
  that it waited. An instant is a natural number; the deadline is absent if its computation
  overflowed.
\<close>

datatype 'r pass = Return 'r | Wait

definition send_pass ::
    "usize \<Rightarrow> 'a \<Rightarrow> nat option \<Rightarrow> nat \<Rightarrow> bool \<Rightarrow> 'a ChannelState \<Rightarrow>
     (('a SendError + unit) pass \<times> 'a ChannelState) option" where
  "send_pass capacity message deadline now recorded_wait st =
     (if \<not> ch_receiver_open st then Some (Return (Inl (SendClosed message)), st)
      else if ch_len st < capacity
      then map_option (Pair (Return (Inr ()))) (put_tail capacity message st)
      else case deadline of
        None \<Rightarrow> Some (Return (Inl (SendTimeout message)),
          st\<lparr>ch_send_timeouts := saturating_add (ch_send_timeouts st) 1\<rparr>)
      | Some d \<Rightarrow>
          if d \<le> now then Some (Return (Inl (SendTimeout message)),
            st\<lparr>ch_send_timeouts := saturating_add (ch_send_timeouts st) 1\<rparr>)
          else Some (Wait, if recorded_wait then st
            else st\<lparr>ch_send_waits := saturating_add (ch_send_waits st) 1\<rparr>))"

section \<open>Receiving\<close>

definition take_head :: "usize \<Rightarrow> 'a ChannelState \<Rightarrow> ('a \<times> 'a ChannelState) option" where
  "take_head capacity st =
     (let head = ch_head st in
      if head < length (ch_slots st)
      then (case ch_slots st ! head of
          None \<Rightarrow> None
        | Some message \<Rightarrow> Some (message,
            st\<lparr>ch_slots := (ch_slots st)[head := None],
              ch_head := (head + 1) mod capacity,
              ch_len := ch_len st - 1,
              ch_receives := saturating_add (ch_receives st) 1\<rparr>))
      else None)"

definition try_receive ::
    "usize \<Rightarrow> 'a ChannelState \<Rightarrow> ((ReceiveError + 'a) \<times> 'a ChannelState) option" where
  "try_receive capacity st =
     (if ch_len st = 0
      then Some (Inl (if ch_sender_open st then Empty else ReceiveClosed), st)
      else map_option (map_prod Inr id) (take_head capacity st))"

definition receive_pass ::
    "usize \<Rightarrow> nat option \<Rightarrow> nat \<Rightarrow> bool \<Rightarrow> 'a ChannelState \<Rightarrow>
     ((ReceiveError + 'a option) pass \<times> 'a ChannelState) option" where
  "receive_pass capacity deadline now recorded_wait st =
     (if 0 < ch_len st
      then map_option (map_prod (\<lambda>m. Return (Inr (Some m))) id) (take_head capacity st)
      else if \<not> ch_sender_open st then Some (Return (Inl ReceiveClosed), st)
      else case deadline of
        None \<Rightarrow> Some (Return (Inr None),
          st\<lparr>ch_receive_timeouts := saturating_add (ch_receive_timeouts st) 1\<rparr>)
      | Some d \<Rightarrow>
          if d \<le> now then Some (Return (Inr None),
            st\<lparr>ch_receive_timeouts := saturating_add (ch_receive_timeouts st) 1\<rparr>)
          else Some (Wait, if recorded_wait then st
            else st\<lparr>ch_receive_waits := saturating_add (ch_receive_waits st) 1\<rparr>))"

definition drop_sender :: "'a ChannelState \<Rightarrow> 'a ChannelState" where
  "drop_sender st = st\<lparr>ch_sender_open := False\<rparr>"

definition drop_receiver :: "'a ChannelState \<Rightarrow> 'a ChannelState" where
  "drop_receiver st = st\<lparr>ch_receiver_open := False\<rparr>"

section \<open>Waiting loops\<close>

text \<open>
  A loop passes once for each wake-up. A wake-up gives the instant that the pass reads and what
  the other threads did to the state while this one waited after the pass. With no wake-up left
  the call is still waiting.
\<close>

datatype 'r call = Panicked | Waiting | Returned 'r

type_synonym 'a wakeup = "nat \<times> ('a ChannelState \<Rightarrow> 'a ChannelState)"

fun loop_passes ::
    "(nat \<Rightarrow> bool \<Rightarrow> 'a ChannelState \<Rightarrow> ('r pass \<times> 'a ChannelState) option) \<Rightarrow> bool \<Rightarrow>
     'a wakeup list \<Rightarrow> 'a ChannelState \<Rightarrow> ('r \<times> 'a ChannelState) call" where
  "loop_passes step recorded [] st = Waiting"
| "loop_passes step recorded ((now, others) # ws) st =
     (case step now recorded st of
        None \<Rightarrow> Panicked
      | Some (Return r, st') \<Rightarrow> Returned (r, st')
      | Some (Wait, st') \<Rightarrow> loop_passes step True ws (others st'))"

definition send_timeout ::
    "usize \<Rightarrow> 'a \<Rightarrow> nat option \<Rightarrow> 'a wakeup list \<Rightarrow> 'a ChannelState \<Rightarrow>
     (('a SendError + unit) \<times> 'a ChannelState) call" where
  "send_timeout capacity message deadline = loop_passes (send_pass capacity message deadline) False"

definition receive_timeout ::
    "usize \<Rightarrow> nat option \<Rightarrow> 'a wakeup list \<Rightarrow> 'a ChannelState \<Rightarrow>
     ((ReceiveError + 'a option) \<times> 'a ChannelState) call" where
  "receive_timeout capacity deadline = loop_passes (receive_pass capacity deadline) False"

record ChannelDiagnostics =
  cd_capacity :: usize
  cd_len :: usize
  cd_sender_open :: bool
  cd_receiver_open :: bool
  cd_sends :: u64
  cd_receives :: u64
  cd_send_waits :: u64
  cd_receive_waits :: u64
  cd_send_timeouts :: u64
  cd_receive_timeouts :: u64
  cd_full :: u64
  cd_high_water :: usize

definition channel_diagnostics :: "usize \<Rightarrow> 'a ChannelState \<Rightarrow> ChannelDiagnostics" where
  "channel_diagnostics capacity st =
     \<lparr>cd_capacity = capacity, cd_len = ch_len st, cd_sender_open = ch_sender_open st,
      cd_receiver_open = ch_receiver_open st, cd_sends = ch_sends st, cd_receives = ch_receives st,
      cd_send_waits = ch_send_waits st, cd_receive_waits = ch_receive_waits st,
      cd_send_timeouts = ch_send_timeouts st, cd_receive_timeouts = ch_receive_timeouts st,
      cd_full = ch_full st, cd_high_water = ch_high_water st\<rparr>"

section \<open>A bounded queue\<close>

text \<open>
  What the users of the ring rely on: a put appends to the contents, a take removes their head,
  and neither fails while there is room, or something to take.
\<close>

locale bounded_queue =
  fixes inv :: "'s \<Rightarrow> bool" and contents :: "'s \<Rightarrow> 'a list" and room :: nat
    and put :: "'a \<Rightarrow> 's \<Rightarrow> 's option" and get :: "'s \<Rightarrow> ('a \<times> 's) option"
  assumes put_law: "inv s \<Longrightarrow> length (contents s) < room \<Longrightarrow>
      \<exists>s'. put m s = Some s' \<and> inv s' \<and> contents s' = contents s @ [m]"
    and get_law: "inv s \<Longrightarrow> contents s \<noteq> [] \<Longrightarrow>
      \<exists>s'. get s = Some (hd (contents s), s') \<and> inv s' \<and> contents s' = tl (contents s)"
    and room_law: "inv s \<Longrightarrow> length (contents s) \<le> room"
begin

lemma put_fifo:
  assumes "inv s" "length (contents s) < room" "put m s = Some s'" "sent = received @ contents s"
  shows "inv s' \<and> sent @ [m] = received @ contents s'"
  using put_law [OF assms(1,2), of m] assms(3,4) by auto

lemma get_fifo:
  assumes "inv s" "contents s \<noteq> []" "get s = Some (m, s')" "sent = received @ contents s"
  shows "inv s' \<and> sent = (received @ [m]) @ contents s'"
  using get_law [OF assms(1,2)] assms(2-4) by auto

end

section \<open>The ring is a bounded queue\<close>

definition chan_inv :: "usize \<Rightarrow> 'a ChannelState \<Rightarrow> bool" where
  "chan_inv cap st \<longleftrightarrow> length (ch_slots st) = cap \<and> ch_head st < cap \<and> ch_len st \<le> cap \<and>
     ch_tail st = (ch_head st + ch_len st) mod cap \<and>
     ch_len st \<le> ch_high_water st \<and> ch_high_water st \<le> cap \<and>
     (\<forall>k<cap. ch_slots st ! ((ch_head st + k) mod cap) \<noteq> None \<longleftrightarrow> k < ch_len st)"

definition contents :: "usize \<Rightarrow> 'a ChannelState \<Rightarrow> 'a list" where
  "contents cap st = map (\<lambda>k. the (ch_slots st ! ((ch_head st + k) mod cap))) [0..<ch_len st]"

lemma length_contents [simp]: "length (contents cap st) = ch_len st"
  by (simp add: contents_def)

lemma contents_eq_Nil: "contents cap st = [] \<longleftrightarrow> ch_len st = 0"
  by (simp add: contents_def)

lemma ring_position_le:
  assumes "(h + a) mod c = (h + b) mod c" "a \<le> b" "b < (c :: nat)"
  shows "a = b"
proof -
  have "c dvd (h + b) - (h + a)"
    using assms by (subst mod_eq_dvd_iff_nat [symmetric]) simp_all
  then have "c dvd b - a" by simp
  then show ?thesis using assms by (auto dest: dvd_imp_le)
qed

lemma ring_position_inj:
  assumes "(h + a) mod c = (h + b) mod c" "a < c" "b < (c :: nat)"
  shows "a = b"
  using ring_position_le [of h a c b] ring_position_le [of h b c a] assms by (cases "a \<le> b") simp_all

lemma put_tail_queue:
  assumes inv: "chan_inv cap st" and room: "ch_len st < cap"
  shows "\<exists>st'. put_tail cap m st = Some st' \<and> chan_inv cap st' \<and> contents cap st' = contents cap st @ [m]"
proof -
  let ?pos = "\<lambda>k. (ch_head st + k) mod cap"
  have cap: "0 < cap" using room by simp
  have other: "?pos k \<noteq> ch_tail st" if "k < cap" "k \<noteq> ch_len st" for k
    using inv that ring_position_inj [of "ch_head st" k cap "ch_len st"] room
    by (auto simp: chan_inv_def)
  have tail: "ch_tail st < length (ch_slots st)" using inv cap by (simp add: chan_inv_def)
  have next_tail: "(ch_tail st + 1) mod cap = (ch_head st + (ch_len st + 1)) mod cap"
    using inv by (simp add: chan_inv_def mod_simps)
  have slot: "((ch_slots st)[ch_tail st := Some m]) ! ?pos k =
      (if k = ch_len st then Some m else ch_slots st ! ?pos k)" if "k < cap" for k
    using that other [OF that] inv tail by (auto simp: chan_inv_def)
  define st' where "st' = st\<lparr>ch_slots := (ch_slots st)[ch_tail st := Some m],
        ch_tail := (ch_tail st + 1) mod cap, ch_len := ch_len st + 1,
        ch_high_water := max (ch_high_water st) (ch_len st + 1),
        ch_sends := saturating_add (ch_sends st) 1\<rparr>"
  have "put_tail cap m st = Some st'"
    using tail by (simp add: put_tail_def Let_def st'_def)
  moreover have "chan_inv cap st'"
    unfolding chan_inv_def using inv room slot
    by (auto simp: st'_def chan_inv_def next_tail mod_Suc_eq)
  moreover have "contents cap st' = contents cap st @ [m]"
    using slot room by (simp add: contents_def st'_def)
  ultimately show ?thesis by blast
qed

lemma take_head_queue:
  assumes inv: "chan_inv cap st" and some: "0 < ch_len st"
  shows "\<exists>st'. take_head cap st = Some (hd (contents cap st), st') \<and> chan_inv cap st' \<and>
    contents cap st' = tl (contents cap st)"
proof -
  let ?pos = "\<lambda>k. (ch_head st + k) mod cap"
  have head: "ch_head st < cap" "length (ch_slots st) = cap" "?pos 0 = ch_head st" "ch_len st \<le> cap"
    using inv by (simp_all add: chan_inv_def)
  have occupied: "\<And>k. k < cap \<Longrightarrow> ch_slots st ! ?pos k \<noteq> None \<longleftrightarrow> k < ch_len st"
    using inv by (simp add: chan_inv_def)
  obtain m where m: "ch_slots st ! ch_head st = Some m"
    using occupied [of 0] some head by auto
  have next_pos: "((ch_head st + 1) mod cap + k) mod cap = ?pos (k + 1)" for k
    by (simp add: mod_simps ac_simps)
  have slot: "((ch_slots st)[ch_head st := None]) ! ?pos (k + 1) =
      (if k + 1 < cap then ch_slots st ! ?pos (k + 1) else None)" if "k < cap" for k
  proof (cases "k + 1 < cap")
    case True
    then show ?thesis using head ring_position_inj [of "ch_head st" "k + 1" cap 0]
      by (auto simp: nth_list_update)
  next
    case False
    then have "k + 1 = cap" using that by simp
    then have "?pos (k + 1) = ch_head st" using head by simp
    then show ?thesis using False head by simp
  qed
  define st' where "st' = st\<lparr>ch_slots := (ch_slots st)[ch_head st := None],
        ch_head := (ch_head st + 1) mod cap, ch_len := ch_len st - 1,
        ch_receives := saturating_add (ch_receives st) 1\<rparr>"
  have cont: "contents cap st = m # contents cap st'"
  proof -
    have "[0..<ch_len st] = 0 # map Suc [0..<ch_len st - 1]"
      using some by (metis Suc_diff_1 map_Suc_upt upt_rec)
    then show ?thesis
      using m head slot next_pos by (auto simp: contents_def st'_def)
  qed
  have "take_head cap st = Some (m, st')"
    using head m by (simp add: take_head_def Let_def st'_def)
  moreover have "chan_inv cap st'"
  proof -
    have "ch_tail st = ((ch_head st + 1) mod cap + (ch_len st - 1)) mod cap"
      using inv some next_pos [of "ch_len st - 1"] by (simp add: chan_inv_def)
    moreover have "ch_slots st' ! ((ch_head st' + k) mod cap) \<noteq> None \<longleftrightarrow> k < ch_len st'" if "k < cap" for k
      using slot [OF that] next_pos [of k] occupied [of "k + 1"] head that by (auto simp: st'_def)
    ultimately show ?thesis
      using inv head by (auto simp: chan_inv_def st'_def)
  qed
  ultimately show ?thesis using cont by simp
qed

interpretation ring: bounded_queue "chan_inv cap" "contents cap" cap "put_tail cap" "take_head cap" for cap
proof (unfold_locales, goal_cases)
  case (1 s m)
  then show ?case using put_tail_queue [of cap s m] by simp
next
  case (2 s)
  then show ?case using take_head_queue [of cap s] by (simp add: contents_eq_Nil)
next
  case (3 s)
  then show ?case by (simp add: chan_inv_def)
qed

text \<open>The fields that no operation of the ring looks at do not matter for the queue.\<close>

lemma chan_inv_counters [simp]:
  "chan_inv cap (st\<lparr>ch_full := n\<rparr>) = chan_inv cap st"
  "chan_inv cap (st\<lparr>ch_send_timeouts := n\<rparr>) = chan_inv cap st"
  "chan_inv cap (st\<lparr>ch_send_waits := n\<rparr>) = chan_inv cap st"
  "chan_inv cap (st\<lparr>ch_receive_timeouts := n\<rparr>) = chan_inv cap st"
  "chan_inv cap (st\<lparr>ch_receive_waits := n\<rparr>) = chan_inv cap st"
  "chan_inv cap (st\<lparr>ch_sender_open := b\<rparr>) = chan_inv cap st"
  "chan_inv cap (st\<lparr>ch_receiver_open := b\<rparr>) = chan_inv cap st"
  by (simp_all add: chan_inv_def)

lemma contents_counters [simp]:
  "contents cap (st\<lparr>ch_full := n\<rparr>) = contents cap st"
  "contents cap (st\<lparr>ch_send_timeouts := n\<rparr>) = contents cap st"
  "contents cap (st\<lparr>ch_send_waits := n\<rparr>) = contents cap st"
  "contents cap (st\<lparr>ch_receive_timeouts := n\<rparr>) = contents cap st"
  "contents cap (st\<lparr>ch_receive_waits := n\<rparr>) = contents cap st"
  "contents cap (st\<lparr>ch_sender_open := b\<rparr>) = contents cap st"
  "contents cap (st\<lparr>ch_receiver_open := b\<rparr>) = contents cap st"
  by (simp_all add: contents_def)

lemma fixed_channel_inv:
  assumes "fixed_channel elem_size align allocated cap = Inr st" and "0 < cap"
  shows "chan_inv cap st \<and> contents cap st = [] \<and> ch_sender_open st \<and> ch_receiver_open st"
  using assms by (auto simp: fixed_channel_def chan_inv_def contents_def split: if_splits)

section \<open>Interleavings\<close>

text \<open>
  A run of the channel is any sequence of the critical sections of its users: the calls that do
  not wait, each single pass of a call that waits, and the two drops. A handle that was dropped
  is no longer used.
\<close>

datatype 'a event = Sent 'a | Received 'a | Refused | AtEnd | Quiet | SenderDropped | ReceiverDropped

fun send_event :: "'a \<Rightarrow> 'a SendError + unit \<Rightarrow> 'a event" where
  "send_event m (Inr ()) = Sent m"
| "send_event m (Inl e) = Refused"

fun receive_event :: "ReceiveError + 'a option \<Rightarrow> 'a event" where
  "receive_event (Inr (Some m)) = Received m"
| "receive_event (Inr None) = Quiet"
| "receive_event (Inl ReceiveClosed) = AtEnd"
| "receive_event (Inl Empty) = Quiet"

fun pass_event :: "('r \<Rightarrow> 'a event) \<Rightarrow> 'r pass \<Rightarrow> 'a event" where
  "pass_event f (Return r) = f r"
| "pass_event f Wait = Quiet"

inductive chan_step :: "usize \<Rightarrow> 'a ChannelState \<Rightarrow> 'a event \<Rightarrow> 'a ChannelState \<Rightarrow> bool" for cap where
  try_send: "ch_sender_open st \<Longrightarrow> try_send cap m st = Some (r, st') \<Longrightarrow>
    chan_step cap st (send_event m r) st'"
| send_pass: "ch_sender_open st \<Longrightarrow> send_pass cap m deadline now rw st = Some (p, st') \<Longrightarrow>
    chan_step cap st (pass_event (send_event m) p) st'"
| try_receive: "ch_receiver_open st \<Longrightarrow> try_receive cap st = Some (r, st') \<Longrightarrow>
    chan_step cap st (receive_event (map_sum id Some r)) st'"
| receive_pass: "ch_receiver_open st \<Longrightarrow> receive_pass cap deadline now rw st = Some (p, st') \<Longrightarrow>
    chan_step cap st (pass_event receive_event p) st'"
| drop_sender: "ch_sender_open st \<Longrightarrow> chan_step cap st SenderDropped (drop_sender st)"
| drop_receiver: "ch_receiver_open st \<Longrightarrow> chan_step cap st ReceiverDropped (drop_receiver st)"

inductive chan_run :: "usize \<Rightarrow> 'a ChannelState \<Rightarrow> 'a event list \<Rightarrow> 'a ChannelState \<Rightarrow> bool" for cap where
  start: "chan_run cap st [] st"
| step: "chan_run cap st es st' \<Longrightarrow> chan_step cap st' e st'' \<Longrightarrow> chan_run cap st (es @ [e]) st''"

definition sent :: "'a event list \<Rightarrow> 'a list" where
  "sent es = List.map_filter (\<lambda>e. case e of Sent m \<Rightarrow> Some m | _ \<Rightarrow> None) es"

definition received :: "'a event list \<Rightarrow> 'a list" where
  "received es = List.map_filter (\<lambda>e. case e of Received m \<Rightarrow> Some m | _ \<Rightarrow> None) es"

lemma sent_simps [simp]:
  "sent [] = []" "sent (es @ [e]) = sent es @ (case e of Sent m \<Rightarrow> [m] | _ \<Rightarrow> [])"
  by (auto simp: sent_def List.map_filter_def split: event.splits)

lemma received_simps [simp]:
  "received [] = []" "received (es @ [e]) = received es @ (case e of Received m \<Rightarrow> [m] | _ \<Rightarrow> [])"
  by (auto simp: received_def List.map_filter_def split: event.splits)

text \<open>What one critical section does to the queue and to the two ends.\<close>

definition event_effect :: "usize \<Rightarrow> 'a ChannelState \<Rightarrow> 'a event \<Rightarrow> 'a ChannelState \<Rightarrow> bool" where
  "event_effect cap st e st' \<longleftrightarrow> chan_inv cap st' \<and>
     (case e of
        Sent m \<Rightarrow> contents cap st' = contents cap st @ [m] \<and> ch_receiver_open st \<and> ch_sender_open st
      | Received m \<Rightarrow> contents cap st = m # contents cap st'
      | AtEnd \<Rightarrow> contents cap st' = [] \<and> contents cap st = [] \<and> \<not> ch_sender_open st
      | _ \<Rightarrow> contents cap st' = contents cap st) \<and>
     (ch_sender_open st' \<longleftrightarrow> ch_sender_open st \<and> e \<noteq> SenderDropped) \<and>
     (ch_receiver_open st' \<longleftrightarrow> ch_receiver_open st \<and> e \<noteq> ReceiverDropped)"

lemma put_tail_open:
  "put_tail cap m st = Some st' \<Longrightarrow>
     ch_sender_open st' = ch_sender_open st \<and> ch_receiver_open st' = ch_receiver_open st"
  by (auto simp: put_tail_def Let_def split: if_splits)

lemma take_head_open:
  "take_head cap st = Some (m, st') \<Longrightarrow>
     ch_sender_open st' = ch_sender_open st \<and> ch_receiver_open st' = ch_receiver_open st"
  by (auto simp: take_head_def Let_def split: if_splits option.splits)

lemma put_tail_effect:
  assumes "chan_inv cap st" "ch_len st < cap" "put_tail cap m st = Some st'"
    and "ch_sender_open st" "ch_receiver_open st"
  shows "event_effect cap st (Sent m) st'"
  using put_tail_queue [OF assms(1,2), of m] put_tail_open [OF assms(3)] assms(3-5)
  by (auto simp: event_effect_def)

lemma take_head_effect:
  assumes "chan_inv cap st" "0 < ch_len st" "take_head cap st = Some (m, st')"
  shows "event_effect cap st (Received m) st'"
proof -
  have "contents cap st \<noteq> []" using assms(2) by (simp add: contents_eq_Nil)
  then show ?thesis
    using take_head_queue [OF assms(1,2)] take_head_open [OF assms(3)] assms(3)
    by (auto simp: event_effect_def)
qed

lemma len_neq_less: "chan_inv cap st \<Longrightarrow> ch_len st \<noteq> cap \<Longrightarrow> ch_len st < cap"
  by (simp add: chan_inv_def)

lemma chan_step_effect:
  assumes "chan_step cap st e st'" and "chan_inv cap st"
  shows "event_effect cap st e st'"
  using assms
proof (cases rule: chan_step.cases)
  case (try_send m r)
  then show ?thesis using assms(2) put_tail_effect [OF assms(2) len_neq_less [OF assms(2)]]
    by (auto simp: try_send_def event_effect_def split: if_splits)
next
  case (send_pass m deadline now rw p)
  then show ?thesis using assms(2) put_tail_effect [OF assms(2)]
    by (auto simp: send_pass_def event_effect_def split: if_splits option.splits)
next
  case (try_receive r)
  then show ?thesis using assms(2) take_head_effect [OF assms(2)]
    by (auto simp: try_receive_def event_effect_def contents_eq_Nil split: if_splits)
next
  case (receive_pass deadline now rw p)
  then show ?thesis using assms(2) take_head_effect [OF assms(2)]
    by (auto simp: receive_pass_def event_effect_def contents_eq_Nil split: if_splits option.splits)
qed (use assms(2) in \<open>auto simp: drop_sender_def drop_receiver_def event_effect_def\<close>)

lemma chan_run_fifo:
  assumes "chan_run cap st0 es st" and "chan_inv cap st0" and "contents cap st0 = []"
  shows "chan_inv cap st \<and> sent es = received es @ contents cap st \<and>
    (AtEnd \<in> set es \<longrightarrow> \<not> ch_sender_open st \<and> contents cap st = [])"
  using assms
proof (induction rule: chan_run.induct)
  case (step st es st' e st'')
  then show ?case
    using chan_step_effect [OF step.hyps(2)]
    by (auto simp: event_effect_def split: event.splits)
qed simp

text \<open>
  C37. The channel delivers in order, without loss or duplication, under every interleaving: what
  was received, followed by what the ring holds, is what was sent; the ring never holds more than
  its capacity; and when the receiver is told that the sender is gone it has received everything.
\<close>

theorem channel_fifo:
  assumes "fixed_channel elem_size align allocated cap = Inr st0" and "0 < cap"
    and "chan_run cap st0 es st"
  shows "sent es = received es @ contents cap st \<and> length (contents cap st) \<le> cap \<and>
    (AtEnd \<in> set es \<longrightarrow> received es = sent es)"
  using chan_run_fifo [OF assms(3)] fixed_channel_inv [OF assms(1,2)] ring.room_law [of cap st] by auto

lemma sample_channel_run:
  "\<exists>st0 st. fixed_channel 16 8 True 2 = Inr st0 \<and> chan_run 2 st0 [Sent (7 :: nat), Received 7] st"
proof -
  obtain st0 :: "nat ChannelState" where st0: "fixed_channel 16 8 True 2 = Inr st0"
    by (simp add: fixed_channel_def layout_array_ok_def)
  then obtain st1 where st1: "try_send 2 7 st0 = Some (Inr (), st1)" and open1: "ch_receiver_open st1"
    by (auto simp: fixed_channel_def layout_array_ok_def try_send_def put_tail_def Let_def)
  obtain st2 where st2: "try_receive 2 st1 = Some (Inr 7, st2)"
    using st0 st1 by (auto simp: fixed_channel_def layout_array_ok_def try_send_def put_tail_def
        try_receive_def take_head_def Let_def)
  have s1: "chan_step 2 st0 (Sent 7) st1"
    using chan_step.try_send [OF _ st1] st0 by (auto simp: fixed_channel_def layout_array_ok_def)
  have s2: "chan_step 2 st1 (Received 7) st2"
    using chan_step.try_receive [OF open1 st2] by simp
  show ?thesis
    using chan_run.step [OF chan_run.step [OF chan_run.start s1] s2] st0 by auto
qed

theorem channel_fifo_witness:
  "\<exists>st. sent [Sent (7 :: nat), Received 7] = received [Sent 7, Received 7] @ contents 2 st \<and>
     length (contents 2 st) \<le> 2"
proof -
  obtain st0 st where run: "fixed_channel 16 8 True 2 = Inr st0" "chan_run 2 st0 [Sent (7 :: nat), Received 7] st"
    using sample_channel_run by blast
  show ?thesis using channel_fifo [OF run(1) _ run(2)] by auto
qed

text \<open>
  In every state a run can reach, no call panics, and the calls that do not wait return what
  the queue says: a message is handed back exactly if the receiver is gone or the ring is full,
  and the receiver gets the oldest message, or learns whether the sender is gone.
\<close>

theorem channel_calls_decided:
  assumes "fixed_channel elem_size align allocated cap = Inr st0" and "0 < cap"
    and "chan_run cap st0 es st"
  shows "(\<exists>st'. try_send cap m st = Some (
        if \<not> ch_receiver_open st then Inl (SendClosed m)
        else if length (contents cap st) = cap then Inl (Full m) else Inr (), st')) \<and>
    (\<exists>st'. try_receive cap st = Some (case contents cap st of
        [] \<Rightarrow> Inl (if ch_sender_open st then Empty else ReceiveClosed) | x # _ \<Rightarrow> Inr x, st')) \<and>
    send_pass cap m deadline now rw st \<noteq> None \<and> receive_pass cap deadline now rw st \<noteq> None"
proof -
  have inv: "chan_inv cap st" using chan_run_fifo [OF assms(3)] fixed_channel_inv [OF assms(1,2)] by simp
  note put = put_tail_queue [OF inv, of m] and get = take_head_queue [OF inv] and less = len_neq_less [OF inv]
  have "\<exists>st'. try_receive cap st = Some (case contents cap st of
        [] \<Rightarrow> Inl (if ch_sender_open st then Empty else ReceiveClosed) | x # _ \<Rightarrow> Inr x, st')"
  proof (cases "contents cap st")
    case Nil
    then have "ch_len st = 0" by (simp add: contents_eq_Nil)
    with Nil show ?thesis by (simp add: try_receive_def)
  next
    case (Cons x xs)
    then have "0 < ch_len st" using length_contents [of cap st] by (metis length_greater_0_conv list.distinct(1))
    with get Cons show ?thesis by (auto simp: try_receive_def)
  qed
  then show ?thesis
    using put get less by (auto simp: try_send_def send_pass_def receive_pass_def split: option.splits)
qed

theorem channel_calls_decided_witness:
  "\<exists>st0 st st'. fixed_channel 16 8 True 2 = Inr st0 \<and> chan_run 2 st0 [Sent (7 :: nat), Received 7] st \<and>
     try_receive 2 st = Some (case contents 2 st of
       [] \<Rightarrow> Inl (if ch_sender_open st then Empty else ReceiveClosed) | x # _ \<Rightarrow> Inr x, st')"
proof -
  obtain st0 st where run: "fixed_channel 16 8 True 2 = Inr st0" "chan_run 2 st0 [Sent (7 :: nat), Received 7] st"
    using sample_channel_run by blast
  have "0 < (2 :: nat)" by simp
  from channel_calls_decided [OF run(1) this run(2), of 0 None 0 True] run show ?thesis by blast
qed

section \<open>Waiting calls\<close>

text \<open>
  What the pass that returns says of the ring it found (\<open>st\<close>) and of the ring it leaves (\<open>st'\<close>).
\<close>

definition overdue :: "nat option \<Rightarrow> nat \<Rightarrow> bool" where
  "overdue deadline now \<longleftrightarrow> (\<forall>d. deadline = Some d \<longrightarrow> d \<le> now)"

fun send_result ::
    "usize \<Rightarrow> 'a \<Rightarrow> bool \<Rightarrow> 'a ChannelState \<Rightarrow> 'a ChannelState \<Rightarrow> 'a SendError + unit \<Rightarrow> bool" where
  "send_result cap m late st st' (Inr u) \<longleftrightarrow> ch_receiver_open st \<and> contents cap st' = contents cap st @ [m]"
| "send_result cap m late st st' (Inl (SendClosed m')) \<longleftrightarrow>
     m' = m \<and> \<not> ch_receiver_open st \<and> contents cap st' = contents cap st"
| "send_result cap m late st st' (Inl (SendTimeout m')) \<longleftrightarrow>
     m' = m \<and> late \<and> length (contents cap st) = cap \<and> contents cap st' = contents cap st"
| "send_result cap m late st st' (Inl (Full m')) \<longleftrightarrow> False"

text \<open>A pass that waits leaves the queue and both ends of the channel as they are.\<close>

definition quiet :: "usize \<Rightarrow> 'a ChannelState \<Rightarrow> 'a ChannelState \<Rightarrow> bool" where
  "quiet cap st st' \<longleftrightarrow> contents cap st' = contents cap st \<and>
     ch_sender_open st' = ch_sender_open st \<and> ch_receiver_open st' = ch_receiver_open st"

fun pass_result :: "('r \<Rightarrow> bool) \<Rightarrow> bool \<Rightarrow> bool \<Rightarrow> 'r pass \<Rightarrow> bool" where
  "pass_result good calm late (Return r) \<longleftrightarrow> good r"
| "pass_result good calm late Wait \<longleftrightarrow> calm \<and> \<not> late"

text \<open>
  The ring that a pass finds after the wake-ups \<open>us\<close>: each earlier pass was before the deadline and
  quiet, and then the other users did what the wake-up says.
\<close>

fun waited :: "usize \<Rightarrow> nat option \<Rightarrow> 'a wakeup list \<Rightarrow> 'a ChannelState \<Rightarrow> 'a ChannelState \<Rightarrow> bool" where
  "waited cap deadline [] st st1 \<longleftrightarrow> st1 = st"
| "waited cap deadline ((now, others) # us) st st1 \<longleftrightarrow> \<not> overdue deadline now \<and>
     (\<exists>w. quiet cap st w \<and> waited cap deadline us (others w) st1)"

lemma send_pass_result:
  assumes "chan_inv cap st"
  shows "\<exists>p st'. send_pass cap m deadline now rw st = Some (p, st') \<and> chan_inv cap st' \<and>
    pass_result (send_result cap m (overdue deadline now) st st') (quiet cap st st') (overdue deadline now) p"
proof (cases "ch_receiver_open st \<and> ch_len st < cap")
  case True
  then show ?thesis using put_tail_queue [OF assms, of m] by (auto simp: send_pass_def)
next
  case False
  then show ?thesis using assms len_neq_less [OF assms]
    by (cases deadline) (auto simp: send_pass_def overdue_def quiet_def)
qed

lemma loop_passes_returns:
  assumes step: "\<And>now rw st. chan_inv cap st \<Longrightarrow> \<exists>p st'. step now rw st = Some (p, st') \<and> chan_inv cap st' \<and>
      pass_result (good (overdue deadline now) st st') (quiet cap st st') (overdue deadline now) p"
    and others: "\<And>w st. w \<in> set ws \<Longrightarrow> chan_inv cap st \<Longrightarrow> chan_inv cap (snd w st)"
    and due: "\<exists>w\<in>set ws. overdue deadline (fst w)"
    and "chan_inv cap st"
  shows "\<exists>us now env vs r st1 st'. ws = us @ (now, env) # vs \<and> waited cap deadline us st st1 \<and>
    loop_passes step recorded ws st = Returned (r, st') \<and> chan_inv cap st' \<and> good (overdue deadline now) st1 st' r"
  using others due \<open>chan_inv cap st\<close>
proof (induction ws arbitrary: recorded st)
  case (Cons w ws)
  obtain now env where w: "w = (now, env)" by (cases w)
  obtain p st' where p: "step now recorded st = Some (p, st')" "chan_inv cap st'"
      "pass_result (good (overdue deadline now) st st') (quiet cap st st') (overdue deadline now) p"
    using step [OF Cons.prems(3)] by blast
  show ?case
  proof (cases p)
    case (Return r)
    with p have "loop_passes step recorded (w # ws) st = Returned (r, st')" "good (overdue deadline now) st st' r" by (simp_all add: w)
    moreover have "w # ws = [] @ (now, env) # ws" "waited cap deadline [] st st" by (simp_all add: w)
    ultimately show ?thesis using p(2) by blast
  next
    case Wait
    with p(3) have calm: "quiet cap st st'" "\<not> overdue deadline now" by simp_all
    then have due: "\<exists>w\<in>set ws. overdue deadline (fst w)" using Cons.prems(2) by (auto simp: w)
    have "chan_inv cap (env st')" using Cons.prems(1) [of w st'] p(2) by (simp add: w)
    from Cons.IH [OF _ due this, of True] Cons.prems(1) obtain us now' env' vs r st1 st2
      where IH: "ws = us @ (now', env') # vs" "waited cap deadline us (env st') st1"
        "loop_passes step True ws (env st') = Returned (r, st2)" "chan_inv cap st2" "good (overdue deadline now') st1 st2 r"
      by (auto simp del: split_paired_Ex)
    have "w # ws = (w # us) @ (now', env') # vs" by (simp add: IH(1))
    moreover have "waited cap deadline (w # us) st st1" using calm IH(2) by (auto simp: w)
    moreover have "loop_passes step recorded (w # ws) st = Returned (r, st2)" using p(1) Wait IH(3) by (simp add: w)
    ultimately show ?thesis using IH(4,5) by blast
  qed
qed simp

text \<open>
  A waiting send comes to an end: if the other users keep the ring intact, it returns at the latest
  at the first wake-up that is not before its deadline. Until the pass that returns, the queue
  changes by the doing of the other users only; that pass stores the message once and reports
  success, or it hands the message back, because the receiver is gone or because the deadline has
  passed while the ring is full, and leaves the queue as it found it.
\<close>

theorem send_timeout_returns:
  assumes "chan_inv cap st" and "\<And>w st. w \<in> set ws \<Longrightarrow> chan_inv cap st \<Longrightarrow> chan_inv cap (snd w st)"
    and "\<exists>w\<in>set ws. overdue deadline (fst w)"
  shows "\<exists>us now env vs r st1 st'. ws = us @ (now, env) # vs \<and> waited cap deadline us st st1 \<and>
    send_timeout cap m deadline ws st = Returned (r, st') \<and> chan_inv cap st' \<and>
    send_result cap m (overdue deadline now) st1 st' r"
  unfolding send_timeout_def
  by (rule loop_passes_returns [OF send_pass_result assms(2,3,1)])

fun receive_result ::
    "usize \<Rightarrow> bool \<Rightarrow> 'a ChannelState \<Rightarrow> 'a ChannelState \<Rightarrow> ReceiveError + 'a option \<Rightarrow> bool" where
  "receive_result cap late st st' (Inr (Some m)) \<longleftrightarrow> contents cap st = m # contents cap st'"
| "receive_result cap late st st' (Inr None) \<longleftrightarrow>
     late \<and> contents cap st = [] \<and> ch_sender_open st \<and> contents cap st' = []"
| "receive_result cap late st st' (Inl ReceiveClosed) \<longleftrightarrow>
     contents cap st = [] \<and> \<not> ch_sender_open st \<and> contents cap st' = []"
| "receive_result cap late st st' (Inl Empty) \<longleftrightarrow> False"

lemma receive_pass_result:
  assumes "chan_inv cap st"
  shows "\<exists>p st'. receive_pass cap deadline now rw st = Some (p, st') \<and> chan_inv cap st' \<and>
    pass_result (receive_result cap (overdue deadline now) st st') (quiet cap st st') (overdue deadline now) p"
proof (cases "ch_len st = 0")
  case True
  then show ?thesis using assms
    by (cases deadline) (auto simp: receive_pass_def contents_eq_Nil overdue_def quiet_def)
next
  case False
  then have "contents cap st = hd (contents cap st) # tl (contents cap st)" by (simp add: contents_eq_Nil)
  with False show ?thesis using take_head_queue [OF assms] by (auto simp: receive_pass_def)
qed

text \<open>
  A waiting receive comes to an end in the same way: it takes the oldest message, or reports
  that the sender is gone and nothing is left, or that nothing has arrived before its deadline.
\<close>

theorem receive_timeout_returns:
  assumes "chan_inv cap st" and "\<And>w st. w \<in> set ws \<Longrightarrow> chan_inv cap st \<Longrightarrow> chan_inv cap (snd w st)"
    and "\<exists>w\<in>set ws. overdue deadline (fst w)"
  shows "\<exists>us now env vs r st1 st'. ws = us @ (now, env) # vs \<and> waited cap deadline us st st1 \<and>
    receive_timeout cap deadline ws st = Returned (r, st') \<and> chan_inv cap st' \<and>
    receive_result cap (overdue deadline now) st1 st' r"
  unfolding receive_timeout_def
  by (rule loop_passes_returns [OF receive_pass_result assms(2,3,1)])

end
