(* ===== verification/Stream_Source.thy ===== *)
theory Stream_Source
  imports Beryl_Std Stream_Pool Stream_Channel
begin

text \<open>
  Source pages and the stream cursor of \<^verbatim>\<open>beryl-stream/src/stream.rs\<close>: pages of a byte stream, each
  with the offset it starts at, and the cursor that accepts them in order. The traits
  \<^verbatim>\<open>BoundedSource\<close> and \<^verbatim>\<open>BoundedSink\<close> have no code of their own; their users exchange pages of
  this form, for instance through the channel.
\<close>

section \<open>Pages and cursors\<close>

type_synonym StreamIdentity = arr16

datatype SourcePageError = EmptyNonterminal | OffsetOverflow

datatype StreamContractError =
    AfterTerminal
  | IdentityMismatch StreamIdentity StreamIdentity
  | OffsetMismatch u64 u64

record SourcePage =
  sp_identity :: StreamIdentity
  sp_offset :: u64
  sp_next_offset :: u64
  sp_terminal :: bool
  sp_lease :: PageLease

definition source_page_new ::
    "StreamIdentity \<Rightarrow> u64 \<Rightarrow> PageLease \<Rightarrow> bool \<Rightarrow> SourcePageError + SourcePage" where
  "source_page_new identity offset lease terminal =
     (if lease_is_empty lease \<and> \<not> terminal then Inl EmptyNonterminal
      else if 2 ^ 64 \<le> lease_valid_len lease then Inl OffsetOverflow
      else and_then (ok_or OffsetOverflow (checked_add offset (of_nat (lease_valid_len lease)))) (\<lambda>next_offset.
        Inr \<lparr>sp_identity = identity, sp_offset = offset, sp_next_offset = next_offset,
          sp_terminal = terminal, sp_lease = lease\<rparr>))"

definition sp_bytes :: "SourcePage \<Rightarrow> bytes option" where
  "sp_bytes page = lease_as_slice (sp_lease page)"

record StreamCursor =
  sc_identity :: StreamIdentity
  sc_next_offset :: u64
  sc_terminal :: bool

definition stream_cursor_new :: "StreamIdentity \<Rightarrow> StreamCursor" where
  "stream_cursor_new identity = \<lparr>sc_identity = identity, sc_next_offset = 0, sc_terminal = False\<rparr>"

definition cursor_accept :: "StreamCursor \<Rightarrow> SourcePage \<Rightarrow> StreamContractError + StreamCursor" where
  "cursor_accept c page =
     (if sc_terminal c then Inl AfterTerminal
      else if sp_identity page \<noteq> sc_identity c then Inl (IdentityMismatch (sc_identity c) (sp_identity page))
      else if sp_offset page \<noteq> sc_next_offset c then Inl (OffsetMismatch (sc_next_offset c) (sp_offset page))
      else Inr (c\<lparr>sc_next_offset := sp_next_offset page, sc_terminal := sp_terminal page\<rparr>))"

fun accept_all :: "StreamCursor \<Rightarrow> SourcePage list \<Rightarrow> StreamContractError + StreamCursor" where
  "accept_all c [] = Inr c"
| "accept_all c (page # pages) = and_then (cursor_accept c page) (\<lambda>c. accept_all c pages)"

section \<open>What accepted pages look like\<close>

text \<open>A page as \<open>source_page_new\<close> builds it, from a lease whose bytes can be read.\<close>

definition page_built :: "SourcePage \<Rightarrow> bool" where
  "page_built page \<longleftrightarrow> sp_bytes page \<noteq> None \<and>
     source_page_new (sp_identity page) (sp_offset page) (sp_lease page) (sp_terminal page) = Inr page"

definition stream_bytes :: "SourcePage list \<Rightarrow> bytes" where
  "stream_bytes pages = concat (map (the \<circ> sp_bytes) pages)"

lemma page_built_length:
  assumes "page_built page"
  shows "unat (sp_next_offset page) = unat (sp_offset page) + length (the (sp_bytes page)) \<and>
    (sp_terminal page \<or> the (sp_bytes page) \<noteq> [])"
proof -
  obtain data where data: "lease_page (sp_lease page) = Some data" "lease_valid_len (sp_lease page) \<le> length data"
    using assms by (auto simp: page_built_def sp_bytes_def lease_as_slice_def split: option.splits if_splits)
  then have len: "length (the (sp_bytes page)) = lease_valid_len (sp_lease page)"
    by (simp add: sp_bytes_def lease_as_slice_def)
  have new: "source_page_new (sp_identity page) (sp_offset page) (sp_lease page) (sp_terminal page) = Inr page"
    using assms by (simp add: page_built_def)
  then have small: "lease_valid_len (sp_lease page) < 2 ^ 64"
    and progress: "lease_is_empty (sp_lease page) \<longrightarrow> sp_terminal page"
    by (auto simp: source_page_new_def result_simps split: if_splits)
  obtain n where "checked_add (sp_offset page) (of_nat (lease_valid_len (sp_lease page))) = Some n"
    "sp_next_offset page = n"
    using new small progress
    by (auto simp: source_page_new_def result_simps split: if_splits dest: arg_cong [where f = sp_next_offset])
  then have "unat (sp_next_offset page) = unat (sp_offset page) + lease_valid_len (sp_lease page)"
    using small by (auto dest!: checked_add_SomeD simp: unat_of_nat)
  with progress len show ?thesis by (auto simp: lease_is_empty_def)
qed

lemma accept_all_append:
  "accept_all c (ps @ qs) = and_then (accept_all c ps) (\<lambda>c. accept_all c qs)"
  by (induction ps arbitrary: c) (auto simp: and_then_def split: sum.splits)

lemma accept_all_from:
  assumes "accept_all c pages = Inr c'" and "\<forall>page\<in>set pages. page_built page"
  shows "sc_identity c' = sc_identity c \<and>
    unat (sc_next_offset c') = unat (sc_next_offset c) + length (stream_bytes pages) \<and>
    (\<forall>i<length pages. sp_identity (pages ! i) = sc_identity c \<and>
      unat (sp_offset (pages ! i)) = unat (sc_next_offset c) + length (stream_bytes (take i pages)) \<and>
      (sp_terminal (pages ! i) \<longrightarrow> Suc i = length pages))"
  using assms
proof (induction pages arbitrary: c)
  case (Cons page pages)
  obtain c1 where c1: "cursor_accept c page = Inr c1" "accept_all c1 pages = Inr c'"
    using Cons.prems(1) by (auto simp: result_simps)
  then have step: "sp_identity page = sc_identity c" "sp_offset page = sc_next_offset c"
    "sc_identity c1 = sc_identity c" "sc_next_offset c1 = sp_next_offset page" "sc_terminal c1 = sp_terminal page"
    by (auto simp: cursor_accept_def split: if_splits)
  have last: "pages = []" if "sp_terminal page"
    using that c1(2) step(5) by (cases pages) (auto simp: cursor_accept_def)
  have len: "unat (sp_next_offset page) = unat (sc_next_offset c) + length (the (sp_bytes page))"
    using page_built_length [of page] Cons.prems(2) step(2) by simp
  show ?case
    using Cons.IH [OF c1(2)] Cons.prems(2) step len last
    by (auto simp: stream_bytes_def less_Suc_eq_0_disj)
qed (simp add: stream_bytes_def)

text \<open>
  The pages that a cursor accepts form one stream: all carry its identity, each starts where
  the bytes of the previous ones end, the cursor stands after the last byte, every page but a
  terminal one makes progress, and nothing follows a terminal page.
\<close>

theorem accepted_pages_contiguous:
  assumes "accept_all (stream_cursor_new identity) pages = Inr c" and "\<forall>page\<in>set pages. page_built page"
  shows "unat (sc_next_offset c) = length (stream_bytes pages) \<and>
    (\<forall>i<length pages. sp_identity (pages ! i) = identity \<and>
      unat (sp_offset (pages ! i)) = length (stream_bytes (take i pages)) \<and>
      (sp_bytes (pages ! i) = Some [] \<longrightarrow> sp_terminal (pages ! i)) \<and>
      (sp_terminal (pages ! i) \<longrightarrow> Suc i = length pages))"
  using accept_all_from [OF assms] page_built_length assms(2)
  by (auto simp: stream_cursor_new_def) (metis nth_mem option.sel)

definition sample_lease :: "PageLease" where
  "sample_lease = \<lparr>lease_page = Some [7, 8, 0, 0], lease_valid_len = 2, lease_generation = 1\<rparr>"

definition sample_page :: "SourcePage" where
  "sample_page = \<lparr>sp_identity = arr16_fill 1, sp_offset = 0, sp_next_offset = 2, sp_terminal = True,
     sp_lease = sample_lease\<rparr>"

lemma sample_page_built: "page_built sample_page"
  by (simp add: page_built_def sample_page_def sample_lease_def sp_bytes_def lease_as_slice_def
      source_page_new_def lease_is_empty_def checked_add_def)

lemma sample_page_accepted:
  "accept_all (stream_cursor_new (arr16_fill 1)) [sample_page] =
     Inr \<lparr>sc_identity = arr16_fill 1, sc_next_offset = 2, sc_terminal = True\<rparr>"
  by (simp add: stream_cursor_new_def cursor_accept_def sample_page_def)

theorem accepted_pages_contiguous_witness: "length (stream_bytes [sample_page]) = 2"
  using accepted_pages_contiguous [OF sample_page_accepted] sample_page_built by simp

end
