(* ===== verification/Wsl_Frame.thy ===== *)
theory Wsl_Frame
  imports Beryl_Std Beryl_Parser
begin

text \<open>
  The frames of the control protocol between Beryl and its Linux supervisor, and their codec:
  \<^verbatim>\<open>beryl-wsl-supervisor/src/codec/{types,encode,decode}.rs\<close>.

  The encoder appends to a buffer that starts with room for the header; an operation on it maps
  the buffer to the longer one, or to an error. The decoder's \<^verbatim>\<open>Cursor\<close> is the sequence of bytes
  after its offset: advancing the offset is dropping from the front, and the offset has reached
  the length when nothing is left.
\<close>

section \<open>Frames\<close>

definition PROTOCOL_VERSION :: u16 where "PROTOCOL_VERSION = 2"
definition HEADER_LEN :: usize where "HEADER_LEN = 48"
definition MAX_PAYLOAD_LEN :: usize where "MAX_PAYLOAD_LEN = 128 * 1024"
definition MAX_PENDING_FRAMES :: usize where "MAX_PENDING_FRAMES = 8"
definition MAX_PATH_LEN :: usize where "MAX_PATH_LEN = 4096"
definition MAX_DIAGNOSTIC_LEN :: usize where "MAX_DIAGNOSTIC_LEN = 4096"
definition MAX_READER_PAGE :: usize where "MAX_READER_PAGE = 8192"
definition MAGIC :: bytes where "MAGIC = [66, 82, 89, 76, 87, 83, 76, 50]"

type_synonym Nonce = arr32
type_synonym ReaderId = arr16

datatype ReaderFailure = RfRefused | RfMissing | RfUnreadable | RfChanged | RfProtocol | RfCancelled

datatype Role = ContextBroker | Supervisor

datatype ObservationKind = ObsExecutable | ObsDirectory | ObsHome

datatype ExitStatus = Exited i32 | Signaled i32

record DiagnosticTail =
  tail_bytes :: bytes
  tail_truncated :: bool

record WorkloadResult =
  wr_exit :: ExitStatus
  wr_observation :: "str option"
  wr_stdout :: DiagnosticTail
  wr_stderr :: DiagnosticTail

datatype FailureKind =
    FkProtocol | FkUnsupported | FkContext | FkNamespace | FkCredentials | FkWorkingDirectory
  | FkExec | FkObservation | FkControl | FkTimeout | FkSystem

datatype Frame =
    Initialize
  | LaunchServer str str "str list"
  | Observe ObservationKind "str option" u32
  | Stop
  | BrokerClose
  | ConfigureReaders u32
  | ReaderOpen ReaderId str
  | ReaderRead ReaderId u64 u64 u32
  | ReaderCancel ReaderId u64
  | ReaderClose ReaderId u64
  | ReaderOpened ReaderId u64
  | ReaderPage ReaderId u64 u64 bytes bool
  | ReaderFailed ReaderId u64 ReaderFailure
  | ReaderClosed ReaderId u64 bool
  | Ready Role
  | WorkloadStarted
  | ShutdownPending
  | OwnedNamespaceClosed WorkloadResult
  | LinuxCompanionsClosed
  | Failure FailureKind "i32 option"

text \<open>Of \<^verbatim>\<open>io::Error\<close> the code looks at the kinds \<^verbatim>\<open>Interrupted\<close> and \<^verbatim>\<open>UnexpectedEof\<close>; the others are numbered.\<close>

datatype IoError = Interrupted | UnexpectedEof | OtherIo nat

datatype WslCodecError = WslIo IoError | WslInvalid string

abbreviation "wsl_invalid reason \<equiv> Inl (WslInvalid reason)"

definition validate_text :: "str \<Rightarrow> usize \<Rightarrow> bool \<Rightarrow> WslCodecError + unit" where
  "validate_text text maximum path =
     (if maximum < str_len text \<or> 0 \<in> set (str_bytes text) \<or> (path \<and> \<not> str_starts_with text [47])
      then wsl_invalid ''invalid text or absolute path'' else Inr ())"

section \<open>Encoder\<close>

definition put_reader :: "ReaderId \<Rightarrow> bytes \<Rightarrow> WslCodecError + bytes" where
  "put_reader rid p =
     (if rid = arr16_fill 0 then wsl_invalid ''zero reader identity'' else Inr (p @ arr16_bytes rid))"

definition put_wide :: "u64 \<Rightarrow> bytes \<Rightarrow> bytes" where "put_wide v p = p @ to_le_bytes v"
definition put_byte :: "u8 \<Rightarrow> bytes \<Rightarrow> bytes" where "put_byte v p = p @ [v]"
definition put_number :: "u32 \<Rightarrow> bytes \<Rightarrow> bytes" where "put_number v p = p @ to_le_bytes v"

definition put_bytes :: "bytes \<Rightarrow> usize \<Rightarrow> bytes \<Rightarrow> WslCodecError + bytes" where
  "put_bytes bs maximum p =
     (if maximum < length bs \<or>
         HEADER_LEN + MAX_PAYLOAD_LEN < usize_saturating_add (usize_saturating_add (length p) 4) (length bs)
      then wsl_invalid ''field or aggregate exceeds bound''
      else Inr (put_number (of_nat (length bs)) p @ bs))"

definition put_text :: "str \<Rightarrow> usize \<Rightarrow> bool \<Rightarrow> bytes \<Rightarrow> WslCodecError + bytes" where
  "put_text text maximum path p =
     and_then (validate_text text maximum path) (\<lambda>_. put_bytes (str_bytes text) maximum p)"

definition bool_byte :: "bool \<Rightarrow> u8" where "bool_byte b = (if b then 1 else 0)"

definition put_tail :: "DiagnosticTail \<Rightarrow> bytes \<Rightarrow> WslCodecError + bytes" where
  "put_tail tail p = put_bytes (tail_bytes tail) MAX_DIAGNOSTIC_LEN (put_byte (bool_byte (tail_truncated tail)) p)"

fun put_arguments :: "str list \<Rightarrow> bytes \<Rightarrow> WslCodecError + bytes" where
  "put_arguments [] p = Inr p"
| "put_arguments (a # as) p = and_then (put_text a 8192 False p) (put_arguments as)"

fun observation_tag :: "ObservationKind \<Rightarrow> u8" where
  "observation_tag ObsExecutable = 1" | "observation_tag ObsDirectory = 2" | "observation_tag ObsHome = 3"

fun role_tag :: "Role \<Rightarrow> u8" where
  "role_tag ContextBroker = 1" | "role_tag Supervisor = 2"

fun reader_failure_tag :: "ReaderFailure \<Rightarrow> u8" where
  "reader_failure_tag RfRefused = 1" | "reader_failure_tag RfMissing = 2"
| "reader_failure_tag RfUnreadable = 3" | "reader_failure_tag RfChanged = 4"
| "reader_failure_tag RfProtocol = 5" | "reader_failure_tag RfCancelled = 6"

fun failure_tag :: "FailureKind \<Rightarrow> u8" where
  "failure_tag FkProtocol = 1" | "failure_tag FkUnsupported = 2" | "failure_tag FkContext = 3"
| "failure_tag FkNamespace = 4" | "failure_tag FkCredentials = 5" | "failure_tag FkWorkingDirectory = 6"
| "failure_tag FkExec = 7" | "failure_tag FkObservation = 8" | "failure_tag FkControl = 9"
| "failure_tag FkTimeout = 10" | "failure_tag FkSystem = 11"

text \<open>The match of \<^verbatim>\<open>encode_frame\<close>: the tag of the frame and the buffer with its payload.\<close>

fun put_frame :: "Frame \<Rightarrow> bytes \<Rightarrow> WslCodecError + (u16 \<times> bytes)" where
  "put_frame Initialize p = Inr (1, p)"
| "put_frame (LaunchServer executable execution_root arguments) p =
     and_then (put_text executable MAX_PATH_LEN True p) (\<lambda>p.
     and_then (put_text execution_root MAX_PATH_LEN True p) (\<lambda>p.
     if 64 < length arguments then wsl_invalid ''too many arguments''
     else and_then (put_arguments arguments (put_number (of_nat (length arguments)) p)) (\<lambda>p. Inr (2, p))))"
| "put_frame (Observe kind path timeout_ms) p =
     (if timeout_ms = 0 \<or> 30000 < timeout_ms then wsl_invalid ''invalid observation deadline''
      else let p = put_number timeout_ms (put_byte (observation_tag kind) p) in
        case (kind, path) of
          (ObsHome, None) \<Rightarrow> Inr (3, p)
        | (ObsExecutable, Some path) \<Rightarrow> and_then (put_text path MAX_PATH_LEN True p) (\<lambda>p. Inr (3, p))
        | (ObsDirectory, Some path) \<Rightarrow> and_then (put_text path MAX_PATH_LEN True p) (\<lambda>p. Inr (3, p))
        | _ \<Rightarrow> wsl_invalid ''invalid observation path'')"
| "put_frame Stop p = Inr (4, p)"
| "put_frame BrokerClose p = Inr (5, p)"
| "put_frame (ConfigureReaders limit) p =
     (if limit = 0 then wsl_invalid ''zero reader allowance'' else Inr (6, put_number limit p))"
| "put_frame (ReaderOpen rid path) p =
     and_then (put_reader rid p) (\<lambda>p.
     and_then (put_text path MAX_PATH_LEN True p) (\<lambda>p.
     if \<not> str_starts_with path [47] then wsl_invalid ''reader path is not absolute'' else Inr (7, p)))"
| "put_frame (ReaderRead rid sequence offset allowance) p =
     and_then (put_reader rid p) (\<lambda>p.
     if sequence = 0 \<or> allowance = 0 \<or> MAX_READER_PAGE < unat allowance \<or>
        checked_add offset (ucast allowance) = None
     then wsl_invalid ''invalid reader request''
     else Inr (8, put_number allowance (put_wide offset (put_wide sequence p))))"
| "put_frame (ReaderCancel rid sequence) p =
     and_then (put_reader rid p) (\<lambda>p.
     if sequence = 0 then wsl_invalid ''zero reader sequence'' else Inr (9, put_wide sequence p))"
| "put_frame (ReaderClose rid sequence) p =
     and_then (put_reader rid p) (\<lambda>p.
     if sequence = 0 then wsl_invalid ''zero reader sequence'' else Inr (10, put_wide sequence p))"
| "put_frame (ReaderOpened rid len) p =
     and_then (put_reader rid p) (\<lambda>p.
     if len = 0 then wsl_invalid ''empty reader source'' else Inr (107, put_wide len p))"
| "put_frame (ReaderPage rid sequence offset data eof) p =
     and_then (put_reader rid p) (\<lambda>p.
     if sequence = 0 \<or> MAX_READER_PAGE < length data \<or> checked_add offset (of_nat (length data)) = None
     then wsl_invalid ''invalid reader page''
     else and_then (put_bytes data MAX_READER_PAGE (put_wide offset (put_wide sequence p))) (\<lambda>p.
       Inr (108, put_byte (bool_byte eof) p)))"
| "put_frame (ReaderFailed rid sequence kind) p =
     and_then (put_reader rid p) (\<lambda>p.
       Inr (109, put_byte (reader_failure_tag kind) (put_wide sequence p)))"
| "put_frame (ReaderClosed rid sequence cancelled) p =
     and_then (put_reader rid p) (\<lambda>p.
       Inr (110, put_byte (bool_byte cancelled) (put_wide sequence p)))"
| "put_frame (Ready role) p = Inr (101, put_byte (role_tag role) p)"
| "put_frame WorkloadStarted p = Inr (102, p)"
| "put_frame ShutdownPending p = Inr (103, p)"
| "put_frame (OwnedNamespaceClosed result) p =
     and_then (case wr_exit result of
         Exited code \<Rightarrow> if 0 \<le> sint code \<and> sint code \<le> 255 then Inr (put_number code (put_byte 1 p))
           else wsl_invalid ''invalid exit status''
       | Signaled signal \<Rightarrow> if 1 \<le> sint signal \<and> sint signal \<le> 64 then Inr (put_number signal (put_byte 2 p))
           else wsl_invalid ''invalid exit status'') (\<lambda>p.
     and_then (case wr_observation result of
         None \<Rightarrow> Inr (put_byte 0 p)
       | Some path \<Rightarrow> put_text path MAX_PATH_LEN True (put_byte 1 p)) (\<lambda>p.
     and_then (put_tail (wr_stdout result) p) (\<lambda>p.
     and_then (put_tail (wr_stderr result) p) (\<lambda>p. Inr (104, p)))))"
| "put_frame LinuxCompanionsClosed p = Inr (105, p)"
| "put_frame (Failure kind errno) p =
     (let p = put_byte (failure_tag kind) p in
      case errno of
        None \<Rightarrow> Inr (106, put_byte 0 p)
      | Some errno \<Rightarrow>
          if sint errno \<le> 0 \<or> 4095 < sint errno then wsl_invalid ''invalid errno''
          else Inr (106, put_number errno (put_byte 1 p)))"

fun reader_page_too_long :: "Frame \<Rightarrow> bool" where
  "reader_page_too_long (ReaderPage _ _ _ data _) \<longleftrightarrow> MAX_READER_PAGE < length data"
| "reader_page_too_long _ \<longleftrightarrow> False"

definition encode_frame :: "Nonce \<Rightarrow> Frame \<Rightarrow> WslCodecError + bytes" where
  "encode_frame nonce frame =
     (if reader_page_too_long frame then wsl_invalid ''invalid reader page''
      else and_then (put_frame frame (replicate HEADER_LEN 0)) (\<lambda>(tag, p).
        let len = length p - HEADER_LEN in
        if MAX_PAYLOAD_LEN < len then wsl_invalid ''frame exceeds bound''
        else Inr (MAGIC @ to_le_bytes PROTOCOL_VERSION @ to_le_bytes tag @
          to_le_bytes (of_nat len :: u32) @ arr32_bytes nonce @ drop HEADER_LEN p)))"

section \<open>Decoder\<close>

type_synonym 'a frame_parser = "(WslCodecError, 'a) parser"

definition cur_take :: "usize \<Rightarrow> bytes frame_parser" where
  "cur_take n bs = (if length bs < n then wsl_invalid ''truncated payload'' else Inr (take n bs, drop n bs))"

definition cur_reader :: "ReaderId frame_parser" where
  "cur_reader = dec_then (cur_take 16) (\<lambda>bs.
     if arr16_of bs = arr16_fill 0 then dec_lift (wsl_invalid ''zero reader identity'')
     else dec_return (arr16_of bs))"

definition cur_wide :: "u64 frame_parser" where
  "cur_wide = dec_then (cur_take 8) (\<lambda>bs. dec_return (from_le_bytes bs))"

definition cur_byte :: "u8 frame_parser" where
  "cur_byte = dec_then (cur_take 1) (\<lambda>bs. dec_return (bs ! 0))"

definition cur_flag :: "bool frame_parser" where
  "cur_flag = dec_then cur_byte (\<lambda>b.
     if b = 0 then dec_return False else if b = 1 then dec_return True
     else dec_lift (wsl_invalid ''invalid boolean''))"

definition cur_number :: "u32 frame_parser" where
  "cur_number = dec_then (cur_take 4) (\<lambda>bs. dec_return (from_le_bytes bs))"

definition cur_bytes :: "usize \<Rightarrow> bytes frame_parser" where
  "cur_bytes maximum = dec_then cur_number (\<lambda>count.
     if maximum < unat count then dec_lift (wsl_invalid ''field exceeds bound'') else cur_take (unat count))"

definition cur_text :: "usize \<Rightarrow> bool \<Rightarrow> str frame_parser" where
  "cur_text maximum path = dec_then (cur_bytes maximum) (\<lambda>bs.
     dec_lift (and_then (ok_or (WslInvalid ''non UTF-8 text'') (from_utf8 bs)) (\<lambda>text.
       and_then (validate_text text maximum path) (\<lambda>_. Inr text))))"

definition cur_tail :: "DiagnosticTail frame_parser" where
  "cur_tail = dec_then cur_flag (\<lambda>truncated. dec_then (cur_bytes MAX_DIAGNOSTIC_LEN) (\<lambda>bs.
     dec_return \<lparr>tail_bytes = bs, tail_truncated = truncated\<rparr>))"

definition reader_length_ok :: "u16 \<Rightarrow> usize \<Rightarrow> bool" where
  "reader_length_ok tag len =
     (if tag = 6 then len = 4
      else if tag = 7 then 21 \<le> len \<and> len \<le> 20 + MAX_PATH_LEN
      else if tag = 8 then len = 36
      else if tag = 9 \<or> tag = 10 \<or> tag = 107 then len = 24
      else if tag = 108 then 37 \<le> len \<and> len \<le> 37 + MAX_READER_PAGE
      else if tag = 109 \<or> tag = 110 then len = 25
      else True)"

definition header :: "bytes \<Rightarrow> Nonce option \<Rightarrow> WslCodecError + (Nonce \<times> usize \<times> u16)" where
  "header bs expected =
     (if length bs < HEADER_LEN then wsl_invalid ''truncated header''
      else if take 8 bs \<noteq> MAGIC \<or> from_le_bytes (take 2 (drop 8 bs)) \<noteq> PROTOCOL_VERSION
      then wsl_invalid ''invalid magic or version''
      else let tag = from_le_bytes (take 2 (drop 10 bs)) :: u16;
               len = unat (from_le_bytes (take 4 (drop 12 bs)) :: u32);
               nonce = arr32_of (take 32 (drop 16 bs)) in
        if \<not> (1 \<le> tag \<and> tag \<le> 10 \<or> 101 \<le> tag \<and> tag \<le> 110) then wsl_invalid ''unknown frame tag''
        else if MAX_PAYLOAD_LEN < len then wsl_invalid ''frame exceeds bound''
        else if \<not> reader_length_ok tag len then wsl_invalid ''reader frame exceeds bound''
        else if expected \<noteq> None \<and> expected \<noteq> Some nonce then wsl_invalid ''nonce mismatch''
        else Inr (nonce, len, tag))"

fun cur_arguments :: "nat \<Rightarrow> str list frame_parser" where
  "cur_arguments 0 = dec_return []"
| "cur_arguments (Suc n) = dec_then (cur_text 8192 False) (\<lambda>a. dec_then (cur_arguments n) (\<lambda>as. dec_return (a # as)))"

definition cur_launch :: "Frame frame_parser" where
  "cur_launch = dec_then (cur_text MAX_PATH_LEN True) (\<lambda>executable.
     dec_then (cur_text MAX_PATH_LEN True) (\<lambda>execution_root.
     dec_then cur_number (\<lambda>count.
     if 64 < unat count then dec_lift (wsl_invalid ''too many arguments'')
     else dec_then (cur_arguments (unat count)) (\<lambda>arguments.
       dec_return (LaunchServer executable execution_root arguments)))))"

definition cur_observation :: "ObservationKind frame_parser" where
  "cur_observation = dec_then cur_byte (\<lambda>b.
     if b = 1 then dec_return ObsExecutable else if b = 2 then dec_return ObsDirectory
     else if b = 3 then dec_return ObsHome else dec_lift (wsl_invalid ''unknown observation''))"

definition cur_observe :: "Frame frame_parser" where
  "cur_observe = dec_then cur_observation (\<lambda>kind.
     dec_then cur_number (\<lambda>timeout_ms.
     if timeout_ms = 0 \<or> 30000 < timeout_ms then dec_lift (wsl_invalid ''invalid observation deadline'')
     else if kind = ObsHome then dec_return (Observe kind None timeout_ms)
     else dec_then (cur_text MAX_PATH_LEN True) (\<lambda>path. dec_return (Observe kind (Some path) timeout_ms))))"

definition cur_configure :: "Frame frame_parser" where
  "cur_configure = dec_then cur_number (\<lambda>limit.
     if limit = 0 then dec_lift (wsl_invalid ''zero reader allowance'') else dec_return (ConfigureReaders limit))"

definition cur_open :: "Frame frame_parser" where
  "cur_open = dec_then cur_reader (\<lambda>rid. dec_then (cur_text MAX_PATH_LEN True) (\<lambda>path.
     if \<not> str_starts_with path [47] then dec_lift (wsl_invalid ''reader path is not absolute'')
     else dec_return (ReaderOpen rid path)))"

definition cur_read :: "Frame frame_parser" where
  "cur_read = dec_then cur_reader (\<lambda>rid. dec_then cur_wide (\<lambda>sequence. dec_then cur_wide (\<lambda>offset.
     dec_then cur_number (\<lambda>allowance.
     if sequence = 0 \<or> allowance = 0 \<or> MAX_READER_PAGE < unat allowance \<or>
        checked_add offset (ucast allowance) = None
     then dec_lift (wsl_invalid ''invalid reader request'')
     else dec_return (ReaderRead rid sequence offset allowance)))))"

definition cur_end :: "u16 \<Rightarrow> Frame frame_parser" where
  "cur_end tag = dec_then cur_reader (\<lambda>rid. dec_then cur_wide (\<lambda>sequence.
     if sequence = 0 then dec_lift (wsl_invalid ''zero reader sequence'')
     else dec_return (if tag = 9 then ReaderCancel rid sequence else ReaderClose rid sequence)))"

definition cur_opened :: "Frame frame_parser" where
  "cur_opened = dec_then cur_reader (\<lambda>rid. dec_then cur_wide (\<lambda>len.
     if len = 0 then dec_lift (wsl_invalid ''empty reader source'') else dec_return (ReaderOpened rid len)))"

definition cur_page :: "Frame frame_parser" where
  "cur_page = dec_then cur_reader (\<lambda>rid. dec_then cur_wide (\<lambda>sequence. dec_then cur_wide (\<lambda>offset.
     dec_then (cur_bytes MAX_READER_PAGE) (\<lambda>data. dec_then cur_flag (\<lambda>eof.
     if sequence = 0 \<or> checked_add offset (of_nat (length data)) = None
     then dec_lift (wsl_invalid ''invalid reader page'')
     else dec_return (ReaderPage rid sequence offset data eof))))))"

definition cur_reader_failure :: "ReaderFailure frame_parser" where
  "cur_reader_failure = dec_then cur_byte (\<lambda>b.
     if b = 1 then dec_return RfRefused else if b = 2 then dec_return RfMissing
     else if b = 3 then dec_return RfUnreadable else if b = 4 then dec_return RfChanged
     else if b = 5 then dec_return RfProtocol else if b = 6 then dec_return RfCancelled
     else dec_lift (wsl_invalid ''invalid reader failure''))"

definition cur_failed :: "Frame frame_parser" where
  "cur_failed = dec_then cur_reader (\<lambda>rid. dec_then cur_wide (\<lambda>sequence. dec_then cur_reader_failure (\<lambda>kind.
     dec_return (ReaderFailed rid sequence kind))))"

definition cur_closed :: "Frame frame_parser" where
  "cur_closed = dec_then cur_reader (\<lambda>rid. dec_then cur_wide (\<lambda>sequence. dec_then cur_flag (\<lambda>cancelled.
     dec_return (ReaderClosed rid sequence cancelled))))"

definition cur_ready :: "Frame frame_parser" where
  "cur_ready = dec_then cur_byte (\<lambda>b.
     if b = 1 then dec_return (Ready ContextBroker) else if b = 2 then dec_return (Ready Supervisor)
     else dec_lift (wsl_invalid ''unknown role''))"

definition cur_exit :: "ExitStatus frame_parser" where
  "cur_exit = dec_then cur_byte (\<lambda>kind. dec_then cur_number (\<lambda>code.
     if kind = 1 \<and> 0 \<le> sint code \<and> sint code \<le> 255 then dec_return (Exited code)
     else if kind = 2 \<and> 1 \<le> sint code \<and> sint code \<le> 64 then dec_return (Signaled code)
     else dec_lift (wsl_invalid ''invalid exit status'')))"

definition cur_option :: "'a frame_parser \<Rightarrow> 'a option frame_parser" where
  "cur_option d = dec_then cur_flag (\<lambda>present.
     if present then dec_then d (\<lambda>v. dec_return (Some v)) else dec_return None)"

definition cur_namespace_closed :: "Frame frame_parser" where
  "cur_namespace_closed = dec_then cur_exit (\<lambda>exit.
     dec_then (cur_option (cur_text MAX_PATH_LEN True)) (\<lambda>observation.
     dec_then cur_tail (\<lambda>stdout. dec_then cur_tail (\<lambda>stderr.
       dec_return (OwnedNamespaceClosed \<lparr>wr_exit = exit, wr_observation = observation,
         wr_stdout = stdout, wr_stderr = stderr\<rparr>)))))"

definition cur_failure_kind :: "FailureKind frame_parser" where
  "cur_failure_kind = dec_then cur_byte (\<lambda>b.
     if b = 1 then dec_return FkProtocol else if b = 2 then dec_return FkUnsupported
     else if b = 3 then dec_return FkContext else if b = 4 then dec_return FkNamespace
     else if b = 5 then dec_return FkCredentials else if b = 6 then dec_return FkWorkingDirectory
     else if b = 7 then dec_return FkExec else if b = 8 then dec_return FkObservation
     else if b = 9 then dec_return FkControl else if b = 10 then dec_return FkTimeout
     else if b = 11 then dec_return FkSystem else dec_lift (wsl_invalid ''unknown failure''))"

definition cur_errno :: "i32 frame_parser" where
  "cur_errno = dec_then cur_number (\<lambda>number.
     if number = 0 \<or> 4095 < number then dec_lift (wsl_invalid ''invalid errno'') else dec_return number)"

definition cur_failure :: "Frame frame_parser" where
  "cur_failure = dec_then cur_failure_kind (\<lambda>kind. dec_then (cur_option cur_errno) (\<lambda>errno.
     dec_return (Failure kind errno)))"

text \<open>The match of \<^verbatim>\<open>decode_frame\<close>.\<close>

definition cur_frame :: "u16 \<Rightarrow> Frame frame_parser" where
  "cur_frame tag =
     (if tag = 1 then dec_return Initialize
      else if tag = 2 then cur_launch
      else if tag = 3 then cur_observe
      else if tag = 4 then dec_return Stop
      else if tag = 5 then dec_return BrokerClose
      else if tag = 6 then cur_configure
      else if tag = 7 then cur_open
      else if tag = 8 then cur_read
      else if tag = 9 \<or> tag = 10 then cur_end tag
      else if tag = 107 then cur_opened
      else if tag = 108 then cur_page
      else if tag = 109 then cur_failed
      else if tag = 110 then cur_closed
      else if tag = 101 then cur_ready
      else if tag = 102 then dec_return WorkloadStarted
      else if tag = 103 then dec_return ShutdownPending
      else if tag = 104 then cur_namespace_closed
      else if tag = 105 then dec_return LinuxCompanionsClosed
      else if tag = 106 then cur_failure
      else dec_lift (wsl_invalid ''unknown frame''))"

text \<open>After the last field nothing may be left of the payload.\<close>

definition whole_payload :: "'a frame_parser \<Rightarrow> bytes \<Rightarrow> WslCodecError + 'a" where
  "whole_payload d bs = and_then (d bs) (\<lambda>(v, rest).
     if rest \<noteq> [] then wsl_invalid ''trailing payload'' else Inr v)"

definition decode_frame :: "Nonce \<Rightarrow> bytes \<Rightarrow> WslCodecError + Frame" where
  "decode_frame expected_nonce bs =
     and_then (header bs (Some expected_nonce)) (\<lambda>(_, len, tag).
     if length bs \<noteq> HEADER_LEN + len then wsl_invalid ''truncated or trailing frame''
     else whole_payload (cur_frame tag) (drop HEADER_LEN bs))"

text \<open>
  \<^verbatim>\<open>decode_owned\<close> reuses the buffer of a reader page for its bytes: \<open>start\<close> is where they begin, and
  copying them to the front and truncating leaves \<open>take count (drop start bs)\<close>.
\<close>

definition decode_owned :: "Nonce \<Rightarrow> bytes \<Rightarrow> WslCodecError + Frame" where
  "decode_owned expected_nonce bs =
     and_then (header bs (Some expected_nonce)) (\<lambda>(_, len, tag).
     if tag \<noteq> 108 then decode_frame expected_nonce bs
     else if length bs \<noteq> HEADER_LEN + len then wsl_invalid ''truncated or trailing frame''
     else whole_payload
       (dec_then cur_reader (\<lambda>rid. dec_then cur_wide (\<lambda>sequence. dec_then cur_wide (\<lambda>offset.
        dec_then cur_number (\<lambda>count.
        if sequence = 0 \<or> MAX_READER_PAGE < unat count \<or> checked_add offset (ucast count) = None
        then dec_lift (wsl_invalid ''invalid reader page'')
        else (\<lambda>rest. let start = length bs - length rest in
          dec_then (cur_take (unat count)) (\<lambda>_. dec_then cur_flag (\<lambda>eof.
            dec_return (ReaderPage rid sequence offset (take (unat count) (drop start bs)) eof))) rest))))))
       (drop HEADER_LEN bs))"

end
