(* ===== verification/Wsl_Codec.thy ===== *)
theory Wsl_Codec
  imports Wsl_Frame
begin

text \<open>
  The frame codec is canonical: \<open>decode_frame\<close> accepts exactly what \<open>encode_frame\<close> produces. The
  fields are interpretations of the contract \<open>wire\<close>; a frame is its tag (\<open>frame_tag\<close>), its payload
  (\<open>frame_bytes\<close>) and the condition on its fields (\<open>frame_ok\<close>).
\<close>

section \<open>Fields\<close>

lemma cur_take_eq_Inr: "cur_take n bs = Inr (v, r) \<longleftrightarrow> length v = n \<and> bs = v @ r"
  by (auto simp: cur_take_def split: if_splits)

lemmas cur_inv = parse_inv cur_take_eq_Inr

lemma le_take_iff:
  assumes "8 dvd LENGTH('a::len)"
  shows "(\<exists>b. length b = LENGTH('a) div 8 \<and> bs = b @ r \<and> from_le_bytes b = (v :: 'a word)) \<longleftrightarrow>
     bs = to_le_bytes v @ r"
proof
  assume "\<exists>b. length b = LENGTH('a) div 8 \<and> bs = b @ r \<and> from_le_bytes b = v"
  then obtain b where b: "length b = LENGTH('a) div 8" "bs = b @ r" "from_le_bytes b = v" by blast
  then have "to_be_bytes v = rev b"
    using to_from_be_bytes [OF assms, of "rev b"] by (auto simp: from_le_bytes_def)
  then show "bs = to_le_bytes v @ r" using b by (simp add: to_le_bytes_def)
next
  assume "bs = to_le_bytes v @ r"
  then show "\<exists>b. length b = LENGTH('a) div 8 \<and> bs = b @ r \<and> from_le_bytes b = v"
    using from_to_be_bytes [OF assms, of v]
    by (intro exI [of _ "to_le_bytes v"]) (simp add: from_le_bytes_def to_le_bytes_def)
qed

lemmas le_take_u16 = le_take_iff [where 'a = 16, simplified]
  and le_take_u32 = le_take_iff [where 'a = 32, simplified]
  and le_take_u64 = le_take_iff [where 'a = 64, simplified]

interpretation w_wide: wire to_le_bytes cur_wide "\<lambda>_. True"
  by (rule wireI) (use le_take_u64 in \<open>auto simp: cur_wide_def cur_inv\<close>)

interpretation w_number: wire to_le_bytes cur_number "\<lambda>_. True"
  by (rule wireI) (use le_take_u32 in \<open>auto simp: cur_number_def cur_inv\<close>)

interpretation w_byte: wire "\<lambda>b. [b]" cur_byte "\<lambda>_. True"
  by (rule wireI) (auto simp: cur_byte_def cur_inv length_Suc_conv)

interpretation w_flag: wire "\<lambda>b. [bool_byte b]" cur_flag "\<lambda>_. True"
  by (rule wireI, case_tac v)
    (auto simp: cur_flag_def bool_byte_def parse_inv w_byte.run_iff split: if_splits intro!: exI [of _ "0 :: u8"])

interpretation w_reader: wire arr16_bytes cur_reader "\<lambda>rid. rid \<noteq> arr16_fill 0"
proof (rule wireI)
  fix bs v r
  have "cur_reader bs = Inr (v, r) \<longleftrightarrow>
      (\<exists>b. length b = 16 \<and> bs = b @ r \<and> arr16_of b = v \<and> arr16_of b \<noteq> arr16_fill 0)"
    by (auto simp: cur_reader_def cur_inv split: if_splits)
  also have "\<dots> \<longleftrightarrow> v \<noteq> arr16_fill 0 \<and> bs = arr16_bytes v @ r"
    by (auto intro!: exI [of _ "arr16_bytes v"])
  finally show "cur_reader bs = Inr (v, r) \<longleftrightarrow> v \<noteq> arr16_fill 0 \<and> bs = arr16_bytes v @ r" .
qed

definition field_bytes :: "bytes \<Rightarrow> bytes" where
  "field_bytes bs = to_le_bytes (of_nat (length bs) :: u32) @ bs"

lemma length_field_bytes [simp]: "length (field_bytes bs) = 4 + length bs"
  by (simp add: field_bytes_def)

lemma cur_bytes_iff:
  assumes "maximum < 2 ^ 32"
  shows "cur_bytes maximum bs = Inr (v, r) \<longleftrightarrow> length v \<le> maximum \<and> bs = field_bytes v @ r"
proof
  assume "cur_bytes maximum bs = Inr (v, r)"
  then obtain count :: u32 where "unat count = length v" "length v \<le> maximum" "bs = to_le_bytes count @ v @ r"
    by (auto simp: cur_bytes_def cur_inv w_number.run_iff split: if_splits)
  moreover from this(1) have "count = of_nat (length v)" by (metis of_nat_unat ucast_id)
  ultimately show "length v \<le> maximum \<and> bs = field_bytes v @ r" by (simp add: field_bytes_def)
next
  assume "length v \<le> maximum \<and> bs = field_bytes v @ r"
  moreover from this assms have "unat (of_nat (length v) :: u32) = length v" by (simp add: unat_of_nat)
  ultimately show "cur_bytes maximum bs = Inr (v, r)"
    by (auto simp: cur_bytes_def cur_inv w_number.run_iff field_bytes_def
        intro!: exI [of _ "of_nat (length v) :: u32"])
qed

definition text_ok :: "usize \<Rightarrow> bool \<Rightarrow> str \<Rightarrow> bool" where
  "text_ok maximum path s \<longleftrightarrow>
     str_len s \<le> maximum \<and> 0 \<notin> set (str_bytes s) \<and> (path \<longrightarrow> str_starts_with s [47])"

lemma validate_text_eq_Inr: "validate_text s maximum path = Inr u \<longleftrightarrow> text_ok maximum path s"
  by (auto simp: validate_text_def text_ok_def)

definition text_bytes :: "str \<Rightarrow> bytes" where "text_bytes s = field_bytes (str_bytes s)"

lemma cur_text_iff:
  assumes "maximum < 2 ^ 32"
  shows "cur_text maximum path bs = Inr (v, r) \<longleftrightarrow> text_ok maximum path v \<and> bs = text_bytes v @ r"
  by (auto simp: cur_text_def parse_inv cur_bytes_iff [OF assms] result_simps from_utf8_eq_Some
      validate_text_eq_Inr text_bytes_def text_ok_def str_len_def)

interpretation w_path: wire text_bytes "cur_text MAX_PATH_LEN True" "text_ok MAX_PATH_LEN True"
  by (rule wireI) (rule cur_text_iff, simp add: MAX_PATH_LEN_def)

interpretation w_argument: wire text_bytes "cur_text 8192 False" "text_ok 8192 False"
  by (rule wireI) (rule cur_text_iff, simp)

definition tail_wire :: "DiagnosticTail \<Rightarrow> bytes" where
  "tail_wire t = bool_byte (tail_truncated t) # field_bytes (tail_bytes t)"

definition tail_ok :: "DiagnosticTail \<Rightarrow> bool" where
  "tail_ok t \<longleftrightarrow> length (tail_bytes t) \<le> MAX_DIAGNOSTIC_LEN"

interpretation w_tail: wire tail_wire cur_tail tail_ok
  by (rule wireI, case_tac v)
    (auto simp: cur_tail_def parse_inv w_flag.run_iff cur_bytes_iff MAX_DIAGNOSTIC_LEN_def tail_wire_def tail_ok_def)

definition option_wire :: "('a \<Rightarrow> bytes) \<Rightarrow> 'a option \<Rightarrow> bytes" where
  "option_wire enc v = (case v of None \<Rightarrow> [bool_byte False] | Some x \<Rightarrow> bool_byte True # enc x)"

lemma cur_option_iff:
  assumes "\<And>bs v r. d bs = Inr (v, r) \<longleftrightarrow> ok v \<and> bs = enc v @ r"
  shows "cur_option d bs = Inr (v, r) \<longleftrightarrow> pred_option ok v \<and> bs = option_wire enc v @ r"
  by (cases v) (auto simp: cur_option_def option_wire_def parse_inv w_flag.run_iff assms split: if_splits)

interpretation w_observed: wire "option_wire text_bytes" "cur_option (cur_text MAX_PATH_LEN True)"
    "pred_option (text_ok MAX_PATH_LEN True)"
  by (rule wireI) (rule cur_option_iff, rule w_path.run_iff)

definition errno_ok :: "i32 \<Rightarrow> bool" where "errno_ok e \<longleftrightarrow> 0 < sint e \<and> sint e \<le> 4095"

lemma sint_32:
  "sint (e :: 32 word) = uint e \<and> uint e < 2 ^ 31 \<or> sint e < 0 \<and> 2 ^ 31 \<le> uint e"
proof (cases "uint e < 2 ^ 31")
  case True
  then have "sint e = uint e"
    using signed_take_bit_int_eq_self [of 31 "uint e"] uint_ge_0 [of e] by (simp add: sint_uint)
  with True show ?thesis by simp
next
  case False
  then have "sint e \<le> uint e - 2 ^ 32"
    using signed_take_bit_int_less_eq [of 31 "uint e"] by (simp add: sint_uint)
  moreover have "uint e < 2 ^ 32" using uint_lt2p [of e] by simp
  ultimately show ?thesis using False by simp
qed

lemma errno_ok_iff: "errno_ok e \<longleftrightarrow> e \<noteq> 0 \<and> e \<le> 4095"
proof -
  have "e = 0 \<longleftrightarrow> uint e = 0" "e \<le> 4095 \<longleftrightarrow> uint e \<le> 4095"
    by (simp_all add: word_uint_eq_iff word_le_def)
  then show ?thesis using sint_32 [of e] uint_ge_0 [of e] by (auto simp: errno_ok_def less_le)
qed

section \<open>Frames\<close>

fun frame_tag :: "Frame \<Rightarrow> u16" where
  "frame_tag Initialize = 1"
| "frame_tag (LaunchServer _ _ _) = 2"
| "frame_tag (Observe _ _ _) = 3"
| "frame_tag Stop = 4"
| "frame_tag BrokerClose = 5"
| "frame_tag (ConfigureReaders _) = 6"
| "frame_tag (ReaderOpen _ _) = 7"
| "frame_tag (ReaderRead _ _ _ _) = 8"
| "frame_tag (ReaderCancel _ _) = 9"
| "frame_tag (ReaderClose _ _) = 10"
| "frame_tag (ReaderOpened _ _) = 107"
| "frame_tag (ReaderPage _ _ _ _ _) = 108"
| "frame_tag (ReaderFailed _ _ _) = 109"
| "frame_tag (ReaderClosed _ _ _) = 110"
| "frame_tag (Ready _) = 101"
| "frame_tag WorkloadStarted = 102"
| "frame_tag ShutdownPending = 103"
| "frame_tag (OwnedNamespaceClosed _) = 104"
| "frame_tag LinuxCompanionsClosed = 105"
| "frame_tag (Failure _ _) = 106"

fun exit_wire :: "ExitStatus \<Rightarrow> bytes" where
  "exit_wire (Exited code) = 1 # to_le_bytes code"
| "exit_wire (Signaled signal) = 2 # to_le_bytes signal"

fun exit_ok :: "ExitStatus \<Rightarrow> bool" where
  "exit_ok (Exited code) \<longleftrightarrow> 0 \<le> sint code \<and> sint code \<le> 255"
| "exit_ok (Signaled signal) \<longleftrightarrow> 1 \<le> sint signal \<and> sint signal \<le> 64"

fun frame_bytes :: "Frame \<Rightarrow> bytes" where
  "frame_bytes (LaunchServer executable execution_root arguments) =
     text_bytes executable @ text_bytes execution_root @
     to_le_bytes (of_nat (length arguments) :: u32) @ concat (map text_bytes arguments)"
| "frame_bytes (Observe kind path timeout_ms) =
     observation_tag kind # to_le_bytes timeout_ms @ (case path of None \<Rightarrow> [] | Some path \<Rightarrow> text_bytes path)"
| "frame_bytes (ConfigureReaders limit) = to_le_bytes limit"
| "frame_bytes (ReaderOpen rid path) = arr16_bytes rid @ text_bytes path"
| "frame_bytes (ReaderRead rid sequence offset allowance) =
     arr16_bytes rid @ to_le_bytes sequence @ to_le_bytes offset @ to_le_bytes allowance"
| "frame_bytes (ReaderCancel rid sequence) = arr16_bytes rid @ to_le_bytes sequence"
| "frame_bytes (ReaderClose rid sequence) = arr16_bytes rid @ to_le_bytes sequence"
| "frame_bytes (ReaderOpened rid len) = arr16_bytes rid @ to_le_bytes len"
| "frame_bytes (ReaderPage rid sequence offset data eof) =
     arr16_bytes rid @ to_le_bytes sequence @ to_le_bytes offset @ field_bytes data @ [bool_byte eof]"
| "frame_bytes (ReaderFailed rid sequence kind) =
     arr16_bytes rid @ to_le_bytes sequence @ [reader_failure_tag kind]"
| "frame_bytes (ReaderClosed rid sequence cancelled) =
     arr16_bytes rid @ to_le_bytes sequence @ [bool_byte cancelled]"
| "frame_bytes (Ready role) = [role_tag role]"
| "frame_bytes (OwnedNamespaceClosed result) =
     exit_wire (wr_exit result) @ option_wire text_bytes (wr_observation result) @
     tail_wire (wr_stdout result) @ tail_wire (wr_stderr result)"
| "frame_bytes (Failure kind errno) = failure_tag kind # option_wire to_le_bytes errno"
| "frame_bytes _ = []"

fun frame_ok :: "Frame \<Rightarrow> bool" where
  "frame_ok (LaunchServer executable execution_root arguments) \<longleftrightarrow>
     text_ok MAX_PATH_LEN True executable \<and> text_ok MAX_PATH_LEN True execution_root \<and>
     length arguments \<le> 64 \<and> (\<forall>a\<in>set arguments. text_ok 8192 False a)"
| "frame_ok (Observe kind path timeout_ms) \<longleftrightarrow>
     timeout_ms \<noteq> 0 \<and> timeout_ms \<le> 30000 \<and> (kind = ObsHome \<longleftrightarrow> path = None) \<and>
     pred_option (text_ok MAX_PATH_LEN True) path"
| "frame_ok (ConfigureReaders limit) \<longleftrightarrow> limit \<noteq> 0"
| "frame_ok (ReaderOpen rid path) \<longleftrightarrow> rid \<noteq> arr16_fill 0 \<and> text_ok MAX_PATH_LEN True path"
| "frame_ok (ReaderRead rid sequence offset allowance) \<longleftrightarrow>
     rid \<noteq> arr16_fill 0 \<and> sequence \<noteq> 0 \<and> allowance \<noteq> 0 \<and> unat allowance \<le> MAX_READER_PAGE \<and>
     checked_add offset (ucast allowance) \<noteq> None"
| "frame_ok (ReaderCancel rid sequence) \<longleftrightarrow> rid \<noteq> arr16_fill 0 \<and> sequence \<noteq> 0"
| "frame_ok (ReaderClose rid sequence) \<longleftrightarrow> rid \<noteq> arr16_fill 0 \<and> sequence \<noteq> 0"
| "frame_ok (ReaderOpened rid len) \<longleftrightarrow> rid \<noteq> arr16_fill 0 \<and> len \<noteq> 0"
| "frame_ok (ReaderPage rid sequence offset data eof) \<longleftrightarrow>
     rid \<noteq> arr16_fill 0 \<and> sequence \<noteq> 0 \<and> length data \<le> MAX_READER_PAGE \<and>
     checked_add offset (of_nat (length data)) \<noteq> None"
| "frame_ok (ReaderFailed rid _ _) \<longleftrightarrow> rid \<noteq> arr16_fill 0"
| "frame_ok (ReaderClosed rid _ _) \<longleftrightarrow> rid \<noteq> arr16_fill 0"
| "frame_ok (OwnedNamespaceClosed result) \<longleftrightarrow>
     exit_ok (wr_exit result) \<and> pred_option (text_ok MAX_PATH_LEN True) (wr_observation result) \<and>
     tail_ok (wr_stdout result) \<and> tail_ok (wr_stderr result)"
| "frame_ok (Failure kind errno) \<longleftrightarrow> pred_option errno_ok errno"
| "frame_ok _ \<longleftrightarrow> True"

text \<open>Every payload parser accepts the payloads of the frames of its tag, and nothing else.\<close>

lemma cur_arguments_iff:
  "cur_arguments n bs = Inr (as, r) \<longleftrightarrow>
     length as = n \<and> (\<forall>a\<in>set as. text_ok 8192 False a) \<and> bs = concat (map text_bytes as) @ r"
proof (induction n arbitrary: bs as)
  case (Suc n)
  then show ?case
    by (cases as) (auto simp: parse_inv w_argument.run_iff)
qed (auto simp: parse_inv)

lemma cur_arguments_run:
  "\<forall>a\<in>set as. text_ok 8192 False a \<Longrightarrow> dec_then (cur_arguments (length as)) f (concat (map text_bytes as) @ r) = f as r"
  using cur_arguments_iff [of "length as" "concat (map text_bytes as) @ r" as r] by (simp add: dec_then_run)

lemma byte_run: "dec_then cur_byte f (b # r) = f b r"
  using w_byte.run_step [of f b r] by simp

lemma flag_run: "dec_then cur_flag f (bool_byte b # r) = f b r"
  using w_flag.run_step [of f b r] by simp

lemma cur_bytes_run:
  "maximum < 2 ^ 32 \<Longrightarrow> length v \<le> maximum \<Longrightarrow> dec_then (cur_bytes maximum) f (field_bytes v @ r) = f v r"
  using cur_bytes_iff [of maximum "field_bytes v @ r" v r] by (simp add: dec_then_run)

lemmas wire_run = w_wide.run_step w_number.run_step w_reader.run_step w_path.run_step w_argument.run_step
  w_tail.run_step w_observed.run_step byte_run flag_run cur_arguments_run

lemmas wire_iff = w_wide.run_iff w_number.run_iff w_reader.run_iff w_path.run_iff w_argument.run_iff
  w_tail.run_iff w_observed.run_iff w_byte.run_iff w_flag.run_iff cur_arguments_iff

lemma count_of_unat: "of_nat (unat (count :: u32)) = count"
  by simp

lemma cur_launch_iff:
  "cur_launch bs = Inr (f, r) \<longleftrightarrow> frame_tag f = 2 \<and> frame_ok f \<and> bs = frame_bytes f @ r"
proof
  assume "cur_launch bs = Inr (f, r)"
  then show "frame_tag f = 2 \<and> frame_ok f \<and> bs = frame_bytes f @ r"
    by (auto simp: cur_launch_def parse_inv wire_iff split: if_splits)
next
  assume "frame_tag f = 2 \<and> frame_ok f \<and> bs = frame_bytes f @ r"
  then show "cur_launch bs = Inr (f, r)"
    by (cases f) (simp_all add: cur_launch_def wire_run unat_of_nat)
qed

lemma cur_observation_iff: "cur_observation bs = Inr (v, r) \<longleftrightarrow> bs = observation_tag v # r"
proof
  assume "cur_observation bs = Inr (v, r)"
  then show "bs = observation_tag v # r"
    by (auto simp: cur_observation_def parse_inv wire_iff split: if_splits)
next
  assume "bs = observation_tag v # r"
  then show "cur_observation bs = Inr (v, r)" by (cases v) (simp_all add: cur_observation_def byte_run)
qed

lemma cur_observation_run: "dec_then cur_observation f (observation_tag v # r) = f v r"
  using cur_observation_iff [of "observation_tag v # r" v r] by (simp add: dec_then_run)

lemma cur_observe_iff:
  "cur_observe bs = Inr (f, r) \<longleftrightarrow> frame_tag f = 3 \<and> frame_ok f \<and> bs = frame_bytes f @ r"
proof
  assume "cur_observe bs = Inr (f, r)"
  then show "frame_tag f = 3 \<and> frame_ok f \<and> bs = frame_bytes f @ r"
    by (auto simp: cur_observe_def parse_inv wire_iff cur_observation_iff not_less split: if_splits)
next
  assume "frame_tag f = 3 \<and> frame_ok f \<and> bs = frame_bytes f @ r"
  then show "cur_observe bs = Inr (f, r)"
    by (cases f) (auto simp: cur_observe_def cur_observation_run wire_run not_less split: option.splits)
qed

lemma cur_configure_iff:
  "cur_configure bs = Inr (f, r) \<longleftrightarrow> frame_tag f = 6 \<and> frame_ok f \<and> bs = frame_bytes f @ r"
proof
  assume "cur_configure bs = Inr (f, r)"
  then show "frame_tag f = 6 \<and> frame_ok f \<and> bs = frame_bytes f @ r"
    by (auto simp: cur_configure_def parse_inv wire_iff  not_less split: if_splits)
next
  assume "frame_tag f = 6 \<and> frame_ok f \<and> bs = frame_bytes f @ r"
  then show "cur_configure bs = Inr (f, r)"
    by (cases f) (auto simp: cur_configure_def wire_run  not_less)
qed

lemma cur_open_iff:
  "cur_open bs = Inr (f, r) \<longleftrightarrow> frame_tag f = 7 \<and> frame_ok f \<and> bs = frame_bytes f @ r"
proof
  assume "cur_open bs = Inr (f, r)"
  then show "frame_tag f = 7 \<and> frame_ok f \<and> bs = frame_bytes f @ r"
    by (auto simp: cur_open_def parse_inv wire_iff text_ok_def not_less split: if_splits)
next
  assume "frame_tag f = 7 \<and> frame_ok f \<and> bs = frame_bytes f @ r"
  then show "cur_open bs = Inr (f, r)"
    by (cases f) (auto simp: cur_open_def wire_run text_ok_def not_less)
qed

lemma cur_read_iff:
  "cur_read bs = Inr (f, r) \<longleftrightarrow> frame_tag f = 8 \<and> frame_ok f \<and> bs = frame_bytes f @ r"
proof
  assume "cur_read bs = Inr (f, r)"
  then show "frame_tag f = 8 \<and> frame_ok f \<and> bs = frame_bytes f @ r"
    by (auto simp: cur_read_def parse_inv wire_iff  not_less split: if_splits)
next
  assume "frame_tag f = 8 \<and> frame_ok f \<and> bs = frame_bytes f @ r"
  then show "cur_read bs = Inr (f, r)"
    by (cases f) (auto simp: cur_read_def wire_run  not_less)
qed

lemma cur_opened_iff:
  "cur_opened bs = Inr (f, r) \<longleftrightarrow> frame_tag f = 107 \<and> frame_ok f \<and> bs = frame_bytes f @ r"
proof
  assume "cur_opened bs = Inr (f, r)"
  then show "frame_tag f = 107 \<and> frame_ok f \<and> bs = frame_bytes f @ r"
    by (auto simp: cur_opened_def parse_inv wire_iff  not_less split: if_splits)
next
  assume "frame_tag f = 107 \<and> frame_ok f \<and> bs = frame_bytes f @ r"
  then show "cur_opened bs = Inr (f, r)"
    by (cases f) (auto simp: cur_opened_def wire_run  not_less)
qed

lemma cur_page_iff:
  "cur_page bs = Inr (f, r) \<longleftrightarrow> frame_tag f = 108 \<and> frame_ok f \<and> bs = frame_bytes f @ r"
proof
  assume "cur_page bs = Inr (f, r)"
  then show "frame_tag f = 108 \<and> frame_ok f \<and> bs = frame_bytes f @ r"
    by (auto simp: cur_page_def parse_inv wire_iff cur_bytes_iff MAX_READER_PAGE_def not_less split: if_splits)
next
  assume "frame_tag f = 108 \<and> frame_ok f \<and> bs = frame_bytes f @ r"
  then show "cur_page bs = Inr (f, r)"
    by (cases f) (auto simp: cur_page_def wire_run cur_bytes_run MAX_READER_PAGE_def not_less)
qed

lemma cur_reader_failure_iff: "cur_reader_failure bs = Inr (v, r) \<longleftrightarrow> bs = reader_failure_tag v # r"
proof
  assume "cur_reader_failure bs = Inr (v, r)"
  then show "bs = reader_failure_tag v # r"
    by (auto simp: cur_reader_failure_def parse_inv wire_iff split: if_splits)
next
  assume "bs = reader_failure_tag v # r"
  then show "cur_reader_failure bs = Inr (v, r)" by (cases v) (simp_all add: cur_reader_failure_def byte_run)
qed

lemma cur_reader_failure_run: "dec_then cur_reader_failure f (reader_failure_tag v # r) = f v r"
  using cur_reader_failure_iff [of "reader_failure_tag v # r" v r] by (simp add: dec_then_run)

lemma cur_failed_iff:
  "cur_failed bs = Inr (f, r) \<longleftrightarrow> frame_tag f = 109 \<and> frame_ok f \<and> bs = frame_bytes f @ r"
proof
  assume "cur_failed bs = Inr (f, r)"
  then show "frame_tag f = 109 \<and> frame_ok f \<and> bs = frame_bytes f @ r"
    by (auto simp: cur_failed_def parse_inv wire_iff cur_reader_failure_iff not_less split: if_splits)
next
  assume "frame_tag f = 109 \<and> frame_ok f \<and> bs = frame_bytes f @ r"
  then show "cur_failed bs = Inr (f, r)"
    by (cases f) (auto simp: cur_failed_def wire_run cur_reader_failure_run not_less)
qed

lemma cur_closed_iff:
  "cur_closed bs = Inr (f, r) \<longleftrightarrow> frame_tag f = 110 \<and> frame_ok f \<and> bs = frame_bytes f @ r"
proof
  assume "cur_closed bs = Inr (f, r)"
  then show "frame_tag f = 110 \<and> frame_ok f \<and> bs = frame_bytes f @ r"
    by (auto simp: cur_closed_def parse_inv wire_iff  not_less split: if_splits)
next
  assume "frame_tag f = 110 \<and> frame_ok f \<and> bs = frame_bytes f @ r"
  then show "cur_closed bs = Inr (f, r)"
    by (cases f) (auto simp: cur_closed_def wire_run  not_less)
qed

lemma cur_end_iff:
  assumes "tag = 9 \<or> tag = 10"
  shows "cur_end tag bs = Inr (f, r) \<longleftrightarrow> frame_tag f = tag \<and> frame_ok f \<and> bs = frame_bytes f @ r"
proof
  assume "cur_end tag bs = Inr (f, r)"
  then show "frame_tag f = tag \<and> frame_ok f \<and> bs = frame_bytes f @ r"
    using assms by (auto simp: cur_end_def parse_inv wire_iff split: if_splits)
next
  assume "frame_tag f = tag \<and> frame_ok f \<and> bs = frame_bytes f @ r"
  then show "cur_end tag bs = Inr (f, r)"
    using assms by (cases f) (auto simp: cur_end_def wire_run)
qed

lemma cur_ready_iff:
  "cur_ready bs = Inr (f, r) \<longleftrightarrow> frame_tag f = 101 \<and> frame_ok f \<and> bs = frame_bytes f @ r"
proof
  assume "cur_ready bs = Inr (f, r)"
  then show "frame_tag f = 101 \<and> frame_ok f \<and> bs = frame_bytes f @ r"
    by (auto simp: cur_ready_def parse_inv wire_iff split: if_splits)
next
  assume *: "frame_tag f = 101 \<and> frame_ok f \<and> bs = frame_bytes f @ r"
  then obtain role where "f = Ready role" by (cases f) auto
  with * show "cur_ready bs = Inr (f, r)" by (cases role) (simp_all add: cur_ready_def byte_run)
qed

interpretation w_exit: wire exit_wire cur_exit exit_ok
proof (rule wireI, rule iffI)
  fix bs v r
  assume "cur_exit bs = Inr (v, r)"
  then show "exit_ok v \<and> bs = exit_wire v @ r"
    by (auto simp: cur_exit_def parse_inv wire_iff split: if_splits)
next
  fix bs v r
  assume "exit_ok v \<and> bs = exit_wire v @ r"
  then show "cur_exit bs = Inr (v, r)" by (cases v) (auto simp: cur_exit_def wire_run)
qed

lemma cur_failure_kind_iff: "cur_failure_kind bs = Inr (v, r) \<longleftrightarrow> bs = failure_tag v # r"
proof
  assume "cur_failure_kind bs = Inr (v, r)"
  then show "bs = failure_tag v # r"
    by (auto simp: cur_failure_kind_def parse_inv wire_iff split: if_splits)
next
  assume "bs = failure_tag v # r"
  then show "cur_failure_kind bs = Inr (v, r)" by (cases v) (simp_all add: cur_failure_kind_def byte_run)
qed

lemma cur_failure_kind_run: "dec_then cur_failure_kind f (failure_tag v # r) = f v r"
  using cur_failure_kind_iff [of "failure_tag v # r" v r] by (simp add: dec_then_run)

interpretation w_errno: wire to_le_bytes cur_errno errno_ok
  by (rule wireI) (auto simp: cur_errno_def parse_inv wire_iff errno_ok_iff not_less split: if_splits
      intro!: exI [of _ "_ :: i32"])

interpretation w_errno_option: wire "option_wire to_le_bytes" "cur_option cur_errno" "pred_option errno_ok"
  by (rule wireI) (rule cur_option_iff, rule w_errno.run_iff)

lemma cur_failure_iff:
  "cur_failure bs = Inr (f, r) \<longleftrightarrow> frame_tag f = 106 \<and> frame_ok f \<and> bs = frame_bytes f @ r"
proof
  assume "cur_failure bs = Inr (f, r)"
  then show "frame_tag f = 106 \<and> frame_ok f \<and> bs = frame_bytes f @ r"
    by (auto simp: cur_failure_def parse_inv cur_failure_kind_iff w_errno_option.run_iff)
next
  assume "frame_tag f = 106 \<and> frame_ok f \<and> bs = frame_bytes f @ r"
  then show "cur_failure bs = Inr (f, r)"
    by (cases f) (auto simp: cur_failure_def cur_failure_kind_run w_errno_option.run_step)
qed

lemma cur_namespace_closed_iff:
  "cur_namespace_closed bs = Inr (f, r) \<longleftrightarrow> frame_tag f = 104 \<and> frame_ok f \<and> bs = frame_bytes f @ r"
proof
  assume "cur_namespace_closed bs = Inr (f, r)"
  then show "frame_tag f = 104 \<and> frame_ok f \<and> bs = frame_bytes f @ r"
    by (auto simp: cur_namespace_closed_def parse_inv w_exit.run_iff wire_iff)
next
  assume "frame_tag f = 104 \<and> frame_ok f \<and> bs = frame_bytes f @ r"
  then show "cur_namespace_closed bs = Inr (f, r)"
    by (cases f) (auto simp: cur_namespace_closed_def w_exit.run_step wire_run)
qed

lemmas cur_iff = cur_launch_iff cur_observe_iff cur_configure_iff cur_open_iff cur_read_iff cur_opened_iff
  cur_page_iff cur_failed_iff cur_closed_iff cur_ready_iff cur_namespace_closed_iff cur_failure_iff cur_end_iff

lemma cur_frame_iff:
  "cur_frame tag bs = Inr (f, r) \<longleftrightarrow> frame_tag f = tag \<and> frame_ok f \<and> bs = frame_bytes f @ r"
proof
  assume "cur_frame tag bs = Inr (f, r)"
  then show "frame_tag f = tag \<and> frame_ok f \<and> bs = frame_bytes f @ r"
    by (auto simp: cur_frame_def cur_iff parse_inv split: if_splits)
next
  assume "frame_tag f = tag \<and> frame_ok f \<and> bs = frame_bytes f @ r"
  then show "cur_frame tag bs = Inr (f, r)"
    by (cases f) (auto simp: cur_frame_def cur_iff)
qed

lemma whole_payload_frame:
  "whole_payload (cur_frame tag) bs = Inr f \<longleftrightarrow> frame_tag f = tag \<and> frame_ok f \<and> bs = frame_bytes f"
  by (auto simp: whole_payload_def result_simps cur_frame_iff split: if_splits)

section \<open>Headers\<close>

definition header_bytes :: "Nonce \<Rightarrow> u16 \<Rightarrow> usize \<Rightarrow> bytes" where
  "header_bytes nonce tag len = MAGIC @ to_le_bytes PROTOCOL_VERSION @ to_le_bytes tag @
     to_le_bytes (of_nat len :: u32) @ arr32_bytes nonce"

lemma length_MAGIC [simp]: "length MAGIC = 8"
  by (simp add: MAGIC_def)

lemma length_header_bytes [simp]: "length (header_bytes nonce tag len) = HEADER_LEN"
  by (simp add: header_bytes_def HEADER_LEN_def)

definition tag_known :: "u16 \<Rightarrow> bool" where
  "tag_known tag \<longleftrightarrow> 1 \<le> tag \<and> tag \<le> 10 \<or> 101 \<le> tag \<and> tag \<le> 110"

lemma header_run:
  assumes "len \<le> MAX_PAYLOAD_LEN" and "tag_known tag" and "reader_length_ok tag len"
    and "expected = None \<or> expected = Some nonce"
  shows "header (header_bytes nonce tag len @ rest) expected = Inr (nonce, len, tag)"
proof -
  have "len < 2 ^ 32" using assms(1) by (simp add: MAX_PAYLOAD_LEN_def)
  then have "unat (of_nat len :: u32) = len" by (simp add: unat_of_nat)
  then show ?thesis
    using assms by (auto simp: header_def header_bytes_def HEADER_LEN_def Let_def tag_known_def)
qed

lemma le_bytes_u16: "length b = 2 \<Longrightarrow> to_le_bytes (from_le_bytes b :: u16) = b"
  and le_bytes_u32: "length c = 4 \<Longrightarrow> to_le_bytes (from_le_bytes c :: u32) = c"
  using le_take_u16 [of b "[]" "from_le_bytes b"] le_take_u32 [of c "[]" "from_le_bytes c"] by auto

lemma header_inv:
  assumes "header bs expected = Inr (nonce, len, tag)"
  shows "bs = header_bytes nonce tag len @ drop HEADER_LEN bs \<and> len \<le> MAX_PAYLOAD_LEN \<and> tag_known tag \<and>
    reader_length_ok tag len \<and> (expected = None \<or> expected = Some nonce)"
proof -
  have long: "48 \<le> length bs" and magic: "take 8 bs = MAGIC"
    and version: "from_le_bytes (take 2 (drop 8 bs)) = PROTOCOL_VERSION"
    and tag: "tag = from_le_bytes (take 2 (drop 10 bs))" and len: "len = unat (from_le_bytes (take 4 (drop 12 bs)) :: u32)"
    and nonce: "nonce = arr32_of (take 32 (drop 16 bs))"
    and rest: "len \<le> MAX_PAYLOAD_LEN" "tag_known tag" "reader_length_ok tag len" "expected = None \<or> expected = Some nonce"
    using assms by (auto simp: header_def HEADER_LEN_def Let_def tag_known_def split: if_splits)
  have "bs = take 8 bs @ take 2 (drop 8 bs) @ take 2 (drop 10 bs) @ take 4 (drop 12 bs) @
      take 32 (drop 16 bs) @ drop 48 bs"
  proof -
    have split_at: "drop n bs = take k (drop n bs) @ drop (n + k) bs" for n k
      using append_take_drop_id [of k "drop n bs"] by (simp add: ac_simps)
    show ?thesis
      using append_take_drop_id [of 8 bs] split_at [of 8 2] split_at [of 10 2] split_at [of 12 4] split_at [of 16 32]
      by simp
  qed
  moreover have "take 2 (drop 8 bs) = to_le_bytes PROTOCOL_VERSION" "take 2 (drop 10 bs) = to_le_bytes tag"
    "take 4 (drop 12 bs) = to_le_bytes (of_nat len :: u32)" "take 32 (drop 16 bs) = arr32_bytes nonce"
    using long by (simp_all add: version [symmetric] tag len nonce le_bytes_u16 le_bytes_u32)
  ultimately have "bs = header_bytes nonce tag len @ drop HEADER_LEN bs"
    using magic by (simp add: header_bytes_def HEADER_LEN_def)
  with rest show ?thesis by blast
qed

section \<open>Encoder\<close>

definition frame_limit :: usize where "frame_limit = HEADER_LEN + MAX_PAYLOAD_LEN"

lemma put_bytes_eq_Inr:
  "put_bytes bs maximum p = Inr q \<longleftrightarrow>
     length bs \<le> maximum \<and> length p + length (field_bytes bs) \<le> frame_limit \<and> q = p @ field_bytes bs"
  by (auto simp: put_bytes_def put_number_def field_bytes_def usize_saturating_add_def usize_max_def
      frame_limit_def HEADER_LEN_def MAX_PAYLOAD_LEN_def min_def split: if_splits)

lemma put_text_eq_Inr:
  "put_text s maximum path p = Inr q \<longleftrightarrow>
     text_ok maximum path s \<and> length p + length (text_bytes s) \<le> frame_limit \<and> q = p @ text_bytes s"
  by (auto simp: put_text_def result_simps validate_text_eq_Inr put_bytes_eq_Inr text_bytes_def text_ok_def
      str_len_def)

lemma put_tail_eq_Inr:
  "put_tail t p = Inr q \<longleftrightarrow> tail_ok t \<and> length p + length (tail_wire t) \<le> frame_limit \<and> q = p @ tail_wire t"
  by (auto simp: put_tail_def put_byte_def put_bytes_eq_Inr tail_ok_def tail_wire_def)

lemma put_arguments_sound:
  "put_arguments as p = Inr q \<Longrightarrow> (\<forall>a\<in>set as. text_ok 8192 False a) \<and> q = p @ concat (map text_bytes as)"
proof (induction as arbitrary: p)
  case (Cons a as)
  then have "text_ok 8192 False a" and "put_arguments as (p @ text_bytes a) = Inr q"
    by (auto simp: result_simps put_text_eq_Inr)
  with Cons.IH [of "p @ text_bytes a"] show ?case by simp
qed simp

lemma put_arguments_complete:
  "\<forall>a\<in>set as. text_ok 8192 False a \<Longrightarrow> length p + length (concat (map text_bytes as)) \<le> frame_limit \<Longrightarrow>
     put_arguments as p = Inr (p @ concat (map text_bytes as))"
proof (induction as arbitrary: p)
  case (Cons a as)
  then have "put_text a 8192 False p = Inr (p @ text_bytes a)" by (simp add: put_text_eq_Inr)
  then show ?case using Cons by simp
qed simp

lemmas put_simps = put_reader_def put_wide_def put_byte_def put_number_def

lemma put_frame_sound:
  assumes "put_frame f p = Inr (tag, q)"
  shows "tag = frame_tag f \<and> frame_ok f \<and> q = p @ frame_bytes f"
  using assms
  by (cases f) (auto simp: put_simps result_simps put_text_eq_Inr put_bytes_eq_Inr put_tail_eq_Inr Let_def
      option_wire_def bool_byte_def errno_ok_def not_less not_le
      split: if_splits option.splits ObservationKind.splits ExitStatus.splits dest!: put_arguments_sound)

lemma put_frame_complete:
  assumes "frame_ok f" and "length p + length (frame_bytes f) \<le> frame_limit"
  shows "put_frame f p = Inr (frame_tag f, p @ frame_bytes f)"
proof (cases f)
  case (LaunchServer e x as)
  let ?p = "(p @ text_bytes e) @ text_bytes x"
  have "put_text e MAX_PATH_LEN True p = Inr (p @ text_bytes e)"
    "put_text x MAX_PATH_LEN True (p @ text_bytes e) = Inr ?p"
    using assms LaunchServer by (simp_all add: put_text_eq_Inr)
  moreover have "put_arguments as (put_number (of_nat (length as)) ?p) =
      Inr (put_number (of_nat (length as)) ?p @ concat (map text_bytes as))"
    by (rule put_arguments_complete) (use assms LaunchServer in \<open>simp_all add: put_number_def\<close>)
  ultimately show ?thesis using LaunchServer assms by (simp add: put_number_def)
next
  case (Observe kind path t)
  with assms have "\<forall>s. path = Some s \<longrightarrow>
      put_text s MAX_PATH_LEN True (put_number t (put_byte (observation_tag kind) p)) =
      Inr (put_number t (put_byte (observation_tag kind) p) @ text_bytes s)"
    by (auto simp: put_text_eq_Inr put_simps)
  with Observe assms show ?thesis
    by (cases kind) (auto simp: put_simps Let_def not_less)
next
  case (ReaderOpen rid path)
  with assms have "put_text path MAX_PATH_LEN True (p @ arr16_bytes rid) = Inr ((p @ arr16_bytes rid) @ text_bytes path)"
    by (auto simp: put_text_eq_Inr)
  with ReaderOpen assms show ?thesis by (simp add: put_simps text_ok_def)
next
  case (ReaderPage rid sequence offset data eof)
  let ?p = "put_wide offset (put_wide sequence (p @ arr16_bytes rid))"
  from ReaderPage assms have "put_bytes data MAX_READER_PAGE ?p = Inr (?p @ field_bytes data)"
    by (auto simp: put_bytes_eq_Inr put_simps)
  with ReaderPage assms show ?thesis by (simp add: put_simps)
next
  case (OwnedNamespaceClosed result)
  let ?x = "p @ exit_wire (wr_exit result)"
  let ?o = "?x @ option_wire text_bytes (wr_observation result)"
  let ?s = "?o @ tail_wire (wr_stdout result)"
  note ok = assms [unfolded OwnedNamespaceClosed, simplified]
  have "(case wr_exit result of
         Exited code \<Rightarrow> if 0 \<le> sint code \<and> sint code \<le> 255 then Inr (put_number code (put_byte 1 p))
           else wsl_invalid ''invalid exit status''
       | Signaled signal \<Rightarrow> if 1 \<le> sint signal \<and> sint signal \<le> 64 then Inr (put_number signal (put_byte 2 p))
           else wsl_invalid ''invalid exit status'') = Inr ?x"
    using ok by (cases "wr_exit result") (auto simp: put_simps)
  moreover have "(case wr_observation result of
         None \<Rightarrow> Inr (put_byte 0 ?x)
       | Some path \<Rightarrow> put_text path MAX_PATH_LEN True (put_byte 1 ?x)) = Inr ?o"
    using ok by (cases "wr_observation result") (auto simp: put_text_eq_Inr put_byte_def option_wire_def bool_byte_def)
  moreover have "put_tail (wr_stdout result) ?o = Inr ?s"
    "put_tail (wr_stderr result) ?s = Inr (?s @ tail_wire (wr_stderr result))"
    using ok by (simp_all add: put_tail_eq_Inr)
  ultimately show ?thesis by (simp add: OwnedNamespaceClosed)
next
  case (Failure kind errno)
  with assms show ?thesis
    by (cases errno) (auto simp: put_simps Let_def option_wire_def bool_byte_def errno_ok_def)
qed (use assms in \<open>simp_all add: put_simps not_less\<close>)

lemma text_bytes_length: "length (text_bytes s) = 4 + str_len s"
  by (simp add: text_bytes_def str_len_def)

lemma frame_tag_known: "tag_known (frame_tag f)"
  by (cases f) (simp_all add: tag_known_def)

lemma frame_reader_length:
  assumes "frame_ok f"
  shows "reader_length_ok (frame_tag f) (length (frame_bytes f))"
proof -
  have "1 \<le> str_len s" if "text_ok maximum True s" for maximum s
    using that by (cases "str_bytes s") (auto simp: text_ok_def str_starts_with_def str_len_def)
  with assms show ?thesis
    by (cases f) (auto simp: reader_length_ok_def text_bytes_length text_ok_def)
qed

lemma reader_page_too_long_ok: "frame_ok f \<Longrightarrow> \<not> reader_page_too_long f"
  by (cases f) simp_all

lemma encode_frame_eq_Inr:
  "encode_frame nonce f = Inr bs \<longleftrightarrow> frame_ok f \<and> length (frame_bytes f) \<le> MAX_PAYLOAD_LEN \<and>
     bs = header_bytes nonce (frame_tag f) (length (frame_bytes f)) @ frame_bytes f"
proof
  assume "encode_frame nonce f = Inr bs"
  then show "frame_ok f \<and> length (frame_bytes f) \<le> MAX_PAYLOAD_LEN \<and>
      bs = header_bytes nonce (frame_tag f) (length (frame_bytes f)) @ frame_bytes f"
    by (auto simp: encode_frame_def result_simps Let_def header_bytes_def split: if_splits dest!: put_frame_sound)
next
  assume ok: "frame_ok f \<and> length (frame_bytes f) \<le> MAX_PAYLOAD_LEN \<and>
      bs = header_bytes nonce (frame_tag f) (length (frame_bytes f)) @ frame_bytes f"
  then have "put_frame f (replicate HEADER_LEN 0) = Inr (frame_tag f, replicate HEADER_LEN 0 @ frame_bytes f)"
    by (intro put_frame_complete) (simp_all add: frame_limit_def)
  with ok show "encode_frame nonce f = Inr bs"
    by (simp add: encode_frame_def reader_page_too_long_ok Let_def header_bytes_def)
qed

section \<open>Decoder\<close>

lemma decode_frame_eq_Inr:
  "decode_frame nonce bs = Inr f \<longleftrightarrow> encode_frame nonce f = Inr bs"
proof
  assume "decode_frame nonce bs = Inr f"
  then obtain n len tag where h: "header bs (Some nonce) = Inr (n, len, tag)" "length bs = HEADER_LEN + len"
    and f: "frame_tag f = tag" "frame_ok f" "drop HEADER_LEN bs = frame_bytes f"
    by (auto simp: decode_frame_def result_simps whole_payload_frame split: if_splits)
  from header_inv [OF h(1)] h(2) f show "encode_frame nonce f = Inr bs"
    by (auto simp: encode_frame_eq_Inr)
next
  assume "encode_frame nonce f = Inr bs"
  then show "decode_frame nonce bs = Inr f"
    by (auto simp: encode_frame_eq_Inr decode_frame_def header_run frame_tag_known frame_reader_length
        whole_payload_frame)
qed

lemma drop_to_suffix: "bs = pre @ rest \<Longrightarrow> drop (length bs - length rest) bs = rest"
  by simp

lemma take_run: "length v = n \<Longrightarrow> dec_then (cur_take n) f (v @ r) = f v r"
  by (rule dec_then_run) (simp add: cur_take_eq_Inr)

lemma decode_owned_page:
  assumes h: "header bs (Some nonce) = Inr (n, len, 108)"
  shows "decode_owned nonce bs = Inr f \<longleftrightarrow> decode_frame nonce bs = Inr f"
proof
  assume "decode_owned nonce bs = Inr f"
  then obtain rid sequence offset v eof and count :: u32 where
    len: "length bs = HEADER_LEN + len" and rid: "rid \<noteq> arr16_fill 0" and
    payload: "drop HEADER_LEN bs = arr16_bytes rid @ to_le_bytes sequence @ to_le_bytes offset @ to_le_bytes count @
      v @ [bool_byte eof]"
    and ok: "sequence \<noteq> 0" "unat count \<le> MAX_READER_PAGE" "checked_add offset (ucast count) \<noteq> None"
    and v: "length v = unat count"
    and f: "f = ReaderPage rid sequence offset (take (unat count) (drop (HEADER_LEN + len - Suc (unat count)) bs)) eof"
    by (auto simp: decode_owned_def h whole_payload_def result_simps cur_inv wire_iff Let_def not_less
        split: if_splits)
  have "bs = (take HEADER_LEN bs @ arr16_bytes rid @ to_le_bytes sequence @ to_le_bytes offset @ to_le_bytes count)
      @ (v @ [bool_byte eof])"
    using append_take_drop_id [of HEADER_LEN bs] payload by simp
  from drop_to_suffix [OF this] have "drop (HEADER_LEN + len - Suc (unat count)) bs = v @ [bool_byte eof]"
    using len v by simp
  then have page: "f = ReaderPage rid sequence offset v eof" using f v by simp
  have "field_bytes v = to_le_bytes count @ v" using v by (simp add: field_bytes_def)
  then have "frame_ok f \<and> drop HEADER_LEN bs = frame_bytes f"
    using rid ok payload v page by simp
  with page show "decode_frame nonce bs = Inr f"
    by (simp add: decode_frame_def h len whole_payload_frame)
next
  assume "decode_frame nonce bs = Inr f"
  then have f: "frame_tag f = 108" "frame_ok f" and payload: "drop HEADER_LEN bs = frame_bytes f"
    and len: "length bs = HEADER_LEN + len"
    by (auto simp: decode_frame_def h whole_payload_frame split: if_splits)
  then obtain rid sequence offset v eof where page: "f = ReaderPage rid sequence offset v eof"
    by (cases f) auto
  let ?count = "of_nat (length v) :: u32"
  have count: "unat ?count = length v" using f page by (simp add: unat_of_nat MAX_READER_PAGE_def)
  then have wide: "ucast ?count = (of_nat (length v) :: u64)" by (metis of_nat_unat)
  have "bs = (take HEADER_LEN bs @ arr16_bytes rid @ to_le_bytes sequence @ to_le_bytes offset @ to_le_bytes ?count)
      @ (v @ [bool_byte eof])"
    using append_take_drop_id [of HEADER_LEN bs] payload page by (simp add: field_bytes_def)
  from drop_to_suffix [OF this]
  have data: "take (length v) (drop (length bs - Suc (length v)) bs) = v" by simp
  have "drop HEADER_LEN bs = arr16_bytes rid @ to_le_bytes sequence @ to_le_bytes offset @ to_le_bytes ?count @
      v @ [bool_byte eof]"
    using payload page by (simp add: field_bytes_def)
  with f page show "decode_owned nonce bs = Inr f"
    by (simp add: decode_owned_def h len whole_payload_def w_reader.run_step w_wide.run_step w_number.run_step
        count wide take_run flag_run data [unfolded len] Let_def)
qed

lemma decode_owned_iff:
  "decode_owned nonce bs = Inr f \<longleftrightarrow> decode_frame nonce bs = Inr f"
proof (cases "header bs (Some nonce)")
  case (Inl e)
  then show ?thesis by (simp add: decode_owned_def decode_frame_def)
next
  case (Inr h)
  obtain n len tag where h: "h = (n, len, tag)" by (cases h)
  show ?thesis
  proof (cases "tag = 108")
    case True
    with Inr h show ?thesis using decode_owned_page by simp
  next
    case False
    with Inr h show ?thesis by (simp add: decode_owned_def)
  qed
qed

section \<open>Properties of the codec\<close>

text \<open>
  C25. The frame codec is canonical: a byte string decodes to a frame if and only if it is the
  encoding of that frame under the same nonce. In particular every encoded frame decodes to
  itself, and no two byte strings decode to the same frame.
\<close>

theorem frame_codec_canonical:
  "decode_frame nonce bs = Inr f \<longleftrightarrow> encode_frame nonce f = Inr bs"
  by (rule decode_frame_eq_Inr)

text \<open>
  The decoder that reuses the buffer of a reader page accepts the same frames as the plain
  one, with the same result.
\<close>

theorem decode_owned_equivalent:
  "decode_owned nonce bs = Inr f \<longleftrightarrow> decode_frame nonce bs = Inr f"
  by (rule decode_owned_iff)

end
