(* ===== verification/Wsl_Reader.thy ===== *)
theory Wsl_Reader
  imports Wsl_Codec
begin

text \<open>
  The reader that puts frames together from chunks or from a blocking source: \<^verbatim>\<open>FrameReader\<close> and
  \<^verbatim>\<open>read_initial_frame\<close> of \<^verbatim>\<open>beryl-wsl-supervisor/src/codec/reader.rs\<close>.
\<close>

section \<open>Frame reader\<close>

record FrameReader =
  fr_nonce :: Nonce
  fr_pending :: bytes
  fr_expected :: "usize option"
  fr_failed :: bool

definition frame_reader_new :: "Nonce \<Rightarrow> FrameReader" where
  "frame_reader_new nonce = \<lparr>fr_nonce = nonce, fr_pending = [], fr_expected = None, fr_failed = False\<rparr>"

definition reader_target :: "FrameReader \<Rightarrow> usize" where
  "reader_target fr = (case fr_expected fr of None \<Rightarrow> HEADER_LEN | Some e \<Rightarrow> e)"

text \<open>The length of the frame becomes known when the header is complete.\<close>

definition reader_expect :: "FrameReader \<Rightarrow> WslCodecError + usize option" where
  "reader_expect fr =
     (if length (fr_pending fr) = HEADER_LEN \<and> fr_expected fr = None
      then and_then (header (fr_pending fr) (Some (fr_nonce fr))) (\<lambda>(_, len, _). Inr (Some (HEADER_LEN + len)))
      else Inr (fr_expected fr))"

text \<open>
  The loop of \<^verbatim>\<open>feed_inner\<close> returns the result and the reader; \<open>None\<close> stands for a loop that does
  not end.
\<close>

partial_function (option) feed_inner ::
    "FrameReader \<Rightarrow> bytes \<Rightarrow> Frame list \<Rightarrow> ((WslCodecError + Frame list) \<times> FrameReader) option" where
  "feed_inner fr bs frames =
     (if bs = [] then Some (Inr frames, fr)
      else let count = min (reader_target fr - length (fr_pending fr)) (length bs);
               fr = fr\<lparr>fr_pending := fr_pending fr @ take count bs\<rparr>;
               bs = drop count bs in
        case reader_expect fr of
          Inl e \<Rightarrow> Some (Inl e, fr)
        | Inr expected \<Rightarrow> (let fr = fr\<lparr>fr_expected := expected\<rparr> in
            if expected = Some (length (fr_pending fr))
            then if length frames = MAX_PENDING_FRAMES then Some (wsl_invalid ''too many queued frames'', fr)
              else (case decode_owned (fr_nonce fr) (fr_pending fr) of
                Inl e \<Rightarrow> Some (Inl e, fr\<lparr>fr_pending := []\<rparr>)
              | Inr f \<Rightarrow> feed_inner (fr\<lparr>fr_pending := [], fr_expected := None\<rparr>) bs (frames @ [f]))
            else feed_inner fr bs frames))"

declare feed_inner.simps [code]

definition reader_fail :: "FrameReader \<Rightarrow> FrameReader" where
  "reader_fail fr = fr\<lparr>fr_failed := True, fr_pending := []\<rparr>"

definition feed :: "FrameReader \<Rightarrow> bytes \<Rightarrow> ((WslCodecError + Frame list) \<times> FrameReader) option" where
  "feed fr bs =
     (if fr_failed fr then Some (wsl_invalid ''reader already failed'', fr)
      else case feed_inner fr bs [] of
        None \<Rightarrow> None
      | Some (Inl e, fr') \<Rightarrow> Some (Inl e, reader_fail fr')
      | Some (Inr frames, fr') \<Rightarrow> Some (Inr frames, fr'))"

definition reader_finish :: "FrameReader \<Rightarrow> WslCodecError + unit" where
  "reader_finish fr =
     (if fr_failed fr \<or> fr_pending fr \<noteq> [] then wsl_invalid ''truncated or failed stream'' else Inr ())"

text \<open>
  A blocking source, the caller's \<^verbatim>\<open>impl Read\<close>: the bytes it still has and what its next \<^verbatim>\<open>read\<close> calls do,
  fail or transfer at least one byte and at most \<open>Suc n\<close>, none only at the end of the bytes.
  \<open>None\<close>: the script of calls is used up and the call still blocks.
\<close>

definition reader_wanted :: "FrameReader \<Rightarrow> usize" where
  "reader_wanted fr = min (reader_target fr - length (fr_pending fr)) MAX_READER_PAGE"

type_synonym frame_read = "(WslCodecError + Frame option) \<times> FrameReader \<times> bytes \<times> (IoError + nat) list"

fun read_frame_inner :: "FrameReader \<Rightarrow> bytes \<Rightarrow> (IoError + nat) list \<Rightarrow> frame_read option" where
  "read_frame_inner fr source [] = None"
| "read_frame_inner fr source (Inl e # calls) =
     (if e = Interrupted then read_frame_inner fr source calls else Some (Inl (WslIo e), fr, source, calls))"
| "read_frame_inner fr source (Inr n # calls) =
     (let count = min (Suc n) (reader_wanted fr); data = take count source; source = drop count source in
      if data = [] then Some (and_then (reader_finish fr) (\<lambda>_. Inr None), fr, source, calls)
      else let fr = fr\<lparr>fr_pending := fr_pending fr @ data\<rparr> in
        case reader_expect fr of
          Inl e \<Rightarrow> Some (Inl e, fr, source, calls)
        | Inr expected \<Rightarrow> (let fr = fr\<lparr>fr_expected := expected\<rparr> in
            if expected = Some (length (fr_pending fr))
            then Some (map_sum id Some (decode_owned (fr_nonce fr) (fr_pending fr)),
              fr\<lparr>fr_expected := None, fr_pending := []\<rparr>, source, calls)
            else read_frame_inner fr source calls))"

definition read_frame :: "FrameReader \<Rightarrow> bytes \<Rightarrow> (IoError + nat) list \<Rightarrow> frame_read option" where
  "read_frame fr source calls =
     (if fr_failed fr then Some (wsl_invalid ''reader already failed'', fr, source, calls)
      else case read_frame_inner fr source calls of
        None \<Rightarrow> None
      | Some (Inl e, fr', rest) \<Rightarrow> Some (Inl e, reader_fail fr', rest)
      | Some (Inr f, fr', rest) \<Rightarrow> Some (Inr f, fr', rest))"

text \<open>\<^verbatim>\<open>read_exact\<close> on a source that has the given bytes left.\<close>

definition read_exact :: "usize \<Rightarrow> bytes \<Rightarrow> WslCodecError + (bytes \<times> bytes)" where
  "read_exact n source =
     (if length source < n then Inl (WslIo UnexpectedEof) else Inr (take n source, drop n source))"

definition read_initial_frame :: "bytes \<Rightarrow> WslCodecError + (Nonce \<times> Frame)" where
  "read_initial_frame source =
     and_then (read_exact HEADER_LEN source) (\<lambda>(head, source).
     and_then (header head None) (\<lambda>(nonce, len, _).
     and_then (read_exact len source) (\<lambda>(body, _).
     and_then (decode_owned nonce (head @ body)) (\<lambda>f. Inr (nonce, f)))))"

section \<open>One step of a reader\<close>

text \<open>
  Between two frames the reader holds less than a header; after the header it holds less than the
  frame, and knows the length from the header it holds.
\<close>

definition reader_at :: "FrameReader \<Rightarrow> bool" where
  "reader_at fr \<longleftrightarrow> \<not> fr_failed fr \<and> (case fr_expected fr of
       None \<Rightarrow> length (fr_pending fr) < HEADER_LEN
     | Some e \<Rightarrow> HEADER_LEN \<le> length (fr_pending fr) \<and> length (fr_pending fr) \<le> e \<and>
         (\<exists>len tag. header (fr_pending fr) (Some (fr_nonce fr)) = Inr (fr_nonce fr, len, tag) \<and> e = HEADER_LEN + len))"

definition reader_ok :: "FrameReader \<Rightarrow> bool" where
  "reader_ok fr \<longleftrightarrow> reader_at fr \<and> fr_expected fr \<noteq> Some (length (fr_pending fr))"

definition reader_push :: "FrameReader \<Rightarrow> bytes \<Rightarrow> FrameReader" where
  "reader_push fr data = fr\<lparr>fr_pending := fr_pending fr @ data\<rparr>"

lemma reader_push_simps [simp]:
  "fr_nonce (reader_push fr data) = fr_nonce fr" "fr_pending (reader_push fr data) = fr_pending fr @ data"
  "fr_expected (reader_push fr data) = fr_expected fr" "fr_failed (reader_push fr data) = fr_failed fr"
  by (simp_all add: reader_push_def)

lemma reader_room: "reader_ok fr \<Longrightarrow> length (fr_pending fr) < reader_target fr"
  by (auto simp: reader_ok_def reader_at_def reader_target_def split: option.splits)

lemma take_drop_append: "n + k \<le> length bs \<Longrightarrow> take k (drop n (bs @ cs)) = take k (drop n bs)"
  by simp

lemma header_prefix_eq:
  assumes "HEADER_LEN \<le> length bs"
  shows "header (bs @ cs) expected = header bs expected"
proof -
  have "take 8 (bs @ cs) = take 8 bs" "take 2 (drop 8 (bs @ cs)) = take 2 (drop 8 bs)"
    "take 2 (drop 10 (bs @ cs)) = take 2 (drop 10 bs)" "take 4 (drop 12 (bs @ cs)) = take 4 (drop 12 bs)"
    "take 32 (drop 16 (bs @ cs)) = take 32 (drop 16 bs)" "\<not> length (bs @ cs) < HEADER_LEN" "\<not> length bs < HEADER_LEN"
    using assms take_drop_append [of 0] take_drop_append by (simp_all add: HEADER_LEN_def)
  then show ?thesis unfolding header_def Let_def by (simp only: if_False)
qed

lemma header_long: "header bs expected = Inr h \<Longrightarrow> HEADER_LEN \<le> length bs"
  by (rule ccontr) (simp add: header_def)

lemma header_append: "header bs expected = Inr h \<Longrightarrow> header (bs @ cs) expected = Inr h"
  by (simp add: header_prefix_eq header_long)

lemma header_prefix: "header (bs @ cs) expected = Inr h \<Longrightarrow> HEADER_LEN \<le> length bs \<Longrightarrow> header bs expected = Inr h"
  by (simp add: header_prefix_eq)

lemma reader_expect_at:
  assumes "reader_ok fr" and "length (fr_pending fr) + length data \<le> reader_target fr"
    and "reader_expect (reader_push fr data) = Inr ex"
  shows "reader_at (reader_push fr data\<lparr>fr_expected := ex\<rparr>)"
proof (cases "fr_expected fr")
  case None
  then show ?thesis
    using assms by (auto simp: reader_ok_def reader_at_def reader_expect_def reader_target_def result_simps
        split: if_splits dest: header_inv)
next
  case (Some e)
  then have "ex = Some e" using assms by (auto simp: reader_ok_def reader_at_def reader_expect_def)
  with Some assms show ?thesis
    by (auto simp: reader_ok_def reader_at_def reader_target_def dest: header_append)
qed

lemma reader_complete:
  assumes "reader_at fr" and "fr_expected fr = Some (length (fr_pending fr))"
  shows "HEADER_LEN \<le> length (fr_pending fr)" and "length (fr_pending fr) \<le> frame_limit"
  using assms by (auto simp: reader_at_def frame_limit_def dest: header_inv)

text \<open>The bytes of a frame, and the frames that can be sent.\<close>

definition frame_wire :: "Nonce \<Rightarrow> Frame \<Rightarrow> bytes" where
  "frame_wire nonce f = header_bytes nonce (frame_tag f) (length (frame_bytes f)) @ frame_bytes f"

definition sendable :: "Frame \<Rightarrow> bool" where
  "sendable f \<longleftrightarrow> frame_ok f \<and> length (frame_bytes f) \<le> MAX_PAYLOAD_LEN"

lemma encode_frame_wire: "encode_frame nonce f = Inr bs \<longleftrightarrow> sendable f \<and> bs = frame_wire nonce f"
  by (auto simp: encode_frame_eq_Inr sendable_def frame_wire_def)

lemma decode_owned_wire: "decode_owned nonce bs = Inr f \<longleftrightarrow> sendable f \<and> bs = frame_wire nonce f"
  by (simp add: decode_owned_iff decode_frame_eq_Inr encode_frame_wire)

lemma length_frame_wire: "length (frame_wire nonce f) = HEADER_LEN + length (frame_bytes f)"
  by (simp add: frame_wire_def)

lemma frame_wire_header:
  "sendable f \<Longrightarrow> expected = None \<or> expected = Some nonce \<Longrightarrow>
     header (frame_wire nonce f @ rest) expected = Inr (nonce, length (frame_bytes f), frame_tag f)"
  by (simp add: frame_wire_def sendable_def header_run frame_tag_known frame_reader_length)

lemma frame_wire_prefix_free:
  assumes "sendable f" and "sendable g" and eq: "frame_wire nonce f @ x = frame_wire nonce g @ y"
  shows "f = g \<and> x = y"
proof -
  have "length (frame_wire nonce f) = length (frame_wire nonce g)"
    using frame_wire_header [OF assms(1), of None nonce x] frame_wire_header [OF assms(2), of None nonce y] eq
    by (simp add: length_frame_wire)
  with eq have same: "frame_wire nonce f = frame_wire nonce g \<and> x = y" by simp
  with assms(1,2) decode_owned_wire [of nonce "frame_wire nonce f" f] decode_owned_wire [of nonce "frame_wire nonce f" g]
  show ?thesis by simp
qed

lemma frames_wire_prefix:
  "list_all sendable new \<Longrightarrow> list_all sendable fs \<Longrightarrow>
     concat (map (frame_wire nonce) new) @ x = concat (map (frame_wire nonce) fs) \<Longrightarrow>
     \<exists>fs'. fs = new @ fs' \<and> x = concat (map (frame_wire nonce) fs')"
proof (induction new arbitrary: fs)
  case (Cons f new)
  have "frame_wire nonce f \<noteq> []" using length_frame_wire [of nonce f] by (auto simp: HEADER_LEN_def)
  with Cons.prems(3) obtain g gs where fs: "fs = g # gs" by (cases fs) auto
  with Cons.prems have "f = g \<and> concat (map (frame_wire nonce) new) @ x = concat (map (frame_wire nonce) gs)"
    by (intro frame_wire_prefix_free) simp_all
  with Cons.IH [of gs] Cons.prems fs show ?case by auto
qed simp

text \<open>
  While the bytes of a sendable frame arrive, the header is accepted, and the frame is complete
  exactly when all its bytes are there.
\<close>

lemma reader_expect_frame:
  assumes ok: "reader_ok fr" and fits: "length (fr_pending fr) + length data \<le> reader_target fr"
    and f: "sendable f" and stream: "fr_pending fr @ data @ later = frame_wire (fr_nonce fr) f @ rest"
  obtains ex where "reader_expect (reader_push fr data) = Inr ex"
    and "ex = Some (length (fr_pending fr @ data)) \<Longrightarrow> fr_pending fr @ data = frame_wire (fr_nonce fr) f \<and> later = rest"
proof -
  let ?p = "fr_pending fr @ data"
  have known: "header ?p (Some (fr_nonce fr)) = Inr (fr_nonce fr, length (frame_bytes f), frame_tag f)"
    if "HEADER_LEN \<le> length ?p"
    by (rule header_prefix [of _ later]) (use frame_wire_header [OF f] that stream in simp_all)
  have done_: "?p = frame_wire (fr_nonce fr) f \<and> later = rest"
    if "length ?p = HEADER_LEN + length (frame_bytes f)"
    using stream that append_eq_append_conv [of ?p "frame_wire (fr_nonce fr) f" later rest]
    by (simp add: length_frame_wire)
  show thesis
  proof (cases "fr_expected fr")
    case None
    show thesis
    proof (rule that [of "if length ?p = HEADER_LEN then Some (HEADER_LEN + length (frame_bytes f)) else None"])
      show "reader_expect (reader_push fr data) =
          Inr (if length ?p = HEADER_LEN then Some (HEADER_LEN + length (frame_bytes f)) else None)"
        using None known by (simp add: reader_expect_def)
    qed (use done_ in \<open>auto split: if_splits\<close>)
  next
    case (Some e)
    with ok obtain len tag where long: "HEADER_LEN \<le> length (fr_pending fr)" and e: "e = HEADER_LEN + len"
      and h: "header (fr_pending fr) (Some (fr_nonce fr)) = Inr (fr_nonce fr, len, tag)"
      by (auto simp: reader_ok_def reader_at_def)
    have "len = length (frame_bytes f)" using known long header_append [OF h, of data] by simp
    with Some that [of "Some e"] done_ e show thesis by (simp add: reader_expect_def)
  qed
qed

section \<open>Feeding chunks\<close>

definition reader_reset :: "FrameReader \<Rightarrow> FrameReader" where
  "reader_reset fr = fr\<lparr>fr_pending := [], fr_expected := None\<rparr>"

lemma reader_reset_simps [simp]:
  "fr_nonce (reader_reset fr) = fr_nonce fr" "fr_pending (reader_reset fr) = []"
  "fr_expected (reader_reset fr) = None" "fr_failed (reader_reset fr) = fr_failed fr"
  by (simp_all add: reader_reset_def)

lemma reader_ok_reset: "reader_at fr \<Longrightarrow> reader_ok (reader_reset fr)"
  by (simp add: reader_ok_def reader_at_def HEADER_LEN_def)

lemma reader_ok_new: "reader_ok (frame_reader_new nonce)"
  by (simp add: reader_ok_def reader_at_def frame_reader_new_def HEADER_LEN_def)

lemma feed_inner_Nil [simp]: "feed_inner fr [] frames = Some (Inr frames, fr)"
  by (subst feed_inner.simps) simp

lemma feed_inner_step:
  assumes "bs \<noteq> []" and "count = min (reader_target fr - length (fr_pending fr)) (length bs)"
  shows "feed_inner fr bs frames = (case reader_expect (reader_push fr (take count bs)) of
      Inl e \<Rightarrow> Some (Inl e, reader_push fr (take count bs))
    | Inr ex \<Rightarrow> let fr' = reader_push fr (take count bs)\<lparr>fr_expected := ex\<rparr> in
        if ex = Some (length (fr_pending fr')) then
          if length frames = MAX_PENDING_FRAMES then Some (wsl_invalid ''too many queued frames'', fr')
          else (case decode_owned (fr_nonce fr') (fr_pending fr') of
            Inl e \<Rightarrow> Some (Inl e, fr'\<lparr>fr_pending := []\<rparr>)
          | Inr f \<Rightarrow> feed_inner (reader_reset fr') (drop count bs) (frames @ [f]))
        else feed_inner fr' (drop count bs) frames)"
  using assms by (subst feed_inner.simps) 
    (simp add: reader_push_def reader_reset_def Let_def cong: sum.case_cong if_cong)

fun fed :: "Nonce \<Rightarrow> bytes \<Rightarrow> Frame list \<Rightarrow> (WslCodecError + Frame list) \<times> FrameReader \<Rightarrow> bool" where
  "fed nonce stream frames (Inl _, _) \<longleftrightarrow> True"
| "fed nonce stream frames (Inr frames', fr) \<longleftrightarrow>
     reader_ok fr \<and> fr_nonce fr = nonce \<and> length frames' \<le> MAX_PENDING_FRAMES \<and>
     (\<exists>new. frames' = frames @ new \<and> list_all sendable new \<and>
       stream = concat (map (frame_wire nonce) new) @ fr_pending fr)"

lemma fed_Cons:
  assumes "fed nonce stream (frames @ [f]) r" and "sendable f"
  shows "fed nonce (frame_wire nonce f @ stream) frames r"
proof (cases r)
  case (Pair res fr)
  show ?thesis
  proof (cases res)
    case (Inr frames')
    with assms Pair obtain new where "frames' = frames @ f # new" "list_all sendable (f # new)"
      "frame_wire nonce f @ stream = concat (map (frame_wire nonce) (f # new)) @ fr_pending fr"
      by auto
    with assms Inr Pair show ?thesis unfolding Pair Inr fed.simps by blast
  qed (simp add: Pair)
qed

text \<open>
  One round of the loop on bytes that are left: the reader stays inside a frame, completes one, or
  the call fails for one of three causes.
\<close>

lemma feed_inner_cases:
  assumes ok: "reader_ok fr" and "bs \<noteq> []"
  obtains (error) e fr' count where
      "feed_inner fr bs frames = Some (Inl e, fr')"
      "length (fr_pending fr) + length (take count bs) \<le> reader_target fr"
      "\<And>ex. reader_expect (reader_push fr (take count bs)) = Inr ex \<Longrightarrow>
        ex = Some (length (fr_pending fr @ take count bs)) \<and>
        HEADER_LEN \<le> length (fr_pending fr @ take count bs) \<and>
        (\<forall>f. decode_owned (fr_nonce fr) (fr_pending fr @ take count bs) = Inr f \<longrightarrow> length frames = MAX_PENDING_FRAMES)"
    | (partly) fr' count where
      "feed_inner fr bs frames = feed_inner fr' (drop count bs) frames" "0 < count"
      "reader_ok fr'" "fr_nonce fr' = fr_nonce fr" "fr_pending fr' = fr_pending fr @ take count bs"
    | (complete) fr' count f where
      "feed_inner fr bs frames = feed_inner fr' (drop count bs) (frames @ [f])" "0 < count"
      "reader_ok fr'" "fr_nonce fr' = fr_nonce fr" "fr_pending fr' = []"
      "sendable f" "fr_pending fr @ take count bs = frame_wire (fr_nonce fr) f" "length frames \<noteq> MAX_PENDING_FRAMES"
proof -
  define count where "count = min (reader_target fr - length (fr_pending fr)) (length bs)"
  note step = feed_inner_step [OF \<open>bs \<noteq> []\<close> count_def, of frames]
  have count: "0 < count" "length (fr_pending fr) + length (take count bs) \<le> reader_target fr"
    using \<open>bs \<noteq> []\<close> reader_room [OF ok] by (auto simp: count_def)
  show thesis
  proof (cases "reader_expect (reader_push fr (take count bs))")
    case (Inl e)
    then show thesis using error [OF _ count(2)] step by simp
  next
    case (Inr ex)
    let ?fr = "reader_push fr (take count bs)\<lparr>fr_expected := ex\<rparr>"
    note at = reader_expect_at [OF ok count(2) Inr]
    note step = step [unfolded Inr, simplified, unfolded Let_def]
    show thesis
    proof (cases "ex = Some (length (fr_pending fr @ take count bs))")
      case False
      show thesis
        by (rule partly [of ?fr count]) (use False at count step in \<open>simp_all add: reader_ok_def\<close>)
    next
      case True
      then have long: "HEADER_LEN \<le> length (fr_pending fr @ take count bs)"
        using reader_complete(1) [OF at] by simp
      show thesis
      proof (cases "length frames = MAX_PENDING_FRAMES")
        case full: True
        have "feed_inner fr bs frames = Some (wsl_invalid ''too many queued frames'', ?fr)"
          using step True full by simp
        then show thesis
          using error [OF _ count(2)] True long full Inr by simp
      next
        case room: False
        show thesis
        proof (cases "decode_owned (fr_nonce fr) (fr_pending fr @ take count bs)")
          case (Inl e)
          have "feed_inner fr bs frames = Some (Inl e, ?fr\<lparr>fr_pending := []\<rparr>)"
            using step True room Inl by simp
          then show thesis using error [OF _ count(2)] True long Inl Inr by simp
        next
          case (Inr f)
          have "feed_inner fr bs frames = feed_inner (reader_reset ?fr) (drop count bs) (frames @ [f])"
            using step True room Inr by simp
          then show thesis
            using complete [of "reader_reset ?fr" count f] Inr room count reader_ok_reset [OF at]
            by (simp add: decode_owned_wire)
        qed
      qed
    qed
  qed
qed

lemma feed_inner_total:
  "reader_ok fr \<Longrightarrow> length frames \<le> MAX_PENDING_FRAMES \<Longrightarrow>
     \<exists>r. feed_inner fr bs frames = Some r \<and> fed (fr_nonce fr) (fr_pending fr @ bs) frames r"
proof (induction bs arbitrary: fr frames rule: measure_induct_rule [where f = length])
  case (less bs)
  show ?case
  proof (cases "bs = []")
    case False
    from less.prems(1) False show ?thesis
    proof (cases rule: feed_inner_cases [where frames = frames])
      case (partly fr' count)
      then show ?thesis using less.IH [of "drop count bs" fr' frames] less.prems False by simp
    next
      case (complete fr' count f)
      from complete less.prems False less.IH [of "drop count bs" fr' "frames @ [f]"]
      obtain r where "feed_inner fr bs frames = Some r" "fed (fr_nonce fr) (drop count bs) (frames @ [f]) r"
        by auto
      moreover have "fr_pending fr @ bs = frame_wire (fr_nonce fr) f @ drop count bs"
        using complete(7) by (metis append_assoc append_take_drop_id)
      ultimately show ?thesis using fed_Cons complete(6) by metis
    qed simp
  qed (use less.prems in simp)
qed

text \<open>
  A chunk of at most eight headers completes at most eight frames: the first takes at least one
  byte of it, every other at least a header.
\<close>

definition chunk_room :: "FrameReader \<Rightarrow> bytes \<Rightarrow> Frame list \<Rightarrow> bool" where
  "chunk_room fr bs frames \<longleftrightarrow>
     (if frames = [] then length bs \<le> MAX_PENDING_FRAMES * HEADER_LEN
      else length frames * HEADER_LEN + length (fr_pending fr) + length bs < Suc MAX_PENDING_FRAMES * HEADER_LEN)"

lemma sendable_frames_split:
  assumes "fr_pending fr @ bs @ later = concat (map (frame_wire nonce) fs)" and "bs \<noteq> []"
  obtains f fs' where "fs = f # fs'" "fr_pending fr @ bs @ later = frame_wire nonce f @ concat (map (frame_wire nonce) fs')"
  using assms by (cases fs) auto

lemma feed_inner_complete:
  "reader_ok fr \<Longrightarrow> chunk_room fr bs frames \<Longrightarrow> list_all sendable fs \<Longrightarrow>
     fr_pending fr @ bs @ later = concat (map (frame_wire (fr_nonce fr)) fs) \<Longrightarrow>
     \<exists>frames' fr'. feed_inner fr bs frames = Some (Inr frames', fr')"
proof (induction bs arbitrary: fr frames fs rule: measure_induct_rule [where f = length])
  case (less bs)
  show ?case
  proof (cases "bs = []")
    case nonempty: False
    from sendable_frames_split [OF less.prems(4) nonempty] obtain f fs' where fs: "fs = f # fs'"
      and stream: "fr_pending fr @ bs @ later = frame_wire (fr_nonce fr) f @ concat (map (frame_wire (fr_nonce fr)) fs')" .
    have f: "sendable f" "list_all sendable fs'" using less.prems(3) fs by simp_all
    have at: "fr_pending fr @ take count bs @ drop count bs @ later =
        frame_wire (fr_nonce fr) f @ concat (map (frame_wire (fr_nonce fr)) fs')" for count
      using stream by (metis append_assoc append_take_drop_id)
    from less.prems(1) nonempty show ?thesis
    proof (cases rule: feed_inner_cases [where frames = frames])
      case (error e fr' count)
      obtain ex where ex: "reader_expect (reader_push fr (take count bs)) = Inr ex"
        "ex = Some (length (fr_pending fr @ take count bs)) \<Longrightarrow>
          fr_pending fr @ take count bs = frame_wire (fr_nonce fr) f \<and>
          drop count bs @ later = concat (map (frame_wire (fr_nonce fr)) fs')"
        by (rule reader_expect_frame [OF less.prems(1) error(2) f(1) at]) blast
      note cause = error(3) [OF ex(1)]
      with ex(2) have "decode_owned (fr_nonce fr) (fr_pending fr @ take count bs) = Inr f"
        using f(1) by (simp add: decode_owned_wire)
      with cause have "length frames = MAX_PENDING_FRAMES" "HEADER_LEN \<le> length (fr_pending fr) + length bs" by auto
      with less.prems(2) show ?thesis by (auto simp: chunk_room_def MAX_PENDING_FRAMES_def split: if_splits)
    next
      case (partly fr' count)
      moreover from this less.prems(2) have "chunk_room fr' (drop count bs) frames"
        by (auto simp: chunk_room_def)
      ultimately show ?thesis
        using less.IH [of "drop count bs" fr' frames fs] less.prems nonempty at [of count] fs by simp
    next
      case (complete fr' count g)
      have "frame_wire (fr_nonce fr) g @ drop count bs @ later =
          frame_wire (fr_nonce fr) f @ concat (map (frame_wire (fr_nonce fr)) fs')"
        using at [of count] complete(7) by (metis append_assoc)
      from frame_wire_prefix_free [OF complete(6) f(1) this]
      have rest: "drop count bs @ later = concat (map (frame_wire (fr_nonce fr)) fs')" by simp
      have shorter: "length (drop count bs) < length bs" using complete(2) nonempty by simp
      have "HEADER_LEN \<le> length (fr_pending fr @ take count bs)"
        unfolding complete(7) by (simp add: length_frame_wire)
      with less.prems(2) complete(5) shorter have "chunk_room fr' (drop count bs) (frames @ [g])"
        by (auto simp: chunk_room_def MAX_PENDING_FRAMES_def split: if_splits)
      with complete less.IH [of "drop count bs" fr' "frames @ [g]" fs'] f(2) rest nonempty show ?thesis by simp
    qed
  qed simp
qed

text \<open>A client feeds the chunks of a stream one by one and stops at the first error.\<close>

fun feed_all :: "FrameReader \<Rightarrow> bytes list \<Rightarrow> ((WslCodecError + Frame list list) \<times> FrameReader) option" where
  "feed_all fr [] = Some (Inr [], fr)"
| "feed_all fr (c # cs) = (case feed fr c of
      None \<Rightarrow> None
    | Some (Inl e, fr') \<Rightarrow> Some (Inl e, fr')
    | Some (Inr frames, fr') \<Rightarrow> map_option (map_prod (map_sum id ((#) frames)) id) (feed_all fr' cs))"

fun encode_frames :: "Nonce \<Rightarrow> Frame list \<Rightarrow> WslCodecError + bytes" where
  "encode_frames nonce [] = Inr []"
| "encode_frames nonce (f # fs) =
     and_then (encode_frame nonce f) (\<lambda>b. and_then (encode_frames nonce fs) (\<lambda>bs. Inr (b @ bs)))"

lemma encode_frames_eq_Inr:
  "encode_frames nonce fs = Inr bs \<longleftrightarrow> list_all sendable fs \<and> bs = concat (map (frame_wire nonce) fs)"
  by (induction fs arbitrary: bs) (auto simp: result_simps encode_frame_wire)

lemma feed_cases:
  assumes ok: "reader_ok fr"
  obtains (error) e fr' where "feed fr bs = Some (Inl e, fr')" "fr_failed fr'" "fr_pending fr' = []"
    | (frames) fs fr' where "feed fr bs = Some (Inr fs, fr')" "reader_ok fr'" "fr_nonce fr' = fr_nonce fr"
      "length fs \<le> MAX_PENDING_FRAMES" "list_all sendable fs"
      "fr_pending fr @ bs = concat (map (frame_wire (fr_nonce fr)) fs) @ fr_pending fr'"
proof -
  have live: "\<not> fr_failed fr" using ok by (simp add: reader_ok_def reader_at_def)
  obtain res fr' where "feed_inner fr bs [] = Some (res, fr')" "fed (fr_nonce fr) (fr_pending fr @ bs) [] (res, fr')"
    using feed_inner_total [OF ok, of "[]" bs] by auto
  with live error [of _ "reader_fail fr'"] frames [of _ fr'] show thesis
    by (cases res) (auto simp: feed_def reader_fail_def)
qed

text \<open>What feeding chunks amounts to: the batches, the bytes read and the bytes held.\<close>

fun fed_all :: "FrameReader \<Rightarrow> bytes \<Rightarrow> (WslCodecError + Frame list list) \<times> FrameReader \<Rightarrow> bool" where
  "fed_all fr bs (Inl _, fr') \<longleftrightarrow> fr_failed fr' \<and> fr_pending fr' = []"
| "fed_all fr bs (Inr fss, fr') \<longleftrightarrow> reader_ok fr' \<and> list_all sendable (concat fss) \<and>
     list_all (\<lambda>fs. length fs \<le> MAX_PENDING_FRAMES) fss \<and>
     fr_nonce fr' = fr_nonce fr \<and> fr_pending fr @ bs = concat (map (frame_wire (fr_nonce fr)) (concat fss)) @ fr_pending fr'"

lemma feed_all_fed: "reader_ok fr \<Longrightarrow> \<exists>r. feed_all fr cs = Some r \<and> fed_all fr (concat cs) r"
proof (induction cs arbitrary: fr)
  case (Cons c cs)
  from Cons.prems show ?case
  proof (cases rule: feed_cases [where bs = c])
    case (frames fs fr')
    from Cons.IH [OF frames(2)] obtain res fr'' where
      "feed_all fr' cs = Some (res, fr'')" "fed_all fr' (concat cs) (res, fr'')" by auto
    moreover have "fr_pending fr @ c @ concat cs =
        concat (map (frame_wire (fr_nonce fr)) fs) @ fr_pending fr' @ concat cs"
      using frames(6) by (metis append_assoc)
    ultimately show ?thesis using frames by (cases res) auto
  qed auto
qed simp

lemma feed_all_complete:
  "reader_ok fr \<Longrightarrow> list_all (\<lambda>c. length c \<le> MAX_PENDING_FRAMES * HEADER_LEN) cs \<Longrightarrow> list_all sendable fs \<Longrightarrow>
     fr_pending fr @ concat cs = concat (map (frame_wire (fr_nonce fr)) fs) \<Longrightarrow>
     \<exists>fss fr'. feed_all fr cs = Some (Inr fss, fr')"
proof (induction cs arbitrary: fr fs)
  case (Cons c cs)
  have "\<not> fr_failed fr" using Cons.prems(1) by (simp add: reader_ok_def reader_at_def)
  moreover have "\<exists>frames fr'. feed_inner fr c [] = Some (Inr frames, fr')"
    by (rule feed_inner_complete [of fr c "[]" fs "concat cs"]) (use Cons.prems in \<open>simp_all add: chunk_room_def\<close>)
  ultimately have fine: "\<exists>frames fr'. feed fr c = Some (Inr frames, fr')" by (auto simp: feed_def)
  from Cons.prems(1) show ?case
  proof (cases rule: feed_cases [where bs = c])
    case (frames new fr')
    have "concat (map (frame_wire (fr_nonce fr)) new) @ fr_pending fr' @ concat cs = concat (map (frame_wire (fr_nonce fr)) fs)"
      using frames(6) Cons.prems(4) by (metis append_assoc concat.simps(2))
    from frames_wire_prefix [OF frames(5) Cons.prems(3) this]
    obtain fs' where "fs = new @ fs'" "fr_pending fr' @ concat cs = concat (map (frame_wire (fr_nonce fr)) fs')" by auto
    with frames Cons.IH [of fr' fs'] Cons.prems show ?thesis by auto
  qed (use fine in auto)
qed simp

lemma reader_ok_partial:
  assumes ok: "reader_ok fr" and "sendable f"
  shows "fr_pending fr \<noteq> frame_wire (fr_nonce fr) f @ rest"
proof
  assume p: "fr_pending fr = frame_wire (fr_nonce fr) f @ rest"
  then have "header (fr_pending fr) (Some (fr_nonce fr)) = Inr (fr_nonce fr, length (frame_bytes f), frame_tag f)"
    using frame_wire_header [OF assms(2)] by simp
  then show False using ok p by (auto simp: reader_ok_def reader_at_def length_frame_wire split: option.splits)
qed

lemma reader_ok_bound: "reader_ok fr \<Longrightarrow> length (fr_pending fr) < frame_limit"
  by (auto simp: reader_ok_def reader_at_def frame_limit_def HEADER_LEN_def MAX_PAYLOAD_LEN_def
      split: option.splits dest: header_inv)

lemma reader_new_simps [simp]:
  "fr_nonce (frame_reader_new nonce) = nonce" "fr_pending (frame_reader_new nonce) = []"
  "fr_failed (frame_reader_new nonce) = False"
  by (simp_all add: frame_reader_new_def)

text \<open>
  C24. The reader puts frames together however the stream is cut: for chunks of at most eight
  headers, feeding them to a fresh reader gives exactly the frames \<open>fs\<close>, and \<^verbatim>\<open>finish\<close> accepts, if and
  only if the chunks together are the encodings of \<open>fs\<close>, one after the other.
\<close>

theorem reader_reassembles:
  assumes "list_all (\<lambda>c. length c \<le> MAX_PENDING_FRAMES * HEADER_LEN) chunks"
  shows "(\<exists>fss fr. feed_all (frame_reader_new nonce) chunks = Some (Inr fss, fr) \<and>
      reader_finish fr = Inr () \<and> concat fss = fs) \<longleftrightarrow>
    encode_frames nonce fs = Inr (concat chunks)"
proof
  assume "\<exists>fss fr. feed_all (frame_reader_new nonce) chunks = Some (Inr fss, fr) \<and>
      reader_finish fr = Inr () \<and> concat fss = fs"
  then show "encode_frames nonce fs = Inr (concat chunks)"
    using feed_all_fed [OF reader_ok_new, of nonce chunks]
    by (auto simp: encode_frames_eq_Inr reader_finish_def split: if_splits)
next
  assume "encode_frames nonce fs = Inr (concat chunks)"
  then have fs: "list_all sendable fs" "concat chunks = concat (map (frame_wire nonce) fs)"
    by (simp_all add: encode_frames_eq_Inr)
  obtain fss fr where fed: "feed_all (frame_reader_new nonce) chunks = Some (Inr fss, fr)"
    using feed_all_complete [OF reader_ok_new assms fs(1), of nonce] fs(2) by auto
  with feed_all_fed [OF reader_ok_new, of nonce chunks] fs
  have ok: "reader_ok fr" "list_all sendable (concat fss)" and nonce: "fr_nonce fr = nonce"
    and split: "concat (map (frame_wire nonce) (concat fss)) @ fr_pending fr = concat (map (frame_wire nonce) fs)"
    by auto
  from frames_wire_prefix [OF ok(2) fs(1) split] obtain fs' where
    fs': "fs = concat fss @ fs'" "fr_pending fr = concat (map (frame_wire nonce) fs')" by auto
  have "fs' = []"
    using reader_ok_partial [OF ok(1)] nonce fs' fs(1) by (cases fs') auto
  with fs' fed ok(1) show "\<exists>fss fr. feed_all (frame_reader_new nonce) chunks = Some (Inr fss, fr) \<and>
      reader_finish fr = Inr () \<and> concat fss = fs"
    by (auto simp: reader_finish_def reader_ok_def reader_at_def)
qed

theorem reader_reassembles_witness:
  "\<exists>fss fr. feed_all (frame_reader_new (arr32_fill 7))
      (map (\<lambda>b. [b]) (projr (encode_frames (arr32_fill 7) [Ready Supervisor, WorkloadStarted]))) = Some (Inr fss, fr) \<and>
    reader_finish fr = Inr () \<and> concat fss = [Ready Supervisor, WorkloadStarted]"
proof -
  let ?fs = "[Ready Supervisor, WorkloadStarted]" and ?chunks = "map (\<lambda>b. [b]) :: bytes \<Rightarrow> bytes list"
  have single: "concat (?chunks bs) = bs" for bs by (induction bs) simp_all
  have short: "list_all (\<lambda>c. length c \<le> MAX_PENDING_FRAMES * HEADER_LEN) (?chunks bs)" for bs
    by (simp add: list_all_iff MAX_PENDING_FRAMES_def HEADER_LEN_def)
  have "list_all sendable ?fs" by (simp add: sendable_def MAX_PAYLOAD_LEN_def)
  then obtain bs where "encode_frames (arr32_fill 7) ?fs = Inr bs" using encode_frames_eq_Inr by blast
  with reader_reassembles [OF short, of "arr32_fill 7" bs ?fs] show ?thesis
    unfolding single by (simp del: encode_frames.simps)
qed

text \<open>
  C39. Feeding always returns, whatever the bytes. The frames of a stream without error are those
  whose encodings arrived, at most eight per call; what is left over stays in the reader and is
  shorter than the longest frame. After an error the reader holds nothing and refuses to go on.
\<close>

theorem reader_always_returns:
  "\<exists>res fr. feed_all (frame_reader_new nonce) chunks = Some (res, fr) \<and>
     (case res of
        Inl e \<Rightarrow> fr_pending fr = [] \<and> reader_finish fr = wsl_invalid ''truncated or failed stream'' \<and>
          feed fr bs = Some (wsl_invalid ''reader already failed'', fr)
      | Inr fss \<Rightarrow> list_all (\<lambda>fs. length fs \<le> MAX_PENDING_FRAMES) fss \<and>
          length (fr_pending fr) < HEADER_LEN + MAX_PAYLOAD_LEN \<and>
          (\<exists>sent. encode_frames nonce (concat fss) = Inr sent \<and> concat chunks = sent @ fr_pending fr))"
proof -
  obtain res fr where "feed_all (frame_reader_new nonce) chunks = Some (res, fr)"
    "fed_all (frame_reader_new nonce) (concat chunks) (res, fr)"
    using feed_all_fed [OF reader_ok_new, of nonce chunks] by auto
  then show ?thesis
    by (cases res) (auto simp: reader_finish_def feed_def encode_frames_eq_Inr
        dest: reader_ok_bound [unfolded frame_limit_def])
qed

section \<open>Blocking reads\<close>

lemma reader_wanted_pos: "reader_ok fr \<Longrightarrow> 0 < reader_wanted fr"
  using reader_room [of fr] by (simp add: reader_wanted_def MAX_READER_PAGE_def)

lemma reader_wanted_fits:
  "reader_ok fr \<Longrightarrow> length (fr_pending fr) + length (take (min n (reader_wanted fr)) source) \<le> reader_target fr"
  using reader_room [of fr] by (auto simp: reader_wanted_def)

lemma read_frame_inner_step:
  assumes "reader_ok fr" and "source \<noteq> []" and "count = min (Suc n) (reader_wanted fr)"
  shows "read_frame_inner fr source (Inr n # calls) =
    (case reader_expect (reader_push fr (take count source)) of
       Inl e \<Rightarrow> Some (Inl e, reader_push fr (take count source), drop count source, calls)
     | Inr ex \<Rightarrow> let fr' = reader_push fr (take count source)\<lparr>fr_expected := ex\<rparr> in
         if ex = Some (length (fr_pending fr'))
         then Some (map_sum id Some (decode_owned (fr_nonce fr') (fr_pending fr')), reader_reset fr',
           drop count source, calls)
         else read_frame_inner fr' (drop count source) calls)"
proof -
  have "take count source \<noteq> []" using assms reader_wanted_pos by auto
  then show ?thesis
    by (simp add: assms(3) [symmetric] reader_push_def reader_reset_def Let_def split: sum.split)
qed

lemma read_frame_inner_end:
  "reader_ok fr \<Longrightarrow> read_frame_inner fr [] (Inr n # calls) =
     Some (and_then (reader_finish fr) (\<lambda>_. Inr None), fr, [], calls)"
  by simp

lemma reader_reset_push [simp]: "reader_reset (reader_push fr data\<lparr>fr_expected := ex\<rparr>) = reader_reset fr"
  by (simp add: reader_reset_def reader_push_def)

declare read_frame_inner.simps(3) [simp del]

lemma read_frame_inner_sound:
  "reader_ok fr \<Longrightarrow> read_frame_inner fr source calls = Some (Inr r, fr', rest, calls') \<Longrightarrow>
     (case r of Some f \<Rightarrow> sendable f \<and> fr_pending fr @ source = frame_wire (fr_nonce fr) f @ rest \<and> fr' = reader_reset fr
      | None \<Rightarrow> fr_pending fr = [] \<and> source = [] \<and> fr' = fr \<and> rest = [])"
proof (induction calls arbitrary: fr source)
  case (Cons call calls)
  show ?case
  proof (cases call)
    case (Inl e)
    with Cons show ?thesis by (auto split: if_splits)
  next
    case call: (Inr n)
    show ?thesis
    proof (cases "source = []")
      case True
      with Cons.prems call show ?thesis
        by (auto simp: read_frame_inner.simps reader_finish_def result_simps split: if_splits)
    next
      case False
      define count where "count = min (Suc n) (reader_wanted fr)"
      note step = read_frame_inner_step [OF Cons.prems(1) False count_def, of calls]
      have pos: "take count source \<noteq> []"
        using False reader_wanted_pos [OF Cons.prems(1)] by (simp add: count_def)
      from Cons.prems(2) call obtain ex where ex: "reader_expect (reader_push fr (take count source)) = Inr ex"
        by (auto simp: step split: sum.splits)
      let ?fr = "reader_push fr (take count source)\<lparr>fr_expected := ex\<rparr>"
      have at: "reader_at ?fr"
        by (rule reader_expect_at [OF Cons.prems(1) _ ex])
          (unfold count_def, rule reader_wanted_fits [OF Cons.prems(1)])
      show ?thesis
      proof (cases "ex = Some (length (fr_pending ?fr))")
        case True
        with Cons.prems(2) call ex step obtain f where "r = Some f" "rest = drop count source" "fr' = reader_reset fr"
          "decode_owned (fr_nonce fr) (fr_pending fr @ take count source) = Inr f"
          by (cases "decode_owned (fr_nonce fr) (fr_pending fr @ take count source)") auto
        then show ?thesis
          by (simp add: decode_owned_wire) (metis append_assoc append_take_drop_id)
      next
        case False
        with Cons.prems(2) call ex step have "read_frame_inner ?fr (drop count source) calls = Some (Inr r, fr', rest, calls')"
          by (simp add: Let_def)
        from Cons.IH [OF _ this] at False pos show ?thesis by (auto simp: reader_ok_def split: option.splits)
      qed
    qed
  qed
qed simp

definition calls_fine :: "nat \<Rightarrow> (IoError + nat) list \<Rightarrow> bool" where
  "calls_fine n calls \<longleftrightarrow>
     list_all (\<lambda>c. c = Inl Interrupted \<or> \<not> isl c) calls \<and> n \<le> length (filter (\<lambda>c. \<not> isl c) calls)"

lemma calls_fine_Cons:
  "calls_fine n (Inl e # calls) \<longleftrightarrow> e = Interrupted \<and> calls_fine n calls"
  "calls_fine (Suc n) (Inr k # calls) \<longleftrightarrow> calls_fine n calls"
  by (auto simp: calls_fine_def)

lemma calls_fine_mono: "calls_fine n calls \<Longrightarrow> m \<le> n \<Longrightarrow> calls_fine m calls"
  by (auto simp: calls_fine_def)

lemma read_frame_inner_complete:
  "reader_ok fr \<Longrightarrow> sendable f \<Longrightarrow> fr_pending fr @ source = frame_wire (fr_nonce fr) f @ rest \<Longrightarrow>
     calls_fine n calls \<Longrightarrow> length (frame_wire (fr_nonce fr) f) \<le> length (fr_pending fr) + n \<Longrightarrow>
     \<exists>r. read_frame_inner fr source calls = Some (Inr (Some f), r)"
proof (induction calls arbitrary: fr source n)
  case Nil
  then have "length (frame_wire (fr_nonce fr) f) \<le> length (fr_pending fr)" by (simp add: calls_fine_def)
  then have "fr_pending fr = frame_wire (fr_nonce fr) f @ drop (length (frame_wire (fr_nonce fr) f)) (fr_pending fr)"
    using Nil.prems(3) by (metis append_eq_conv_conj append_take_drop_id take_append take_all_iff
        append_self_conv diff_is_0_eq take0)
  with reader_ok_partial [OF Nil.prems(1,2)] show ?case by blast
next
  case (Cons call calls)
  have short: "length (fr_pending fr) < length (frame_wire (fr_nonce fr) f)"
    using reader_ok_partial [OF Cons.prems(1,2)] Cons.prems(3)
    by (metis append_eq_append_conv_if append_take_drop_id not_le)
  show ?case
  proof (cases call)
    case (Inl e)
    with Cons show ?thesis by (auto simp: calls_fine_Cons)
  next
    case call: (Inr k)
    obtain m where n: "n = Suc m" using short Cons.prems(5) by (cases n) auto
    have source: "source \<noteq> []" using short Cons.prems(3) by auto
    define count where "count = min (Suc k) (reader_wanted fr)"
    note step = read_frame_inner_step [OF Cons.prems(1) source count_def, of calls]
    have fits: "length (fr_pending fr) + length (take count source) \<le> reader_target fr"
      unfolding count_def by (rule reader_wanted_fits [OF Cons.prems(1)])
    have pos: "Suc 0 \<le> min (length source) count"
      using source reader_wanted_pos [OF Cons.prems(1)] by (cases source) (simp_all add: count_def)
    have "fr_pending fr @ take count source @ drop count source = frame_wire (fr_nonce fr) f @ rest"
      using Cons.prems(3) by simp
    from reader_expect_frame [OF Cons.prems(1) fits Cons.prems(2) this]
    obtain ex where ex: "reader_expect (reader_push fr (take count source)) = Inr ex"
      and full: "ex = Some (length (fr_pending fr @ take count source)) \<Longrightarrow>
        fr_pending fr @ take count source = frame_wire (fr_nonce fr) f" by metis
    let ?fr = "reader_push fr (take count source)\<lparr>fr_expected := ex\<rparr>"
    show ?thesis
    proof (cases "ex = Some (length (fr_pending ?fr))")
      case True
      with full have "decode_owned (fr_nonce fr) (fr_pending fr @ take count source) = Inr f"
        using Cons.prems(2) by (simp add: decode_owned_wire)
      with True call ex step show ?thesis by simp
    next
      case False
      with reader_expect_at [OF Cons.prems(1) fits ex] have "reader_ok ?fr" by (simp add: reader_ok_def)
      moreover have "calls_fine m calls" using Cons.prems(4) call n by (simp add: calls_fine_Cons)
      ultimately have "\<exists>r. read_frame_inner ?fr (drop count source) calls = Some (Inr (Some f), r)"
        using Cons.prems(2,3,5) n pos
        by (intro Cons.IH [of ?fr "drop count source" m]) (simp_all del: min.bounded_iff)
      with False call ex step show ?thesis by (simp add: Let_def)
    qed
  qed
qed

lemma reader_reset_new [simp]: "reader_reset (frame_reader_new nonce) = frame_reader_new nonce"
  by (simp add: reader_reset_def frame_reader_new_def)

lemma read_frame_new:
  "read_frame (frame_reader_new nonce) source calls = Some (Inr r, s) \<longleftrightarrow>
     read_frame_inner (frame_reader_new nonce) source calls = Some (Inr r, s)"
  by (auto simp: read_frame_def split: option.splits prod.splits sum.splits)

text \<open>
  A blocking read between two frames takes exactly the next frame from its source: with calls
  that are at worst interrupted, it returns \<open>f\<close> and leaves \<open>rest\<close> if and only if the source starts
  with the encoding of \<open>f\<close> and \<open>rest\<close> follows; the reader is then between two frames again. It
  reports the end of the stream if and only if the source has no byte left.
\<close>

theorem read_frame_takes_next:
  assumes "calls_fine (Suc (length source)) calls"
  shows "((\<exists>calls'. read_frame (frame_reader_new nonce) source calls =
        Some (Inr (Some f), frame_reader_new nonce, rest, calls')) \<longleftrightarrow>
      (\<exists>bs. encode_frame nonce f = Inr bs \<and> source = bs @ rest)) \<and>
    ((\<exists>s. read_frame (frame_reader_new nonce) source calls = Some (Inr None, s)) \<longleftrightarrow> source = [])"
proof (intro conjI iffI)
  assume "\<exists>calls'. read_frame (frame_reader_new nonce) source calls =
      Some (Inr (Some f), frame_reader_new nonce, rest, calls')"
  then show "\<exists>bs. encode_frame nonce f = Inr bs \<and> source = bs @ rest"
    by (auto simp: read_frame_new encode_frame_wire dest!: read_frame_inner_sound [OF reader_ok_new])
next
  assume "\<exists>bs. encode_frame nonce f = Inr bs \<and> source = bs @ rest"
  then have f: "sendable f" "source = frame_wire nonce f @ rest" by (auto simp: encode_frame_wire)
  then obtain r where r: "read_frame_inner (frame_reader_new nonce) source calls = Some (Inr (Some f), r)"
    using read_frame_inner_complete [OF reader_ok_new f(1) _ assms, of nonce source rest] by auto
  obtain fr' rest' calls' where "r = (fr', rest', calls')" by (cases r)
  with r f read_frame_inner_sound [OF reader_ok_new, of nonce source calls "Some f"]
  show "\<exists>calls'. read_frame (frame_reader_new nonce) source calls =
      Some (Inr (Some f), frame_reader_new nonce, rest, calls')"
    by (auto simp: read_frame_new)
next
  assume "\<exists>s. read_frame (frame_reader_new nonce) source calls = Some (Inr None, s)"
  then show "source = []"
    by (auto simp: read_frame_new dest!: read_frame_inner_sound [OF reader_ok_new])
next
  assume "source = []"
  moreover have "\<exists>s. read_frame_inner (frame_reader_new nonce) [] calls = Some (Inr None, s)"
    if "calls_fine (Suc 0) calls" for calls
    using that
  proof (induction calls)
    case (Cons call calls)
    then show ?case
      by (cases call) (auto simp: calls_fine_Cons read_frame_inner.simps reader_finish_def)
  qed (simp add: calls_fine_def)
  ultimately show "\<exists>s. read_frame (frame_reader_new nonce) source calls = Some (Inr None, s)"
    using assms by (simp add: read_frame_new)
qed

theorem read_frame_takes_next_witness:
  "\<exists>calls'. read_frame (frame_reader_new (arr32_fill 7)) (frame_wire (arr32_fill 7) Stop @ [1, 2])
      (Inl Interrupted # replicate 99 (Inr 0)) =
    Some (Inr (Some Stop), frame_reader_new (arr32_fill 7), [1, 2], calls')"
proof -
  have "calls_fine (Suc (length (frame_wire (arr32_fill 7) Stop @ [1, 2]))) (Inl Interrupted # replicate 99 (Inr 0))"
    by (simp add: calls_fine_def length_frame_wire HEADER_LEN_def list_all_iff)
  from read_frame_takes_next [OF this, of "arr32_fill 7" Stop "[1, 2]"] show ?thesis
    by (simp add: encode_frame_wire sendable_def MAX_PAYLOAD_LEN_def)
qed

text \<open>
  The first frame of a connection is read without knowing the nonce: a source gives the pair of
  a nonce and a frame if and only if it starts with the encoding of the frame under that nonce.
\<close>

theorem read_initial_frame_iff:
  "read_initial_frame source = Inr (nonce, f) \<longleftrightarrow>
     (\<exists>bs rest. encode_frame nonce f = Inr bs \<and> source = bs @ rest)"
proof
  assume "read_initial_frame source = Inr (nonce, f)"
  then obtain len where decoded: "decode_owned nonce (take HEADER_LEN source @ take len (drop HEADER_LEN source)) = Inr f"
    unfolding read_initial_frame_def read_exact_def by (auto simp: and_then_eq_Inr split: if_splits)
  have "source = (take HEADER_LEN source @ take len (drop HEADER_LEN source)) @ drop (HEADER_LEN + len) source"
    unfolding take_add [symmetric] by (rule append_take_drop_id [symmetric])
  with decoded show "\<exists>bs rest. encode_frame nonce f = Inr bs \<and> source = bs @ rest"
    unfolding decode_owned_wire encode_frame_wire by blast
next
  assume "\<exists>bs rest. encode_frame nonce f = Inr bs \<and> source = bs @ rest"
  then obtain rest where f: "sendable f" and source: "source = frame_wire nonce f @ rest"
    unfolding encode_frame_wire by blast
  let ?h = "header_bytes nonce (frame_tag f) (length (frame_bytes f))"
  have head: "read_exact HEADER_LEN source = Inr (?h, frame_bytes f @ rest)"
    and body: "read_exact (length (frame_bytes f)) (frame_bytes f @ rest) = Inr (frame_bytes f, rest)"
    unfolding source frame_wire_def by (simp_all add: read_exact_def)
  have "header ?h None = Inr (nonce, length (frame_bytes f), frame_tag f)"
    by (rule header_prefix [of _ "frame_bytes f"])
      (use frame_wire_header [OF f, of None nonce "[]"] in \<open>simp_all add: frame_wire_def\<close>)
  moreover have "decode_owned nonce (?h @ frame_bytes f) = Inr f"
    unfolding decode_owned_wire frame_wire_def using f by simp
  ultimately show "read_initial_frame source = Inr (nonce, f)"
    unfolding read_initial_frame_def head by (simp add: body)
qed

end
