(* ===== verification/Wsl_Control.thy ===== *)
theory Wsl_Control
  imports Wsl_Frame
begin

text \<open>
  The stage check of the control protocol, \<^verbatim>\<open>ControlState\<close> of
  \<^verbatim>\<open>beryl-wsl-supervisor/src/codec/reader.rs\<close>, and its equivalence with a condition on the frames
  accepted before.
\<close>

section \<open>Model\<close>

record ControlState =
  ctl_role :: Role
  ctl_ready :: bool
  ctl_started :: bool
  ctl_namespace_closed :: bool
  ctl_closed :: bool

definition control_new :: "Role \<Rightarrow> ControlState" where
  "control_new role = \<lparr>ctl_role = role, ctl_ready = False, ctl_started = False,
     ctl_namespace_closed = False, ctl_closed = False\<rparr>"

fun is_reader_event :: "Frame \<Rightarrow> bool" where
  "is_reader_event (ReaderOpened _ _) \<longleftrightarrow> True"
| "is_reader_event (ReaderPage _ _ _ _ _) \<longleftrightarrow> True"
| "is_reader_event (ReaderFailed _ _ _) \<longleftrightarrow> True"
| "is_reader_event (ReaderClosed _ _ _) \<longleftrightarrow> True"
| "is_reader_event _ \<longleftrightarrow> False"

definition control_accept :: "ControlState \<Rightarrow> Frame \<Rightarrow> WslCodecError + ControlState" where
  "control_accept st frame =
     (let illegal = wsl_invalid ''illegal control stage'' in
      if ctl_closed st then wsl_invalid ''frame after terminal closure''
      else case frame of
        Ready role \<Rightarrow> if role = ctl_role st \<and> \<not> ctl_ready st then Inr (st\<lparr>ctl_ready := True\<rparr>) else illegal
      | WorkloadStarted \<Rightarrow>
          if ctl_role st = Supervisor \<and> ctl_ready st \<and> \<not> ctl_started st \<and> \<not> ctl_namespace_closed st
          then Inr (st\<lparr>ctl_started := True\<rparr>) else illegal
      | OwnedNamespaceClosed _ \<Rightarrow>
          if ctl_role st = Supervisor \<and> ctl_ready st \<and> \<not> ctl_namespace_closed st
          then Inr (st\<lparr>ctl_namespace_closed := True\<rparr>) else illegal
      | LinuxCompanionsClosed \<Rightarrow>
          if ctl_role st = ContextBroker \<or> ctl_namespace_closed st
          then Inr (st\<lparr>ctl_closed := True\<rparr>) else illegal
      | Failure _ _ \<Rightarrow> Inr st
      | ShutdownPending \<Rightarrow> Inr st
      | Stop \<Rightarrow> Inr st
      | BrokerClose \<Rightarrow> Inr st
      | _ \<Rightarrow>
          if is_reader_event frame \<and> ctl_role st = Supervisor \<and> ctl_started st \<and> \<not> ctl_namespace_closed st
          then Inr st else illegal)"

fun control_run :: "ControlState \<Rightarrow> Frame list \<Rightarrow> WslCodecError + ControlState" where
  "control_run st [] = Inr st"
| "control_run st (f # fs) = and_then (control_accept st f) (\<lambda>st. control_run st fs)"

section \<open>Stages by history\<close>

text \<open>
  The protocol in terms of the frames \<open>pre\<close> that were accepted before the frame: no flags, only what
  has happened.
\<close>

definition namespace_gone :: "Frame list \<Rightarrow> bool" where
  "namespace_gone pre \<longleftrightarrow> list_ex (\<lambda>f. case f of OwnedNamespaceClosed _ \<Rightarrow> True | _ \<Rightarrow> False) pre"

fun stage_legal :: "Role \<Rightarrow> Frame list \<Rightarrow> Frame \<Rightarrow> bool" where
  "stage_legal role pre (Ready r) \<longleftrightarrow> LinuxCompanionsClosed \<notin> set pre \<and> r = role \<and> Ready role \<notin> set pre"
| "stage_legal role pre WorkloadStarted \<longleftrightarrow> LinuxCompanionsClosed \<notin> set pre \<and> role = Supervisor \<and>
     Ready role \<in> set pre \<and> WorkloadStarted \<notin> set pre \<and> \<not> namespace_gone pre"
| "stage_legal role pre (OwnedNamespaceClosed _) \<longleftrightarrow> LinuxCompanionsClosed \<notin> set pre \<and> role = Supervisor \<and>
     Ready role \<in> set pre \<and> \<not> namespace_gone pre"
| "stage_legal role pre LinuxCompanionsClosed \<longleftrightarrow> LinuxCompanionsClosed \<notin> set pre \<and>
     (role = ContextBroker \<or> namespace_gone pre)"
| "stage_legal role pre (Failure _ _) \<longleftrightarrow> LinuxCompanionsClosed \<notin> set pre"
| "stage_legal role pre ShutdownPending \<longleftrightarrow> LinuxCompanionsClosed \<notin> set pre"
| "stage_legal role pre Stop \<longleftrightarrow> LinuxCompanionsClosed \<notin> set pre"
| "stage_legal role pre BrokerClose \<longleftrightarrow> LinuxCompanionsClosed \<notin> set pre"
| "stage_legal role pre f \<longleftrightarrow> is_reader_event f \<and> LinuxCompanionsClosed \<notin> set pre \<and> role = Supervisor \<and>
     WorkloadStarted \<in> set pre \<and> \<not> namespace_gone pre"

definition control_at :: "Role \<Rightarrow> Frame list \<Rightarrow> ControlState" where
  "control_at role pre = \<lparr>ctl_role = role, ctl_ready = (Ready role \<in> set pre),
     ctl_started = (WorkloadStarted \<in> set pre), ctl_namespace_closed = namespace_gone pre,
     ctl_closed = (LinuxCompanionsClosed \<in> set pre)\<rparr>"

lemma namespace_gone_snoc:
  "namespace_gone (pre @ [f]) \<longleftrightarrow> namespace_gone pre \<or> (case f of OwnedNamespaceClosed _ \<Rightarrow> True | _ \<Rightarrow> False)"
  by (simp add: namespace_gone_def)

lemma control_accept_at:
  "control_accept (control_at role pre) f = Inr st \<longleftrightarrow> stage_legal role pre f \<and> st = control_at role (pre @ [f])"
  by (cases f) (auto simp: control_accept_def control_at_def Let_def namespace_gone_snoc)

lemma control_run_snoc: "control_run st (fs @ [f]) = and_then (control_run st fs) (\<lambda>st. control_accept st f)"
  by (induction fs arbitrary: st) (simp_all add: and_then_def split: sum.split)

lemma snoc_split:
  "fs @ [f] = pre @ g # post \<longleftrightarrow> post = [] \<and> fs = pre \<and> f = g \<or> (\<exists>post'. post = post' @ [f] \<and> fs = pre @ g # post')"
  by (cases post rule: rev_cases) auto

lemma control_run_at:
  "control_run (control_new role) fs = Inr st \<longleftrightarrow>
     st = control_at role fs \<and> (\<forall>pre f post. fs = pre @ f # post \<longrightarrow> stage_legal role pre f)"
proof (induction fs arbitrary: st rule: rev_induct)
  case Nil
  show ?case by (auto simp: control_new_def control_at_def namespace_gone_def)
next
  case (snoc f fs)
  have "(\<forall>pre g post. fs @ [f] = pre @ g # post \<longrightarrow> stage_legal role pre g) \<longleftrightarrow>
      (\<forall>pre g post. fs = pre @ g # post \<longrightarrow> stage_legal role pre g) \<and> stage_legal role fs f"
    unfolding snoc_split by blast
  then show ?case by (auto simp: control_run_snoc result_simps snoc.IH control_accept_at)
qed

text \<open>
  C26. The stage check decides the protocol: a sequence of frames is accepted from the start if and
  only if every frame of it is legal after the frames before it. So at most one \<^verbatim>\<open>Ready\<close> of the own role,
  a workload only after it, reader events only while the workload runs, one closed namespace, and
  nothing after the companions are closed.
\<close>

theorem control_decides_order:
  "(\<exists>st. control_run (control_new role) fs = Inr st) \<longleftrightarrow>
     (\<forall>pre f post. fs = pre @ f # post \<longrightarrow> stage_legal role pre f)"
  by (simp add: control_run_at)

theorem control_decides_order_witness:
  "(\<exists>st. control_run (control_new Supervisor) [Ready Supervisor, WorkloadStarted, Stop] = Inr st) \<and>
   \<not> (\<exists>st. control_run (control_new Supervisor) [WorkloadStarted, Ready Supervisor] = Inr st)"
proof
  show "\<exists>st. control_run (control_new Supervisor) [Ready Supervisor, WorkloadStarted, Stop] = Inr st"
    unfolding control_decides_order by (auto simp: Cons_eq_append_conv namespace_gone_def)
  show "\<not> (\<exists>st. control_run (control_new Supervisor) [WorkloadStarted, Ready Supervisor] = Inr st)"
    unfolding control_decides_order by (auto simp: Cons_eq_append_conv intro!: exI [of _ "[]"])
qed

end
