(* ===== verification/Spec2Isabelle.thy ===== *)
theory Spec2Isabelle
  imports Job_Batch Settings_Domain Custody_Laws Health_Laws Stream_Source Wsl_Reader Wsl_Control
begin

text \<open>
  A verification library for Beryl, a desktop client of the Codex app server. This theory imports
  all others and holds the properties that span components.

  \<^bold>\<open>The program.\<close> Beryl keeps its durable state in a \<^emph>\<open>home\<close>, one database file opened by
  \<^verbatim>\<open>crates/beryl-home-store\<close>. The home store knows nothing of what it keeps: it offers typed record
  families in byte-ordered keyspaces, point and cursor reads on a snapshot, and commands, each of
  which reads a snapshot, validates and contributes one batch of puts and deletes. The domains of
  \<^verbatim>\<open>crates/beryl-state\<close> are built on it with the value types of \<^verbatim>\<open>crates/beryl-model\<close>. The domain
  modelled in full is the durable jobs (\<^verbatim>\<open>durable_job.rs\<close> and below): the branch-handoff jobs that
  carry the resolution of a discussion thread back to its parent thread, across restarts.

  \<^bold>\<open>How the parts interact.\<close> A command of the job domain (admission of a new attempt, or one of the
  transitions of its life cycle) is prepared against a \<^verbatim>\<open>DomainReader\<close>, which decodes the stored
  bytes through the record codecs; it contributes encoded mutations to a \<^verbatim>\<open>MutationBuilder\<close>; the
  writer applies the batch to the five keyspaces of the domain: the job records, the live-job
  index, the request-idempotency index, the discussion-attempt index and the latest-attempt index.
  When a home is opened, the validator of the domain scans all five and refuses an inconsistent
  home.

  \<^bold>\<open>Theories and the code they model.\<close>
  \<^item> \<open>Beryl_Prelude\<close>, \<open>Beryl_Std\<close>: results (\<open>'e + 'a\<close>, \<open>Inl\<close> the error) with \<open>and_then\<close> for the
    \<^verbatim>\<open>?\<close> operator, machine words, big-endian integers, fixed-size arrays, non-zero integers, UTF-8
    strings: what the code uses of Rust's standard library.
  \<^item> \<open>Beryl_Model\<close>: \<^verbatim>\<open>beryl-model/src/{ids,revision,runtime,provenance,availability}.rs\<close>.
  \<^item> \<open>Beryl_Parser\<close>: parsers of byte strings and the locale \<open>wire\<close> of an encoder and a parser that are
    inverse to each other, interpreted for every field format of the codecs below.
  \<^item> \<open>Beryl_Encoding\<close>: the byte format of \<^verbatim>\<open>beryl-state/src/encoding.rs\<close>, with the locale \<open>record_wire\<close>
    of a whole record.
  \<^item> \<open>Home_Keyspace\<close>, \<open>Home_Command\<close>: \<^verbatim>\<open>beryl-home-store/src/{codec,read,domain,command}.rs\<close>,
    \<^verbatim>\<open>read/execute.rs\<close>, \<^verbatim>\<open>domain/definition.rs\<close> and the effect of \<^verbatim>\<open>writer/batch.rs\<close>. The storage
    engine is the parameter \<open>'io snapshot\<close>.
  \<^item> \<open>Home_Table\<close>, \<open>Home_Paging\<close>, \<open>Home_Batch\<close>: the abstract side of it: a keyspace as a finite
    map, the locale \<open>typed_family\<close> of a record codec that represents such a map, the paging loop
    that the validators share, and the independence of a batch from its order.
  \<^item> \<open>Memory_Store\<close>: a concrete snapshot over byte maps, the instance of the engine's hypotheses.
  \<^item> \<open>Home_Metadata\<close>: the control records of \<^verbatim>\<open>metadata.rs\<close> and \<^verbatim>\<open>header.rs\<close> and the two reads of
    \<^verbatim>\<open>read.rs\<close> that the writer fences on. \<open>Home_Writer\<close>: \<^verbatim>\<open>writer.rs\<close>, \<^verbatim>\<open>writer/batch.rs\<close>,
    \<^verbatim>\<open>command/{participant,pair,result}.rs\<close>: the execution of one admitted command, with the engine as
    the record parameter \<open>'io engine\<close>. \<open>Writer_Commit\<close>, \<open>Writer_Laws\<close>, \<open>Writer_Current\<close>,
    \<open>Writer_Progress\<close>: what it does (\<open>commit_step\<close>), when it refuses and when it commits.
    \<open>Writer_Domains\<close>: the locale \<open>storage_domain\<close> of what the writer asks of a domain and gives it in
    return; \<open>Home_Domains\<close> interprets it for both modelled domains; \<open>Home_Sample\<close> is a concrete home.
  \<^item> \<open>Home_Registry\<close>: \<^verbatim>\<open>reconciliation.rs\<close> and \<^verbatim>\<open>reconciliation/registry.rs\<close>: the registry that keeps the
    descriptor of a commit whose outcome is uncertain until a worker resolves it. \<open>Registry_Laws\<close>
    composes it with the commands, triggers, workers, retries and closes that use it into a step
    relation, and proves its invariant; \<open>Registry_Resolution\<close>: what it promises. \<open>Home_Reconcile\<close>:
    \<^verbatim>\<open>reconciliation/reader.rs\<close>, \<^verbatim>\<open>beryl-state/src/reconciliation.rs\<close>, the hooks of the modelled domains and
    their execution, with the locale \<open>reconciled_domain\<close> of a domain whose hook tells the old from the
    new side; \<open>Reconcile_Domains\<close> interprets it; \<open>Reconcile_Laws\<close> joins writer, domains and registry.
  \<^item> \<open>Home_Custody\<close>: the rest of \<^verbatim>\<open>writer.rs\<close> around an admitted command and the custody of
    \<^verbatim>\<open>command/result.rs\<close>: checks, reservation of a scope of the registry, outcome. \<open>Custody_Charge\<close>: the locale
    \<open>charged_domain\<close> of a domain whose reservations pay for its descriptors; \<open>Custody_Laws\<close> interprets it for
    both domains and shows that commands use the registry by its steps.
  \<^item> \<open>Home_Health\<close>: the health gate of \<^verbatim>\<open>health.rs\<close>; \<open>Health_Laws\<close>: its users as a step relation, its
    invariant and what it promises under every interleaving.
  \<^item> \<open>Job_Value\<close>, \<open>Job_Record\<close>, \<open>Job_Codec\<close>, \<open>Job_Mutation\<close>, \<open>Job_Validate\<close>, \<open>Job_Reads\<close>: the files
    \<^verbatim>\<open>value.rs\<close>, \<^verbatim>\<open>record.rs\<close>, \<^verbatim>\<open>codec.rs\<close>, \<^verbatim>\<open>mutation.rs\<close>, \<^verbatim>\<open>validate.rs\<close>, \<^verbatim>\<open>read.rs\<close> and \<^verbatim>\<open>acquisition.rs\<close>
    under \<^verbatim>\<open>beryl-state/src/durable_job\<close>, with the directories of the same names.
  \<^item> \<open>Job_Machine\<close>: the life cycle as an inductive step relation; \<open>Job_Store\<close>: the five tables, their
    invariant \<open>job_inv\<close> and the relation \<open>tables_step\<close> of what a command may do to them;
    \<open>Job_Refinement\<close>, \<open>Job_Outcome\<close>, \<open>Job_Batch\<close>, \<open>Job_Runs\<close>: the lemmas that connect the code to
    them; \<open>Key_Order\<close>: the order of encoded keys; \<open>Job_Sample\<close>: sample values for the witnesses.

  \<^bold>\<open>Correspondence.\<close> A struct is a record, an enum a datatype, a function a definition of the same
  name (prefixed where two types of the source share it). A mutable argument is returned updated,
  a fallible function returns a sum, and the text of an invariant error is kept. Identities are
  16-byte arrays, \<^verbatim>\<open>usize\<close> is a natural number with the 64-bit bound written out in the checked
  operations, \<^verbatim>\<open>u64\<close> and \<^verbatim>\<open>u32\<close> are machine words.

  \<^bold>\<open>The storage engine.\<close> What the code relies on is stated as hypotheses of the properties:
  \<open>snapshot_of sn m\<close> says that a call on the snapshot \<open>sn\<close> which does not fail answers as the byte map
  \<open>m\<close> would (point reads, and ordered scans of a range); \<open>snapshot_reliable sn m\<close> says in addition
  that calls do not fail; \<open>engine_sound\<close> says that a snapshot agrees with the contents it is taken
  of, and that a commit applies its whole batch or nothing and tells which unless it is
  indeterminate. Every property with such a hypothesis is instantiated at
  \<open>memory_snapshot\<close> or \<open>memory_engine\<close>, which compute both from a map.

  \<^bold>\<open>What the lemmas show.\<close> The codecs are canonical and their encodings are within the declared
  limits; the nine transitions of the code are exactly the steps of the life cycle; every command
  refines a step of the tables and keeps their invariant, so that a store produced by commands has
  at most one live job in a discussion and passes validation; the validator accepts exactly the
  stores that satisfy the invariant, and terminates on any bytes; commands that are due succeed, and the
  others fail with the error of the first failed check; status queries, the answer to a repeated
  request, the thread-reuse guard (whatever commits between its reads) and the list of live jobs agree
  with the tables; the batch of a command is independent of its order and covered by its reservation. A command of the writer is
  atomic and fenced by the revisions it expects, so that no update is lost; a stale one is refused
  with what is stale, a ready one commits, and the descriptor kept for reconciliation lists exactly
  the records the batch writes, with their values before and after; every run of the writer is a run of steps of each domain. The registry
  accounts for every byte it reserves, never panics or strands a scope under any interleaving, and
  its resolutions are final; a commit whose outcome is uncertain is resolved to what really
  happened to the home. A command reports the truth about its effect in every branch, and what it
  leaves with the registry is within what it reserved. An operation that the health gate confirms ran
  while the home was healthy and of one generation, and a failed home can always be recovered.

  \<^bold>\<open>Bounds and termination.\<close> No definition uses fuel. The paging loop of the validators is a
  \<^verbatim>\<open>partial_function (option)\<close>, since an engine that repeats a page would make it run forever; on a
  snapshot of any finite map, also of bytes that do not decode, it is proved to return. Page limits, record limits and the 64-bit
  bounds are those of the source.

  \<^bold>\<open>Settings.\<close> \<open>Settings_Codec\<close> and \<open>Settings_Domain\<close> model \<^verbatim>\<open>beryl-state/src/settings.rs\<close> and the files
  below it: a second domain over the same typed layer, with an encoder and a decoder of its own.
  The codec accepts exactly the encodings of well-typed records, an Apply of several updates is
  atomic and checked against the revisions its caller saw, and the validator decides the invariant
  of the table.

  \<^bold>\<open>Streams.\<close> \<open>Stream_Channel\<close>, \<open>Stream_Pool\<close> and \<open>Stream_Source\<close> model \<^verbatim>\<open>crates/beryl-stream\<close>: the bounded
  channel between two threads, the pool of zeroed pages and the cursor that checks a stream of
  pages. The operations are functions on the state under the mutex, and runs are arbitrary
  sequences of these critical sections, so the lemmas hold under every interleaving: delivery in
  order without loss, no panic, pages never leased twice nor with old contents. A call that waits
  is a loop over wake-ups, each with the instant it reads and what other threads did meanwhile; it
  is proved to return at the first wake-up after its deadline. Sizes of types and the success of
  allocations are arguments.

  \<^bold>\<open>Supervisor protocol.\<close> \<open>Wsl_Frame\<close>, \<open>Wsl_Codec\<close>, \<open>Wsl_Reader\<close> and \<open>Wsl_Control\<close> model the frames that the
  client and its supervisor inside a WSL distribution exchange, \<^verbatim>\<open>beryl-wsl-supervisor/src/codec\<close>: the
  encoder and the decoders on the parsers of \<open>Beryl_Parser\<close>, the reader that is fed chunks or reads
  from a blocking source, and the flags that check the stages of a connection. The codec is
  canonical, the reader returns the frames of a stream however it is cut, and the flags accept
  exactly the sequences that are legal by what happened before. The loop of \<open>feed_inner\<close> is a
  \<^verbatim>\<open>partial_function (option)\<close> that is proved to return on every input.

  \<^bold>\<open>Not modelled.\<close> The storage engine itself and the recovery of a home across a restart;
  the mutex of the writer (commands run one after the other), what cancellation, poisoned locks, the
  gate and the database answer to a command (arguments of its model), the failure that a command signals
  to the gate and the local finalization it hands out then, the classification of errors of the engine,
  and the promotion of a successor that a command may carry; the other domains of \<^verbatim>\<open>beryl-state\<close> and the conversation
  store \<^verbatim>\<open>syndic-storage\<close>; the client of the app server \<^verbatim>\<open>beryl-backend\<close> (processes, web sockets,
  JSON); the user interface \<^verbatim>\<open>beryl-app\<close>; the Linux process control of \<^verbatim>\<open>beryl-wsl-supervisor\<close>.
  \<^verbatim>\<open>Debug\<close> and \<^verbatim>\<open>Display\<close> implementations of errors carry no behaviour the rest depends on.
\<close>

section \<open>Commands of the durable-job domain\<close>

text \<open>
  C1. Refinement. A job command that succeeds on a snapshot of the store, with the batch it
  contributes applied to the bytes of the five keyspaces, is one step of the abstract tables:
  the new contents represent the tables after the step, and these satisfy the invariant again.
\<close>

theorem command_refines_step:
  assumes "snapshot_of (rd_snapshot rd) m" and "rd_families rd = job_families"
    and "jobs_rep m T" and "job_inv T" and "command_ok cmd"
    and "run_command rd cmd = (Inr ps :: 'io DurableJobMutationError + _)"
  shows "\<exists>T'. tables_step T T' \<and> jobs_rep (apply_pending job_families m ps) T' \<and> job_inv T'"
  using run_command_refines [OF assms] tables_step_inv [OF _ assms(4)] by blast

theorem command_refines_step_witness:
  "\<exists>ps T'. run_command (memory_reader empty_contents) (AdmitBranchHandoffJob sample_admission) = Inr ps \<and>
     tables_step empty_tables T' \<and> jobs_rep (apply_pending job_families empty_contents ps) T' \<and> job_inv T'"
proof -
  obtain ps where ps: "run_command (memory_reader empty_contents) (AdmitBranchHandoffJob sample_admission) = Inr ps"
    using sample_admission_runs by blast
  have "snapshot_of (rd_snapshot (memory_reader empty_contents)) empty_contents"
    using snapshot_reliable_of [OF memory_snapshot_reliable [OF storable_empty]] by (simp add: memory_reader_def)
  with ps show ?thesis
    using command_refines_step [OF _ _ jobs_rep_empty empty_tables_inv _ ps] sample_admission_ok
    by (simp add: memory_reader_def)
qed

text \<open>
  C8. Invariant of every run. Whatever sequence of commands is committed to an empty store, its
  contents represent tables that satisfy the invariant, and every stored job descends from an
  admission by steps of the life cycle.
\<close>

theorem store_runs_keep_invariant:
  assumes "(store_step io)\<^sup>*\<^sup>* empty_contents m"
  shows "\<exists>T. jobs_rep m T \<and> job_inv T \<and> originates T"
proof -
  obtain T where "tables_step\<^sup>*\<^sup>* empty_tables T" "jobs_rep m T"
    using store_run_refines [OF assms jobs_rep_empty empty_tables_inv] by blast
  then show ?thesis
    using tables_run_inv [OF _ empty_tables_inv] tables_run_originates [OF _ originates_empty] by blast
qed

theorem store_runs_keep_invariant_witness:
  "\<exists>m T. store_step TYPE(unit) empty_contents m \<and> jobs_rep m T \<and> job_inv T \<and> originates T"
  using sample_store_step store_runs_keep_invariant [OF r_into_rtranclp [of "store_step TYPE(unit)" empty_contents]]
  by blast

text \<open>
  C9. Safety. In every store that commands can produce, a discussion has at most one live job.
\<close>

theorem one_live_job_per_discussion:
  assumes "(store_step io)\<^sup>*\<^sup>* empty_contents m" and "jobs_rep m T"
    and "t_jobs T k = Some j" and "is_live (lifecycle j)"
    and "t_jobs T k' = Some j'" and "is_live (lifecycle j')"
    and "discussion_thread_id j = discussion_thread_id j'"
  shows "k = k'"
proof -
  obtain U where "tables_step\<^sup>*\<^sup>* empty_tables U" "jobs_rep m U"
    using store_run_refines [OF assms(1) jobs_rep_empty empty_tables_inv] by blast
  then have "job_inv T"
    using tables_run_inv [OF _ empty_tables_inv] jobs_rep_unique [OF assms(2)] by blast
  then show ?thesis by (rule one_live_job) (rule assms)+
qed

theorem one_live_job_per_discussion_witness:
  "\<exists>m T. (store_step TYPE(unit))\<^sup>*\<^sup>* empty_contents m \<and> jobs_rep m T \<and> t_jobs T (arr16_fill 1) = Some sample_job \<and>
     is_live (lifecycle sample_job) \<and> arr16_fill 1 = job_id sample_job"
proof -
  obtain ps where run: "run_command (memory_reader empty_contents) (AdmitBranchHandoffJob sample_admission) = Inr ps"
    and rep: "jobs_rep (apply_pending job_families empty_contents ps) (admitted sample_job empty_tables)"
    using sample_admission_runs by blast
  have step: "(store_step TYPE(unit))\<^sup>*\<^sup>* empty_contents (apply_pending job_families empty_contents ps)"
    by (rule r_into_rtranclp, rule sample_commit [OF run])
  have job: "t_jobs (admitted sample_job empty_tables) (arr16_fill 1) = Some sample_job"
    and live: "is_live (lifecycle sample_job)"
    by (simp_all add: sample_job_sel lifecycle_def is_live_def)
  have "arr16_fill 1 = (arr16_fill 1 :: JobId)"
    by (rule one_live_job_per_discussion [OF step rep job live job live refl])
  with step rep job live show ?thesis using sample_job_sel(1) by metis
qed

text \<open>
  C7. Composition of the writer with the validator. A store that commands produced is accepted by
  the validator of the domain when the home is opened again.
\<close>

theorem runs_pass_validation:
  fixes rd :: "'io DomainReader"
  assumes "(store_step io)\<^sup>*\<^sup>* empty_contents m" and "snapshot_reliable (rd_snapshot rd) m"
    and "rd_families rd = job_families"
  shows "validate rd = Some (Inr ())"
proof -
  obtain T where "tables_step\<^sup>*\<^sup>* empty_tables T" "jobs_rep m T"
    using store_run_refines [OF assms(1) jobs_rep_empty empty_tables_inv] by blast
  then show ?thesis
    using validate_complete [OF assms(2,3)] tables_run_inv [OF _ empty_tables_inv] by blast
qed

theorem runs_pass_validation_witness: "validate (memory_reader empty_contents) = Some (Inr ())"
  by (rule runs_pass_validation [of "TYPE(unit)" empty_contents])
    (use memory_snapshot_reliable [OF storable_empty] in \<open>simp_all add: memory_reader_def\<close>)

text \<open>
  C6. The validator decides the invariant. On a snapshot whose calls do not fail, the validator
  of the domain accepts the contents if and only if their tables satisfy the invariant.
\<close>

theorem validate_decides_invariant:
  fixes rd :: "'io DomainReader"
  assumes "snapshot_reliable (rd_snapshot rd) m" and "rd_families rd = job_families" and "jobs_rep m T"
  shows "validate rd = Some (Inr ()) \<longleftrightarrow> job_inv T"
  using validate_sound [OF snapshot_reliable_of [OF assms(1)] assms(2,3)] validate_complete [OF assms] by blast

theorem validate_decides_invariant_witness:
  "validate (memory_reader empty_contents) = Some (Inr ()) \<longleftrightarrow> job_inv empty_tables"
  by (rule validate_decides_invariant [OF _ _ jobs_rep_empty])
    (use memory_snapshot_reliable [OF storable_empty] in \<open>simp_all add: memory_reader_def\<close>)

text \<open>
  C27. Validation of arbitrary bytes. Whatever the keyspaces hold, also records that do not decode, and
  also if calls of the engine fail, the paged scans of the validator come to an end. If it accepts, the
  tables that the bytes represent satisfy the invariant; and if moreover no key lies outside the ranges
  it scans, the bytes do represent such tables, so that a store with a corrupt record is refused.
\<close>

theorem validate_terminates:
  fixes rd :: "'io DomainReader"
  assumes "snapshot_of (rd_snapshot rd) m" and "rd_families rd = job_families"
  shows "\<exists>r. validate rd = Some r \<and> (r = Inr () \<longrightarrow> (\<forall>T. jobs_rep m T \<longrightarrow> job_inv T) \<and>
    (job_keys_within m \<longrightarrow> (\<exists>T. jobs_rep m T \<and> job_inv T)))"
  using validate_returns [OF assms] validate_decodes [OF assms] validate_sound [OF assms] by blast

text \<open>A store whose only job record is cut off.\<close>

definition torn_store :: contents where
  "torn_store = empty_contents(ks_jobs := [arr16_bytes (arr16_fill 1) \<mapsto> [0, 0]])"

lemma torn_storable: "storable torn_store"
  using storable_empty by (auto simp: torn_store_def storable_def ran_def empty_contents_def)

lemma torn_keys: "job_keys_within torn_store"
  using arr16_range [of "arr16_fill 1"]
  by (auto simp: job_keys_within_def keys_within_def torn_store_def empty_contents_def dom_def)

lemma torn_store_unrepresented: "\<not> jobs_rep torn_store T"
proof
  assume "jobs_rep torn_store T"
  from table_rep_lookup [OF jobs_repD(1) [OF this], of "arr16_fill 1"]
  obtain j where "[0, 0] = stored_as job_record_codec encode_job_record j" by (cases "t_jobs T (arr16_fill 1)") (auto simp: torn_store_def)
  then show False by (auto dest: arg_cong [where f = length])
qed

theorem validate_terminates_witness: "\<exists>e. validate (memory_reader torn_store) = Some (Inl e)"
proof -
  have "snapshot_of (rd_snapshot (memory_reader torn_store)) torn_store" "rd_families (memory_reader torn_store) = job_families"
    using snapshot_reliable_of [OF memory_snapshot_reliable [OF torn_storable]] by (simp_all add: memory_reader_def)
  from validate_terminates [OF this] torn_keys torn_store_unrepresented show ?thesis by (metis obj_sumE old.unit.exhaust)
qed

section \<open>What a command returns\<close>

text \<open>
  C11. Liveness. On a snapshot whose calls do not fail, a transition command that names a stored
  job at its current revision, and whose transition the life cycle allows, succeeds; it replaces
  the job in the record and live tables and changes nothing else.
\<close>

theorem due_transition_succeeds:
  fixes rd :: "'io DomainReader"
  assumes "snapshot_reliable (rd_snapshot rd) m" and "rd_families rd = job_families"
    and "jobs_rep m T" and "job_inv T" and "command_ok cmd"
    and "direct_transition cmd = Some (k, revision j, t)" and "t_jobs T k = Some j"
    and "successor t j = (Inr j' :: 'io job_result)"
  shows "\<exists>ps. run_command rd cmd = Inr ps \<and>
    jobs_rep (apply_pending job_families m ps) (transitioned j' T)"
  using assms by (rule run_transition_succeeds)

theorem due_transition_succeeds_witness:
  "\<exists>m ps. run_command (memory_reader m) (CompleteResolvingTurn (arr16_fill 1) (nz_of 1)) = Inr ps \<and>
     jobs_rep (apply_pending job_families m ps)
       (transitioned (sample_job\<lparr>state := WaitingParent, revision := nz_of 2\<rparr>) (admitted sample_job empty_tables))"
proof -
  obtain m where m: "storable m" "jobs_rep m (admitted sample_job empty_tables)"
    using sample_store by blast
  have job: "t_jobs (admitted sample_job empty_tables) (arr16_fill 1) = Some sample_job"
    by (simp add: sample_job_sel)
  have succ: "successor T_CompleteResolving sample_job =
      (Inr (sample_job\<lparr>state := WaitingParent, revision := nz_of 2\<rparr>) :: unit job_result)"
    unfolding successor.simps complete_resolving_job_iff moved_def
    by (intro conjI exI [of _ "nz_of 2"]) (simp_all add: sample_job_sel result_simps)
  have "\<exists>ps. run_command (memory_reader m) (CompleteResolvingTurn (arr16_fill 1) (nz_of 1)) = Inr ps \<and>
      jobs_rep (apply_pending job_families m ps)
        (transitioned (sample_job\<lparr>state := WaitingParent, revision := nz_of 2\<rparr>) (admitted sample_job empty_tables))"
    by (rule due_transition_succeeds [OF _ _ m(2) sample_tables_inv _ _ job succ])
      (use memory_snapshot_reliable [OF m(1)] in \<open>simp_all add: memory_reader_def sample_job_sel\<close>)
  then show ?thesis by blast
qed

text \<open>
  C29. Error behaviour. A transition command whose job does not exist, or exists at another
  revision than the command expects, is refused with the error that says so.
\<close>

theorem stale_command_refused:
  fixes rd :: "'io DomainReader"
  assumes "snapshot_reliable (rd_snapshot rd) m" and "rd_families rd = job_families" and "jobs_rep m T"
    and "direct_transition cmd = Some (k, r, t)"
  shows "(t_jobs T k = None \<longrightarrow> run_command rd cmd = Inl (JobMissing k)) \<and>
    (\<forall>j. t_jobs T k = Some j \<and> r \<noteq> revision j \<longrightarrow> run_command rd cmd = Inl (JobRevisionConflict r (revision j)))"
  using direct_transition_stale [OF assms(4), of "domain_reader rd"]
    validate_current_total [OF domain_reader_total [OF assms(1-3)], of k r]
  by (auto simp: run_command_def)

theorem stale_command_refused_witness:
  "run_command (memory_reader empty_contents) (RetryBranchHandoff (arr16_fill 1) (nz_of 1)) =
     Inl (JobMissing (arr16_fill 1))"
  using stale_command_refused [OF _ _ jobs_rep_empty, of "memory_reader empty_contents"
      "RetryBranchHandoff (arr16_fill 1) (nz_of 1)"] memory_snapshot_reliable [OF storable_empty]
  by (simp add: memory_reader_def empty_tables_def)

text \<open>
  C10. Admission is decided by the tables. On a snapshot whose calls do not fail, the admission of
  a new job is refused with the error of the first check that the tables fail (the request was
  already admitted, the job or its attempt exists, a previous attempt is live or has succeeded,
  the ordinal is not the next one), and otherwise it writes the job into all five tables.
\<close>

theorem admission_decided:
  fixes rd :: "'io DomainReader"
  assumes "snapshot_reliable (rd_snapshot rd) m" and "rd_families rd = job_families"
    and "jobs_rep m T" and "job_inv T" and "admission_ok a"
  shows "case admission_verdict T (job_initial a) of
      Inl e \<Rightarrow> run_command rd (AdmitBranchHandoffJob a) = (Inl e :: 'io DurableJobMutationError + _)
    | Inr prior \<Rightarrow> \<exists>ps. run_command rd (AdmitBranchHandoffJob a) = Inr ps \<and>
        jobs_rep (apply_pending job_families m ps) (admitted (job_initial a) T)"
proof (cases "admission_verdict T (job_initial a) :: 'io DurableJobMutationError + _")
  case (Inl e)
  then show ?thesis
    using validate_new_total [OF domain_reader_total [OF assms(1-3)] assms(4) job_ok_request [OF job_initial_ok [OF assms(5)]]]
    by (simp add: run_command_def admit_prepare_def Let_def)
next
  case (Inr prior)
  then have "admissible T (job_initial a)" using admission_verdict_admissible [OF assms(4)] by blast
  then show ?thesis using run_admission_succeeds [OF assms] by (simp add: Inr)
qed

theorem admission_decided_witness:
  "\<exists>m. run_command (memory_reader m) (AdmitBranchHandoffJob sample_admission) =
     Inl (RequestAlreadyAdmitted (request_admission_from_job sample_job))"
proof -
  obtain m where m: "storable m" "jobs_rep m (admitted sample_job empty_tables)"
    using sample_store by blast
  have "admission_verdict (admitted sample_job empty_tables) (job_initial sample_admission) =
      (Inl (RequestAlreadyAdmitted (request_admission_from_job sample_job)) :: unit DurableJobMutationError + _)"
    by (simp add: admission_verdict_def flip: sample_job_def)
  then have "run_command (memory_reader m) (AdmitBranchHandoffJob sample_admission) =
      Inl (RequestAlreadyAdmitted (request_admission_from_job sample_job))"
    using admission_decided [OF _ _ m(2) sample_tables_inv sample_admission_ok, of "memory_reader m"]
      memory_snapshot_reliable [OF m(1)]
    by (simp add: memory_reader_def)
  then show ?thesis by blast
qed

text \<open>
  The batch of a job command may be applied in any order: it names no record twice, so every
  permutation of its mutations leaves the same contents.
\<close>

theorem batch_order_irrelevant:
  assumes "run_command rd cmd = (Inr ps :: 'io DurableJobMutationError + _)" and "rd_families rd = job_families"
    and "mset qs = mset ps"
  shows "apply_pending job_families m qs = apply_pending job_families m ps"
  using assms by (rule run_command_order_free)

theorem batch_order_irrelevant_witness:
  "\<exists>ps. run_command (memory_reader empty_contents) (AdmitBranchHandoffJob sample_admission) = Inr ps \<and>
     apply_pending job_families empty_contents (rev ps) = apply_pending job_families empty_contents ps"
proof -
  obtain ps where ps: "run_command (memory_reader empty_contents) (AdmitBranchHandoffJob sample_admission) = Inr ps"
    using sample_admission_runs by blast
  then show ?thesis
    using batch_order_irrelevant [OF ps, of "rev ps" empty_contents] by (simp add: memory_reader_def)
qed

text \<open>
  C40. A command reserves enough for reconciliation: its reservation succeeds, without overflow of
  the descriptor size, and covers in every family the number of records that the command writes.
\<close>

theorem reservation_covers_batch:
  assumes "run_command rd cmd = (Inr ps :: 'io DurableJobMutationError + _)" and "rd_families rd = job_families"
  shows "\<exists>r. command_reserve cmd reservation_new = (Inr r :: 'io DurableJobMutationError + _) \<and>
    (\<forall>family. contributed ps family \<le> reserved r family)"
  using assms by (rule run_command_reserved)

theorem reservation_covers_batch_witness:
  "\<exists>r. command_reserve (AdmitBranchHandoffJob sample_admission) reservation_new =
     (Inr r :: unit DurableJobMutationError + _)"
proof -
  obtain ps where ps: "run_command (memory_reader empty_contents) (AdmitBranchHandoffJob sample_admission) = Inr ps"
    using sample_admission_runs by blast
  from reservation_covers_batch [OF ps] show ?thesis by (auto simp: memory_reader_def)
qed

section \<open>Status of prepared commands\<close>

text \<open>
  The status of a prepared transition is decided by the stored job: it is the old record
  exactly if the transition has not been applied, the new record exactly if it has been, and a
  collision in every other case.
\<close>

theorem transition_status_decided:
  assumes "snapshot_reliable (rd_snapshot rd) m" and "rd_families rd = job_families"
    and "jobs_rep m T" and "job_inv T" and "job_step (tw_old w) (tw_new w)"
  shows "transition_outcome (domain_reader rd) w = Inr (
    if t_jobs T (job_id (tw_old w)) = Some (tw_old w) then ExactOld
    else if t_jobs T (job_id (tw_old w)) = Some (tw_new w) then ExactNew else Collision)"
  by (rule transition_outcome_total [OF domain_reader_total [OF assms(1-3)] assms(4,5)])

theorem transition_status_decided_witness:
  "transition_outcome (domain_reader (memory_reader empty_contents))
     \<lparr>tw_home_id = arr16_fill 0, tw_old = sample_job\<lparr>state := StartingParent sample_parent\<rparr>,
      tw_new = sample_job\<lparr>state := ParentActive sample_parent sample_cas, revision := nz_of 2\<rparr>\<rparr> = Inr Collision"
  using transition_status_decided [OF _ _ jobs_rep_empty empty_tables_inv, of "memory_reader empty_contents"
      "\<lparr>tw_home_id = arr16_fill 0, tw_old = sample_job\<lparr>state := StartingParent sample_parent\<rparr>,
        tw_new = sample_job\<lparr>state := ParentActive sample_parent sample_cas, revision := nz_of 2\<rparr>\<rparr>"]
    sample_job_steps memory_snapshot_reliable [OF storable_empty]
  by (simp add: empty_tables_def memory_reader_def)

text \<open>
  C34. The status of a prepared admission tells whether it has been applied: the witness that its
  preparation returns is classified as the old state on the store it was prepared on, and as the
  new state on a store that holds the tables after the admission.
\<close>

theorem admission_status_decided:
  assumes "prepare_handoff_job_admission acc a = Inr (r, w)" and "admission_ok a"
    and "acc_reader acc = domain_reader rd" and "snapshot_reliable (rd_snapshot rd) m"
    and "rd_families rd = job_families" and "jobs_rep m T" and "job_inv T"
    and "snapshot_reliable (rd_snapshot rd') m'" and "rd_families rd' = job_families"
    and "jobs_rep m' (admitted (aw_job w) T)"
  shows "admission_classify (domain_reader rd) w = Inr ExactOld \<and>
    admission_classify (domain_reader rd') w = Inr ExactNew"
proof -
  have "reader_sees (acc_reader acc) T"
    using domain_reader_sees [OF snapshot_reliable_of [OF assms(4)] assms(5,6)] by (simp add: assms(3))
  from prepared_admission_witness [OF this assms(2,1)] show ?thesis
    using admission_classify_before [OF domain_reader_total [OF assms(4-6)] assms(7)]
      admission_classify_after [OF domain_reader_total [OF assms(8-10)] assms(7)] by simp
qed

theorem admission_status_decided_witness:
  "\<exists>m. admission_classify (domain_reader (memory_reader empty_contents))
      \<lparr>aw_home_id = arr16_fill 0, aw_job = sample_job, aw_prior = None\<rparr> = Inr ExactOld \<and>
    admission_classify (domain_reader (memory_reader m))
      \<lparr>aw_home_id = arr16_fill 0, aw_job = sample_job, aw_prior = None\<rparr> = Inr ExactNew"
proof -
  obtain m where m: "storable m" "jobs_rep m (admitted sample_job empty_tables)" using sample_store by blast
  let ?rd = "memory_reader empty_contents"
  let ?acc = "\<lparr>acc_home_id = arr16_fill 0, acc_revision_before = Inr (nz_of 1), acc_revision_after = Inr (nz_of 1),
    acc_reader = domain_reader ?rd\<rparr>"
  have sn: "snapshot_reliable (rd_snapshot ?rd) empty_contents"
    using memory_snapshot_reliable [OF storable_empty] by (simp add: memory_reader_def)
  have fam: "rd_families ?rd = job_families" by (simp add: memory_reader_def)
  have "validate_new (domain_reader ?rd) sample_job = (Inr None :: unit DurableJobMutationError + _)"
    using validate_new_total [OF domain_reader_total [OF sn fam jobs_rep_empty] empty_tables_inv
        job_ok_request [OF sample_job_ok]]
    by (simp add: admission_verdict_def empty_tables_def prior_of_def sample_job_sel)
  then have "prepare_handoff_job_admission ?acc sample_admission =
      Inr (nz_of 1, \<lparr>aw_home_id = arr16_fill 0, aw_job = sample_job, aw_prior = None\<rparr>)"
    by (simp add: prepare_handoff_job_admission_def access_confirm_def Let_def flip: sample_job_def)
  from admission_status_decided [OF this sample_admission_ok _ sn fam jobs_rep_empty empty_tables_inv,
      of "memory_reader m" m] m
  show ?thesis by (auto simp: memory_reader_def memory_snapshot_reliable)
qed

section \<open>Reads of the durable-job domain\<close>

text \<open>
  C35. Idempotency. A request is answered with the job it admitted, whatever has become of that
  job since, and with nothing exactly if no stored job carries the request.
\<close>

theorem admitted_request_answered:
  assumes "acc_reader acc = domain_reader rd" and "snapshot_reliable (rd_snapshot rd) m"
    and "rd_families rd = job_families" and "jobs_rep m T" and "job_inv T" and "request_ok req"
    and "acc_revision_before acc = Inr r" and "acc_revision_after acc = Inr r"
  shows "(admitted_request acc req = Inr (Some j) \<longleftrightarrow> (\<exists>k. t_jobs T k = Some j \<and> request j = req)) \<and>
    (admitted_request acc req = Inr None \<longleftrightarrow> (\<forall>k j. t_jobs T k = Some j \<longrightarrow> request j \<noteq> req))"
  using domain_reader_total [OF assms(2-4)] assms(1,5-8) by (intro admitted_request_answers) simp_all

theorem admitted_request_answered_witness:
  "\<exists>m. admitted_request \<lparr>acc_home_id = arr16_fill 0, acc_revision_before = Inr (nz_of 1),
      acc_revision_after = Inr (nz_of 1), acc_reader = domain_reader (memory_reader m)\<rparr> sample_request =
    Inr (Some sample_job)"
proof -
  obtain m where m: "storable m" "jobs_rep m (admitted sample_job empty_tables)" using sample_store by blast
  have "\<exists>k. t_jobs (admitted sample_job empty_tables) k = Some sample_job \<and> request sample_job = sample_request"
    by (intro exI [of _ "arr16_fill 1"]) (simp add: sample_job_sel)
  then show ?thesis
    using admitted_request_answered [OF _ _ _ m(2) sample_tables_inv sample_request_ok, of "\<lparr>acc_home_id = arr16_fill 0,
        acc_revision_before = Inr (nz_of 1), acc_revision_after = Inr (nz_of 1),
        acc_reader = domain_reader (memory_reader m)\<rparr>" "memory_reader m" "nz_of 1" sample_job]
      memory_snapshot_reliable [OF m(1)]
    by (auto simp: memory_reader_def)
qed

text \<open>
  The store that the sample admission leaves, as the engine in memory serves it.
\<close>

lemma table_rep_contents:
  assumes a: "table_rep c kenc venc kok vok m ks T" and b: "table_rep c kenc venc kok vok m' ks T"
  shows "m ks = m' ks"
proof
  fix bs
  show "m ks bs = m' ks bs"
  proof (cases "\<exists>k. kok k \<and> bs = kenc k")
    case True
    then show ?thesis using a b by (auto simp: table_rep_def)
  next
    case False
    have "m ks bs = None" using a False unfolding table_rep_def by (metis option.exhaust)
    moreover have "m' ks bs = None" using b False unfolding table_rep_def by (metis option.exhaust)
    ultimately show ?thesis by simp
  qed
qed

lemma sample_run_storable:
  "\<exists>m. store_step TYPE(unit) empty_contents m \<and> storable m \<and> jobs_rep m (admitted sample_job empty_tables)"
proof -
  obtain ps where run: "run_command (memory_reader empty_contents) (AdmitBranchHandoffJob sample_admission) = Inr ps"
    and rep: "jobs_rep (apply_pending job_families empty_contents ps) (admitted sample_job empty_tables)"
    using sample_admission_runs by blast
  obtain m5 where m5: "storable m5" "jobs_rep m5 (admitted sample_job empty_tables)" using sample_store by blast
  have slots: "list_all (\<lambda>p. pm_family_slot p < length job_families) ps"
    using run_command_slots [OF run] by (simp add: memory_reader_def)
  have same: "apply_pending job_families empty_contents ps ks = m5 ks" if "ks \<in> {ks_jobs, ks_live, ks_requests, ks_attempts, ks_latest}" for ks
    using that table_rep_contents [OF jobs_repD(1) [OF rep] jobs_repD(1) [OF m5(2)]] table_rep_contents [OF jobs_repD(2) [OF rep] jobs_repD(2) [OF m5(2)]]
      table_rep_contents [OF jobs_repD(3) [OF rep] jobs_repD(3) [OF m5(2)]] table_rep_contents [OF jobs_repD(4) [OF rep] jobs_repD(4) [OF m5(2)]]
      table_rep_contents [OF jobs_repD(5) [OF rep] jobs_repD(5) [OF m5(2)]] by auto
  have "fam_keyspace ` set job_families = {ks_jobs, ks_live, ks_requests, ks_attempts, ks_latest}" by (auto simp: job_families_eq)
  with same apply_pending_other [OF slots, of _ empty_contents]
  have "apply_pending job_families empty_contents ps ks = m5 ks \<or> apply_pending job_families empty_contents ps ks = empty_contents ks" for ks
    by metis
  with m5(1) storable_empty have "storable (apply_pending job_families empty_contents ps)" unfolding storable_def by metis
  with rep sample_commit [OF run] show ?thesis by blast
qed

text \<open>
  C36. Reuse of a thread while commands commit. The three reads of the guard are of three stores,
  with any number of committed commands between them. The answer is the one of a single moment
  between the first two reads: the guard is refused exactly if the discussion has a live job at that
  moment, the reads never report a broken index, and a guard that was granted validates on a later
  store exactly if the latest attempt of the discussion and its job are as they were at that moment.
\<close>

theorem reuse_guard_decided:
  assumes "snapshot_reliable (rd_snapshot rd1) m1" and "rd_families rd1 = job_families" and "jobs_rep m1 T1" and "job_inv T1"
    and "(store_step io)\<^sup>*\<^sup>* m1 m2"
    and "snapshot_reliable (rd_snapshot rd2) m2" and "rd_families rd2 = job_families"
    and "(store_step io)\<^sup>*\<^sup>* m2 m3"
    and "snapshot_reliable (rd_snapshot rd3) m3" and "rd_families rd3 = job_families"
    and "snapshot_reliable (rd_snapshot rd') m'" and "rd_families rd' = job_families" and "jobs_rep m' T'" and "job_inv T'"
  shows "\<exists>m T. (store_step io)\<^sup>*\<^sup>* m1 m \<and> (store_step io)\<^sup>*\<^sup>* m m2 \<and> jobs_rep m T \<and> job_inv T \<and>
    (case thread_reuse_guard (domain_reader rd1) (domain_reader rd2) (domain_reader rd3) thread of
      Inl _ \<Rightarrow> False
    | Inr None \<Rightarrow> thread_live T thread
    | Inr (Some g) \<Rightarrow> \<not> thread_live T thread \<and>
        (guard_validate (domain_reader rd') g = Inr () \<longleftrightarrow> t_latest T' thread = t_latest T thread \<and>
          (\<forall>l. t_latest T thread = Some l \<longrightarrow> t_jobs T' (la_job_id l) = t_jobs T (la_job_id l))))"
proof -
  obtain T2 where T2: "tables_step\<^sup>*\<^sup>* T1 T2" "jobs_rep m2 T2" using store_run_refines [OF assms(5,3,4)] by blast
  obtain T3 where T3: "jobs_rep m3 T3" using store_run_refines [OF assms(8) T2(2) tables_run_inv [OF T2(1) assms(4)]] by blast
  note readers = domain_reader_total [OF assms(1-3)] domain_reader_total [OF assms(6,7) T2(2)] domain_reader_total [OF assms(9,10) T3]
  obtain m T where m: "(store_step io)\<^sup>*\<^sup>* m1 m" "(store_step io)\<^sup>*\<^sup>* m m2" "jobs_rep m T" "job_inv T"
    and guard: "thread_reuse_guard (domain_reader rd1) (domain_reader rd2) (domain_reader rd3) thread = Inr (
      if thread_live T thread then None
      else Some \<lparr>guard_thread_id = thread, guard_latest = t_latest T thread,
        guard_job = Option.bind (t_latest T thread) (\<lambda>l. t_jobs T (la_job_id l))\<rparr>)"
    using thread_reuse_guard_moment [OF readers assms(3,4) T2(2) T3 assms(5,8)] by blast
  show ?thesis
    using m guard_validate_current [OF domain_reader_total [OF assms(11-13)] assms(14) refl m(4), of thread]
    by (intro exI [of _ m] exI [of _ T]) (simp add: guard)
qed

theorem reuse_guard_decided_witness:
  "\<exists>m g. store_step TYPE(unit) empty_contents m \<and>
     thread_reuse_guard (domain_reader (memory_reader empty_contents)) (domain_reader (memory_reader m))
       (domain_reader (memory_reader m)) (arr16_fill 2) = Inr (Some g) \<and>
     guard_validate (domain_reader (memory_reader m)) g \<noteq> Inr ()"
proof -
  let ?T = "admitted sample_job empty_tables" and ?r = "\<lambda>m. domain_reader (memory_reader m)"
  obtain m where m: "store_step TYPE(unit) empty_contents m" "storable m" "jobs_rep m ?T" using sample_run_storable by blast
  have fam: "rd_families (memory_reader m) = job_families" for m by (simp add: memory_reader_def)
  have sn: "snapshot_reliable (rd_snapshot (memory_reader m)) m" if "storable m" for m
    using memory_snapshot_reliable [OF that] by (simp add: memory_reader_def)
  have "reader_total (?r empty_contents) empty_tables" by (rule domain_reader_total [OF sn [OF storable_empty] fam jobs_rep_empty])
  then have guard: "thread_reuse_guard (?r empty_contents) (?r m) (?r m) (arr16_fill 2) =
      Inr (Some \<lparr>guard_thread_id = arr16_fill 2, guard_latest = None, guard_job = None\<rparr>)"
    by (simp add: thread_reuse_guard_def guard_reads empty_tables_def)
  have live: "\<exists>l j. t_latest ?T (arr16_fill 2) = Some l \<and> t_jobs ?T (la_job_id l) = Some j \<and> is_live (lifecycle j)"
    by (simp add: admitted_def sample_job_sel latest_from_job_def lifecycle_def is_live_def)
  have run: "(store_step TYPE(unit))\<^sup>*\<^sup>* empty_contents m" using m(1) by blast
  from reuse_guard_decided [OF sn [OF storable_empty] fam jobs_rep_empty empty_tables_inv run sn [OF m(2)] fam rtranclp.rtrancl_refl
      sn [OF m(2)] fam sn [OF m(2)] fam m(3) sample_tables_inv, of "arr16_fill 2"]
  obtain T where T: "job_inv T" "\<not> thread_live T (arr16_fill 2)"
    "guard_validate (?r m) \<lparr>guard_thread_id = arr16_fill 2, guard_latest = None, guard_job = None\<rparr> = Inr () \<longrightarrow>
      t_latest ?T (arr16_fill 2) = t_latest T (arr16_fill 2) \<and>
      (\<forall>l. t_latest T (arr16_fill 2) = Some l \<longrightarrow> t_jobs ?T (la_job_id l) = t_jobs T (la_job_id l))"
    by (auto simp: guard)
  have "guard_validate (?r m) \<lparr>guard_thread_id = arr16_fill 2, guard_latest = None, guard_job = None\<rparr> \<noteq> Inr ()"
    using T(2,3) live thread_live_latest [OF T(1), of "arr16_fill 2"] by metis
  with m(1) guard show ?thesis by blast
qed

text \<open>
  Listing of live jobs. A page holds the next live jobs after the given identity, in the order
  of their identities and without gaps, and reports more exactly if live jobs are left.
\<close>

theorem live_page_is_next_run:
  fixes rd :: "'io DomainReader"
  assumes "snapshot_of (rd_snapshot rd) m" and "rd_families rd = job_families" and "jobs_rep m T"
    and "job_inv T" and "0 < max_items limits" and "list_live rd after limits = Inr page"
  shows "\<exists>xs zs. entries_in arr16_bytes (t_live T)
      (\<lambda>b. case after of None \<Rightarrow> True | Some k \<Rightarrow> arr16_bytes k < b) (xs @ zs) \<and>
    page_records page = map snd xs \<and> (page_has_more page \<longleftrightarrow> zs \<noteq> []) \<and> (zs \<noteq> [] \<longrightarrow> xs \<noteq> [])"
  using assms by (rule list_live_sees)

theorem live_page_is_next_run_witness:
  "\<exists>page xs zs. list_live (memory_reader empty_contents) None \<lparr>max_items = 8, max_bytes = 1000000\<rparr> = Inr page \<and>
     entries_in arr16_bytes (t_live empty_tables) (\<lambda>_. True) (xs @ zs) \<and> page_records page = map snd xs"
proof -
  have sn: "snapshot_reliable (rd_snapshot (memory_reader empty_contents)) empty_contents"
    and fam: "rd_families (memory_reader empty_contents) = job_families"
    using memory_snapshot_reliable [OF storable_empty] by (simp_all add: memory_reader_def)
  obtain page where page: "list_live (memory_reader empty_contents) None \<lparr>max_items = 8, max_bytes = 1000000\<rparr> = Inr page"
    using sample_list_live by blast
  show ?thesis
    using live_page_is_next_run [OF snapshot_reliable_of [OF sn] fam jobs_rep_empty empty_tables_inv _ page] page by auto
qed

end
